(* ===== verification/Prelude.thy ===== *)
theory Prelude
  imports Main "HOL-Library.Word" "HOL-Library.While_Combinator"
begin

unbundle bit_operations_syntax

text \<open>
  The prelude of the superethd development: the machine integers, the ways in which an
  operation of the C++ program can fail to return normally, the sequencing of operations that
  may fail, loops that may not end, and the facts about byte lists (reading a range, writing a
  range in place) that every component uses.
\<close>

section \<open>Machine integers and failures\<close>

type_synonym u8 = "8 word"
type_synonym u16 = "16 word"
type_synonym u32 = "32 word"
type_synonym u64 = "64 word"

text \<open>
  How an operation of the program can end other than by returning: the exceptions of the
  standard library and of \<open>exceptions.hpp\<close>, the undefined behaviour the code can run into (an
  access outside a vector, a null pointer, the front of an empty deque), a thread that sleeps on
  a condition variable, and a loop that never ends.
\<close>

datatype cpp_error =
    Out_of_range
  | Invalid_argument
  | Bad_alloc
  | Runtime_error string
  | Config_error string
  | System_error
  | Process_exit int
  | Out_of_bounds
  | Null_pointer
  | Empty_front
  | Would_block
  | Diverges

type_synonym 'a result = "cpp_error + 'a"

definition rbind :: "'e + 'a \<Rightarrow> ('a \<Rightarrow> 'e + 'b) \<Rightarrow> 'e + 'b" where
  "rbind r f = (case r of Inl e \<Rightarrow> Inl e | Inr x \<Rightarrow> f x)"

lemma rbind_simps [simp]:
  "rbind (Inl e) f = Inl e"
  "rbind (Inr x) f = f x"
  by (simp_all add: rbind_def)

lemma rbind_Inr_conv: "rbind r f = Inr y \<longleftrightarrow> (\<exists>x. r = Inr x \<and> f x = Inr y)"
  by (cases r) auto

lemma rbind_Inl_conv: "rbind r f = Inl e \<longleftrightarrow> r = Inl e \<or> (\<exists>x. r = Inr x \<and> f x = Inl e)"
  by (cases r) auto

lemma rbind_InrE [elim]:
  assumes "rbind r f = Inr y"
  obtains x where "r = Inr x" and "f x = Inr y"
  using assms by (auto simp: rbind_Inr_conv)

lemma rbind_assoc: "rbind (rbind r f) g = rbind r (\<lambda>x. rbind (f x) g)"
  by (cases r) auto

lemma rbind_cong [fundef_cong]:
  "r = s \<Longrightarrow> (\<And>x. s = Inr x \<Longrightarrow> f x = g x) \<Longrightarrow> rbind r f = rbind s g"
  by (cases s) auto

text \<open>A loop over a list whose body may fail: it stops at the first failure.\<close>

fun rfold :: "('x \<Rightarrow> 's \<Rightarrow> 'e + 's) \<Rightarrow> 'x list \<Rightarrow> 's \<Rightarrow> 'e + 's" where
  "rfold f [] s = Inr s"
| "rfold f (x # xs) s = rbind (f x s) (rfold f xs)"

lemma rfold_append: "rfold f (xs @ ys) s = rbind (rfold f xs s) (rfold f ys)"
proof (induction xs arbitrary: s)
  case (Cons x xs)
  show ?case by (cases "f x s") (simp_all add: Cons.IH)
qed simp

lemma rfold_invariant:
  assumes "\<And>x s t. x \<in> set xs \<Longrightarrow> I s \<Longrightarrow> f x s = Inr t \<Longrightarrow> I t"
    and "I s" and "rfold f xs s = Inr t"
  shows "I t"
  using assms
proof (induction xs arbitrary: s)
  case (Cons x xs)
  from Cons.prems(3) obtain u where u: "f x s = Inr u" "rfold f xs u = Inr t"
    by (auto simp: rbind_Inr_conv)
  have "I u" using Cons.prems(1) [of x s u] Cons.prems(2) u(1) by simp
  show ?case by (rule Cons.IH [OF _ \<open>I u\<close> u(2)]) (use Cons.prems(1) in auto)
qed simp

text \<open>
  \<open>safe E P r\<close>: the operation fails with one of the failures in \<open>E\<close> or returns a value that
  satisfies \<open>P\<close>. The rules follow the structure of the operation.
\<close>

named_theorems safe_intro

definition safe :: "cpp_error set \<Rightarrow> ('a \<Rightarrow> bool) \<Rightarrow> 'a result \<Rightarrow> bool" where
  "safe E P r \<longleftrightarrow> (case r of Inl e \<Rightarrow> e \<in> E | Inr x \<Rightarrow> P x)"

lemma safe_Inr [simp]: "safe E P (Inr x) \<longleftrightarrow> P x"
  by (simp add: safe_def)

lemma safe_Inl [simp]: "safe E P (Inl e) \<longleftrightarrow> e \<in> E"
  by (simp add: safe_def)

lemma safe_rbind [safe_intro]:
  "safe E Q r \<Longrightarrow> (\<And>x. Q x \<Longrightarrow> safe E P (f x)) \<Longrightarrow> safe E P (rbind r f)"
  by (cases r) simp_all

lemma safe_if [safe_intro]:
  "(b \<Longrightarrow> safe E P r) \<Longrightarrow> (\<not> b \<Longrightarrow> safe E P s) \<Longrightarrow> safe E P (if b then r else s)"
  by simp

lemma safe_mono: "safe E P r \<Longrightarrow> E \<subseteq> E' \<Longrightarrow> (\<And>x. P x \<Longrightarrow> Q x) \<Longrightarrow> safe E' Q r"
  by (cases r) auto

lemma safeD: "safe E P r \<Longrightarrow> r = Inr x \<Longrightarrow> P x"
  by simp

lemma safe_rfold:
  assumes "\<And>x s. x \<in> set xs \<Longrightarrow> I s \<Longrightarrow> safe E I (f x s)" and "I s"
  shows "safe E I (rfold f xs s)"
  using assms
proof (induction xs arbitrary: s)
  case (Cons x xs)
  show ?case unfolding rfold.simps
    by (rule safe_rbind [where Q = I]) (use Cons in auto)
qed simp

section \<open>Loops that may not end\<close>

text \<open>
  \<open>rwhile b c s\<close> is \<open>while (b) c;\<close> from the state \<open>s\<close>, where the body may fail. A loop that
  never ends is the failure \<^const>\<open>Diverges\<close>.
\<close>

definition rwhile :: "('s \<Rightarrow> bool) \<Rightarrow> ('s \<Rightarrow> 's result) \<Rightarrow> 's \<Rightarrow> 's result" where
  "rwhile b c s =
     (case while_option (\<lambda>r. case r of Inl _ \<Rightarrow> False | Inr s \<Rightarrow> b s) (\<lambda>r. rbind r c) (Inr s) of
        None \<Rightarrow> Inl Diverges
      | Some r \<Rightarrow> r)"

lemma rwhile_unfold: "rwhile b c s = (if b s then rbind (c s) (rwhile b c) else Inr s)"
proof (cases "b s")
  case True
  then show ?thesis
    unfolding rwhile_def by (subst while_option_unfold, cases "c s") (simp_all add: while_option_unfold)
next
  case False
  then show ?thesis
    unfolding rwhile_def by (subst while_option_unfold) simp
qed

lemma rwhile_stop [simp]: "\<not> b s \<Longrightarrow> rwhile b c s = Inr s"
  by (subst rwhile_unfold) simp

lemma rwhile_step: "b s \<Longrightarrow> rwhile b c s = rbind (c s) (rwhile b c)"
  by (subst rwhile_unfold) simp

text \<open>
  Total correctness: an invariant and a measure that the body decreases. The body may leave the
  loop by one of the failures in \<open>E\<close>.
\<close>

lemma rwhile_rule:
  fixes m :: "'s \<Rightarrow> nat"
  assumes step: "\<And>s. I s \<Longrightarrow> b s \<Longrightarrow>
      (case c s of Inl e \<Rightarrow> e \<in> E | Inr t \<Rightarrow> I t \<and> m t < m s)"
    and "I s"
  shows "case rwhile b c s of Inl e \<Rightarrow> e \<in> E | Inr t \<Rightarrow> I t \<and> \<not> b t"
  using \<open>I s\<close>
proof (induction "m s" arbitrary: s rule: less_induct)
  case less
  show ?case
  proof (cases "b s")
    case True
    note body = step [OF less.prems True]
    show ?thesis
    proof (cases "c s")
      case (Inl e)
      with body True show ?thesis by (simp add: rwhile_step)
    next
      case (Inr t)
      with body have "I t" and "m t < m s" by simp_all
      then show ?thesis using less.hyps [of t] Inr True by (simp add: rwhile_step)
    qed
  next
    case False
    with less.prems show ?thesis by simp
  qed
qed

text \<open>An invariant alone, without a measure: the loop may also not end.\<close>

lemma rwhile_safe:
  fixes c :: "'s \<Rightarrow> 's result"
  assumes step: "\<And>s. I s \<Longrightarrow> b s \<Longrightarrow> safe E I (c s)" and "I s"
  shows "safe (insert Diverges E) (\<lambda>t. I t \<and> \<not> b t) (rwhile b c s)"
proof -
  let ?b = "\<lambda>r. case r of Inl _ \<Rightarrow> False | Inr s \<Rightarrow> b s"
  show ?thesis
  proof (cases "while_option ?b (\<lambda>r. rbind r c) (Inr s)")
    case None
    then show ?thesis by (simp add: rwhile_def)
  next
    case (Some r)
    have "safe E I r"
    proof (rule while_option_rule [where P = "safe E I", OF _ Some])
      fix r :: "'s result"
      assume "safe E I r" and "?b r"
      then show "safe E I (rbind r c)" using step by (cases r) simp_all
    qed (simp add: \<open>I s\<close>)
    with while_option_stop [OF Some] Some show ?thesis
      by (cases r) (simp_all add: rwhile_def)
  qed
qed

text \<open>Partial correctness: an invariant alone holds of whatever the loop returns.\<close>

lemma rwhile_invariant:
  fixes c :: "'s \<Rightarrow> 's result"
  assumes step: "\<And>s t. I s \<Longrightarrow> b s \<Longrightarrow> c s = Inr t \<Longrightarrow> I t"
    and "I s" and "rwhile b c s = Inr t"
  shows "I t \<and> \<not> b t"
proof -
  let ?b = "\<lambda>r. case r of Inl _ \<Rightarrow> False | Inr s \<Rightarrow> b s"
  from assms(3) have w: "while_option ?b (\<lambda>r. rbind r c) (Inr s) = Some (Inr t)"
    by (auto simp: rwhile_def split: option.splits)
  have "case Inr t :: 's result of Inl _ \<Rightarrow> True | Inr s \<Rightarrow> I s"
  proof (rule while_option_rule [where P = "\<lambda>r. case r of Inl _ \<Rightarrow> True | Inr s \<Rightarrow> I s", OF _ w])
    fix r :: "'s result"
    assume "case r of Inl _ \<Rightarrow> True | Inr s \<Rightarrow> I s" and "?b r"
    then show "case rbind r c of Inl _ \<Rightarrow> True | Inr s \<Rightarrow> I s"
      using step by (auto split: sum.splits simp: rbind_def)
  qed (simp add: \<open>I s\<close>)
  then show ?thesis using while_option_stop [OF w] by simp
qed

text \<open>The loop never ends when its guard is an invariant that the body re-establishes.\<close>

lemma rwhile_diverges:
  fixes c :: "'s \<Rightarrow> 's result"
  assumes step: "\<And>s. I s \<Longrightarrow> b s \<and> (\<exists>t. c s = Inr t \<and> I t)"
    and "I s"
  shows "rwhile b c s = Inl Diverges"
proof -
  let ?b = "\<lambda>r. case r of Inl _ \<Rightarrow> False | Inr s \<Rightarrow> b s"
  have "while_option ?b (\<lambda>r. rbind r c) (Inr s) = None"
  proof (rule ccontr)
    assume "while_option ?b (\<lambda>r. rbind r c) (Inr s) \<noteq> None"
    then obtain r where w: "while_option ?b (\<lambda>r. rbind r c) (Inr s) = Some r" by blast
    have "\<exists>t. r = Inr t \<and> I t"
    proof (rule while_option_rule [where P = "\<lambda>r. \<exists>t. r = Inr t \<and> I t", OF _ w])
      fix r :: "'s result" assume "\<exists>t. r = Inr t \<and> I t" and "?b r"
      then show "\<exists>t. rbind r c = Inr t \<and> I t" using step by auto
    qed (simp add: \<open>I s\<close>)
    with while_option_stop [OF w] step show False by auto
  qed
  then show ?thesis by (simp add: rwhile_def)
qed

section \<open>Ranges of a byte list\<close>

text \<open>\<open>slice p n xs\<close> reads \<open>n\<close> elements from position \<open>p\<close>; \<open>overwrite p ys xs\<close> writes \<open>ys\<close> in
  place from position \<open>p\<close>. Both are used where the range lies inside the list.\<close>

definition slice :: "nat \<Rightarrow> nat \<Rightarrow> 'a list \<Rightarrow> 'a list" where
  "slice p n xs = take n (drop p xs)"

definition overwrite :: "nat \<Rightarrow> 'a list \<Rightarrow> 'a list \<Rightarrow> 'a list" where
  "overwrite p ys xs = take p xs @ ys @ drop (p + length ys) xs"

lemma length_slice [simp]: "p + n \<le> length xs \<Longrightarrow> length (slice p n xs) = n"
  by (simp add: slice_def)

lemma length_overwrite [simp]:
  "p + length ys \<le> length xs \<Longrightarrow> length (overwrite p ys xs) = length xs"
  by (simp add: overwrite_def)

lemma slice_zero [simp]: "slice p 0 xs = []"
  by (simp add: slice_def)

lemma slice_append_right: "length xs \<le> p \<Longrightarrow> slice p n (xs @ ys) = slice (p - length xs) n ys"
  by (simp add: slice_def)

lemma slice_append_exact: "length xs = p \<Longrightarrow> length ys = n \<Longrightarrow> slice p n (xs @ ys @ zs) = ys"
  by (simp add: slice_def)

lemma slice_take: "p + n \<le> m \<Longrightarrow> slice p n (take m xs) = slice p n xs"
  by (simp add: slice_def drop_take min_def)

lemma empty_range: "p + length ys \<le> length xs \<Longrightarrow> length xs \<le> p \<Longrightarrow> ys = []"
  by (cases ys) simp_all

lemma take_overwrite: "p + length ys \<le> length xs \<Longrightarrow>
    take (p + length ys) (overwrite p ys xs) = take p xs @ ys"
  by (auto simp: overwrite_def min_def dest: empty_range)

lemma take_overwrite_before: "n \<le> p \<Longrightarrow> p \<le> length xs \<Longrightarrow> take n (overwrite p ys xs) = take n xs"
  by (simp add: overwrite_def min_def)

lemma overwrite_Nil [simp]: "overwrite p [] xs = xs"
  by (simp add: overwrite_def)

lemma slice_overwrite: "p + length ys \<le> length xs \<Longrightarrow> slice p (length ys) (overwrite p ys xs) = ys"
  by (simp add: overwrite_def slice_def)

lemma overwrite_overwrite_adjacent:
  "p + length ys + length zs \<le> length xs \<Longrightarrow>
    overwrite (p + length ys) zs (overwrite p ys xs) = overwrite p (ys @ zs) xs"
  by (cases ys) (auto simp: overwrite_def min_def ac_simps)

lemma overwrite_same_length:
  "length ys = length zs \<Longrightarrow> p + length ys \<le> length xs \<Longrightarrow>
    overwrite p zs (overwrite p ys xs) = overwrite p zs xs"
  by (cases ys; cases zs) (auto simp: overwrite_def min_def)

section \<open>Numbers in messages\<close>

fun nat_to_string :: "nat \<Rightarrow> string" where
  "nat_to_string n =
     (if n < 10 then [char_of (48 + n)] else nat_to_string (n div 10) @ [char_of (48 + n mod 10)])"

declare nat_to_string.simps [simp del]

definition to_string :: "int \<Rightarrow> string" where
  "to_string i = (if i < 0 then CHR ''-'' # nat_to_string (nat (- i)) else nat_to_string (nat i))"

section \<open>Words read as numbers\<close>

lemma unat_of_nat_small: "n < 2 ^ LENGTH('a) \<Longrightarrow> unat (of_nat n :: 'a::len word) = n"
  by (simp add: unsigned_of_nat take_bit_nat_eq_self)

lemma unat_of_nat_u16 [simp]: "n < 65536 \<Longrightarrow> unat (of_nat n :: u16) = n"
  by (rule unat_of_nat_small) simp

lemma unat_of_nat_u32 [simp]: "n < 4294967296 \<Longrightarrow> unat (of_nat n :: u32) = n"
  by (rule unat_of_nat_small) simp

lemma unat_of_nat_u8 [simp]: "n < 256 \<Longrightarrow> unat (of_nat n :: u8) = n"
  by (rule unat_of_nat_small) simp

lemma unat_u16_bound [simp]: "unat (x :: u16) < 65536"
  using unsigned_less [of x, where 'a = nat] by simp

lemma unat_u8_bound [simp]: "unat (x :: u8) < 256"
  using unsigned_less [of x, where 'a = nat] by simp

lemma unat_u32_bound [simp]: "unat (x :: u32) < 4294967296"
  using unsigned_less [of x, where 'a = nat] by simp

text \<open>Whole quotients.\<close>

lemma int_div_le_iff:
  fixes x d n :: int
  assumes "0 < d"
  shows "x div d \<le> n \<longleftrightarrow> x < (n + 1) * d"
proof -
  have m: "x = d * (x div d) + x mod d" "0 \<le> x mod d" "x mod d < d" using assms by simp_all
  have n: "(n + 1) * d = d * n + d" by (simp add: algebra_simps)
  show ?thesis
  proof
    assume "x div d \<le> n"
    then have "d * (x div d) \<le> d * n" using assms by (intro mult_left_mono) simp_all
    with m n show "x < (n + 1) * d" by linarith
  next
    assume x: "x < (n + 1) * d"
    show "x div d \<le> n"
    proof (rule ccontr)
      assume "\<not> x div d \<le> n"
      then have "d * n + d \<le> d * (x div d)" using assms mult_left_mono [of "n + 1" "x div d" d] by (simp add: distrib_left)
      with m n x show False by linarith
    qed
  qed
qed

end
