(* ===== verification/Endian.thy ===== *)
theory Endian
  imports Prelude
begin

unbundle bit_operations_syntax

text \<open>
  Byte order (\<open>src/libaccl/endian.hpp\<close>) and the bytes of an integer in memory. The model is of
  the little-endian build (\<open>ACCL_BYTE_ORDER == ACCL_LITTLE_ENDIAN\<close>, every x86 and ARM Linux), in
  which the \<open>le\<close> conversions are the identity and the \<open>be\<close> conversions swap the bytes. A packed
  struct in memory is a list of bytes; the locale \<open>wire_format\<close> is what the rest of the code
  relies on when it overlays such a struct on a buffer.
\<close>

section \<open>Integers in memory\<close>

definition store16 :: "u16 \<Rightarrow> u8 list" where
  "store16 x = [ucast x, ucast (drop_bit 8 x)]"

definition load16 :: "u8 list \<Rightarrow> u16" where
  "load16 bs = ucast (bs ! 0) OR push_bit 8 (ucast (bs ! 1))"

definition store32 :: "u32 \<Rightarrow> u8 list" where
  "store32 x = [ucast x, ucast (drop_bit 8 x), ucast (drop_bit 16 x), ucast (drop_bit 24 x)]"

definition load32 :: "u8 list \<Rightarrow> u32" where
  "load32 bs = ucast (bs ! 0) OR push_bit 8 (ucast (bs ! 1))
     OR push_bit 16 (ucast (bs ! 2)) OR push_bit 24 (ucast (bs ! 3))"

definition store64 :: "u64 \<Rightarrow> u8 list" where
  "store64 x = store32 (ucast x) @ store32 (ucast (drop_bit 32 x))"

definition load64 :: "u8 list \<Rightarrow> u64" where
  "load64 bs = ucast (load32 (take 4 bs)) OR push_bit 32 (ucast (load32 (drop 4 bs)))"

lemma bit_word_less: "bit (x :: 'a::len word) n \<Longrightarrow> n < LENGTH('a)"
  by (rule ccontr) (simp add: not_less bit_imp_le_length)

lemma length_store [simp]:
  "length (store16 x) = 2" "length (store32 y) = 4" "length (store64 z) = 8"
  by (simp_all add: store16_def store32_def store64_def)

lemma list_of_length_2: "length bs = 2 \<Longrightarrow> bs = [bs ! 0, bs ! 1]"
  by (cases bs; cases "tl bs") auto

lemma list_of_length_4: "length bs = 4 \<Longrightarrow> bs = [bs ! 0, bs ! 1, bs ! 2, bs ! 3]"
  by (auto simp: numeral_eq_Suc length_Suc_conv)

lemma word_split_mask: "(t :: 'a::len word) = (t AND m) OR (t AND NOT m)"
  by (rule bit_word_eqI) (auto simp: bit_simps)

lemma bit_u8_beyond: "8 \<le> n \<Longrightarrow> \<not> bit (x :: u8) n"
  by (auto dest: bit_word_less)

lemma load16_store16 [simp]: "load16 (store16 x) = x"
  by (rule bit_word_eqI) (auto simp: load16_def store16_def bit_simps dest: bit_word_less)

lemma store16_load16: "length bs = 2 \<Longrightarrow> store16 (load16 bs) = bs"
  by (drule list_of_length_2, erule ssubst)
    (auto simp: load16_def store16_def bit_simps bit_u8_beyond intro!: bit_word_eqI)

lemma load32_store32 [simp]: "load32 (store32 x) = x"
proof (rule bit_word_eqI)
  fix n assume "n < LENGTH(32)"
  then have n: "n < 32" by simp
  consider "n < 8" | "8 \<le> n" "n < 16" | "16 \<le> n" "n < 24" | "24 \<le> n" by linarith
  then show "bit (load32 (store32 x)) n \<longleftrightarrow> bit x n"
    by cases (use n in \<open>auto simp: load32_def store32_def bit_simps dest: bit_word_less\<close>)
qed

lemma store32_load32: "length bs = 4 \<Longrightarrow> store32 (load32 bs) = bs"
  by (drule list_of_length_4, erule ssubst)
    (auto simp: load32_def store32_def bit_simps bit_u8_beyond intro!: bit_word_eqI)

lemma load64_store64 [simp]: "load64 (store64 x) = x"
  by (rule bit_word_eqI) (auto simp: load64_def store64_def bit_simps dest: bit_word_less)

lemma store64_load64: "length bs = 8 \<Longrightarrow> store64 (load64 bs) = bs"
proof -
  assume n: "length bs = 8"
  have lo: "ucast (load64 bs) = load32 (take 4 bs)"
    by (rule bit_word_eqI) (auto simp: load64_def bit_simps)
  have hi: "ucast (drop_bit 32 (load64 bs)) = load32 (drop 4 bs)"
    by (rule bit_word_eqI) (auto simp: load64_def bit_simps dest: bit_word_less)
  show ?thesis using n by (simp add: store64_def lo hi store32_load32)
qed

section \<open>Byte swapping\<close>

text \<open>The compiler's byte swaps reverse the bytes of the integer.\<close>

definition bswap16 :: "u16 \<Rightarrow> u16" where "bswap16 x = load16 (rev (store16 x))"
definition bswap32 :: "u32 \<Rightarrow> u32" where "bswap32 x = load32 (rev (store32 x))"
definition bswap64 :: "u64 \<Rightarrow> u64" where "bswap64 x = load64 (rev (store64 x))"

definition cpu_to_le_16 :: "u16 \<Rightarrow> u16" where "cpu_to_le_16 x = x"
definition cpu_to_le_32 :: "u32 \<Rightarrow> u32" where "cpu_to_le_32 x = x"
definition cpu_to_le_64 :: "u64 \<Rightarrow> u64" where "cpu_to_le_64 x = x"
definition le_to_cpu_16 :: "u16 \<Rightarrow> u16" where "le_to_cpu_16 x = x"
definition le_to_cpu_32 :: "u32 \<Rightarrow> u32" where "le_to_cpu_32 x = x"
definition le_to_cpu_64 :: "u64 \<Rightarrow> u64" where "le_to_cpu_64 x = x"
definition cpu_to_be_16 :: "u16 \<Rightarrow> u16" where "cpu_to_be_16 x = bswap16 x"
definition cpu_to_be_32 :: "u32 \<Rightarrow> u32" where "cpu_to_be_32 x = bswap32 x"
definition cpu_to_be_64 :: "u64 \<Rightarrow> u64" where "cpu_to_be_64 x = bswap64 x"
definition be_to_cpu_16 :: "u16 \<Rightarrow> u16" where "be_to_cpu_16 x = bswap16 x"
definition be_to_cpu_32 :: "u32 \<Rightarrow> u32" where "be_to_cpu_32 x = bswap32 x"
definition be_to_cpu_64 :: "u64 \<Rightarrow> u64" where "be_to_cpu_64 x = bswap64 x"

lemma store_bswap:
  "store16 (bswap16 x) = rev (store16 x)"
  "store32 (bswap32 y) = rev (store32 y)"
  "store64 (bswap64 z) = rev (store64 z)"
  by (simp_all add: bswap16_def bswap32_def bswap64_def store16_load16 store32_load32 store64_load64)

lemma bswap_involution [simp]:
  "bswap16 (bswap16 x) = x" "bswap32 (bswap32 y) = y" "bswap64 (bswap64 z) = z"
  by (simp_all add: bswap16_def [of "bswap16 x"] bswap32_def [of "bswap32 y"]
      bswap64_def [of "bswap64 z"] store_bswap)

lemma be_cpu [simp]:
  "be_to_cpu_16 (cpu_to_be_16 x) = x" "be_to_cpu_32 (cpu_to_be_32 y) = y"
  by (simp_all add: be_to_cpu_16_def cpu_to_be_16_def be_to_cpu_32_def cpu_to_be_32_def)

text \<open>A host integer converted to big endian lies in memory with its high byte first.\<close>

lemma store_be:
  "store16 (cpu_to_be_16 x) = [ucast (drop_bit 8 x), ucast x]"
  "store32 (cpu_to_be_32 y) = [ucast (drop_bit 24 y), ucast (drop_bit 16 y), ucast (drop_bit 8 y), ucast y]"
  by (simp_all add: cpu_to_be_16_def cpu_to_be_32_def store_bswap) (simp_all add: store16_def store32_def)

section \<open>The interface of a fixed-size struct in a buffer\<close>

text \<open>
  A struct of \<open>width\<close> bytes that is written with \<open>put\<close> and read back with \<open>get\<close>. The codec relies
  on nothing more: every block of \<open>width\<close> bytes is one struct, and what is written at an offset is
  what is read there, whatever the buffer held before.
\<close>

locale wire_format =
  fixes put :: "'a \<Rightarrow> u8 list"
    and get :: "u8 list \<Rightarrow> 'a"
    and width :: nat
  assumes length_put: "length (put x) = width"
    and get_put: "get (put x) = x"
    and put_get: "length bs = width \<Longrightarrow> put (get bs) = bs"
begin

lemma get_inject: "length bs = width \<Longrightarrow> length cs = width \<Longrightarrow> get bs = get cs \<longleftrightarrow> bs = cs"
  using put_get by metis

lemma put_inject: "put x = put y \<longleftrightarrow> x = y"
  using get_put by metis

lemma get_prefix: "get (take width (put x @ rest)) = x"
  by (simp add: length_put get_put)

lemma get_overwrite:
  "p + width \<le> length bs \<Longrightarrow> get (slice p width (overwrite p (put x) bs)) = x"
  using slice_overwrite [of p "put x" bs] by (simp add: length_put get_put)

lemma get_at: "length pre = p \<Longrightarrow> get (slice p width (pre @ put x @ post)) = x"
  by (simp add: slice_append_exact length_put get_put)

end

interpretation mem16: wire_format store16 load16 2
  by unfold_locales (simp_all add: store16_load16)

interpretation mem32: wire_format store32 load32 4
  by unfold_locales (simp_all add: store32_load32)

interpretation mem64: wire_format store64 load64 8
  by unfold_locales (simp_all add: store64_load64)

end
