(* ===== verification/Buffers.thy ===== *)
theory Buffers
  imports Endian
begin

text \<open>
  The byte buffer every frame travels in (\<open>class accl::Buffer\<close>, \<open>src/libaccl/buffer.hpp\<close>): a
  vector of a fixed capacity and the number of its bytes in use. The code reads and writes the
  vector through the pointer \<open>getData()\<close> as well, at any offset: \<open>Buffer_read\<close> and
  \<open>Buffer_write\<close> are those accesses, and an access outside the vector is the failure
  \<^const>\<open>Out_of_bounds\<close>. The definitions work on every extension of the record, as the member
  functions work on every derived class.
\<close>

section \<open>The buffer and its member functions\<close>

record buffer =
  content :: "u8 list"
  dataSize :: nat

definition Buffer :: "nat \<Rightarrow> buffer" where
  "Buffer n = \<lparr>content = replicate n 0, dataSize = 0\<rparr>"

definition Buffer_assign :: "'b buffer_scheme \<Rightarrow> 'a buffer_scheme \<Rightarrow> 'a buffer_scheme" where
  "Buffer_assign other this = this\<lparr>content := content other, dataSize := dataSize other\<rparr>"

definition Buffer_getBufferSize :: "'a buffer_scheme \<Rightarrow> nat" where
  "Buffer_getBufferSize b = length (content b)"

definition Buffer_getDataSize :: "'a buffer_scheme \<Rightarrow> nat" where
  "Buffer_getDataSize b = dataSize b"

definition Buffer_append :: "u8 list \<Rightarrow> 'a buffer_scheme \<Rightarrow> 'a buffer_scheme result" where
  "Buffer_append data b =
     (if length data > length (content b) - dataSize b then Inl Out_of_range
      else Inr (b\<lparr>content := overwrite (dataSize b) data (content b),
                  dataSize := dataSize b + length data\<rparr>))"

definition Buffer_setDataSize :: "nat \<Rightarrow> 'a buffer_scheme \<Rightarrow> 'a buffer_scheme result" where
  "Buffer_setDataSize n b =
     (if n > length (content b) then Inl Out_of_range else Inr (b\<lparr>dataSize := n\<rparr>))"

definition Buffer_clear :: "'a buffer_scheme \<Rightarrow> 'a buffer_scheme" where
  "Buffer_clear b = b\<lparr>dataSize := 0\<rparr>"

definition Buffer_read :: "nat \<Rightarrow> nat \<Rightarrow> 'a buffer_scheme \<Rightarrow> u8 list result" where
  "Buffer_read p n b =
     (if p + n \<le> length (content b) then Inr (slice p n (content b)) else Inl Out_of_bounds)"

definition Buffer_write :: "nat \<Rightarrow> u8 list \<Rightarrow> 'a buffer_scheme \<Rightarrow> 'a buffer_scheme result" where
  "Buffer_write p bs b =
     (if p + length bs \<le> length (content b) then Inr (b\<lparr>content := overwrite p bs (content b)\<rparr>)
      else Inl Out_of_bounds)"

section \<open>The class invariant\<close>

text \<open>The bytes in use, and the invariant of the class: they lie inside the vector.\<close>

definition buffer_data :: "'a buffer_scheme \<Rightarrow> u8 list" where
  "buffer_data b = take (dataSize b) (content b)"

definition buffer_ok :: "nat \<Rightarrow> 'a buffer_scheme \<Rightarrow> bool" where
  "buffer_ok cap b \<longleftrightarrow> length (content b) = cap \<and> dataSize b \<le> cap"

lemmas buffer_defs = Buffer_assign_def Buffer_getBufferSize_def Buffer_getDataSize_def
  Buffer_append_def Buffer_setDataSize_def Buffer_clear_def Buffer_read_def Buffer_write_def

lemma buffer_okI [intro]: "length (content b) = cap \<Longrightarrow> dataSize b \<le> cap \<Longrightarrow> buffer_ok cap b"
  by (simp add: buffer_ok_def)

lemma buffer_ok_new [simp]: "buffer_ok n (Buffer n)"
  by (simp add: buffer_ok_def Buffer_def)

lemma buffer_data_new [simp]: "buffer_data (Buffer n) = []"
  by (simp add: buffer_data_def Buffer_def)

lemma length_buffer_data: "buffer_ok cap b \<Longrightarrow> length (buffer_data b) = dataSize b"
  by (simp add: buffer_ok_def buffer_data_def)

lemma length_buffer_data_le: "buffer_ok cap b \<Longrightarrow> length (buffer_data b) \<le> cap"
  by (simp add: buffer_data_def buffer_ok_def)

lemma buffer_ok_clear [simp]: "buffer_ok cap b \<Longrightarrow> buffer_ok cap (Buffer_clear b)"
  by (simp add: buffer_ok_def Buffer_clear_def)

lemma dataSize_clear [simp]: "dataSize (Buffer_clear b) = 0"
  by (simp add: Buffer_clear_def)

lemma buffer_data_clear [simp]: "buffer_data (Buffer_clear b) = []"
  by (simp add: buffer_data_def Buffer_clear_def)

lemma buffer_ok_append: "buffer_ok cap b \<Longrightarrow> Buffer_append data b = Inr b' \<Longrightarrow> buffer_ok cap b'"
  by (auto simp: buffer_ok_def Buffer_append_def split: if_splits)

lemma buffer_ok_setDataSize:
  "buffer_ok cap b \<Longrightarrow> Buffer_setDataSize n b = Inr b' \<Longrightarrow> buffer_ok cap b'"
  by (auto simp: buffer_ok_def Buffer_setDataSize_def split: if_splits)

lemma buffer_ok_write: "buffer_ok cap b \<Longrightarrow> Buffer_write p bs b = Inr b' \<Longrightarrow> buffer_ok cap b'"
  by (auto simp: buffer_ok_def Buffer_write_def split: if_splits)

text \<open>What an append does when the data fit, and that it fails exactly when they do not.\<close>

lemma Buffer_append_fits:
  assumes "buffer_ok cap b" and "dataSize b + length data \<le> cap"
  obtains b' where "Buffer_append data b = Inr b'" and "buffer_ok cap b'"
    and "buffer_data b' = buffer_data b @ data" and "dataSize b' = dataSize b + length data"
    and "buffer.more b' = buffer.more b"
proof
  let ?b = "b\<lparr>content := overwrite (dataSize b) data (content b), dataSize := dataSize b + length data\<rparr>"
  show "Buffer_append data b = Inr ?b"
    using assms by (auto simp: Buffer_append_def buffer_ok_def)
  show "buffer_ok cap ?b" using assms by (simp add: buffer_ok_def)
  show "buffer_data ?b = buffer_data b @ data"
    using assms by (simp add: buffer_data_def buffer_ok_def take_overwrite)
qed simp_all

lemma Buffer_append_overflow:
  "buffer_ok cap b \<Longrightarrow> Buffer_append data b = Inl e \<longleftrightarrow> e = Out_of_range \<and> cap < dataSize b + length data"
  by (auto simp: Buffer_append_def buffer_ok_def)

lemma Buffer_read_data:
  "buffer_ok cap b \<Longrightarrow> p + n \<le> dataSize b \<Longrightarrow> Buffer_read p n b = Inr (slice p n (buffer_data b))"
  by (simp add: Buffer_read_def buffer_ok_def buffer_data_def slice_take)

text \<open>Bytes written at the front of a buffer, and the data size set to their number.\<close>

lemma Buffer_replace:
  assumes "buffer_ok cap b" and "length out \<le> cap"
  obtains b1 b2 where "Buffer_write 0 out b = Inr b1" and "Buffer_setDataSize (length out) b1 = Inr b2"
    and "buffer_ok cap b2" and "buffer_data b2 = out" and "dataSize b2 = length out"
proof
  let ?b1 = "b\<lparr>content := overwrite 0 out (content b)\<rparr>"
  let ?b2 = "?b1\<lparr>dataSize := length out\<rparr>"
  show "Buffer_write 0 out b = Inr ?b1" and "Buffer_setDataSize (length out) ?b1 = Inr ?b2"
    using assms by (simp_all add: Buffer_write_def Buffer_setDataSize_def buffer_ok_def)
  show "buffer_ok cap ?b2" using assms by (simp add: buffer_ok_def)
  show "buffer_data ?b2 = out" by (simp add: buffer_data_def overwrite_def)
qed simp

text \<open>
  The way the encoder adds to a buffer: a struct is written just behind the data, the data size
  is moved past it, and a payload is appended.
\<close>

lemma Buffer_extend:
  assumes "buffer_ok cap b" and "dataSize b + length hdr + length data \<le> cap"
  obtains b1 b2 b3 where "Buffer_write (dataSize b) hdr b = Inr b1"
    and "Buffer_setDataSize (dataSize b + length hdr) b1 = Inr b2"
    and "Buffer_append data b2 = Inr b3" and "buffer_ok cap b3"
    and "buffer_data b3 = buffer_data b @ hdr @ data"
    and "dataSize b3 = dataSize b + length hdr + length data"
    and "content b3 = overwrite (dataSize b) (hdr @ data) (content b)"
    and "buffer.more b3 = buffer.more b"
proof
  let ?b1 = "b\<lparr>content := overwrite (dataSize b) hdr (content b)\<rparr>"
  let ?b2 = "?b1\<lparr>dataSize := dataSize b + length hdr\<rparr>"
  let ?b3 = "?b2\<lparr>content := overwrite (dataSize ?b2) data (content ?b2),
                 dataSize := dataSize ?b2 + length data\<rparr>"
  show "Buffer_write (dataSize b) hdr b = Inr ?b1"
    and "Buffer_setDataSize (dataSize b + length hdr) ?b1 = Inr ?b2"
    and "Buffer_append data ?b2 = Inr ?b3" and "buffer_ok cap ?b3"
    using assms by (auto simp: buffer_ok_def buffer_defs)
  show c: "content ?b3 = overwrite (dataSize b) (hdr @ data) (content b)"
    using assms by (simp add: buffer_ok_def overwrite_overwrite_adjacent)
  show "buffer_data ?b3 = buffer_data b @ hdr @ data"
    using take_overwrite [of "dataSize b" "hdr @ data" "content b"] assms
    by (simp add: buffer_data_def buffer_ok_def c [simplified] add.assoc)
qed simp_all

end
