(* ===== verification/Sockaddr.thy ===== *)
theory Sockaddr
  imports Endian
begin

unbundle bit_operations_syntax

text \<open>
  Socket addresses and the small helpers of \<open>src/util.cpp\<close>. A \<open>sockaddr_storage\<close> is what its
  family says it is: an IPv4 address, an IPv6 address, or something else. The conversion between
  text and bytes is the C library's (\<open>inet_pton\<close>) and a parameter here.
\<close>

section \<open>Addresses\<close>

datatype sockaddr =
    Sockaddr_in (sin_port: u16) (sin_addr: "u8 list")
  | Sockaddr_in6 (sin6_port: u16) (sin6_flowinfo: u32) (sin6_addr: "u8 list") (sin6_scope_id: u32)
  | Sockaddr_other (ss_family: u16)

fun sockaddr_ok :: "sockaddr \<Rightarrow> bool" where
  "sockaddr_ok (Sockaddr_in p a) \<longleftrightarrow> length a = 4"
| "sockaddr_ok (Sockaddr_in6 p f a s) \<longleftrightarrow> length a = 16"
| "sockaddr_ok (Sockaddr_other f) \<longleftrightarrow> True"

text \<open>
  \<open>pton6\<close> and \<open>pton4\<close> stand for \<open>inet_pton\<close> with \<open>AF_INET6\<close> and \<open>AF_INET\<close>: the bytes of the
  address, or \<^const>\<open>None\<close> for a text that is none. The port of an IPv4 address is only written
  when it is not 0 (\<open>garbage\<close> is what the uninitialised struct holds).
\<close>

definition to_sockaddr_storage ::
    "(string \<Rightarrow> u8 list option) \<Rightarrow> (string \<Rightarrow> u8 list option) \<Rightarrow> u16 \<Rightarrow> string \<Rightarrow> u16 \<Rightarrow> sockaddr result"
where
  "to_sockaddr_storage pton6 pton4 garbage str port =
     (case pton6 str of
        Some a \<Rightarrow> Inr (Sockaddr_in6 (if port \<noteq> 0 then cpu_to_be_16 port else 0) 0 a 0)
      | None \<Rightarrow>
          (case pton4 str of
             Some a \<Rightarrow> Inr (Sockaddr_in (if port \<noteq> 0 then cpu_to_be_16 port else garbage) a)
           | None \<Rightarrow> Inl (Config_error (''Invalid IP address: '' @ str))))"

fun is_ipv4 :: "sockaddr \<Rightarrow> bool" where
  "is_ipv4 (Sockaddr_in p a) = False"
| "is_ipv4 (Sockaddr_in6 p f a s) = (a ! 10 = 0xFF \<and> a ! 11 = 0xFF)"
| "is_ipv4 (Sockaddr_other f) = True"

text \<open>
  The 16 bytes a remote node is known by: an IPv6 address, or an IPv4 address mapped into IPv6.
  For another family the code returns its array uninitialised (\<open>garbage\<close>).
\<close>

fun get_key_from_sockaddr :: "u8 list \<Rightarrow> sockaddr \<Rightarrow> u8 list" where
  "get_key_from_sockaddr garbage (Sockaddr_in p a) = replicate 10 0 @ [0xFF, 0xFF] @ a"
| "get_key_from_sockaddr garbage (Sockaddr_in6 p f a s) = a"
| "get_key_from_sockaddr garbage (Sockaddr_other f) = garbage"

fun to_sockaddr_storage_ipv6 :: "sockaddr \<Rightarrow> sockaddr" where
  "to_sockaddr_storage_ipv6 (Sockaddr_in6 p f a s) = Sockaddr_in6 p f a s"
| "to_sockaddr_storage_ipv6 (Sockaddr_in p a) =
     Sockaddr_in6 p 0 (replicate 10 0 @ [0xFF, 0xFF] @ a) 0"
| "to_sockaddr_storage_ipv6 (Sockaddr_other f) = Sockaddr_other 0"

lemma length_key: "sockaddr_ok a \<Longrightarrow> length g = 16 \<Longrightarrow> length (get_key_from_sockaddr g a) = 16"
  by (cases a) simp_all

text \<open>
  A node is found again under the address its packets arrive from: the dual-stack socket reports
  an IPv4 sender as a mapped IPv6 address, and both have the same key.
\<close>

lemma key_of_mapped:
  "sockaddr_ok a \<Longrightarrow> (\<forall>f. a \<noteq> Sockaddr_other f) \<Longrightarrow>
    get_key_from_sockaddr g (to_sockaddr_storage_ipv6 a) = get_key_from_sockaddr g' a"
  by (cases a) auto

lemma key_inject_in:
  "get_key_from_sockaddr g (Sockaddr_in p a) = get_key_from_sockaddr g (Sockaddr_in q b) \<longleftrightarrow> a = b"
  by simp

lemma to_ipv6_ok: "sockaddr_ok a \<Longrightarrow> sockaddr_ok (to_sockaddr_storage_ipv6 a)"
  by (cases a) auto

lemma to_ipv6_idem: "sockaddr_ok a \<Longrightarrow> (\<forall>f. a \<noteq> Sockaddr_other f) \<Longrightarrow>
    to_sockaddr_storage_ipv6 (to_sockaddr_storage_ipv6 a) = to_sockaddr_storage_ipv6 a"
  by (cases a) auto

text \<open>
  \<open>is_ipv4\<close> recognises the mapped form of an IPv4 address but answers \<open>false\<close> for the plain one.
\<close>

lemma is_ipv4_mapped: "length a = 4 \<Longrightarrow> is_ipv4 (to_sockaddr_storage_ipv6 (Sockaddr_in p a))"
  by (simp add: nth_append)

lemma is_ipv4_plain: "\<not> is_ipv4 (Sockaddr_in p a)"
  by simp

section \<open>Sequence numbers\<close>

definition is_sequence_wrapping :: "u32 \<Rightarrow> u32 \<Rightarrow> bool" where
  "is_sequence_wrapping cur prev \<longleftrightarrow> cur < prev \<and> prev - cur > 0xFFFFFFFF div 2"

lemma is_sequence_wrapping_unat:
  "is_sequence_wrapping cur prev \<longleftrightarrow> unat cur + 0x7FFFFFFF < unat prev"
proof -
  have "cur < prev \<Longrightarrow> unat (prev - cur) = unat prev - unat cur"
    by (simp add: unat_sub less_imp_le)
  then show ?thesis
    by (auto simp: is_sequence_wrapping_def word_less_nat_alt)
qed

section \<open>Splitting a list of addresses\<close>

text \<open>
  The code builds the regular expression of one or more delimiters and takes what lies between
  its matches; the empty pieces are removed afterwards.
\<close>

function split_tokens :: "char set \<Rightarrow> string \<Rightarrow> string list" where
  "split_tokens ds s =
     (let t = takeWhile (\<lambda>c. c \<notin> ds) s; r = dropWhile (\<lambda>c. c \<notin> ds) s
      in if r = [] then [t] else t # split_tokens ds (dropWhile (\<lambda>c. c \<in> ds) r))"
  by pat_completeness auto
termination
proof (relation "measure (\<lambda>(ds, s). length s)")
  fix ds :: "char set" and s x xa
  assume xa: "xa = dropWhile (\<lambda>c. c \<notin> ds) s" and ne: "xa \<noteq> []"
  have "hd xa \<in> ds" using hd_dropWhile [of "\<lambda>c. c \<notin> ds" s] ne by (simp add: xa)
  then have "length (dropWhile (\<lambda>c. c \<in> ds) xa) < length xa"
    using ne by (cases xa) (auto intro: le_imp_less_Suc length_dropWhile_le)
  moreover have "length xa \<le> length s" by (simp add: xa length_dropWhile_le)
  ultimately show "((ds, dropWhile (\<lambda>c. c \<in> ds) xa), (ds, s)) \<in> measure (\<lambda>(ds, s). length s)"
    by simp
qed simp

declare split_tokens.simps [simp del]

definition splitByDelimiters :: "string \<Rightarrow> string \<Rightarrow> string list" where
  "splitByDelimiters input delimiters = filter (\<lambda>s. s \<noteq> []) (split_tokens (set delimiters) input)"

lemma filter_dropWhile_in: "filter (\<lambda>c. c \<notin> ds) (dropWhile (\<lambda>c. c \<in> ds) s) = filter (\<lambda>c. c \<notin> ds) s"
  by (induction s) auto

lemma concat_split_tokens: "concat (split_tokens ds s) = filter (\<lambda>c. c \<notin> ds) s"
proof (induction ds s rule: split_tokens.induct)
  case (1 ds s)
  let ?t = "takeWhile (\<lambda>c. c \<notin> ds) s" and ?r = "dropWhile (\<lambda>c. c \<notin> ds) s"
  have t: "filter (\<lambda>c. c \<notin> ds) ?t = ?t"
    by (rule filter_True) (auto dest: set_takeWhileD)
  have s: "filter (\<lambda>c. c \<notin> ds) s = ?t @ filter (\<lambda>c. c \<notin> ds) ?r"
    by (metis filter_append t takeWhile_dropWhile_id)
  show ?case
  proof (cases "?r = []")
    case True
    have "concat (split_tokens ds s) = ?t"
      by (subst split_tokens.simps, simp only: Let_def True if_True) simp
    with s show ?thesis by (simp only: True filter.simps append_Nil2)
  next
    case False
    have "concat (split_tokens ds s) = ?t @ concat (split_tokens ds (dropWhile (\<lambda>c. c \<in> ds) ?r))"
      by (subst split_tokens.simps, simp only: Let_def False if_False) simp
    also have "\<dots> = filter (\<lambda>c. c \<notin> ds) s"
      by (simp only: "1.IH" [OF refl refl False] filter_dropWhile_in s)
    finally show ?thesis .
  qed
qed

lemma split_tokens_free: "t \<in> set (split_tokens ds s) \<Longrightarrow> set t \<inter> ds = {}"
proof (induction ds s rule: split_tokens.induct)
  case (1 ds s)
  have free: "set (takeWhile (\<lambda>c. c \<notin> ds) s) \<inter> ds = {}" by (auto dest: set_takeWhileD)
  from "1.prems" have "t = takeWhile (\<lambda>c. c \<notin> ds) s \<or>
      (dropWhile (\<lambda>c. c \<notin> ds) s \<noteq> [] \<and>
       t \<in> set (split_tokens ds (dropWhile (\<lambda>c. c \<in> ds) (dropWhile (\<lambda>c. c \<notin> ds) s))))"
    by (subst (asm) split_tokens.simps) (auto simp: Let_def split: if_splits)
  then show ?case using free "1.IH" by blast
qed

text \<open>The pieces are the text without its delimiters, none is empty, none holds a delimiter.\<close>

lemma splitByDelimiters_correct:
  "concat (splitByDelimiters input ds) = filter (\<lambda>c. c \<notin> set ds) input"
  "t \<in> set (splitByDelimiters input ds) \<Longrightarrow> t \<noteq> [] \<and> set t \<inter> set ds = {}"
proof -
  have "concat (filter (\<lambda>s. s \<noteq> []) xs) = concat xs" for xs :: "string list"
    by (induction xs) auto
  then show "concat (splitByDelimiters input ds) = filter (\<lambda>c. c \<notin> set ds) input"
    by (simp add: splitByDelimiters_def concat_split_tokens)
qed (auto simp: splitByDelimiters_def dest: split_tokens_free)

text \<open>A text is split at its delimiters into the words that are between them.\<close>

lemma split_tokens_word:
  assumes "set w \<inter> ds = {}"
  shows "split_tokens ds w = [w]"
    and "set s \<subseteq> ds \<Longrightarrow> s \<noteq> [] \<Longrightarrow> rest = [] \<or> hd rest \<notin> ds \<Longrightarrow>
      split_tokens ds (w @ s @ rest) = w # split_tokens ds rest"
proof -
  have all: "\<forall>c \<in> set w. c \<notin> ds" using assms by blast
  then show "split_tokens ds w = [w]"
    by (subst split_tokens.simps) (simp add: dropWhile_eq_Nil_conv takeWhile_eq_all_conv)
  assume s: "set s \<subseteq> ds" "s \<noteq> []" "rest = [] \<or> hd rest \<notin> ds"
  have d: "dropWhile (\<lambda>c. c \<notin> ds) (w @ s @ rest) = s @ rest"
    using all s by (cases s) (simp_all add: dropWhile_append2)
  have t: "takeWhile (\<lambda>c. c \<notin> ds) (w @ s @ rest) = w"
    using all s by (cases s) (simp_all add: takeWhile_append2)
  have "\<forall>c \<in> set s. c \<in> ds" using s(1) by blast
  then have r: "dropWhile (\<lambda>c. c \<in> ds) (s @ rest) = rest"
    using s(3) by (cases rest) (auto simp: dropWhile_append2)
  show "split_tokens ds (w @ s @ rest) = w # split_tokens ds rest"
    by (subst split_tokens.simps) (simp only: Let_def d t r append_is_Nil_conv s(2) if_False simp_thms)
qed

lemma split_words:
  assumes "\<forall>(w, s) \<in> set ps. w \<noteq> [] \<and> set w \<inter> set ds = {} \<and> s \<noteq> [] \<and> set s \<subseteq> set ds"
    and "set lst \<inter> set ds = {}"
  shows "filter (\<lambda>t. t \<noteq> []) (split_tokens (set ds) (concat (map (\<lambda>(w, s). w @ s) ps) @ lst)) =
    map fst ps @ (if lst = [] then [] else [lst])"
  using assms(1)
proof (induction ps)
  case (Cons p ps)
  obtain w s where p: "p = (w, s)" by (cases p)
  have rest: "concat (map (\<lambda>(w, s). w @ s) ps) @ lst = [] \<or>
      hd (concat (map (\<lambda>(w, s). w @ s) ps) @ lst) \<notin> set ds"
    using Cons.prems assms(2) by (cases ps) (auto simp: hd_append split: if_splits dest: hd_in_set)
  show ?case
    using split_tokens_word(2) [of w "set ds" s, OF _ _ _ rest] Cons by (simp add: p)
qed (simp add: split_tokens_word(1) [OF assms(2)])

end
