(* ===== verification/Packet_Buffer.thy ===== *)
theory Packet_Buffer
  imports Buffers Sockaddr
begin

text \<open>
  The buffer of a packet (\<open>class PacketBuffer : public accl::Buffer\<close>, \<open>src/packet_buffer.hpp\<close>): a
  buffer with the sequence number of the packet and the address it came from.
\<close>

record packet_buffer = buffer +
  packet_sequence_key :: u32
  packet_source :: sockaddr
  packet_source_key :: u64

text \<open>The constructor leaves the source address uninitialised (\<open>garbage\<close>).\<close>

definition PacketBuffer :: "sockaddr \<Rightarrow> nat \<Rightarrow> packet_buffer" where
  "PacketBuffer garbage n = buffer.extend (Buffer n)
     \<lparr>packet_sequence_key = 0, packet_source = garbage, packet_source_key = 0\<rparr>"

definition PacketBuffer_setPacketSequenceKey :: "u32 \<Rightarrow> packet_buffer \<Rightarrow> packet_buffer" where
  "PacketBuffer_setPacketSequenceKey k b = b\<lparr>packet_sequence_key := k\<rparr>"

definition PacketBuffer_setPacketSource :: "sockaddr \<Rightarrow> packet_buffer \<Rightarrow> packet_buffer" where
  "PacketBuffer_setPacketSource s b = b\<lparr>packet_source := s\<rparr>"

definition PacketBuffer_setPacketSourceKey :: "u64 \<Rightarrow> packet_buffer \<Rightarrow> packet_buffer" where
  "PacketBuffer_setPacketSourceKey k b = b\<lparr>packet_source_key := k\<rparr>"

definition PacketBuffer_less :: "packet_buffer \<Rightarrow> packet_buffer \<Rightarrow> bool" where
  "PacketBuffer_less this other \<longleftrightarrow> packet_sequence_key this < packet_sequence_key other"

text \<open>\<open>*copy = *original\<close>: the base class copies its members, and the others follow.\<close>

definition PacketBuffer_assign :: "packet_buffer \<Rightarrow> packet_buffer \<Rightarrow> packet_buffer" where
  "PacketBuffer_assign other this =
     (Buffer_assign other this)\<lparr>packet_sequence_key := packet_sequence_key other,
        packet_source := packet_source other, packet_source_key := packet_source_key other\<rparr>"

lemma PacketBuffer_assign_eq: "PacketBuffer_assign other this = other"
  by (cases other; cases this) (simp add: PacketBuffer_assign_def Buffer_assign_def)

lemma PacketBuffer_new [simp]:
  "buffer_ok n (PacketBuffer g n)" "buffer_data (PacketBuffer g n) = []"
  "dataSize (PacketBuffer g n) = 0" "length (content (PacketBuffer g n)) = n"
  by (simp_all add: PacketBuffer_def buffer_ok_def buffer_data_def Buffer_def buffer.defs)

lemma setPacketSource_simps [simp]:
  "buffer_ok n (PacketBuffer_setPacketSource s b) = buffer_ok n b"
  "buffer_data (PacketBuffer_setPacketSource s b) = buffer_data b"
  "dataSize (PacketBuffer_setPacketSource s b) = dataSize b"
  "content (PacketBuffer_setPacketSource s b) = content b"
  by (simp_all add: PacketBuffer_setPacketSource_def buffer_ok_def buffer_data_def)

text \<open>\<open>operator<\<close> is a strict weak order: it compares the sequence numbers only.\<close>

lemma PacketBuffer_less_strict:
  "\<not> PacketBuffer_less a a"
  "PacketBuffer_less a b \<Longrightarrow> PacketBuffer_less b c \<Longrightarrow> PacketBuffer_less a c"
  by (auto simp: PacketBuffer_less_def)

end
