(* ===== verification/Buffer_Pool.thy ===== *)
theory Buffer_Pool
  imports Packet_Buffer "HOL-Library.Multiset"
begin

text \<open>
  The pool of buffers that hands buffers from one thread to the next (\<open>class accl::BufferPool\<close>,
  \<open>src/libaccl/buffer_pool.hpp\<close>): a queue of buffers that all have the pool's buffer size. The
  operations that sleep on the condition variable take what they find when they wake up as an
  argument: \<open>None\<close> when nobody wakes them (the failure \<^const>\<open>Would_block\<close>), otherwise the pool as
  it is when the lock is held again.
\<close>

section \<open>The pool and its operations\<close>

record 'a buffer_pool =
  pool :: "'a buffer_scheme list"
  buffer_size :: nat

type_synonym packet_pool = "unit packet_buffer_ext buffer_pool"

definition BufferPool :: "nat \<Rightarrow> 'a buffer_pool" where
  "BufferPool bsize = \<lparr>pool = [], buffer_size = bsize\<rparr>"

text \<open>\<open>mk\<close> is the constructor of the buffer class, called once per buffer.\<close>

fun BufferPool_allocate :: "(nat \<Rightarrow> 'a buffer_scheme) \<Rightarrow> nat \<Rightarrow> 'a buffer_pool \<Rightarrow> 'a buffer_pool" where
  "BufferPool_allocate mk 0 p = p"
| "BufferPool_allocate mk (Suc n) p =
     BufferPool_allocate mk n (p\<lparr>pool := pool p @ [mk (buffer_size p)]\<rparr>)"

definition BufferPool_filled :: "(nat \<Rightarrow> 'a buffer_scheme) \<Rightarrow> nat \<Rightarrow> nat \<Rightarrow> 'a buffer_pool" where
  "BufferPool_filled mk bsize num_buffers = BufferPool_allocate mk num_buffers (BufferPool bsize)"

text \<open>\<open>_pop\<close>: move up to \<open>count\<close> buffers (all of them for \<open>BUFFER_POOL_POP_ALL\<close>) to the result.\<close>

definition BUFFER_POOL_POP_ALL :: nat where "BUFFER_POOL_POP_ALL = 0"

fun pop_loop :: "nat \<Rightarrow> nat \<Rightarrow> 'b list \<Rightarrow> 'b list \<Rightarrow> 'b list \<times> 'b list" where
  "pop_loop cnt i result [] = (result, [])"
| "pop_loop cnt i result (b # bs) =
     (if cnt = 0 \<or> i < cnt then pop_loop cnt (i + 1) (result @ [b]) bs
      else (result, b # bs))"

definition BufferPool_pop_into ::
    "'a buffer_scheme list \<Rightarrow> nat \<Rightarrow> 'a buffer_pool \<Rightarrow> 'a buffer_scheme list \<times> 'a buffer_pool"
where
  "BufferPool_pop_into result cnt p =
     (let (result', rest) = pop_loop cnt 0 result (pool p) in (result', p\<lparr>pool := rest\<rparr>))"

definition BufferPool_pop :: "'a buffer_pool \<Rightarrow> ('a buffer_scheme \<times> 'a buffer_pool) result" where
  "BufferPool_pop p =
     (case pool p of [] \<Rightarrow> Inl Bad_alloc | b # bs \<Rightarrow> Inr (b, p\<lparr>pool := bs\<rparr>))"

definition BufferPool_pop_count ::
    "nat \<Rightarrow> 'a buffer_pool \<Rightarrow> 'a buffer_scheme list \<times> 'a buffer_pool"
where
  "BufferPool_pop_count cnt p = BufferPool_pop_into [] cnt p"

text \<open>The pool that the operations that wait go on with.\<close>

definition after_wait :: "'a buffer_pool option \<Rightarrow> 'a buffer_pool \<Rightarrow> 'a buffer_pool result" where
  "after_wait woken p =
     (if pool p = [] then (case woken of None \<Rightarrow> Inl Would_block | Some q \<Rightarrow> Inr q) else Inr p)"

definition BufferPool_pop_wait_woken ::
    "'a buffer_pool option \<Rightarrow> 'a buffer_pool \<Rightarrow> ('a buffer_scheme \<times> 'a buffer_pool) result"
where
  "BufferPool_pop_wait_woken woken p =
     rbind (after_wait woken p) (\<lambda>q.
       case pool q of [] \<Rightarrow> Inl Empty_front | b # bs \<Rightarrow> Inr (b, q\<lparr>pool := bs\<rparr>))"

definition BufferPool_pop_wait :: "'a buffer_pool \<Rightarrow> ('a buffer_scheme \<times> 'a buffer_pool) result" where
  "BufferPool_pop_wait p = BufferPool_pop_wait_woken None p"

definition BufferPool_push :: "'a buffer_scheme \<Rightarrow> 'a buffer_pool \<Rightarrow> 'a buffer_pool result" where
  "BufferPool_push b p =
     (if Buffer_getBufferSize b \<noteq> buffer_size p then Inl Invalid_argument
      else Inr (p\<lparr>pool := pool p @ [b]\<rparr>))"

text \<open>Pushing a list of buffers also clears the list, the second result.\<close>

definition BufferPool_push_list ::
    "'a buffer_scheme list \<Rightarrow> 'a buffer_pool \<Rightarrow> ('a buffer_pool \<times> 'a buffer_scheme list) result"
where
  "BufferPool_push_list bs p =
     (if list_ex (\<lambda>b. Buffer_getBufferSize b \<noteq> buffer_size p) bs then Inl Invalid_argument
      else Inr (p\<lparr>pool := pool p @ bs\<rparr>, []))"

definition BufferPool_getBufferCount :: "'a buffer_pool \<Rightarrow> nat" where
  "BufferPool_getBufferCount p = length (pool p)"

definition BufferPool_wait ::
    "'a buffer_pool option \<Rightarrow> 'a buffer_scheme list \<Rightarrow> 'a buffer_pool \<Rightarrow>
       ('a buffer_scheme list \<times> 'a buffer_pool) result"
where
  "BufferPool_wait woken results p =
     rbind (after_wait woken p) (\<lambda>q. Inr (BufferPool_pop_into results BUFFER_POOL_POP_ALL q))"

text \<open>
  The timed wait: how the sleep ends is \<open>Timed_out\<close> or \<open>Notified\<close>, with the pool found then. A
  duration of 0 waits without a limit.
\<close>

datatype wakeup = Timed_out | Notified

definition BufferPool_wait_for ::
    "wakeup \<Rightarrow> 'a buffer_pool option \<Rightarrow> nat \<Rightarrow> 'a buffer_scheme list \<Rightarrow> 'a buffer_pool \<Rightarrow>
       (bool \<times> 'a buffer_scheme list \<times> 'a buffer_pool) result"
where
  "BufferPool_wait_for status woken duration results p =
     (if pool p \<noteq> [] then
        (let (rs, q) = BufferPool_pop_into results BUFFER_POOL_POP_ALL p in Inr (True, rs, q))
      else if duration = 0 then
        rbind (after_wait woken p) (\<lambda>q.
          let (rs, q') = BufferPool_pop_into results BUFFER_POOL_POP_ALL q in Inr (True, rs, q'))
      else
        rbind (after_wait woken p) (\<lambda>q.
          if status = Notified then
            (let (rs, q') = BufferPool_pop_into results BUFFER_POOL_POP_ALL q in Inr (True, rs, q'))
          else Inr (False, results, q)))"

section \<open>What the operations do\<close>

definition pool_ok :: "nat \<Rightarrow> 'a buffer_pool \<Rightarrow> bool" where
  "pool_ok cap p \<longleftrightarrow> buffer_size p = cap \<and> (\<forall>b \<in> set (pool p). buffer_ok cap b)"

lemma pop_loop_eq:
  "pop_loop cnt i result bs =
     (let n = (if cnt = 0 then length bs else cnt - i) in (result @ take n bs, drop n bs))"
proof (induction bs arbitrary: i result)
  case (Cons b bs)
  show ?case
  proof (cases "cnt = 0")
    case False
    have "i < cnt \<Longrightarrow> cnt - i = Suc (cnt - Suc i)" by simp
    with False show ?thesis using Cons.IH by (cases "i < cnt") (simp_all add: Let_def)
  qed (use Cons.IH in simp)
qed simp

lemma BufferPool_pop_into_all:
  "BufferPool_pop_into result BUFFER_POOL_POP_ALL p = (result @ pool p, p\<lparr>pool := []\<rparr>)"
  by (simp add: BufferPool_pop_into_def BUFFER_POOL_POP_ALL_def pop_loop_eq)

lemma BufferPool_pop_count_eq:
  "BufferPool_pop_count cnt p =
     (let n = (if cnt = 0 then length (pool p) else cnt)
      in (take n (pool p), p\<lparr>pool := drop n (pool p)\<rparr>))"
  by (simp add: BufferPool_pop_count_def BufferPool_pop_into_def pop_loop_eq Let_def)

lemma BufferPool_allocate_eq:
  "BufferPool_allocate mk n p = p\<lparr>pool := pool p @ replicate n (mk (buffer_size p))\<rparr>"
  by (induction n arbitrary: p) (simp_all add: replicate_append_same)

lemma pool_filled [simp]:
  "pool (BufferPool_filled mk bsize n) = replicate n (mk bsize)"
  "buffer_size (BufferPool_filled mk bsize n) = bsize"
  by (simp_all add: BufferPool_filled_def BufferPool_allocate_eq BufferPool_def)

lemma pool_empty [simp]: "pool (BufferPool n) = []" "buffer_size (BufferPool n) = n"
  by (simp_all add: BufferPool_def)

lemma pool_ok_filled: "buffer_ok bsize (mk bsize) \<Longrightarrow> pool_ok bsize (BufferPool_filled mk bsize n)"
  by (simp add: pool_ok_def)

lemma BufferPool_push_ok:
  "buffer_size p = cap \<Longrightarrow> buffer_ok cap b \<Longrightarrow> BufferPool_push b p = Inr (p\<lparr>pool := pool p @ [b]\<rparr>)"
  by (simp add: BufferPool_push_def Buffer_getBufferSize_def buffer_ok_def)

lemma BufferPool_push_list_ok:
  "buffer_size p = cap \<Longrightarrow> \<forall>b \<in> set bs. buffer_ok cap b \<Longrightarrow>
    BufferPool_push_list bs p = Inr (p\<lparr>pool := pool p @ bs\<rparr>, [])"
  by (auto simp: BufferPool_push_list_def list_ex_iff Buffer_getBufferSize_def buffer_ok_def)

lemma BufferPool_pop_wait_simps:
  "pool p = [] \<Longrightarrow> BufferPool_pop_wait p = Inl Would_block"
  "pool p = b # bs \<Longrightarrow> BufferPool_pop_wait p = Inr (b, p\<lparr>pool := bs\<rparr>)"
  by (simp_all add: BufferPool_pop_wait_def BufferPool_pop_wait_woken_def after_wait_def)

lemma BufferPool_pop_wait_Inr:
  "BufferPool_pop_wait p = Inr (b, q) \<longleftrightarrow> (\<exists>bs. pool p = b # bs \<and> q = p\<lparr>pool := bs\<rparr>)"
  by (cases "pool p") (auto simp: BufferPool_pop_wait_simps)

text \<open>
  A wait that is woken while the pool is still empty (the condition variable is not guarded by a
  loop) takes the front of an empty deque.
\<close>

lemma pop_wait_spurious:
  "pool p = [] \<Longrightarrow> pool q = [] \<Longrightarrow> BufferPool_pop_wait_woken (Some q) p = Inl Empty_front"
  by (simp add: BufferPool_pop_wait_woken_def after_wait_def)

section \<open>The queue interface\<close>

text \<open>
  What the rest of the program relies on: a push of a fitting buffer succeeds and adds it at the
  end, a pop takes the first. The clients' facts are that buffers come out in the order in which
  they went in and that none is lost or made up.
\<close>

fun pop_many :: "('p \<Rightarrow> ('b \<times> 'p) result) \<Rightarrow> nat \<Rightarrow> 'p \<Rightarrow> ('b list \<times> 'p) result" where
  "pop_many pop 0 p = Inr ([], p)"
| "pop_many pop (Suc n) p =
     rbind (pop p) (\<lambda>(b, q). rbind (pop_many pop n q) (\<lambda>(bs, q'). Inr (b # bs, q')))"

locale fifo_pool =
  fixes push :: "'b \<Rightarrow> 'p \<Rightarrow> 'p result"
    and pop :: "'p \<Rightarrow> ('b \<times> 'p) result"
    and elems :: "'p \<Rightarrow> 'b list"
    and fits :: "'p \<Rightarrow> 'b \<Rightarrow> bool"
  assumes push_fits: "fits p b \<Longrightarrow> \<exists>q. push b p = Inr q \<and> elems q = elems p @ [b] \<and> fits q = fits p"
    and push_misfit: "\<not> fits p b \<Longrightarrow> push b p = Inl Invalid_argument"
    and pop_empty: "elems p = [] \<Longrightarrow> \<exists>e. pop p = Inl e"
    and pop_first: "elems p = b # bs \<Longrightarrow> \<exists>q. pop p = Inr (b, q) \<and> elems q = bs \<and> fits q = fits p"
begin

lemma push_all:
  "\<forall>b \<in> set bs. fits p b \<Longrightarrow> \<exists>q. rfold push bs p = Inr q \<and> elems q = elems p @ bs \<and> fits q = fits p"
proof (induction bs arbitrary: p)
  case (Cons b bs)
  from Cons.prems obtain p1 where "push b p = Inr p1" "elems p1 = elems p @ [b]" "fits p1 = fits p"
    using push_fits [of p b] by auto
  with Cons.IH [of p1] Cons.prems show ?case by auto
qed simp

lemma pop_all:
  "elems p = bs @ cs \<Longrightarrow> \<exists>q. pop_many pop (length bs) p = Inr (bs, q) \<and> elems q = cs \<and> fits q = fits p"
proof (induction bs arbitrary: p)
  case (Cons b bs)
  then obtain p1 where "pop p = Inr (b, p1)" "elems p1 = bs @ cs" "fits p1 = fits p"
    using pop_first [of p b "bs @ cs"] by auto
  with Cons.IH [of p1] show ?case by auto
qed simp

lemma fifo:
  assumes "\<forall>b \<in> set bs. fits p b" and "elems p = []"
  shows "\<exists>q r. rfold push bs p = Inr q \<and> pop_many pop (length bs) q = Inr (bs, r) \<and> elems r = []"
proof -
  from push_all [OF assms(1)] obtain q where q: "rfold push bs p = Inr q" "elems q = bs @ []"
    using assms(2) by auto
  with pop_all [OF q(2)] show ?thesis by blast
qed

lemma pop_conserves:
  assumes "pop p = Inr (b, q)"
  shows "mset (elems p) = add_mset b (mset (elems q))"
proof (cases "elems p")
  case Nil
  then show ?thesis using pop_empty [of p] assms by auto
next
  case (Cons c cs)
  then show ?thesis using pop_first [OF Cons] assms by auto
qed

end

interpretation bp: fifo_pool BufferPool_push BufferPool_pop pool
    "\<lambda>p b. Buffer_getBufferSize b = buffer_size p"
  by unfold_locales (auto simp: BufferPool_push_def BufferPool_pop_def)

interpretation bpw: fifo_pool BufferPool_push BufferPool_pop_wait pool
    "\<lambda>p b. Buffer_getBufferSize b = buffer_size p"
  by unfold_locales (auto simp: BufferPool_push_def BufferPool_pop_wait_simps)

end
