(* ===== verification/Statistic.thy ===== *)
theory Statistic
  imports Prelude
begin

text \<open>
  The last values of a statistic (\<open>class accl::Statistic\<close>, \<open>src/libaccl/statistic.hpp\<close>). The value
  type is a parameter, as it is a template parameter of the class.
\<close>

record 'f statistic =
  stat_values :: "'f list"
  stat_maxSize :: nat

definition Statistic :: "nat \<Rightarrow> 'f statistic" where
  "Statistic n = \<lparr>stat_values = [], stat_maxSize = n\<rparr>"

definition Statistic_add :: "'f \<Rightarrow> 'f statistic \<Rightarrow> 'f statistic result" where
  "Statistic_add v st =
     rbind (if length (stat_values st) = stat_maxSize st
            then (case stat_values st of [] \<Rightarrow> Inl Empty_front | _ # vs \<Rightarrow> Inr vs)
            else Inr (stat_values st))
       (\<lambda>vs. Inr (st\<lparr>stat_values := vs @ [v]\<rparr>))"

definition Statistic_max :: "'f::{linorder,zero} statistic \<Rightarrow> 'f" where
  "Statistic_max st = (if stat_values st = [] then 0 else Max (set (stat_values st)))"

definition Statistic_min :: "'f::{linorder,zero} statistic \<Rightarrow> 'f" where
  "Statistic_min st = (if stat_values st = [] then 0 else Min (set (stat_values st)))"

definition Statistic_mean :: "('f \<Rightarrow> nat \<Rightarrow> 'f) \<Rightarrow> 'f::comm_monoid_add statistic \<Rightarrow> 'f" where
  "Statistic_mean divide_by st =
     (if stat_values st = [] then 0
      else divide_by (foldl (+) 0 (stat_values st)) (length (stat_values st)))"

record 'f statistic_result =
  sr_min :: 'f
  sr_mean :: 'f
  sr_max :: 'f

definition Statistic_getStatisticResult ::
    "('f \<Rightarrow> nat \<Rightarrow> 'f) \<Rightarrow> 'f::{linorder,comm_monoid_add} statistic \<Rightarrow> 'f statistic_result" where
  "Statistic_getStatisticResult divide_by st =
     \<lparr>sr_min = Statistic_min st, sr_mean = Statistic_mean divide_by st, sr_max = Statistic_max st\<rparr>"

text \<open>The class invariant: never more than \<open>maxSize\<close> values, and a positive size.\<close>

definition statistic_ok :: "'f statistic \<Rightarrow> bool" where
  "statistic_ok st \<longleftrightarrow> 0 < stat_maxSize st \<and> length (stat_values st) \<le> stat_maxSize st"

lemma statistic_ok_new [simp]: "0 < n \<Longrightarrow> statistic_ok (Statistic n)"
  by (simp add: statistic_ok_def Statistic_def)

text \<open>
  Adding never fails on a statistic that is well formed, and the values are then the last
  \<open>maxSize\<close> ones that were added.
\<close>

definition last_n :: "nat \<Rightarrow> 'f list \<Rightarrow> 'f list" where
  "last_n n xs = drop (length xs - n) xs"

lemma Statistic_add_ok:
  assumes "statistic_ok st"
  obtains st' where "Statistic_add v st = Inr st'" and "statistic_ok st'"
    and "stat_maxSize st' = stat_maxSize st"
    and "stat_values st' = last_n (stat_maxSize st) (stat_values st @ [v])"
proof (cases "length (stat_values st) = stat_maxSize st")
  case True
  with assms obtain u vs where vs: "stat_values st = u # vs"
    by (cases "stat_values st") (auto simp: statistic_ok_def)
  show ?thesis
  proof (rule that)
    show "Statistic_add v st = Inr (st\<lparr>stat_values := vs @ [v]\<rparr>)"
      using True vs by (simp add: Statistic_add_def)
  qed (use True vs assms in \<open>auto simp: statistic_ok_def last_n_def\<close>)
next
  case False
  show ?thesis
  proof (rule that)
    show "Statistic_add v st = Inr (st\<lparr>stat_values := stat_values st @ [v]\<rparr>)"
      using False by (simp add: Statistic_add_def)
  qed (use False assms in \<open>auto simp: statistic_ok_def last_n_def\<close>)
qed

lemma last_n_append1: "0 < n \<Longrightarrow> last_n n (last_n n xs @ ys) = last_n n (xs @ ys)"
proof -
  assume "0 < n"
  have "length xs - n + (length (drop (length xs - n) xs) + length ys - n) = length xs + length ys - n
      \<or> length xs \<le> length xs + length ys - n"
    by (cases "n \<le> length xs") auto
  then show ?thesis by (auto simp: last_n_def add.commute)
qed

lemma Statistic_add_all:
  assumes "statistic_ok st"
  shows "\<exists>st'. rfold Statistic_add vs st = Inr st' \<and> statistic_ok st' \<and>
    stat_maxSize st' = stat_maxSize st \<and>
    stat_values st' = last_n (stat_maxSize st) (stat_values st @ vs)"
  using assms
proof (induction vs arbitrary: st)
  case Nil
  then show ?case by (simp add: last_n_def statistic_ok_def)
next
  case (Cons v vs)
  obtain st1 where 1: "Statistic_add v st = Inr st1" "statistic_ok st1"
    "stat_maxSize st1 = stat_maxSize st"
    "stat_values st1 = last_n (stat_maxSize st) (stat_values st @ [v])"
    using Statistic_add_ok [OF Cons.prems] by blast
  have "0 < stat_maxSize st" using Cons.prems by (simp add: statistic_ok_def)
  with Cons.IH [OF 1(2)] 1 show ?case by (simp add: last_n_append1)
qed

text \<open>The results bound every value that is kept.\<close>

lemma Statistic_bounds:
  assumes "v \<in> set (stat_values st)"
  shows "Statistic_min st \<le> v" and "v \<le> Statistic_max st"
  using assms by (auto simp: Statistic_min_def Statistic_max_def)

end
