(* ===== verification/Compressor.thy ===== *)
theory Compressor
  imports Prelude
begin

unbundle bit_operations_syntax

text \<open>
  The stream compressors (\<open>src/libaccl/stream_compressor*.cpp\<close>): an abstract class and its two
  implementations, thin layers over liblz4 and libzstd. The two libraries are not part of the
  repository: their functions and the state of their contexts (the type \<open>'s\<close>) are a parameter, the
  record \<open>codec_lib\<close>. A library function that writes to an output buffer gives the bytes it wrote.
\<close>

section \<open>The libraries\<close>

record 's codec_lib =
  LZ4_createStream :: "'s option"
  LZ4_createStreamDecode :: "'s option"
  LZ4_resetStream_fast :: "'s \<Rightarrow> 's"
  LZ4_setStreamDecode :: "'s \<Rightarrow> 's"
  LZ4_compress_fast_continue :: "'s \<Rightarrow> u8 list \<Rightarrow> int \<Rightarrow> int \<Rightarrow> int \<times> u8 list \<times> 's"
  LZ4_decompress_safe_continue :: "'s \<Rightarrow> u8 list \<Rightarrow> int \<Rightarrow> int \<times> u8 list \<times> 's"
  ZSTD_createCCtx :: "'s option"
  ZSTD_createDCtx :: "'s option"
  ZSTD_CCtx_reset :: "'s \<Rightarrow> 's"
  ZSTD_DCtx_reset :: "'s \<Rightarrow> 's"
  ZSTD_compressCCtx :: "'s \<Rightarrow> int \<Rightarrow> u8 list \<Rightarrow> int \<Rightarrow> u64 \<times> u8 list \<times> 's"
  ZSTD_decompressDCtx :: "'s \<Rightarrow> int \<Rightarrow> u8 list \<Rightarrow> u64 \<times> u8 list \<times> 's"
  ZSTD_getErrorName :: "int \<Rightarrow> string"

text \<open>The conversions of \<open>size_t\<close> to \<open>int\<close>: the low 32 bits, read as a signed number.\<close>

definition int_of_size :: "nat \<Rightarrow> int" where
  "int_of_size n = sint (word_of_nat n :: u32)"

definition int_of_u64 :: "u64 \<Rightarrow> int" where
  "int_of_u64 w = sint (ucast w :: u32)"

text \<open>The conversion of \<open>int\<close> to \<open>size_t\<close>: a negative number becomes a huge one.\<close>

definition size_of_int :: "int \<Rightarrow> nat" where
  "size_of_int i = unat (word_of_int i :: u64)"

lemma int_of_size_small [simp]: "n < 2147483648 \<Longrightarrow> int_of_size n = int n"
  by (simp add: int_of_size_def signed_of_nat signed_take_bit_int_eq_self)

lemma size_of_int_small: "0 \<le> i \<Longrightarrow> i < 2 ^ 64 \<Longrightarrow> size_of_int i = nat i"
  by (simp add: size_of_int_def unsigned_of_int take_bit_int_eq_self)

lemma size_of_int_nat [simp]: "n < 2147483648 \<Longrightarrow> size_of_int (int n) = n"
  by (simp add: size_of_int_small)

text \<open>An error code of ZSTD is the \<open>size_t\<close> minus the code: cut to \<open>int\<close> it is negative.\<close>

lemma int_of_u64_error: "0 < code \<Longrightarrow> code \<le> 2 ^ 31 \<Longrightarrow> int_of_u64 (- of_nat code) = - int code"
proof -
  assume code: "0 < code" "code \<le> 2 ^ 31"
  have "(- of_nat code :: u64) = of_int (- int code)" by simp
  then have "(ucast (- of_nat code :: u64) :: u32) = of_int (- int code)"
    by (simp only:) (rule bit_word_eqI, simp only: bit_unsigned_iff bit_word_of_int_iff, force)
  then show ?thesis
    using code by (simp add: int_of_u64_def signed_of_int signed_take_bit_int_eq_self del: of_int_minus)
qed

lemma size_of_int_negative: "i < 0 \<Longrightarrow> - (2 ^ 31) \<le> i \<Longrightarrow> 2 ^ 63 \<le> size_of_int i"
proof -
  assume i: "i < 0" "- (2 ^ 31) \<le> i"
  have "i mod 2 ^ 64 = (i + 2 ^ 64) mod 2 ^ 64" by simp
  also have "\<dots> = i + 2 ^ 64" using i by (intro mod_pos_pos_trivial) simp_all
  finally have "take_bit 64 i = i + 2 ^ 64" by (simp add: take_bit_eq_mod)
  with i show ?thesis by (simp add: size_of_int_def unsigned_of_int)
qed

section \<open>The classes\<close>

datatype algorithm = LZ4 | ZSTD

text \<open>
  An object of one of the two classes: which one it is, its compression and decompression
  contexts, and the level the base class sets.
\<close>

record 's stream_compressor =
  sc_algorithm :: algorithm
  sc_cstream :: 's
  sc_dstream :: 's
  compression_level :: int

definition StreamCompressor_level :: int where "StreamCompressor_level = 5"

definition StreamCompressorLZ4 :: "'s codec_lib \<Rightarrow> 's stream_compressor result" where
  "StreamCompressorLZ4 lib =
     (case LZ4_createStream lib of
        None \<Rightarrow> Inl (Runtime_error ''Failed to create LZ4 stream'')
      | Some c \<Rightarrow>
          (case LZ4_createStreamDecode lib of
             None \<Rightarrow> Inl (Runtime_error ''Failed to create LZ4 stream decode'')
           | Some d \<Rightarrow> Inr \<lparr>sc_algorithm = LZ4, sc_cstream = c, sc_dstream = d,
                            compression_level = StreamCompressor_level\<rparr>))"

definition StreamCompressorZSTD :: "'s codec_lib \<Rightarrow> 's stream_compressor result" where
  "StreamCompressorZSTD lib =
     (case ZSTD_createCCtx lib of
        None \<Rightarrow> Inl (Runtime_error ''Failed to create ZSTD compression context'')
      | Some c \<Rightarrow>
          (case ZSTD_createDCtx lib of
             None \<Rightarrow> Inl (Runtime_error ''Failed to create ZSTD decompression context'')
           | Some d \<Rightarrow> Inr \<lparr>sc_algorithm = ZSTD, sc_cstream = c, sc_dstream = d,
                            compression_level = StreamCompressor_level\<rparr>))"

definition resetCompressionStream :: "'s codec_lib \<Rightarrow> 's stream_compressor \<Rightarrow> 's stream_compressor" where
  "resetCompressionStream lib sc =
     (case sc_algorithm sc of
        LZ4 \<Rightarrow> sc\<lparr>sc_cstream := LZ4_resetStream_fast lib (sc_cstream sc)\<rparr>
      | ZSTD \<Rightarrow> sc\<lparr>sc_cstream := ZSTD_CCtx_reset lib (sc_cstream sc)\<rparr>)"

definition resetDecompressionStream :: "'s codec_lib \<Rightarrow> 's stream_compressor \<Rightarrow> 's stream_compressor" where
  "resetDecompressionStream lib sc =
     (case sc_algorithm sc of
        LZ4 \<Rightarrow> sc\<lparr>sc_dstream := LZ4_setStreamDecode lib (sc_dstream sc)\<rparr>
      | ZSTD \<Rightarrow> sc\<lparr>sc_dstream := ZSTD_DCtx_reset lib (sc_dstream sc)\<rparr>)"

text \<open>
  \<open>compress\<close> and \<open>decompress\<close> give the \<open>int\<close> the method returns, the bytes written to the output
  (at most \<open>max_output_size\<close> of them, which both libraries guarantee), and the object.
\<close>

definition sc_compress ::
    "'s codec_lib \<Rightarrow> u8 list \<Rightarrow> nat \<Rightarrow> 's stream_compressor \<Rightarrow> int \<times> u8 list \<times> 's stream_compressor"
where
  "sc_compress lib input max_output_size sc =
     (case sc_algorithm sc of
        LZ4 \<Rightarrow>
          (let (n, out, c) = LZ4_compress_fast_continue lib (sc_cstream sc) input
                 (int_of_size max_output_size) (compression_level sc)
           in (n, take max_output_size out, sc\<lparr>sc_cstream := c\<rparr>))
      | ZSTD \<Rightarrow>
          (let (n, out, c) = ZSTD_compressCCtx lib (sc_cstream sc)
                 (int_of_size max_output_size) input (compression_level sc)
           in (int_of_u64 n, take max_output_size out, sc\<lparr>sc_cstream := c\<rparr>)))"

definition sc_decompress ::
    "'s codec_lib \<Rightarrow> u8 list \<Rightarrow> nat \<Rightarrow> 's stream_compressor \<Rightarrow> int \<times> u8 list \<times> 's stream_compressor"
where
  "sc_decompress lib input max_output_size sc =
     (case sc_algorithm sc of
        LZ4 \<Rightarrow>
          (let (n, out, d) = LZ4_decompress_safe_continue lib (sc_dstream sc) input
                 (int_of_size max_output_size)
           in (n, take max_output_size out, sc\<lparr>sc_dstream := d\<rparr>))
      | ZSTD \<Rightarrow>
          (let (n, out, d) = ZSTD_decompressDCtx lib (sc_dstream sc)
                 (int_of_size max_output_size) input
           in (int_of_u64 n, take max_output_size out, sc\<lparr>sc_dstream := d\<rparr>)))"

definition sc_strerror :: "'s codec_lib \<Rightarrow> int \<Rightarrow> 's stream_compressor \<Rightarrow> string" where
  "sc_strerror lib err sc =
     (case sc_algorithm sc of
        LZ4 \<Rightarrow>
          (if err = 0 then ''No error'' else if err = -1 then ''Generic error''
           else if err = -2 then ''Max output size reached'' else ''Unknown error'')
      | ZSTD \<Rightarrow> ZSTD_getErrorName lib err)"

lemma algorithm_unchanged [simp]:
  "sc_algorithm (resetCompressionStream lib sc) = sc_algorithm sc"
  "sc_algorithm (resetDecompressionStream lib sc) = sc_algorithm sc"
  by (simp_all add: resetCompressionStream_def resetDecompressionStream_def split: algorithm.splits)

lemma sc_compress_algorithm [simp]:
  "sc_compress lib inp m sc = (n, out, sc') \<Longrightarrow> sc_algorithm sc' = sc_algorithm sc"
  by (cases "sc_algorithm sc") (auto simp: sc_compress_def case_prod_unfold Let_def)

lemma sc_decompress_algorithm [simp]:
  "sc_decompress lib inp m sc = (n, out, sc') \<Longrightarrow> sc_algorithm sc' = sc_algorithm sc"
  by (cases "sc_algorithm sc") (auto simp: sc_decompress_def case_prod_unfold Let_def)

lemma length_sc_compress: "sc_compress lib inp m sc = (n, out, sc') \<Longrightarrow> length out \<le> m"
  by (cases "sc_algorithm sc") (auto simp: sc_compress_def case_prod_unfold Let_def)

lemma length_sc_decompress: "sc_decompress lib inp m sc = (n, out, sc') \<Longrightarrow> length out \<le> m"
  by (cases "sc_algorithm sc") (auto simp: sc_decompress_def case_prod_unfold Let_def)

section \<open>What the codec relies on\<close>

text \<open>
  The documented behaviour of a stream compressor and decompressor that see the same sequence of
  blocks. \<open>R\<close> relates a compressing object to a decompressing one whose histories agree; it holds
  whenever both have been created or reset; and from related objects, compressing a block of at
  most \<open>mtu\<close> bytes into a buffer of \<open>cap\<close> bytes succeeds with a positive size, and the
  decompressor gives the block back and is again related.
\<close>

definition fresh_compressor :: "'s codec_lib \<Rightarrow> algorithm \<Rightarrow> 's stream_compressor \<Rightarrow> bool" where
  "fresh_compressor lib a sc \<longleftrightarrow> sc_algorithm sc = a \<and>
     ((case a of LZ4 \<Rightarrow> StreamCompressorLZ4 lib = Inr sc | ZSTD \<Rightarrow> StreamCompressorZSTD lib = Inr sc)
      \<or> (\<exists>sc0. sc = resetCompressionStream lib sc0))"

definition fresh_decompressor :: "'s codec_lib \<Rightarrow> algorithm \<Rightarrow> 's stream_compressor \<Rightarrow> bool" where
  "fresh_decompressor lib a sc \<longleftrightarrow> sc_algorithm sc = a \<and>
     ((case a of LZ4 \<Rightarrow> StreamCompressorLZ4 lib = Inr sc | ZSTD \<Rightarrow> StreamCompressorZSTD lib = Inr sc)
      \<or> (\<exists>sc0. sc = resetDecompressionStream lib sc0))"

definition lossless ::
    "'s codec_lib \<Rightarrow> algorithm \<Rightarrow> nat \<Rightarrow> nat \<Rightarrow>
       ('s stream_compressor \<Rightarrow> 's stream_compressor \<Rightarrow> bool) \<Rightarrow> bool"
where
  "lossless lib a mtu cap R \<longleftrightarrow>
     (\<forall>c d. fresh_compressor lib a c \<and> fresh_decompressor lib a d \<longrightarrow> R c d) \<and>
     (\<forall>c d x. R c d \<and> length x \<le> mtu \<longrightarrow>
        (\<exists>out c' d'. sc_compress lib x cap c = (int (length out), out, c') \<and> out \<noteq> [] \<and>
           length out \<le> cap \<and>
           sc_decompress lib out cap d = (int (length x), x, d') \<and> R c' d'))"

lemma fresh_resetI [intro]:
  "sc_algorithm sc = a \<Longrightarrow> fresh_compressor lib a (resetCompressionStream lib sc)"
  "sc_algorithm sc = a \<Longrightarrow> fresh_decompressor lib a (resetDecompressionStream lib sc)"
  by (auto simp: fresh_compressor_def fresh_decompressor_def)

lemma lossless_fresh:
  "lossless lib a mtu cap R \<Longrightarrow> fresh_compressor lib a c \<Longrightarrow> fresh_decompressor lib a d \<Longrightarrow> R c d"
  by (simp add: lossless_def)

lemma losslessE:
  assumes "lossless lib a mtu cap R" and "R c d" and "length x \<le> mtu"
  obtains out c' d' where "sc_compress lib x cap c = (int (length out), out, c')" and "out \<noteq> []"
    and "length out \<le> cap" and "sc_decompress lib out cap d = (int (length x), x, d')" and "R c' d'"
  using assms unfolding lossless_def by meson

text \<open>
  The documented effect of creating or resetting a decompressor: it has no history, so that any two
  of them behave alike from then on. \<open>B\<close> relates decompressors that behave alike.
\<close>

definition alike ::
    "'s codec_lib \<Rightarrow> nat \<Rightarrow> ('s stream_compressor \<Rightarrow> 's stream_compressor \<Rightarrow> bool) \<Rightarrow> bool"
where
  "alike lib cap B \<longleftrightarrow>
     (\<forall>a d e. fresh_decompressor lib a d \<and> fresh_decompressor lib a e \<longrightarrow> B d e) \<and>
     (\<forall>d e x. B d e \<longrightarrow> (\<exists>n out d' e'. sc_decompress lib x cap d = (n, out, d') \<and>
        sc_decompress lib x cap e = (n, out, e') \<and> B d' e'))"

lemma alike_fresh:
  "alike lib cap B \<Longrightarrow> fresh_decompressor lib a d \<Longrightarrow> fresh_decompressor lib a e \<Longrightarrow> B d e"
  unfolding alike_def by blast

lemma alike_decompress:
  assumes "alike lib cap B" and "B d e" and "sc_decompress lib x cap d = (n, out, d')"
  obtains e' where "sc_decompress lib x cap e = (n, out, e')" and "B d' e'"
proof -
  obtain n1 out1 d1 e1 where "sc_decompress lib x cap d = (n1, out1, d1)"
    "sc_decompress lib x cap e = (n1, out1, e1)" "B d1 e1"
    using assms(1,2) unfolding alike_def by blast
  with assms(3) that show thesis by simp
qed

section \<open>A library that stores\<close>

text \<open>
  The simplest pair of functions with that behaviour, one byte in front of the block: it shows that
  what the codec relies on can hold.
\<close>

definition store_codec :: "unit codec_lib" where
  "store_codec =
     \<lparr>LZ4_createStream = Some (), LZ4_createStreamDecode = Some (),
      LZ4_resetStream_fast = (\<lambda>s. s), LZ4_setStreamDecode = (\<lambda>s. s),
      LZ4_compress_fast_continue = (\<lambda>s x cap level. (int (length x) + 1, 0 # x, s)),
      LZ4_decompress_safe_continue = (\<lambda>s x cap. (min cap (int (length x) - 1), tl x, s)),
      ZSTD_createCCtx = Some (), ZSTD_createDCtx = Some (),
      ZSTD_CCtx_reset = (\<lambda>s. s), ZSTD_DCtx_reset = (\<lambda>s. s),
      ZSTD_compressCCtx = (\<lambda>s cap x level. (of_nat (length x + 1), 0 # x, s)),
      ZSTD_decompressDCtx = (\<lambda>s cap x. (of_nat (nat (min cap (int (length x) - 1))), tl x, s)),
      ZSTD_getErrorName = (\<lambda>e. ''error'')\<rparr>"

definition stores :: "algorithm \<Rightarrow> unit stream_compressor \<Rightarrow> unit stream_compressor \<Rightarrow> bool" where
  "stores a c d \<longleftrightarrow> sc_algorithm c = a \<and> sc_algorithm d = a"

lemma int_of_u64_small: "n < 2147483648 \<Longrightarrow> int_of_u64 (of_nat n) = int n"
proof -
  assume n: "n < 2147483648"
  have "(ucast (of_nat n :: u64) :: u32) = of_nat n"
    using n by (simp add: unsigned_of_nat take_bit_nat_eq_self)
  with n show ?thesis
    by (simp add: int_of_u64_def signed_of_nat signed_take_bit_int_eq_self)
qed

lemma store_codec_lossless:
  assumes "mtu < cap" and "cap < 65536"
  shows "lossless store_codec a mtu cap (stores a)"
  unfolding lossless_def
proof (intro conjI allI impI)
  fix c d :: "unit stream_compressor" and x :: "u8 list"
  assume x: "stores a c d \<and> length x \<le> mtu"
  have len: "int_of_u64 (of_nat (length x + 1)) = int (length x + 1)"
    "int_of_u64 (of_nat (length x)) = int (length x)"
    using x assms by (intro int_of_u64_small; simp)+
  show "\<exists>out c' d'. sc_compress store_codec x cap c = (int (length out), out, c') \<and> out \<noteq> [] \<and>
      length out \<le> cap \<and>
      sc_decompress store_codec out cap d = (int (length x), x, d') \<and> stores a c' d'"
  proof (intro exI conjI)
    show "sc_compress store_codec x cap c = (int (length (0 # x)), 0 # x, c)"
      using x assms len by (cases a) (simp_all add: sc_compress_def store_codec_def stores_def add.commute)
    show "sc_decompress store_codec (0 # x) cap d = (int (length x), x, d)"
      using x assms len
      by (cases a) (simp_all add: sc_decompress_def store_codec_def stores_def)
  qed (use x assms in \<open>auto simp: stores_def\<close>)
qed (auto simp: fresh_compressor_def fresh_decompressor_def stores_def)

lemma store_codec_decompress:
  "sc_decompress store_codec x cap sc =
     (fst (sc_decompress store_codec x cap \<lparr>sc_algorithm = sc_algorithm sc, sc_cstream = (), sc_dstream = (),
        compression_level = 0\<rparr>), take cap (tl x), sc)"
  by (cases "sc_algorithm sc") (simp_all add: sc_decompress_def store_codec_def)

lemma store_codec_alike: "alike store_codec cap (\<lambda>d e. sc_algorithm d = sc_algorithm e)"
  unfolding alike_def
proof (intro conjI allI impI)
  fix d e :: "unit stream_compressor" and x :: "u8 list"
  assume "sc_algorithm d = sc_algorithm e"
  then show "\<exists>n out d' e'. sc_decompress store_codec x cap d = (n, out, d') \<and>
      sc_decompress store_codec x cap e = (n, out, e') \<and> sc_algorithm d' = sc_algorithm e'"
    by (subst store_codec_decompress [of x cap d], subst store_codec_decompress [of x cap e]) simp
qed (auto simp: fresh_decompressor_def)

end
