(* ===== verification/Codec.thy ===== *)
theory Codec
  imports Endian
begin

unbundle bit_operations_syntax

text \<open>
  The wire format of the tunnel (\<open>src/codec.hpp\<close>): the header of an encapsulating packet and the
  option header in front of every payload, as packed structs. The bit fields are words of their
  width. \<open>codec.hpp\<close> chooses the order of the bit fields by comparing \<open>SETH_BYTE_ORDER\<close> with
  \<open>SETH_BIG_ENDIAN\<close>, neither of which is defined anywhere: both are 0 for the preprocessor, so the
  first alternative is compiled on every machine, and on a little-endian one its first field lies
  in the low bits.
\<close>

section \<open>The packet header\<close>

record packet_header =
  ph_ver :: "4 word"
  ph_opt_len :: "4 word"
  ph_oam :: "1 word"
  ph_critical :: "1 word"
  ph_reserved :: "6 word"
  ph_format :: u8
  ph_channel :: u8
  ph_sequence :: u32

definition SETH_PACKET_HEADER_VERSION_V1 :: u8 where "SETH_PACKET_HEADER_VERSION_V1 = 1"

datatype PacketHeaderFormat = ENCAPSULATED

fun PacketHeaderFormat_value :: "PacketHeaderFormat \<Rightarrow> u8" where
  "PacketHeaderFormat_value ENCAPSULATED = 0x1"

definition sizeof_PacketHeader :: nat where "sizeof_PacketHeader = 8"

text \<open>\<open>PacketHeader_bytes\<close> is the struct in memory, \<open>PacketHeader_at\<close> the overlay on memory.\<close>

definition PacketHeader_bytes :: "packet_header \<Rightarrow> u8 list" where
  "PacketHeader_bytes h =
     [ucast (ph_ver h) OR push_bit 4 (ucast (ph_opt_len h)),
      ucast (ph_oam h) OR push_bit 1 (ucast (ph_critical h)) OR push_bit 2 (ucast (ph_reserved h)),
      ph_format h, ph_channel h] @ store32 (ph_sequence h)"

definition PacketHeader_at :: "u8 list \<Rightarrow> packet_header" where
  "PacketHeader_at bs =
     \<lparr>ph_ver = ucast (bs ! 0), ph_opt_len = ucast (drop_bit 4 (bs ! 0)),
      ph_oam = ucast (bs ! 1), ph_critical = ucast (drop_bit 1 (bs ! 1)),
      ph_reserved = ucast (drop_bit 2 (bs ! 1)),
      ph_format = bs ! 2, ph_channel = bs ! 3, ph_sequence = load32 (drop 4 bs)\<rparr>"

section \<open>The option header\<close>

datatype PacketHeaderOptionType = PARTIAL_PACKET | COMPLETE_PACKET

fun PacketHeaderOptionType_value :: "PacketHeaderOptionType \<Rightarrow> u8" where
  "PacketHeaderOptionType_value PARTIAL_PACKET = 0x1"
| "PacketHeaderOptionType_value COMPLETE_PACKET = 0x2"

datatype PacketHeaderOptionFormatType = FORMAT_NONE | COMPRESSED_LZ4 | COMPRESSED_ZSTD

fun PacketHeaderOptionFormatType_value :: "PacketHeaderOptionFormatType \<Rightarrow> u8" where
  "PacketHeaderOptionFormatType_value FORMAT_NONE = 0x0"
| "PacketHeaderOptionFormatType_value COMPRESSED_LZ4 = 0x1"
| "PacketHeaderOptionFormatType_value COMPRESSED_ZSTD = 0x2"

text \<open>The values on the wire are bytes, so the fields of the struct are bytes too.\<close>

record packet_header_option =
  po_type :: u8
  po_packet_size :: u16
  po_format :: u8
  po_payload_length :: u16
  po_part :: u8
  po_reserved :: u8

definition sizeof_PacketHeaderOption :: nat where "sizeof_PacketHeaderOption = 8"

definition PacketHeaderOption_bytes :: "packet_header_option \<Rightarrow> u8 list" where
  "PacketHeaderOption_bytes o' =
     [po_type o'] @ store16 (po_packet_size o') @ [po_format o'] @ store16 (po_payload_length o')
       @ [po_part o', po_reserved o']"

definition PacketHeaderOption_at :: "u8 list \<Rightarrow> packet_header_option" where
  "PacketHeaderOption_at bs =
     \<lparr>po_type = bs ! 0, po_packet_size = load16 (slice 1 2 bs), po_format = bs ! 3,
      po_payload_length = load16 (slice 4 2 bs), po_part = bs ! 6, po_reserved = bs ! 7\<rparr>"

definition OPTION_TYPE_IS_VALID :: "packet_header_option \<Rightarrow> bool" where
  "OPTION_TYPE_IS_VALID o' \<longleftrightarrow>
     po_type o' AND NOT (PacketHeaderOptionType_value COMPLETE_PACKET
                         OR PacketHeaderOptionType_value PARTIAL_PACKET) = 0"

definition OPTION_TYPE_IS_PARTIAL :: "packet_header_option \<Rightarrow> bool" where
  "OPTION_TYPE_IS_PARTIAL o' \<longleftrightarrow>
     po_type o' AND PacketHeaderOptionType_value PARTIAL_PACKET
       = PacketHeaderOptionType_value PARTIAL_PACKET"

definition OPTION_TYPE_IS_COMPLETE :: "packet_header_option \<Rightarrow> bool" where
  "OPTION_TYPE_IS_COMPLETE o' \<longleftrightarrow>
     po_type o' AND PacketHeaderOptionType_value COMPLETE_PACKET
       = PacketHeaderOptionType_value COMPLETE_PACKET"

definition OPTION_FORMAT_IS_COMPRESSED :: "packet_header_option \<Rightarrow> bool" where
  "OPTION_FORMAT_IS_COMPRESSED o' \<longleftrightarrow>
     po_format o' = PacketHeaderOptionFormatType_value COMPRESSED_LZ4 \<or>
     po_format o' = PacketHeaderOptionFormatType_value COMPRESSED_ZSTD"

definition SETH_DEFAULT_PACKET_FORMAT :: PacketHeaderOptionFormatType where
  "SETH_DEFAULT_PACKET_FORMAT = COMPRESSED_LZ4"

definition SETH_PACKET_ETHERNET_HEADER_LEN :: u16 where "SETH_PACKET_ETHERNET_HEADER_LEN = 14"

definition SETH_PACKET_MAX_SIZE :: u16 where
  "SETH_PACKET_MAX_SIZE = 0xFFFF - SETH_PACKET_ETHERNET_HEADER_LEN"

definition PacketHeaderOptionFormatTypeToString :: "u8 \<Rightarrow> string" where
  "PacketHeaderOptionFormatTypeToString t =
     (if t = PacketHeaderOptionFormatType_value FORMAT_NONE then ''none''
      else if t = PacketHeaderOptionFormatType_value COMPRESSED_LZ4 then ''lz4''
      else if t = PacketHeaderOptionFormatType_value COMPRESSED_ZSTD then ''zstd''
      else ''unknown'')"

section \<open>Reading back what was written\<close>

lemma length_header_bytes [simp]:
  "length (PacketHeader_bytes h) = 8" "length (PacketHeaderOption_bytes o') = 8"
  by (simp_all add: PacketHeader_bytes_def PacketHeaderOption_bytes_def)

lemma nibbles:
  "ucast (ucast (a :: 4 word) OR push_bit 4 (ucast (b :: 4 word)) :: u8) = a"
  "ucast (drop_bit 4 (ucast (a :: 4 word) OR push_bit 4 (ucast (b :: 4 word)) :: u8)) = b"
  by (rule bit_word_eqI, simp only: bit_unsigned_iff bit_or_iff bit_push_bit_iff bit_drop_bit_eq
      comp_def, force dest: bit_word_less)+

lemma flag_bits:
  fixes a b :: "1 word" and c :: "6 word"
  defines "x \<equiv> ucast a OR push_bit 1 (ucast b) OR push_bit 2 (ucast c) :: u8"
  shows "ucast x = a" "ucast (drop_bit 1 x) = b" "ucast (drop_bit 2 x) = c"
  unfolding x_def
  by (rule bit_word_eqI, simp only: bit_unsigned_iff bit_or_iff bit_push_bit_iff bit_drop_bit_eq
      comp_def, force dest: bit_word_less)+

lemma PacketHeader_at_bytes [simp]: "PacketHeader_at (PacketHeader_bytes h) = h"
proof -
  have "drop 4 (PacketHeader_bytes h) = store32 (ph_sequence h)"
    by (simp add: PacketHeader_bytes_def)
  moreover have "PacketHeader_bytes h ! 2 = ph_format h" and "PacketHeader_bytes h ! 3 = ph_channel h"
    by (simp_all add: PacketHeader_bytes_def)
  moreover have "PacketHeader_bytes h ! 0 = ucast (ph_ver h) OR push_bit 4 (ucast (ph_opt_len h))"
    and "PacketHeader_bytes h ! 1 = ucast (ph_oam h) OR push_bit 1 (ucast (ph_critical h))
      OR push_bit 2 (ucast (ph_reserved h))"
    by (simp_all only: PacketHeader_bytes_def append_Cons nth_Cons_0 One_nat_def nth_Cons_Suc)
  ultimately show ?thesis
    by (cases h) (simp only: PacketHeader_at_def nibbles flag_bits load32_store32 packet_header.select_convs)
qed

lemma PacketHeaderOption_at_bytes [simp]: "PacketHeaderOption_at (PacketHeaderOption_bytes o') = o'"
  by (cases o') (simp add: PacketHeaderOption_bytes_def PacketHeaderOption_at_def slice_def
      nth_append nth_Cons')

text \<open>And back: every 8 bytes are a header.\<close>

lemma byte_of_fields:
  fixes b :: u8
  shows "ucast (ucast b :: 4 word) OR push_bit 4 (ucast (ucast (drop_bit 4 b) :: 4 word)) = b"
    and "ucast (ucast b :: 1 word) OR push_bit 1 (ucast (ucast (drop_bit 1 b) :: 1 word))
      OR push_bit 2 (ucast (ucast (drop_bit 2 b) :: 6 word)) = b"
proof -
  note bits = bit_unsigned_iff bit_or_iff bit_push_bit_iff bit_drop_bit_eq comp_def
  show "ucast (ucast b :: 4 word) OR push_bit 4 (ucast (ucast (drop_bit 4 b) :: 4 word)) = b"
    by (rule bit_word_eqI, simp only: bits) (fastforce dest: bit_word_less simp: not_less)
  show "ucast (ucast b :: 1 word) OR push_bit 1 (ucast (ucast (drop_bit 1 b) :: 1 word))
      OR push_bit 2 (ucast (ucast (drop_bit 2 b) :: 6 word)) = b"
  proof (rule bit_word_eqI)
    fix n assume "n < LENGTH(8)"
    then consider "n = 0" | "n = 1" | m where "n = m + 2" "m < 6"
      by (cases n rule: nat.exhaust; cases "n - 1" rule: nat.exhaust) auto
    then show "bit (ucast (ucast b :: 1 word) OR push_bit 1 (ucast (ucast (drop_bit 1 b) :: 1 word))
      OR push_bit 2 (ucast (ucast (drop_bit 2 b) :: 6 word)) :: u8) n = bit b n"
      by cases (simp_all only: bits, auto simp: bit_u8_beyond)
  qed
qed

lemma PacketHeader_bytes_at: "length bs = 8 \<Longrightarrow> PacketHeader_bytes (PacketHeader_at bs) = bs"
proof -
  assume "length bs = 8"
  then obtain a b c d rest where bs: "bs = a # b # c # d # rest" "length rest = 4"
    by (auto simp: eval_nat_numeral length_Suc_conv)
  then have at: "bs ! 0 = a" "bs ! 1 = b" "bs ! 2 = c" "bs ! 3 = d" "drop 4 bs = rest" by simp_all
  show ?thesis
    unfolding PacketHeader_bytes_def PacketHeader_at_def packet_header.select_convs at byte_of_fields
      store32_load32 [OF bs(2)] by (simp add: bs(1))
qed

lemma PacketHeaderOption_bytes_at:
  "length bs = 8 \<Longrightarrow> PacketHeaderOption_bytes (PacketHeaderOption_at bs) = bs"
proof -
  assume "length bs = 8"
  then obtain a b c d e f g h where bs: "bs = [a, b, c, d, e, f, g, h]"
    by (auto simp: eval_nat_numeral length_Suc_conv)
  then show ?thesis
    by (simp add: PacketHeaderOption_bytes_def PacketHeaderOption_at_def slice_def store16_load16)
qed

interpretation header: wire_format PacketHeader_bytes PacketHeader_at sizeof_PacketHeader
  by unfold_locales (simp_all add: sizeof_PacketHeader_def PacketHeader_bytes_at)

interpretation option_header: wire_format
    PacketHeaderOption_bytes PacketHeaderOption_at sizeof_PacketHeaderOption
  by unfold_locales (simp_all add: sizeof_PacketHeaderOption_def PacketHeaderOption_bytes_at)

text \<open>The type tests on the four values that pass the validity test.\<close>

lemma u8_and_not_3: "(t :: u8) AND NOT 3 = 0 \<longleftrightarrow> t \<in> {0, 1, 2, 3}"
proof
  assume z: "t AND NOT 3 = 0"
  have eq: "t = t AND 3" by (rule word_split_mask [of t 3, unfolded z or.right_neutral])
  have "t \<le> 3" by (subst eq) (rule word_and_le1)
  then have "unat t \<le> 3" by (simp add: word_le_nat_alt)
  then have "unat t \<in> {0, 1, 2, 3}" by auto
  then have "of_nat (unat t) \<in> (of_nat ` {0, 1, 2, 3} :: u8 set)" by (rule imageI)
  then show "t \<in> {0, 1, 2, 3}" by simp
next
  assume "t \<in> {0, 1, 2, 3}"
  then show "t AND NOT 3 = 0" by (elim insertE emptyE) simp_all
qed

lemma OPTION_TYPE_IS_VALID_iff: "OPTION_TYPE_IS_VALID o' \<longleftrightarrow> po_type o' \<in> {0, 1, 2, 3}"
  using u8_and_not_3 [of "po_type o'"] by (simp add: OPTION_TYPE_IS_VALID_def)

lemma OPTION_TYPE_IS_PARTIAL_bit: "OPTION_TYPE_IS_PARTIAL o' \<longleftrightarrow> bit (po_type o') 0"
  by (simp add: OPTION_TYPE_IS_PARTIAL_def and_one_eq bit_0 odd_iff_mod_2_eq_one)

text \<open>
  The validity test lets the type 0 pass, which is neither a partial nor a complete packet.
\<close>

lemma type_0_valid: "po_type o' = 0 \<Longrightarrow>
    OPTION_TYPE_IS_VALID o' \<and> \<not> OPTION_TYPE_IS_PARTIAL o' \<and> \<not> OPTION_TYPE_IS_COMPLETE o'"
  by (simp add: OPTION_TYPE_IS_VALID_def OPTION_TYPE_IS_PARTIAL_def OPTION_TYPE_IS_COMPLETE_def)

lemma formats_distinct:
  "PacketHeaderOptionFormatType_value f = PacketHeaderOptionFormatType_value g \<longleftrightarrow> f = g"
  by (cases f; cases g) simp_all

lemma format_string_inject:
  "PacketHeaderOptionFormatTypeToString (PacketHeaderOptionFormatType_value f) =
   PacketHeaderOptionFormatTypeToString (PacketHeaderOptionFormatType_value g) \<longleftrightarrow> f = g"
  by (cases f; cases g) (simp_all add: PacketHeaderOptionFormatTypeToString_def)

end
