(* ===== verification/Encoder.thy ===== *)
theory Encoder
  imports Buffer_Pool Statistic Compressor Codec
begin

unbundle bit_operations_syntax

text \<open>
  The packet encoder (\<open>class PacketEncoder\<close>, \<open>src/encoder.cpp\<close>): it stuffs the frames it is given
  into encapsulating packets of at most \<open>l4mtu\<close> bytes, splitting a frame over several packets
  where it must. The members of the class are the fields of a record; the two pools the object
  shares with other threads are fields too, holding what the encoder finds in them. The
  compression libraries (\<open>lib\<close>) and the division of two sizes in floating point (\<open>ratio\<close>) are
  parameters.
\<close>

section \<open>The state of an encoder\<close>

record ('s, 'f) encoder =
  enc_l2mtu :: u16
  enc_l4mtu :: u16
  enc_sequence :: u32
  enc_tx_buffer :: packet_buffer
  enc_inflight_buffers :: "packet_buffer list"
  enc_packet_format :: u8
  enc_compressor :: "'s stream_compressor option"
  enc_comp_buffer :: "packet_buffer option"
  enc_opt_len :: u16
  enc_packet_count :: u32
  enc_available_buffer_pool :: packet_pool
  enc_tx_buffer_pool :: packet_pool
  enc_statCompressionRatio :: "'f statistic"

definition UINT32_MAX :: u32 where "UINT32_MAX = 0xFFFFFFFF"

section \<open>The operations\<close>

text \<open>Take a buffer for the next encapsulating packet: empty, with room for the packet header.\<close>

definition encoder_take_buffer :: "packet_pool \<Rightarrow> (packet_buffer \<times> packet_pool) result" where
  "encoder_take_buffer avail =
     rbind (BufferPool_pop_wait avail) (\<lambda>(b, avail').
     rbind (Buffer_setDataSize sizeof_PacketHeader (Buffer_clear b)) (\<lambda>b'.
     Inr (b', avail')))"

definition encoder_getTxBuffer :: "('s, 'f) encoder \<Rightarrow> ('s, 'f) encoder result" where
  "encoder_getTxBuffer e =
     rbind (encoder_take_buffer (enc_available_buffer_pool e)) (\<lambda>(b, avail).
     Inr (e\<lparr>enc_tx_buffer := b, enc_available_buffer_pool := avail,
            enc_opt_len := 0, enc_packet_count := 0\<rparr>))"

text \<open>\<open>_flush\<close>: write the packet header, hand the packet over, take another buffer.\<close>

definition encoder_flush_buffer :: "('s, 'f) encoder \<Rightarrow> ('s, 'f) encoder result" where
  "encoder_flush_buffer e =
     (if Buffer_getDataSize (enc_tx_buffer e) = sizeof_PacketHeader then Inr e
      else
        let seq = (if enc_sequence e = UINT32_MAX then 1 else enc_sequence e);
            header = \<lparr>ph_ver = ucast SETH_PACKET_HEADER_VERSION_V1,
                      ph_opt_len = ucast (enc_opt_len e), ph_oam = 0, ph_critical = 0,
                      ph_reserved = 0, ph_format = PacketHeaderFormat_value ENCAPSULATED,
                      ph_channel = 0, ph_sequence = cpu_to_be_32 seq\<rparr>
        in rbind (Buffer_write 0 (PacketHeader_bytes header) (enc_tx_buffer e)) (\<lambda>b.
           rbind (BufferPool_push b (enc_tx_buffer_pool e)) (\<lambda>txp.
           encoder_getTxBuffer (e\<lparr>enc_sequence := seq + 1, enc_tx_buffer_pool := txp\<rparr>))))"

text \<open>\<open>_getMaxPayloadSize\<close>: the argument is not used by the code.\<close>

definition encoder_getMaxPayloadSize :: "u16 \<Rightarrow> ('s, 'f) encoder \<Rightarrow> u16" where
  "encoder_getMaxPayloadSize sz e =
     (let used = int (Buffer_getDataSize (enc_tx_buffer e));
          m0 = uint (enc_l4mtu e);
          m1 = (if used = 0 then m0 - int sizeof_PacketHeader else m0);
          m2 = m1 - int sizeof_PacketHeaderOption;
          m3 = m2 - used
      in if m3 \<le> 0 then 0 else word_of_int m3)"

definition encoder_flushInflight :: "'s codec_lib \<Rightarrow> ('s, 'f) encoder \<Rightarrow> ('s, 'f) encoder result" where
  "encoder_flushInflight lib e =
     (if enc_inflight_buffers e = [] then Inr e
      else
        rbind (BufferPool_push_list (enc_inflight_buffers e) (enc_available_buffer_pool e))
          (\<lambda>(avail, rest).
        Inr (e\<lparr>enc_available_buffer_pool := avail, enc_inflight_buffers := rest,
               enc_compressor := map_option (resetCompressionStream lib) (enc_compressor e)\<rparr>)))"

definition encoder_pushInflight :: "packet_buffer \<Rightarrow> ('s, 'f) encoder \<Rightarrow> ('s, 'f) encoder" where
  "encoder_pushInflight b e = e\<lparr>enc_inflight_buffers := enc_inflight_buffers e @ [b]\<rparr>"

definition PacketEncoder ::
    "u16 \<Rightarrow> u16 \<Rightarrow> packet_pool \<Rightarrow> packet_pool \<Rightarrow> ('s, 'f) encoder result"
where
  "PacketEncoder l2mtu l4mtu tx_pool avail =
     rbind (BufferPool_pop_wait avail) (\<lambda>(cbuf, avail1).
     rbind (encoder_take_buffer avail1) (\<lambda>(tx, avail2).
     Inr \<lparr>enc_l2mtu = l2mtu, enc_l4mtu = l4mtu, enc_sequence = 1, enc_tx_buffer = tx,
          enc_inflight_buffers = [],
          enc_packet_format = PacketHeaderOptionFormatType_value FORMAT_NONE,
          enc_compressor = None, enc_comp_buffer = Some cbuf, enc_opt_len = 0,
          enc_packet_count = 0, enc_available_buffer_pool = avail2, enc_tx_buffer_pool = tx_pool,
          enc_statCompressionRatio = Statistic 1000\<rparr>))"

definition encoder_setPacketFormat ::
    "'s codec_lib \<Rightarrow> u8 \<Rightarrow> ('s, 'f) encoder \<Rightarrow> ('s, 'f) encoder result"
where
  "encoder_setPacketFormat lib format e =
     (let e' = e\<lparr>enc_packet_format := format\<rparr> in
      if format = PacketHeaderOptionFormatType_value FORMAT_NONE then
        Inr (e'\<lparr>enc_compressor := None\<rparr>)
      else if format = PacketHeaderOptionFormatType_value COMPRESSED_LZ4 then
        rbind (StreamCompressorLZ4 lib) (\<lambda>sc. Inr (e'\<lparr>enc_compressor := Some sc\<rparr>))
      else if format = PacketHeaderOptionFormatType_value COMPRESSED_ZSTD then
        rbind (StreamCompressorZSTD lib) (\<lambda>sc. Inr (e'\<lparr>enc_compressor := Some sc\<rparr>))
      else Inl (Runtime_error ''Unknown packet format''))"

text \<open>
  The first part of \<open>encode\<close>: the frame, compressed or not, that goes into the packets, with the
  format its option headers carry. A compressed frame takes the compression buffer, and the raw
  frame stays in flight; when the compressor returns 0 the raw frame is used.
\<close>

definition encoder_compress ::
    "(int \<Rightarrow> u16 \<Rightarrow> 'f) \<Rightarrow> 's codec_lib \<Rightarrow> packet_buffer \<Rightarrow> ('s, 'f) encoder \<Rightarrow>
       (packet_buffer \<times> u8 \<times> ('s, 'f) encoder) result"
where
  "encoder_compress ratio lib raw e =
     (let original_size = (of_nat (Buffer_getDataSize raw) :: u16) in
      if enc_packet_format e \<noteq> PacketHeaderOptionFormatType_value FORMAT_NONE then
        (case (enc_compressor e, enc_comp_buffer e) of
           (Some sc, Some cbuf) \<Rightarrow>
             rbind (Buffer_read 0 (unat original_size) raw) (\<lambda>input.
             let (compressed_size, out, sc') = sc_compress lib input (Buffer_getBufferSize cbuf) sc in
             rbind (Buffer_write 0 out cbuf) (\<lambda>cbuf1.
             rbind (if compressed_size \<noteq> 0 then
                      rbind (Buffer_setDataSize (size_of_int compressed_size) cbuf1) (\<lambda>cbuf2.
                      Inr (cbuf2, enc_packet_format e,
                           encoder_pushInflight raw
                             (e\<lparr>enc_compressor := Some sc', enc_comp_buffer := None\<rparr>)))
                    else
                      Inr (raw, PacketHeaderOptionFormatType_value FORMAT_NONE,
                           e\<lparr>enc_compressor := Some sc', enc_comp_buffer := Some cbuf1\<rparr>))
               (\<lambda>(packet, format, e1).
             rbind (Statistic_add (ratio compressed_size original_size) (enc_statCompressionRatio e1))
               (\<lambda>stat. Inr (packet, format, e1\<lparr>enc_statCompressionRatio := stat\<rparr>)))))
         | _ \<Rightarrow> Inl Null_pointer)
      else Inr (raw, enc_packet_format e, e))"

text \<open>
  Add an option header and a payload behind the data of the packet under construction: the part
  that the two branches of \<open>encode\<close> have in common.
\<close>

definition encoder_add_payload ::
    "packet_header_option \<Rightarrow> u8 list \<Rightarrow> ('s, 'f) encoder \<Rightarrow> ('s, 'f) encoder result"
where
  "encoder_add_payload option payload e =
     (let cur = Buffer_getDataSize (enc_tx_buffer e) in
      rbind (Buffer_write cur (PacketHeaderOption_bytes option) (enc_tx_buffer e)) (\<lambda>b1.
      rbind (Buffer_setDataSize (cur + sizeof_PacketHeaderOption) b1) (\<lambda>b2.
      rbind (Buffer_append payload b2) (\<lambda>b3.
      Inr (e\<lparr>enc_tx_buffer := b3,
             enc_opt_len := (if enc_packet_count e = 0 then enc_opt_len e + 1 else enc_opt_len e),
             enc_packet_count := enc_packet_count e + 1\<rparr>)))))"

text \<open>One round of the loop that splits a frame: the encoder, the position in it, the part.\<close>

type_synonym ('s, 'f) parts_state = "('s, 'f) encoder \<times> u16 \<times> u8"

definition encoder_part ::
    "u16 \<Rightarrow> u8 \<Rightarrow> packet_buffer \<Rightarrow> ('s, 'f) parts_state \<Rightarrow> ('s, 'f) parts_state result"
where
  "encoder_part original_size format packet = (\<lambda>(e, packet_pos, part).
     (let packet_left = (of_nat (Buffer_getDataSize packet - unat packet_pos) :: u16);
          max_payload_size = encoder_getMaxPayloadSize packet_left e;
          part_size = (if packet_left > max_payload_size then max_payload_size else packet_left);
          cur = Buffer_getDataSize (enc_tx_buffer e);
          option = \<lparr>po_type = PacketHeaderOptionType_value PARTIAL_PACKET,
                    po_packet_size = cpu_to_be_16 original_size, po_format = format,
                    po_payload_length = cpu_to_be_16 part_size, po_part = part, po_reserved = 0\<rparr>
      in rbind (Buffer_read (unat packet_pos) (unat part_size) packet) (\<lambda>payload.
         rbind (encoder_add_payload option payload e) (\<lambda>e1.
         rbind (if packet_left - part_size = 0
                then Buffer_write cur [po_type option OR PacketHeaderOptionType_value COMPLETE_PACKET]
                       (enc_tx_buffer e1)
                else Inr (enc_tx_buffer e1)) (\<lambda>b.
         let e2 = e1\<lparr>enc_tx_buffer := b\<rparr> in
         rbind (if Buffer_getDataSize b = unat (enc_l4mtu e2) then encoder_flush_buffer e2
                else Inr e2) (\<lambda>e3.
         Inr (e3, packet_pos + part_size, part + 1)))))))"

definition encoder_parts ::
    "u16 \<Rightarrow> u8 \<Rightarrow> packet_buffer \<Rightarrow> ('s, 'f) parts_state \<Rightarrow> ('s, 'f) parts_state result"
where
  "encoder_parts original_size format packet =
     rwhile (\<lambda>(e, packet_pos, part). unat packet_pos < Buffer_getDataSize packet)
       (encoder_part original_size format packet)"

definition encoder_complete ::
    "u16 \<Rightarrow> u8 \<Rightarrow> packet_buffer \<Rightarrow> ('s, 'f) encoder \<Rightarrow> ('s, 'f) encoder result"
where
  "encoder_complete original_size format packet e =
     (let option = \<lparr>po_type = PacketHeaderOptionType_value COMPLETE_PACKET,
                    po_packet_size = cpu_to_be_16 original_size, po_format = format,
                    po_payload_length = cpu_to_be_16 (of_nat (Buffer_getDataSize packet)),
                    po_part = 0, po_reserved = 0\<rparr>
      in rbind (Buffer_read 0 (Buffer_getDataSize packet) packet) (\<lambda>payload.
         encoder_add_payload option payload e))"

definition encoder_encode ::
    "(int \<Rightarrow> u16 \<Rightarrow> 'f) \<Rightarrow> 's codec_lib \<Rightarrow> packet_buffer \<Rightarrow> ('s, 'f) encoder \<Rightarrow> ('s, 'f) encoder result"
where
  "encoder_encode ratio lib raw e =
     (let original_size = (of_nat (Buffer_getDataSize raw) :: u16) in
      if original_size > enc_l2mtu e then
        rbind (BufferPool_push raw (enc_available_buffer_pool e)) (\<lambda>avail.
        Inr (e\<lparr>enc_available_buffer_pool := avail\<rparr>))
      else
        rbind (encoder_compress ratio lib raw e) (\<lambda>(packet, format, e1).
        rbind (if Buffer_getDataSize packet
                    > unat (encoder_getMaxPayloadSize (of_nat (Buffer_getDataSize packet)) e1)
               then
                 rbind (encoder_parts original_size format packet (e1, 0, 1)) (\<lambda>(e2, _, _).
                 encoder_flushInflight lib e2)
               else encoder_complete original_size format packet e1) (\<lambda>e3.
        rbind (if unat (encoder_getMaxPayloadSize SETH_PACKET_MAX_SIZE e3)
                    < sizeof_PacketHeader + sizeof_PacketHeaderOption * 10
               then rbind (encoder_flush_buffer e3) (encoder_flushInflight lib)
               else Inr e3) (\<lambda>e4.
        if enc_packet_format e4 \<noteq> PacketHeaderOptionFormatType_value FORMAT_NONE \<and>
           enc_comp_buffer e4 = None
        then Inr (e4\<lparr>enc_comp_buffer := Some packet\<rparr>)
        else rbind (BufferPool_push packet (enc_available_buffer_pool e4)) (\<lambda>avail.
             Inr (e4\<lparr>enc_available_buffer_pool := avail\<rparr>))))))"

definition encoder_flush :: "'s codec_lib \<Rightarrow> ('s, 'f) encoder \<Rightarrow> ('s, 'f) encoder result" where
  "encoder_flush lib e = rbind (encoder_flush_buffer e) (encoder_flushInflight lib)"

definition encoder_setSequence :: "u32 \<Rightarrow> ('s, 'f) encoder \<Rightarrow> ('s, 'f) encoder" where
  "encoder_setSequence seq e = e\<lparr>enc_sequence := seq\<rparr>"

definition encoder_encode_all ::
    "(int \<Rightarrow> u16 \<Rightarrow> 'f) \<Rightarrow> 's codec_lib \<Rightarrow> packet_buffer list \<Rightarrow> ('s, 'f) encoder \<Rightarrow> ('s, 'f) encoder result"
where
  "encoder_encode_all ratio lib = rfold (encoder_encode ratio lib)"

end
