(* ===== verification/Decoder.thy ===== *)
theory Decoder
  imports Buffer_Pool Compressor Codec
begin

unbundle bit_operations_syntax

text \<open>
  The packet decoder (\<open>class PacketDecoder\<close>, \<open>src/decoder.cpp\<close>): it takes the frames out of the
  encapsulating packets, putting those together that were split. The members of the class are the
  fields of a record, the two pools included. An access of the code through a pointer into a
  buffer is an access to the buffer's vector, which fails outside of it.
\<close>

section \<open>The state of a decoder\<close>

record 's decoder =
  dec_l2mtu :: u16
  dec_first_packet :: bool
  dec_last_sequence :: u32
  dec_last_part :: u8
  dec_last_format :: u8
  dec_last_orig_packet_size :: u16
  dec_tx_buffer :: packet_buffer
  dec_inflight_buffers :: "packet_buffer list"
  dec_compressorLZ4 :: "'s stream_compressor"
  dec_compressorZSTD :: "'s stream_compressor"
  dec_dcomp_buffer :: packet_buffer
  dec_tx_buffer_pool :: packet_pool
  dec_available_buffer_pool :: packet_pool

section \<open>The internal operations\<close>

definition decoder_clearState :: "'s decoder \<Rightarrow> 's decoder" where
  "decoder_clearState d =
     d\<lparr>dec_tx_buffer := Buffer_clear (dec_tx_buffer d), dec_last_part := 0,
       dec_last_format := PacketHeaderOptionFormatType_value FORMAT_NONE,
       dec_last_orig_packet_size := 0\<rparr>"

definition decoder_getTxBuffer :: "'s decoder \<Rightarrow> 's decoder result" where
  "decoder_getTxBuffer d =
     rbind (BufferPool_pop_wait (dec_available_buffer_pool d)) (\<lambda>(b, avail).
     Inr (decoder_clearState (d\<lparr>dec_tx_buffer := b, dec_available_buffer_pool := avail\<rparr>)))"

definition decoder_flushInflight :: "'s codec_lib \<Rightarrow> 's decoder \<Rightarrow> 's decoder result" where
  "decoder_flushInflight lib d =
     rbind (if dec_inflight_buffers d = [] then Inr d
            else rbind (BufferPool_push_list (dec_inflight_buffers d) (dec_available_buffer_pool d))
                   (\<lambda>(avail, rest).
                 Inr (d\<lparr>dec_available_buffer_pool := avail, dec_inflight_buffers := rest\<rparr>)))
       (\<lambda>d1. Inr (d1\<lparr>
          dec_compressorLZ4 := resetDecompressionStream lib (dec_compressorLZ4 d1),
          dec_compressorZSTD := resetDecompressionStream lib (dec_compressorZSTD d1)\<rparr>))"

definition decoder_pushInflight :: "packet_buffer \<Rightarrow> 's decoder \<Rightarrow> 's decoder" where
  "decoder_pushInflight b d = d\<lparr>dec_inflight_buffers := dec_inflight_buffers d @ [b]\<rparr>"

definition decoder_clearStateAndFlushInflight ::
    "'s codec_lib \<Rightarrow> packet_buffer \<Rightarrow> 's decoder \<Rightarrow> 's decoder result"
where
  "decoder_clearStateAndFlushInflight lib pb d =
     decoder_flushInflight lib (decoder_pushInflight pb (decoder_clearState d))"

text \<open>\<open>clearState(); flushInflight();\<close>, the way out of a part that cannot be used.\<close>

definition decoder_drop_state :: "'s codec_lib \<Rightarrow> 's decoder \<Rightarrow> 's decoder result" where
  "decoder_drop_state lib d = decoder_flushInflight lib (decoder_clearState d)"

text \<open>
  The constructor. It does not initialise \<open>last_sequence\<close> (\<open>garbage\<close>), nor the transmit buffer
  before it takes one, and its last call sets the members that describe a partial frame.
\<close>

definition PacketDecoder ::
    "u32 \<Rightarrow> 's codec_lib \<Rightarrow> u16 \<Rightarrow> packet_pool \<Rightarrow> packet_pool \<Rightarrow> 's decoder result"
where
  "PacketDecoder garbage lib l2mtu tx_pool avail =
     rbind (StreamCompressorLZ4 lib) (\<lambda>lz4.
     rbind (StreamCompressorZSTD lib) (\<lambda>zstd.
     rbind (BufferPool_pop_wait avail) (\<lambda>(dcomp, avail1).
     rbind (BufferPool_pop_wait avail1) (\<lambda>(tx, avail2).
     Inr (decoder_clearState
       \<lparr>dec_l2mtu = l2mtu, dec_first_packet = True, dec_last_sequence = garbage,
        dec_last_part = 0, dec_last_format = 0, dec_last_orig_packet_size = 0,
        dec_tx_buffer = tx, dec_inflight_buffers = [], dec_compressorLZ4 = lz4,
        dec_compressorZSTD = zstd, dec_dcomp_buffer = dcomp, dec_tx_buffer_pool = tx_pool,
        dec_available_buffer_pool = avail2\<rparr>)))))"

definition decoder_setLastSequence :: "u32 \<Rightarrow> 's decoder \<Rightarrow> 's decoder" where
  "decoder_setLastSequence seq d = d\<lparr>dec_last_sequence := seq\<rparr>"

section \<open>The header of a packet\<close>

definition packet_header_bad :: "packet_header \<Rightarrow> bool" where
  "packet_header_bad h \<longleftrightarrow>
     ucast (ph_ver h) > SETH_PACKET_HEADER_VERSION_V1 \<or> ph_reserved h \<noteq> 0 \<or>
     ph_format h \<noteq> PacketHeaderFormat_value ENCAPSULATED \<or> ph_channel h \<noteq> 0"

text \<open>The check of the sequence number: lost packets, and packets out of order.\<close>

definition decoder_sequence :: "'s codec_lib \<Rightarrow> u32 \<Rightarrow> 's decoder \<Rightarrow> 's decoder result" where
  "decoder_sequence lib seq d =
     (let d1 = (if dec_first_packet d
                then d\<lparr>dec_first_packet := False, dec_last_sequence := seq - 1\<rparr> else d)
      in rbind (if seq > dec_last_sequence d1 + 1 then decoder_drop_state lib d1 else Inr d1) (\<lambda>d2.
         rbind (if seq < dec_last_sequence d2 + 1 then
                  (if is_sequence_wrapping seq (dec_last_sequence d2)
                   then Inr (d2\<lparr>dec_last_sequence := 0\<rparr>)
                   else decoder_drop_state lib d2)
                else Inr d2) (\<lambda>d3.
         Inr (d3\<lparr>dec_last_sequence := seq\<rparr>))))"

text \<open>
  The loop over the option headers: where the packet's own option header lies (0: nowhere), or
  \<^const>\<open>None\<close> when one of them is refused. The comparison of the size of a header with what is
  left is one of unsigned 64-bit numbers.
\<close>

fun decoder_options ::
    "packet_buffer \<Rightarrow> nat \<Rightarrow> nat \<Rightarrow> u16 \<Rightarrow> u16 \<Rightarrow> u16 option result"
where
  "decoder_options pb opt_len 0 cur_pos packet_header_pos = Inr (Some packet_header_pos)"
| "decoder_options pb opt_len (Suc todo) cur_pos packet_header_pos =
     (if of_nat sizeof_PacketHeaderOption > (of_nat (Buffer_getDataSize pb) - ucast cur_pos :: u64)
      then Inr None
      else rbind (Buffer_read (unat cur_pos) sizeof_PacketHeaderOption pb) (\<lambda>bs.
        let opt = PacketHeaderOption_at bs; header_num = opt_len - Suc todo
        in if po_reserved opt \<noteq> 0 then Inr None
           else if packet_header_pos = 0 then
             (if OPTION_TYPE_IS_VALID opt then
                (if header_num + 1 \<noteq> opt_len then Inr None
                 else decoder_options pb opt_len todo (cur_pos + of_nat sizeof_PacketHeaderOption) cur_pos)
              else Inr None)
           else decoder_options pb opt_len todo (cur_pos + of_nat sizeof_PacketHeaderOption)
                  packet_header_pos))"

section \<open>The frames of a packet\<close>

text \<open>
  How one round of the loop over the frames ends: it goes on at a position, with the flag that
  says whether the buffers in flight are released at the end of the packet, or \<open>decode\<close> has
  returned from inside the loop.
\<close>

datatype 's round_end =
    Next (round_decoder: "'s decoder") (round_pos: u16) (round_flush: bool)
  | Returned (round_decoder: "'s decoder")

text \<open>The way out on an error: clear the state, release the buffers and return.\<close>

definition decoder_bail :: "'s codec_lib \<Rightarrow> packet_buffer \<Rightarrow> 's decoder \<Rightarrow> 's round_end result" where
  "decoder_bail lib pb d =
     rbind (decoder_clearStateAndFlushInflight lib pb d) (\<lambda>d'. Inr (Returned d'))"

text \<open>The choice of the decompressor; \<^const>\<open>None\<close> for a format that is not compressed.\<close>

definition decoder_decompress ::
    "'s codec_lib \<Rightarrow> u8 \<Rightarrow> u8 list \<Rightarrow> nat \<Rightarrow> 's decoder \<Rightarrow> (int \<times> u8 list \<times> 's decoder) option"
where
  "decoder_decompress lib format input cap d =
     (if format = PacketHeaderOptionFormatType_value COMPRESSED_LZ4 then
        (let (n, out, sc) = sc_decompress lib input cap (dec_compressorLZ4 d)
         in Some (n, out, d\<lparr>dec_compressorLZ4 := sc\<rparr>))
      else if format = PacketHeaderOptionFormatType_value COMPRESSED_ZSTD then
        (let (n, out, sc) = sc_decompress lib input cap (dec_compressorZSTD d)
         in Some (n, out, d\<lparr>dec_compressorZSTD := sc\<rparr>))
      else None)"

text \<open>A frame is complete: check its size, hand it over, take another buffer.\<close>

definition decoder_emit :: "packet_buffer \<Rightarrow> 's decoder \<Rightarrow> 's decoder result" where
  "decoder_emit pb d =
     rbind (BufferPool_push (PacketBuffer_setPacketSource (packet_source pb) (dec_tx_buffer d))
              (dec_tx_buffer_pool d)) (\<lambda>txp.
     decoder_getTxBuffer (d\<lparr>dec_tx_buffer_pool := txp\<rparr>))"

text \<open>
  The frame of a complete packet goes into the transmit buffer: decompressed, or copied behind
  what is there. \<^const>\<open>Inl\<close> is an error.
\<close>

definition decoder_unpack ::
    "'s codec_lib \<Rightarrow> packet_header_option \<Rightarrow> u8 list \<Rightarrow> 's decoder \<Rightarrow> ('s decoder + 's decoder) result"
where
  "decoder_unpack lib opt payload d =
     (if OPTION_FORMAT_IS_COMPRESSED opt then
        (case decoder_decompress lib (po_format opt) payload
                (Buffer_getBufferSize (dec_tx_buffer d)) d of
           None \<Rightarrow> Inr (Inl d)
         | Some (n, out, d1) \<Rightarrow>
             rbind (Buffer_write 0 out (dec_tx_buffer d1)) (\<lambda>b.
             if n < 0 then Inr (Inl (d1\<lparr>dec_tx_buffer := b\<rparr>))
             else rbind (Buffer_setDataSize (size_of_int n) b) (\<lambda>b'.
                  Inr (Inr (d1\<lparr>dec_tx_buffer := b'\<rparr>)))))
      else
        rbind (Buffer_append payload (dec_tx_buffer d)) (\<lambda>b.
        Inr (Inr (d\<lparr>dec_tx_buffer := b\<rparr>))))"

definition decoder_complete ::
    "'s codec_lib \<Rightarrow> packet_buffer \<Rightarrow> packet_header_option \<Rightarrow> u16 \<Rightarrow> 's decoder \<Rightarrow> 's round_end result"
where
  "decoder_complete lib pb opt pos d =
     (let packet_pos = pos + of_nat sizeof_PacketHeaderOption;
          orig_packet_size = be_to_cpu_16 (po_packet_size opt);
          payload_length = be_to_cpu_16 (po_payload_length opt)
      in rbind (if dec_last_part d \<noteq> 0 then decoder_drop_state lib d else Inr d) (\<lambda>d1.
         if po_part opt \<noteq> 0 then decoder_bail lib pb d1
         else if unat packet_pos + unat payload_length > Buffer_getDataSize pb
         then decoder_bail lib pb d1
         else rbind (Buffer_read (unat packet_pos) (unat payload_length) pb) (\<lambda>payload.
           rbind (decoder_unpack lib opt payload d1) (\<lambda>unpacked.
           case unpacked of
             Inl d2 \<Rightarrow> decoder_bail lib pb d2
           | Inr d2 \<Rightarrow>
               if Buffer_getDataSize (dec_tx_buffer d2) \<noteq> unat orig_packet_size
               then decoder_bail lib pb d2
               else rbind (decoder_emit pb d2) (\<lambda>d3.
                    Inr (Next d3 (packet_pos + payload_length) True))))))"

text \<open>The conditions under which a part of a frame is skipped.\<close>

definition decoder_skip :: "packet_header_option \<Rightarrow> 's decoder \<Rightarrow> bool" where
  "decoder_skip opt d \<longleftrightarrow>
     (po_part opt = 1 \<and> dec_last_part d \<noteq> 0) \<or>
     unat (po_part opt) \<noteq> unat (dec_last_part d) + 1 \<or>
     (dec_last_part d \<noteq> 0 \<and> be_to_cpu_16 (po_packet_size opt) \<noteq> dec_last_orig_packet_size d) \<or>
     (dec_last_part d \<noteq> 0 \<and> dec_last_format d \<noteq> po_format opt)"

text \<open>
  The last part of a frame has been appended: decompress the whole, then hand it over. The
  decompressed frame is in the decompression buffer, which is swapped with the transmit buffer.
\<close>

definition decoder_unpack_parts ::
    "'s codec_lib \<Rightarrow> packet_header_option \<Rightarrow> 's decoder \<Rightarrow> ('s decoder + 's decoder) result"
where
  "decoder_unpack_parts lib opt d =
     (if OPTION_FORMAT_IS_COMPRESSED opt then
        rbind (Buffer_read 0 (Buffer_getDataSize (dec_tx_buffer d)) (dec_tx_buffer d)) (\<lambda>input.
        case decoder_decompress lib (po_format opt) input
               (Buffer_getBufferSize (dec_dcomp_buffer d)) d of
          None \<Rightarrow> Inr (Inl d)
        | Some (n, out, d1) \<Rightarrow>
            rbind (Buffer_write 0 out (dec_dcomp_buffer d1)) (\<lambda>b.
            if n < 0 then Inr (Inl (d1\<lparr>dec_dcomp_buffer := b\<rparr>))
            else rbind (Buffer_setDataSize (size_of_int n) b) (\<lambda>b'.
                 Inr (Inr (d1\<lparr>dec_dcomp_buffer := dec_tx_buffer d1, dec_tx_buffer := b'\<rparr>)))))
      else Inr (Inr d))"

definition decoder_finish ::
    "'s codec_lib \<Rightarrow> packet_buffer \<Rightarrow> packet_header_option \<Rightarrow> u16 \<Rightarrow> 's decoder \<Rightarrow> 's round_end result"
where
  "decoder_finish lib pb opt next_pos d =
     rbind (decoder_unpack_parts lib opt d) (\<lambda>unpacked.
     case unpacked of
       Inl d1 \<Rightarrow> decoder_bail lib pb d1
     | Inr d1 \<Rightarrow>
         if Buffer_getDataSize (dec_tx_buffer d1) \<noteq> unat (be_to_cpu_16 (po_packet_size opt))
         then decoder_bail lib pb d1
         else rbind (decoder_emit pb d1) (\<lambda>d2.
              rbind (decoder_flushInflight lib d2) (\<lambda>d3.
              Inr (Next d3 next_pos False))))"

definition decoder_partial ::
    "'s codec_lib \<Rightarrow> packet_buffer \<Rightarrow> packet_header_option \<Rightarrow> u16 \<Rightarrow> 's decoder \<Rightarrow> 's round_end result"
where
  "decoder_partial lib pb opt pos d =
     (let packet_pos = pos + of_nat sizeof_PacketHeaderOption;
          orig_packet_size = be_to_cpu_16 (po_packet_size opt);
          payload_length = be_to_cpu_16 (po_payload_length opt);
          next_pos = packet_pos + payload_length;
          tx = dec_tx_buffer d
      in if decoder_skip opt d then
           rbind (decoder_drop_state lib d) (\<lambda>d1. Inr (Next d1 next_pos False))
         else if unat packet_pos + unat payload_length > Buffer_getDataSize pb
         then decoder_bail lib pb d
         else if Buffer_getDataSize tx + unat payload_length > Buffer_getBufferSize tx
         then decoder_bail lib pb d
         else if \<not> OPTION_FORMAT_IS_COMPRESSED opt \<and>
                 Buffer_getDataSize tx + unat payload_length > unat orig_packet_size
         then decoder_bail lib pb d
         else rbind (Buffer_read (unat packet_pos) (unat payload_length) pb) (\<lambda>payload.
              rbind (Buffer_append payload tx) (\<lambda>b.
              let d1 = d\<lparr>dec_tx_buffer := b\<rparr> in
              if OPTION_TYPE_IS_COMPLETE opt then decoder_finish lib pb opt next_pos d1
              else Inr (Next (d1\<lparr>dec_last_part := po_part opt, dec_last_format := po_format opt,
                                 dec_last_orig_packet_size := orig_packet_size\<rparr>) next_pos False))))"

text \<open>
  One round of the loop. A type that is neither \<open>COMPLETE_PACKET\<close> nor has the partial bit set
  falls through both branches and leaves everything as it is.
\<close>

definition decoder_round ::
    "'s codec_lib \<Rightarrow> packet_buffer \<Rightarrow> 's round_end \<Rightarrow> 's round_end result"
where
  "decoder_round lib pb r =
     (case r of
        Returned d \<Rightarrow> Inr r
      | Next d pos flush \<Rightarrow>
          rbind (Buffer_read (unat pos) sizeof_PacketHeaderOption pb) (\<lambda>bs.
          let opt = PacketHeaderOption_at bs
          in if be_to_cpu_16 (po_packet_size opt) > dec_l2mtu d then decoder_bail lib pb d
             else if po_type opt = PacketHeaderOptionType_value COMPLETE_PACKET
             then decoder_complete lib pb opt pos d
             else if OPTION_TYPE_IS_PARTIAL opt then decoder_partial lib pb opt pos d
             else Inr r))"

definition decoder_more :: "packet_buffer \<Rightarrow> 's round_end \<Rightarrow> bool" where
  "decoder_more pb r =
     (case r of Returned d \<Rightarrow> False | Next d pos flush \<Rightarrow> unat pos < Buffer_getDataSize pb)"

definition decoder_frames ::
    "'s codec_lib \<Rightarrow> packet_buffer \<Rightarrow> 's round_end \<Rightarrow> 's round_end result"
where
  "decoder_frames lib pb = rwhile (decoder_more pb) (decoder_round lib pb)"

section \<open>Decoding a packet\<close>

text \<open>The end of \<open>decode\<close>: the packet's buffer stays in flight, or all of them are released.\<close>

definition decoder_end :: "'s codec_lib \<Rightarrow> packet_buffer \<Rightarrow> 's round_end \<Rightarrow> 's decoder result" where
  "decoder_end lib pb r =
     (case r of
        Returned d \<Rightarrow> Inr d
      | Next d pos flush \<Rightarrow>
          let d1 = decoder_pushInflight pb d
          in if flush then decoder_flushInflight lib d1 else Inr d1)"

definition decoder_payload ::
    "'s codec_lib \<Rightarrow> packet_buffer \<Rightarrow> u16 option \<Rightarrow> 's decoder \<Rightarrow> 's decoder result"
where
  "decoder_payload lib pb found d =
     (case found of
        None \<Rightarrow> decoder_clearStateAndFlushInflight lib pb d
      | Some packet_header_pos \<Rightarrow>
          if packet_header_pos = 0 then decoder_clearStateAndFlushInflight lib pb d
          else rbind (decoder_frames lib pb (Next d packet_header_pos True)) (decoder_end lib pb))"

definition decoder_decode :: "'s codec_lib \<Rightarrow> packet_buffer \<Rightarrow> 's decoder \<Rightarrow> 's decoder result" where
  "decoder_decode lib pb d =
     (if Buffer_getDataSize pb < sizeof_PacketHeader then
        rbind (BufferPool_push pb (dec_available_buffer_pool d)) (\<lambda>avail.
        Inr (d\<lparr>dec_available_buffer_pool := avail, dec_tx_buffer := Buffer_clear (dec_tx_buffer d)\<rparr>))
      else rbind (Buffer_read 0 sizeof_PacketHeader pb) (\<lambda>bs.
        let h = PacketHeader_at bs in
        if packet_header_bad h then decoder_clearStateAndFlushInflight lib pb d
        else rbind (decoder_sequence lib (be_to_cpu_32 (ph_sequence h)) d) (\<lambda>d1.
          rbind (decoder_options pb (unat (ph_opt_len h)) (unat (ph_opt_len h))
                   (of_nat sizeof_PacketHeader) 0) (\<lambda>found.
          decoder_payload lib pb found d1))))"

definition decoder_decode_all ::
    "'s codec_lib \<Rightarrow> packet_buffer list \<Rightarrow> 's decoder \<Rightarrow> 's decoder result"
where
  "decoder_decode_all lib = rfold (decoder_decode lib)"

end
