(* ===== verification/Remote_Node.thy ===== *)
theory Remote_Node
  imports Encoder Decoder
begin

text \<open>
  A remote end of the tunnel (\<open>class RemoteNode\<close>, \<open>src/remote_node.cpp\<close>): its address and key, the
  sizes that follow from the configuration, its queues, and the three threads that work on them.
  The bodies of the threads' loops are definitions on the state a thread owns; the pools shared
  with other threads are arguments, as the thread finds them.
\<close>

section \<open>The object\<close>

record remote_node =
  rn_udp_socket :: int
  rn_node_addr :: sockaddr
  rn_node_key :: "u8 list"
  rn_tx_size :: u16
  rn_l2mtu :: u16
  rn_l4mtu :: u16
  rn_buffer_size :: int
  rn_packet_format :: u8
  rn_decoder_pool :: packet_pool
  rn_encoder_pool :: packet_pool
  rn_socket_write_pool :: packet_pool

text \<open>\<open>is_ipv4\<close> is asked about the address as it was given, not the converted one.\<close>

definition RemoteNode ::
    "u8 list \<Rightarrow> int \<Rightarrow> sockaddr \<Rightarrow> int \<Rightarrow> int \<Rightarrow> int \<Rightarrow> u8 \<Rightarrow> remote_node"
where
  "RemoteNode garbage udp_socket node_addr tx_size l2mtu bsize packet_format =
     (let tx = word_of_int tx_size :: u16;
          l4 = tx - (if is_ipv4 node_addr then 20 else 40) - 8
      in \<lparr>rn_udp_socket = udp_socket, rn_node_addr = to_sockaddr_storage_ipv6 node_addr,
          rn_node_key = get_key_from_sockaddr garbage node_addr, rn_tx_size = tx,
          rn_l2mtu = word_of_int l2mtu, rn_l4mtu = l4, rn_buffer_size = bsize,
          rn_packet_format = packet_format, rn_decoder_pool = BufferPool (nat bsize),
          rn_encoder_pool = BufferPool (nat bsize),
          rn_socket_write_pool = BufferPool (nat bsize)\<rparr>)"

section \<open>The threads\<close>

text \<open>What the decoder thread does with the buffers a wait has given it.\<close>

definition decoder_handle ::
    "'s codec_lib \<Rightarrow> packet_buffer list \<Rightarrow> 's decoder \<Rightarrow> 's decoder result"
where
  "decoder_handle lib buffers d = decoder_decode_all lib buffers d"

definition decoder_handler_round ::
    "'s codec_lib \<Rightarrow> packet_pool option \<Rightarrow> packet_pool \<times> 's decoder \<Rightarrow> (packet_pool \<times> 's decoder) result"
where
  "decoder_handler_round lib woken = (\<lambda>(decoder_pool, d).
     rbind (BufferPool_wait woken [] decoder_pool) (\<lambda>(buffers, pool').
     rbind (decoder_handle lib buffers d) (\<lambda>d'. Inr (pool', d'))))"

text \<open>
  The encoder thread: the set-up, and what it does with the result of its timed wait. When the
  wait timed out the encoder is flushed and the next wait has no limit; otherwise the buffers are
  encoded and the next wait is for 1 ms.
\<close>

definition encoder_setup ::
    "'s codec_lib \<Rightarrow> remote_node \<Rightarrow> packet_pool \<Rightarrow> ('s, 'f) encoder result"
where
  "encoder_setup lib rn available_rx_buffer_pool =
     rbind (PacketEncoder (rn_l2mtu rn) (rn_l4mtu rn) (rn_socket_write_pool rn)
              available_rx_buffer_pool) (encoder_setPacketFormat lib (rn_packet_format rn))"

definition encoder_handle ::
    "(int \<Rightarrow> u16 \<Rightarrow> 'f) \<Rightarrow> 's codec_lib \<Rightarrow> bool \<times> packet_buffer list \<Rightarrow> ('s, 'f) encoder \<Rightarrow>
       ('s, 'f) encoder result"
where
  "encoder_handle ratio lib = (\<lambda>(got, buffers) e.
     if \<not> got then encoder_flush lib e else encoder_encode_all ratio lib buffers e)"

definition encoder_handler_round ::
    "(int \<Rightarrow> u16 \<Rightarrow> 'f) \<Rightarrow> 's codec_lib \<Rightarrow> wakeup \<Rightarrow> packet_pool option \<Rightarrow>
       nat \<times> packet_pool \<times> ('s, 'f) encoder \<Rightarrow> (nat \<times> packet_pool \<times> ('s, 'f) encoder) result"
where
  "encoder_handler_round ratio lib status woken = (\<lambda>(timeout, encoder_pool, e).
     rbind (BufferPool_wait_for status woken timeout [] encoder_pool) (\<lambda>(got, buffers, pool').
     rbind (encoder_handle ratio lib (got, buffers) e) (\<lambda>e'.
     Inr (if got then 1 else 0, pool', e'))))"

text \<open>
  The socket thread sends every buffer to the node's address and gives the buffers back. A send
  that fails is only logged. The result has the datagrams, with the size the code passes for the
  address.
\<close>

definition sizeof_sockaddr_in6 :: nat where "sizeof_sockaddr_in6 = 28"

type_synonym datagram = "sockaddr \<times> nat \<times> u8 list"

definition socket_send :: "remote_node \<Rightarrow> packet_buffer \<Rightarrow> datagram result" where
  "socket_send rn b =
     rbind (Buffer_read 0 (Buffer_getDataSize b) b) (\<lambda>bytes.
     Inr (rn_node_addr rn, sizeof_sockaddr_in6, bytes))"

fun socket_send_all :: "remote_node \<Rightarrow> packet_buffer list \<Rightarrow> datagram list result" where
  "socket_send_all rn [] = Inr []"
| "socket_send_all rn (b # bs) =
     rbind (socket_send rn b) (\<lambda>m. rbind (socket_send_all rn bs) (\<lambda>ms. Inr (m # ms)))"

definition socket_write_round ::
    "remote_node \<Rightarrow> packet_pool option \<Rightarrow> packet_pool \<times> packet_pool \<Rightarrow>
       (datagram list \<times> packet_pool \<times> packet_pool) result"
where
  "socket_write_round rn woken = (\<lambda>(socket_write_pool, available_rx_buffer_pool).
     rbind (BufferPool_wait woken [] socket_write_pool) (\<lambda>(buffers, pool').
     rbind (socket_send_all rn buffers) (\<lambda>sent.
     rbind (BufferPool_push_list buffers available_rx_buffer_pool) (\<lambda>(avail', _).
     Inr (sent, pool', avail')))))"

section \<open>Lemmas\<close>

text \<open>The room a node leaves for the payload of a UDP datagram.\<close>

lemma rn_l4mtu_value:
  assumes "1200 \<le> tx_size" and "tx_size \<le> 9218"
  shows "unat (rn_l4mtu (RemoteNode g s addr tx_size l2mtu bsize fmt)) =
    nat tx_size - (if is_ipv4 addr then 28 else 48)"
proof -
  obtain n where n: "tx_size = int n" "1200 \<le> n" "n \<le> 9218"
    using assms by (intro that [of "nat tx_size"]) auto
  have "unat (of_nat n - of_nat k :: u16) = n - k" if "k \<le> n" for k
  proof -
    have "(of_nat n - of_nat k :: u16) = of_nat (n - k)" using that by simp
    moreover have "n - k < 65536" using n(3) by simp
    ultimately show ?thesis by (simp only: unat_of_nat_u16)
  qed
  from this [of 28] this [of 48] n show ?thesis by (simp add: RemoteNode_def Let_def)
qed

lemma socket_send_all_ok:
  "\<forall>b \<in> set bs. buffer_ok cap b \<Longrightarrow>
    socket_send_all rn bs = Inr (map (\<lambda>b. (rn_node_addr rn, sizeof_sockaddr_in6, buffer_data b)) bs)"
proof (induction bs)
  case (Cons b bs)
  then have "buffer_ok cap b" by simp
  then have "Buffer_read 0 (dataSize b) b = Inr (buffer_data b)"
    using Buffer_read_data [of cap b 0 "dataSize b"] by (simp add: slice_def length_buffer_data)
  with Cons show ?case by (simp add: socket_send_def Buffer_getDataSize_def)
qed simp

lemma decoder_handler_round_simps:
  "pool p \<noteq> [] \<Longrightarrow> decoder_handler_round lib woken (p, d) =
     rbind (decoder_handle lib (pool p) d) (\<lambda>d'. Inr (p\<lparr>pool := []\<rparr>, d'))"
  "pool p = [] \<Longrightarrow> decoder_handler_round lib (Some q) (p, d) =
     rbind (decoder_handle lib (pool q) d) (\<lambda>d'. Inr (q\<lparr>pool := []\<rparr>, d'))"
  by (simp_all add: decoder_handler_round_def BufferPool_wait_def after_wait_def
      BufferPool_pop_into_all)

lemma encoder_handler_round_simps:
  "pool p \<noteq> [] \<Longrightarrow> encoder_handler_round ratio lib status woken (t, p, e) =
     rbind (encoder_handle ratio lib (True, pool p) e) (\<lambda>e'. Inr (1, p\<lparr>pool := []\<rparr>, e'))"
  "pool p = [] \<Longrightarrow> t \<noteq> 0 \<Longrightarrow> encoder_handler_round ratio lib Timed_out (Some q) (t, p, e) =
     rbind (encoder_handle ratio lib (False, []) e) (\<lambda>e'. Inr (0, q, e'))"
  "pool p = [] \<Longrightarrow> encoder_handler_round ratio lib Notified (Some q) (t, p, e) =
     rbind (encoder_handle ratio lib (True, pool q) e) (\<lambda>e'. Inr (1, q\<lparr>pool := []\<rparr>, e'))"
  by (simp_all add: encoder_handler_round_def BufferPool_wait_for_def after_wait_def
      BufferPool_pop_into_all)

end
