(* ===== verification/Codec_Spec.thy ===== *)
theory Codec_Spec
  imports Compressor Codec
begin

unbundle bit_operations_syntax

text \<open>
  What the codec promises, without buffers, pools and bytes. An encapsulating packet is a list of
  segments, each a whole frame or one part of a frame; the abstract encoder puts frames into
  segments and segments into packets, the abstract decoder puts them together again. The main
  result is that the decoder gives back the frames in their order, whatever the size of a packet
  and whatever lossless compression is used; \<open>Encoder_Correct\<close> and \<open>Decoder_Correct\<close> show that the
  program's encoder and decoder refine the abstract ones.
\<close>

section \<open>Segments and packets\<close>

datatype seg =
    Complete (seg_orig: u16) (seg_format: u8) (seg_payload: "u8 list")
  | Part (seg_last: bool) (seg_orig: u16) (seg_format: u8) (seg_part: u8) (seg_payload: "u8 list")

fun seg_option :: "seg \<Rightarrow> packet_header_option" where
  "seg_option (Complete orig fmt payload) =
     \<lparr>po_type = 2, po_packet_size = cpu_to_be_16 orig, po_format = fmt,
      po_payload_length = cpu_to_be_16 (of_nat (length payload)), po_part = 0, po_reserved = 0\<rparr>"
| "seg_option (Part last' orig fmt part payload) =
     \<lparr>po_type = (if last' then 3 else 1), po_packet_size = cpu_to_be_16 orig, po_format = fmt,
      po_payload_length = cpu_to_be_16 (of_nat (length payload)), po_part = part, po_reserved = 0\<rparr>"

definition seg_bytes :: "seg \<Rightarrow> u8 list" where
  "seg_bytes s = PacketHeaderOption_bytes (seg_option s) @ seg_payload s"

definition segs_bytes :: "seg list \<Rightarrow> u8 list" where
  "segs_bytes segs = concat (map seg_bytes segs)"

definition packet_header_of :: "u32 \<Rightarrow> packet_header" where
  "packet_header_of seq =
     \<lparr>ph_ver = 1, ph_opt_len = 1, ph_oam = 0, ph_critical = 0, ph_reserved = 0, ph_format = 1,
      ph_channel = 0, ph_sequence = cpu_to_be_32 seq\<rparr>"

definition packet_bytes :: "u32 \<times> seg list \<Rightarrow> u8 list" where
  "packet_bytes p = PacketHeader_bytes (packet_header_of (fst p)) @ segs_bytes (snd p)"

definition used :: "seg list \<Rightarrow> nat" where
  "used segs = 8 + length (segs_bytes segs)"

lemma length_seg_bytes [simp]: "length (seg_bytes s) = 8 + length (seg_payload s)"
  by (simp add: seg_bytes_def)

lemma segs_bytes_simps [simp]:
  "segs_bytes [] = []"
  "segs_bytes (s # segs) = seg_bytes s @ segs_bytes segs"
  "segs_bytes (segs @ segs') = segs_bytes segs @ segs_bytes segs'"
  by (simp_all add: segs_bytes_def)

lemma used_simps [simp]:
  "used [] = 8"
  "used (segs @ [s]) = used segs + 8 + length (seg_payload s)"
  by (simp_all add: used_def)

lemma used_bounds: "8 + 8 * length segs \<le> used segs"
  by (induction segs) (simp_all add: used_def)

section \<open>The abstract encoder\<close>

record aenc =
  aseq :: u32
  acur :: "seg list"
  aout :: "(u32 \<times> seg list) list"

definition this_seq :: "u32 \<Rightarrow> u32" where
  "this_seq s = (if s = 0xFFFFFFFF then 1 else s)"

definition abs_flush :: "aenc \<Rightarrow> aenc" where
  "abs_flush a =
     (if acur a = [] then a
      else \<lparr>aseq = this_seq (aseq a) + 1, acur = [], aout = aout a @ [(this_seq (aseq a), acur a)]\<rparr>)"

definition room :: "nat \<Rightarrow> aenc \<Rightarrow> nat" where
  "room m a = m - 8 - used (acur a)"

definition abs_add :: "seg \<Rightarrow> aenc \<Rightarrow> aenc" where
  "abs_add s a = a\<lparr>acur := acur a @ [s]\<rparr>"

function abs_parts :: "nat \<Rightarrow> u16 \<Rightarrow> u8 \<Rightarrow> u8 \<Rightarrow> u8 list \<Rightarrow> aenc \<Rightarrow> aenc" where
  "abs_parts m orig fmt part rest a =
     (if rest = [] \<or> room m a = 0 then a
      else
        let n = min (length rest) (room m a);
            a1 = abs_add (Part (n = length rest) orig fmt part (take n rest)) a;
            a2 = (if used (acur a1) = m then abs_flush a1 else a1)
        in abs_parts m orig fmt (part + 1) (drop n rest) a2)"
  by pat_completeness auto
termination
  by (relation "measure (\<lambda>(m, orig, fmt, part, rest, a). length rest)") auto

declare abs_parts.simps [simp del]

lemma abs_parts_step:
  fixes rest :: "u8 list"
  defines "n \<equiv> \<lambda>m a. min (length rest) (room m a)"
  defines "a1 \<equiv> \<lambda>m orig fmt part a. abs_add (Part (n m a = length rest) orig fmt part (take (n m a) rest)) a"
  assumes "rest \<noteq> []" and "room m a \<noteq> 0"
  shows "abs_parts m orig fmt part rest a =
    abs_parts m orig fmt (part + 1) (drop (n m a) rest)
      (if used (acur (a1 m orig fmt part a)) = m then abs_flush (a1 m orig fmt part a)
       else a1 m orig fmt part a)"
  using assms(3,4) unfolding n_def a1_def by (subst abs_parts.simps) (simp add: Let_def)

lemma abs_parts_stop: "rest = [] \<or> room m a = 0 \<Longrightarrow> abs_parts m orig fmt part rest a = a"
  by (subst abs_parts.simps) simp

definition abs_encode :: "nat \<Rightarrow> u16 \<Rightarrow> u8 \<Rightarrow> u8 list \<Rightarrow> aenc \<Rightarrow> aenc" where
  "abs_encode m orig fmt payload a =
     (let a1 = (if length payload > room m a then abs_parts m orig fmt 1 payload a
                else abs_add (Complete orig fmt payload) a)
      in if room m a1 < 88 then abs_flush a1 else a1)"

lemma acur_abs_flush [simp]: "acur (abs_flush a) = []"
  by (simp add: abs_flush_def)

lemma abs_flush_empty [simp]: "acur a = [] \<Longrightarrow> abs_flush a = a"
  by (simp add: abs_flush_def)

section \<open>The abstract decoder\<close>

record 's adec =
  ad_part :: u8
  ad_orig :: u16
  ad_fmt :: u8
  ad_acc :: "u8 list"
  ad_lz4 :: "'s stream_compressor"
  ad_zstd :: "'s stream_compressor"
  ad_out :: "u8 list list"
  ad_flush :: bool

definition is_compressed :: "u8 \<Rightarrow> bool" where
  "is_compressed fmt \<longleftrightarrow> fmt = 1 \<or> fmt = 2"

text \<open>The frame inside a payload, with the decompressors after it.\<close>

definition unpack ::
    "'s codec_lib \<Rightarrow> nat \<Rightarrow> u8 \<Rightarrow> u8 list \<Rightarrow> 's adec \<Rightarrow> (u8 list \<times> 's adec) option"
where
  "unpack lib cap fmt payload d =
     (if fmt = 1 then
        (let (n, out, sc) = sc_decompress lib payload cap (ad_lz4 d)
         in if n = int (length out) then Some (out, d\<lparr>ad_lz4 := sc\<rparr>) else None)
      else if fmt = 2 then
        (let (n, out, sc) = sc_decompress lib payload cap (ad_zstd d)
         in if n = int (length out) then Some (out, d\<lparr>ad_zstd := sc\<rparr>) else None)
      else Some (payload, d))"

definition adec_reset :: "'s codec_lib \<Rightarrow> 's adec \<Rightarrow> 's adec" where
  "adec_reset lib d =
     d\<lparr>ad_lz4 := resetDecompressionStream lib (ad_lz4 d),
       ad_zstd := resetDecompressionStream lib (ad_zstd d)\<rparr>"

text \<open>A segment that is the next one in its sequence; any other is \<^const>\<open>None\<close>.\<close>

fun adec_seg :: "'s codec_lib \<Rightarrow> nat \<Rightarrow> nat \<Rightarrow> seg \<Rightarrow> 's adec \<Rightarrow> 's adec option" where
  "adec_seg lib l2 cap (Complete orig fmt payload) d =
     (if ad_part d \<noteq> 0 \<or> unat orig > l2 \<or> length payload > cap then None
      else case unpack lib cap fmt payload d of
        None \<Rightarrow> None
      | Some (x, d') \<Rightarrow>
          if length x \<noteq> unat orig then None
          else Some (d'\<lparr>ad_out := ad_out d @ [x], ad_flush := True\<rparr>))"
| "adec_seg lib l2 cap (Part last' orig fmt part payload) d =
     (if unat orig > l2 \<or> unat part \<noteq> unat (ad_part d) + 1 \<or>
         (ad_part d \<noteq> 0 \<and> (orig \<noteq> ad_orig d \<or> fmt \<noteq> ad_fmt d)) \<or>
         length (ad_acc d @ payload) > cap \<or>
         (\<not> is_compressed fmt \<and> length (ad_acc d @ payload) > unat orig)
      then None
      else if \<not> last' then
        Some (d\<lparr>ad_part := part, ad_orig := orig, ad_fmt := fmt,
               ad_acc := ad_acc d @ payload, ad_flush := False\<rparr>)
      else case unpack lib cap fmt (ad_acc d @ payload) d of
        None \<Rightarrow> None
      | Some (x, d') \<Rightarrow>
          if length x \<noteq> unat orig then None
          else Some ((adec_reset lib d')\<lparr>ad_part := 0, ad_orig := 0, ad_fmt := 0, ad_acc := [],
                        ad_out := ad_out d @ [x], ad_flush := False\<rparr>))"

fun adec_segs :: "'s codec_lib \<Rightarrow> nat \<Rightarrow> nat \<Rightarrow> seg list \<Rightarrow> 's adec \<Rightarrow> 's adec option" where
  "adec_segs lib l2 cap [] d = Some d"
| "adec_segs lib l2 cap (s # segs) d =
     Option.bind (adec_seg lib l2 cap s d) (adec_segs lib l2 cap segs)"

definition adec_end :: "'s codec_lib \<Rightarrow> 's adec \<Rightarrow> 's adec" where
  "adec_end lib d = (if ad_flush d then adec_reset lib d else d)"

definition adec_start :: "'s adec \<Rightarrow> 's adec" where
  "adec_start d = d\<lparr>ad_flush := True\<rparr>"

definition adec_packet :: "'s codec_lib \<Rightarrow> nat \<Rightarrow> nat \<Rightarrow> seg list \<Rightarrow> 's adec \<Rightarrow> 's adec option" where
  "adec_packet lib l2 cap segs d = map_option (adec_end lib) (adec_segs lib l2 cap segs (adec_start d))"

fun adec_packets :: "'s codec_lib \<Rightarrow> nat \<Rightarrow> nat \<Rightarrow> seg list list \<Rightarrow> 's adec \<Rightarrow> 's adec option" where
  "adec_packets lib l2 cap [] d = Some d"
| "adec_packets lib l2 cap (p # ps) d =
     Option.bind (adec_packet lib l2 cap p d) (adec_packets lib l2 cap ps)"

lemma adec_segs_append:
  "adec_segs lib l2 cap (xs @ ys) d = Option.bind (adec_segs lib l2 cap xs d) (adec_segs lib l2 cap ys)"
  by (induction xs arbitrary: d) (auto split: Option.bind_splits)

lemma adec_packets_append:
  "adec_packets lib l2 cap (xs @ ys) d =
     Option.bind (adec_packets lib l2 cap xs d) (adec_packets lib l2 cap ys)"
  by (induction xs arbitrary: d) (auto split: Option.bind_splits)

section \<open>The decoder's view of an encoder's state\<close>

text \<open>
  \<open>views d0 a d\<close>: a decoder that starts in \<open>d0\<close>, is given the packets the encoder has sent, and then
  the segments of the packet under construction, is in state \<open>d\<close>.
\<close>

definition views :: "'s codec_lib \<Rightarrow> nat \<Rightarrow> nat \<Rightarrow> 's adec \<Rightarrow> aenc \<Rightarrow> 's adec \<Rightarrow> bool" where
  "views lib l2 cap d0 a d \<longleftrightarrow>
     (\<exists>d1. adec_packets lib l2 cap (map snd (aout a)) d0 = Some d1 \<and>
           adec_segs lib l2 cap (acur a) (adec_start d1) = Some d)"

lemma views_add:
  "views lib l2 cap d0 a d \<Longrightarrow> adec_seg lib l2 cap s d = Some d' \<Longrightarrow>
    views lib l2 cap d0 (abs_add s a) d'"
  by (auto simp: views_def abs_add_def adec_segs_append)

lemma views_flush:
  assumes "views lib l2 cap d0 a d" and "acur a \<noteq> []"
  shows "views lib l2 cap d0 (abs_flush a) (adec_start (adec_end lib d))"
  using assms by (auto simp: views_def abs_flush_def adec_packets_append adec_packet_def)

lemma views_flushed:
  assumes "views lib l2 cap d0 a d" and "acur a = []"
  obtains d1 where "adec_packets lib l2 cap (map snd (aout a)) d0 = Some d1" and "d = adec_start d1"
  using assms by (auto simp: views_def)

lemma unpack_lz4: "sc_decompress lib payload cap (ad_lz4 d) = (n, out, sc) \<Longrightarrow>
    unpack lib cap 1 payload d = (if n = int (length out) then Some (out, d\<lparr>ad_lz4 := sc\<rparr>) else None)"
  unfolding unpack_def by simp

lemma unpack_zstd: "sc_decompress lib payload cap (ad_zstd d) = (n, out, sc) \<Longrightarrow>
    unpack lib cap 2 payload d = (if n = int (length out) then Some (out, d\<lparr>ad_zstd := sc\<rparr>) else None)"
  unfolding unpack_def by simp

lemma unpack_none: "\<not> is_compressed fmt \<Longrightarrow> unpack lib cap fmt payload d = Some (payload, d)"
  by (simp add: unpack_def is_compressed_def)

lemma unpack_SomeE:
  assumes "unpack lib cap fmt payload d = Some (x, d')"
  obtains (LZ4) sc where "fmt = 1" and "d' = d\<lparr>ad_lz4 := sc\<rparr>"
      and "sc_decompress lib payload cap (ad_lz4 d) = (int (length x), x, sc)"
    | (ZSTD) sc where "fmt = 2" and "d' = d\<lparr>ad_zstd := sc\<rparr>"
      and "sc_decompress lib payload cap (ad_zstd d) = (int (length x), x, sc)"
    | (Plain) "\<not> is_compressed fmt" and "x = payload" and "d' = d"
proof -
  consider "fmt = 1" | "fmt = 2" | "\<not> is_compressed fmt" by (auto simp: is_compressed_def)
  then show thesis
  proof cases
    case 1
    obtain n out sc where e: "sc_decompress lib payload cap (ad_lz4 d) = (n, out, sc)"
      by (cases "sc_decompress lib payload cap (ad_lz4 d)")
    from assms [unfolded 1 unpack_lz4 [OF e]] have "n = int (length out)" "x = out" "d' = d\<lparr>ad_lz4 := sc\<rparr>"
      by (auto split: if_splits)
    with e 1 LZ4 show thesis by simp
  next
    case 2
    obtain n out sc where e: "sc_decompress lib payload cap (ad_zstd d) = (n, out, sc)"
      by (cases "sc_decompress lib payload cap (ad_zstd d)")
    from assms [unfolded 2 unpack_zstd [OF e]] have "n = int (length out)" "x = out" "d' = d\<lparr>ad_zstd := sc\<rparr>"
      by (auto split: if_splits)
    with e 2 ZSTD show thesis by simp
  next
    case 3
    with assms Plain show thesis by (simp add: unpack_none)
  qed
qed

lemma unpack_frame:
  assumes "unpack lib cap fmt payload d = Some (x, d')"
  shows "ad_part d' = ad_part d \<and> ad_orig d' = ad_orig d \<and> ad_fmt d' = ad_fmt d \<and>
    ad_acc d' = ad_acc d \<and> ad_out d' = ad_out d \<and> ad_flush d' = ad_flush d"
  by (rule unpack_SomeE [OF assms]) simp_all

text \<open>Unpacking looks at the decompressors only.\<close>

lemma unpack_streams:
  assumes "unpack lib cap fmt payload d = Some (x, d1)"
    and "ad_lz4 e = ad_lz4 d" and "ad_zstd e = ad_zstd d"
  shows "\<exists>e1. unpack lib cap fmt payload e = Some (x, e1) \<and>
    ad_lz4 e1 = ad_lz4 d1 \<and> ad_zstd e1 = ad_zstd d1"
  using assms(1)
proof (cases rule: unpack_SomeE)
  case (LZ4 sc)
  then have "unpack lib cap fmt payload e = Some (x, e\<lparr>ad_lz4 := sc\<rparr>)"
    using unpack_lz4 [of lib payload cap e] assms(2) by simp
  with LZ4 assms show ?thesis by simp
next
  case (ZSTD sc)
  then have "unpack lib cap fmt payload e = Some (x, e\<lparr>ad_zstd := sc\<rparr>)"
    using unpack_zstd [of lib payload cap e] assms(2) assms(3) by simp
  with ZSTD assms show ?thesis by simp
next
  case Plain
  with assms show ?thesis by (simp add: unpack_none)
qed

section \<open>The parts of a frame are put together again\<close>

text \<open>
  The loop that splits a frame, seen from the decoder. \<open>part\<close> is the number of the next part, \<open>rest\<close>
  what is left of the payload. There must be part numbers left: an empty packet takes \<open>m - 16\<close>
  bytes, one that holds segments already at least one byte.
\<close>

definition parts_left :: "nat \<Rightarrow> u8 \<Rightarrow> aenc \<Rightarrow> nat \<Rightarrow> bool" where
  "parts_left m part a n \<longleftrightarrow>
     n \<le> ((if acur a = [] then 256 else 255) - unat part) * (m - 16)"

lemma unat_add_one: "unat (k :: u8) < 255 \<Longrightarrow> unat (k + 1) = unat k + 1"
  by (simp add: unat_word_ariths)

lemma adec_seg_more:
  assumes "unat part = unat (ad_part d) + 1" and "unat orig \<le> l2"
    and "ad_part d \<noteq> 0 \<Longrightarrow> ad_orig d = orig \<and> ad_fmt d = fmt"
    and "length (ad_acc d @ payload) \<le> cap"
    and "is_compressed fmt \<or> length (ad_acc d @ payload) \<le> unat orig"
  shows "adec_seg lib l2 cap (Part False orig fmt part payload) d =
    Some (d\<lparr>ad_part := part, ad_orig := orig, ad_fmt := fmt,
            ad_acc := ad_acc d @ payload, ad_flush := False\<rparr>)"
  using assms by (cases "ad_part d = 0") (simp_all add: not_less)

lemma abs_parts_views:
  assumes "views lib l2 cap d0 a d" and "rest \<noteq> []" and "16 < m" and "0 < room m a"
    and "unat part = unat (ad_part d) + 1" and "parts_left m part a (length rest)"
    and "ad_part d \<noteq> 0 \<Longrightarrow> ad_orig d = orig \<and> ad_fmt d = fmt"
    and "length (ad_acc d @ rest) \<le> cap" and "unat orig \<le> l2"
    and "is_compressed fmt \<or> length (ad_acc d @ rest) \<le> unat orig"
    and "unpack lib cap fmt (ad_acc d @ rest) d = Some (x, d1)" and "length x = unat orig"
  shows "\<exists>d'. views lib l2 cap d0 (abs_parts m orig fmt part rest a) d' \<and>
    ad_out d' = ad_out d @ [x] \<and> ad_part d' = 0 \<and> ad_acc d' = [] \<and>
    ad_lz4 d' = resetDecompressionStream lib (ad_lz4 d1) \<and>
    ad_zstd d' = resetDecompressionStream lib (ad_zstd d1)"
  using assms
proof (induction m orig fmt part rest a arbitrary: d d1 rule: abs_parts.induct)
  case (1 m orig fmt part rest a)
  let ?n = "min (length rest) (room m a)"
  let ?s = "Part (?n = length rest) orig fmt part (take ?n rest)"
  let ?a1 = "abs_add ?s a"
  let ?a2 = "if used (acur ?a1) = m then abs_flush ?a1 else ?a1"
  have unfold: "abs_parts m orig fmt part rest a = abs_parts m orig fmt (part + 1) (drop ?n rest) ?a2"
    using "1.prems"(2,4) by (intro abs_parts_step) simp_all
  have acur1: "acur ?a1 \<noteq> []" by (simp add: abs_add_def)
  have used1: "used (acur ?a1) = m \<longleftrightarrow> ?n = room m a"
    using "1.prems"(2,4) by (auto simp: abs_add_def room_def)
  show ?case
  proof (cases "?n = length rest")
    case True
    let ?d' = "(adec_reset lib d1)\<lparr>ad_part := 0, ad_orig := 0, ad_fmt := 0, ad_acc := [],
        ad_out := ad_out d @ [x], ad_flush := False\<rparr>"
    have "adec_seg lib l2 cap ?s d = Some ?d'"
      using "1.prems" True by auto
    with "1.prems"(1) have v: "views lib l2 cap d0 ?a1 ?d'" by (rule views_add)
    have stop: "abs_parts m orig fmt part rest a = ?a2"
      using True by (simp add: unfold abs_parts_stop)
    show ?thesis
    proof (cases "used (acur ?a1) = m")
      case True
      with views_flush [OF v acur1] show ?thesis
        by (auto simp: stop adec_start_def adec_end_def adec_reset_def
            intro!: exI [of _ "adec_start (adec_end lib ?d')"])
    next
      case False
      with v show ?thesis by (auto simp: stop adec_reset_def intro!: exI [of _ ?d'])
    qed
  next
    case False
    then have n: "?n = room m a" and less: "room m a < length rest" by auto
    have a2: "?a2 = abs_flush ?a1" using used1 n by simp
    let ?d2 = "d\<lparr>ad_part := part, ad_orig := orig, ad_fmt := fmt,
        ad_acc := ad_acc d @ take ?n rest, ad_flush := False\<rparr>"
    have "adec_seg lib l2 cap ?s d = Some ?d2"
      unfolding eq_False [THEN iffD2, OF False]
    proof (rule adec_seg_more [OF "1.prems"(5) "1.prems"(9)])
      show "ad_part d \<noteq> 0 \<Longrightarrow> ad_orig d = orig \<and> ad_fmt d = fmt" by (rule "1.prems"(7))
      show "length (ad_acc d @ take ?n rest) \<le> cap" using "1.prems"(8) by simp
      show "is_compressed fmt \<or> length (ad_acc d @ take ?n rest) \<le> unat orig"
        using "1.prems"(10) by auto
    qed
    with "1.prems"(1) have "views lib l2 cap d0 ?a1 ?d2" by (rule views_add)
    from views_flush [OF this acur1] have v: "views lib l2 cap d0 ?a2 (?d2\<lparr>ad_flush := True\<rparr>)"
      by (simp add: a2 adec_end_def adec_start_def)
    let ?d3 = "?d2\<lparr>ad_flush := True\<rparr>"
    have room2: "room m ?a2 = m - 16" unfolding a2 by (simp add: room_def)
    have left: "length (drop ?n rest) \<le> (255 - unat part) * (m - 16)"
    proof (cases "acur a = []")
      case True
      then have "room m a = m - 16" by (simp add: room_def)
      moreover have "length rest \<le> (256 - unat part) * (m - 16)"
        using "1.prems"(6) True by (simp add: parts_left_def)
      moreover have "256 - unat part = Suc (255 - unat part)"
        using unat_u8_bound [of part] by arith
      ultimately show ?thesis using n by (simp add: le_diff_conv add.commute)
    qed (use "1.prems"(6) n in \<open>auto simp: parts_left_def\<close>)
    have pos: "0 < length (drop ?n rest)" using less by simp
    have p255: "unat part < 255"
      using left pos by (cases "unat part < 255") auto
    note part1 = unat_add_one [OF p255]
    obtain d3' where u: "unpack lib cap fmt (ad_acc ?d3 @ drop ?n rest) ?d3 = Some (x, d3')"
      and s3: "ad_lz4 d3' = ad_lz4 d1" "ad_zstd d3' = ad_zstd d1"
      using unpack_streams [OF "1.prems"(11), of ?d3] by auto
    have "\<exists>d'. views lib l2 cap d0 (abs_parts m orig fmt (part + 1) (drop ?n rest) ?a2) d' \<and>
        ad_out d' = ad_out ?d3 @ [x] \<and> ad_part d' = 0 \<and> ad_acc d' = [] \<and>
        ad_lz4 d' = resetDecompressionStream lib (ad_lz4 d3') \<and>
        ad_zstd d' = resetDecompressionStream lib (ad_zstd d3')"
    proof (rule "1.IH" [OF _ refl refl refl])
      show "\<not> (rest = [] \<or> room m a = 0)" using "1.prems"(2,4) by simp
      show "views lib l2 cap d0 ?a2 ?d3" by (rule v)
      show "drop ?n rest \<noteq> []" using pos by simp
      show "16 < m" by (rule "1.prems"(3))
      show "0 < room m ?a2" unfolding room2 using "1.prems"(3) by simp
      show "unat (part + 1) = unat (ad_part ?d3) + 1" by (simp add: part1)
      show "parts_left m (part + 1) ?a2 (length (drop ?n rest))"
        unfolding a2 using left by (simp add: parts_left_def part1)
      show "ad_orig ?d3 = orig \<and> ad_fmt ?d3 = fmt" by simp
      show "length (ad_acc ?d3 @ drop ?n rest) \<le> cap" using "1.prems"(8) by simp
      show "unat orig \<le> l2" by (rule "1.prems"(9))
      show "is_compressed fmt \<or> length (ad_acc ?d3 @ drop ?n rest) \<le> unat orig"
        using "1.prems"(10) by auto
      show "unpack lib cap fmt (ad_acc ?d3 @ drop ?n rest) ?d3 = Some (x, d3')" by (rule u)
      show "length x = unat orig" by (rule "1.prems"(12))
    qed
    then show ?thesis by (simp add: unfold s3)
  qed
qed

section \<open>Frames through encoder and decoder\<close>

text \<open>The abstract encoder with its compressor; \<open>ast_pend\<close>: has it been used since its last reset?\<close>

record 's astate =
  ast_enc :: aenc
  ast_comp :: "'s stream_compressor option"
  ast_pend :: bool

definition abs_pack ::
    "'s codec_lib \<Rightarrow> nat \<Rightarrow> u8 \<Rightarrow> u8 list \<Rightarrow> 's astate \<Rightarrow> u8 list \<times> 's astate"
where
  "abs_pack lib cap fmt x st =
     (if fmt = 0 then (x, st)
      else case ast_comp st of
        None \<Rightarrow> (x, st)
      | Some sc \<Rightarrow>
          let (n, out, sc') = sc_compress lib x cap sc
          in (out, st\<lparr>ast_comp := Some sc', ast_pend := True\<rparr>))"

definition abs_unpend :: "'s codec_lib \<Rightarrow> 's astate \<Rightarrow> 's astate" where
  "abs_unpend lib st =
     (if ast_pend st
      then st\<lparr>ast_comp := map_option (resetCompressionStream lib) (ast_comp st), ast_pend := False\<rparr>
      else st)"

definition abs_send :: "'s codec_lib \<Rightarrow> 's astate \<Rightarrow> 's astate" where
  "abs_send lib st = abs_unpend lib (st\<lparr>ast_enc := abs_flush (ast_enc st)\<rparr>)"

definition abs_frame ::
    "'s codec_lib \<Rightarrow> nat \<Rightarrow> nat \<Rightarrow> u8 \<Rightarrow> u8 list \<Rightarrow> 's astate \<Rightarrow> 's astate"
where
  "abs_frame lib m cap fmt x st =
     (let (payload, st1) = abs_pack lib cap fmt x st;
          orig = of_nat (length x);
          a = ast_enc st1;
          st2 = (if length payload > room m a
                 then abs_unpend lib (st1\<lparr>ast_enc := abs_parts m orig fmt 1 payload a\<rparr>)
                 else st1\<lparr>ast_enc := abs_add (Complete orig fmt payload) a\<rparr>)
      in if room m (ast_enc st2) < 88 then abs_send lib st2 else st2)"

definition format_algorithm :: "u8 \<Rightarrow> algorithm" where
  "format_algorithm fmt = (if fmt = 1 then LZ4 else ZSTD)"

definition dstream :: "u8 \<Rightarrow> 's adec \<Rightarrow> 's stream_compressor" where
  "dstream fmt d = (if fmt = 1 then ad_lz4 d else ad_zstd d)"

text \<open>
  The two ends agree: no frame is half received, and for a compressing encoder its compressor and
  the decoder's decompressor have seen the same blocks since their last reset. What makes the
  resets meet: an encoder that has not compressed since its last reset has a fresh compressor,
  and a decoder that will not reset at the end of the packet has a fresh decompressor.
\<close>

definition streams_agree ::
    "'s codec_lib \<Rightarrow> u8 \<Rightarrow> ('s stream_compressor \<Rightarrow> 's stream_compressor \<Rightarrow> bool) \<Rightarrow>
       's astate \<Rightarrow> 's adec \<Rightarrow> bool"
where
  "streams_agree lib fmt R st d \<longleftrightarrow>
     (\<exists>c. ast_comp st = Some c \<and> R c (dstream fmt d) \<and>
        sc_algorithm c = format_algorithm fmt \<and>
        sc_algorithm (dstream fmt d) = format_algorithm fmt \<and>
        (\<not> ast_pend st \<longrightarrow> fresh_compressor lib (format_algorithm fmt) c) \<and>
        (\<not> ad_flush d \<longrightarrow> fresh_decompressor lib (format_algorithm fmt) (dstream fmt d)))"

definition in_sync ::
    "'s codec_lib \<Rightarrow> u8 \<Rightarrow> ('s stream_compressor \<Rightarrow> 's stream_compressor \<Rightarrow> bool) \<Rightarrow>
       's astate \<Rightarrow> 's adec \<Rightarrow> bool"
where
  "in_sync lib fmt R st d \<longleftrightarrow>
     ad_part d = 0 \<and> ad_acc d = [] \<and>
     (acur (ast_enc st) = [] \<or> fmt = 0 \<longrightarrow> \<not> ast_pend st) \<and>
     (fmt \<noteq> 0 \<longrightarrow> streams_agree lib fmt R st d)"

lemma ast_enc_unpend [simp]: "ast_enc (abs_unpend lib st) = ast_enc st"
  by (simp add: abs_unpend_def)

lemma ast_pend_unpend [simp]: "\<not> ast_pend (abs_unpend lib st)"
  by (simp add: abs_unpend_def)

lemma ast_enc_send [simp]: "ast_enc (abs_send lib st) = abs_flush (ast_enc st)"
  by (simp add: abs_send_def)

lemma dstream_update [simp]:
  "dstream fmt (d\<lparr>ad_flush := b\<rparr>) = dstream fmt d"
  "dstream fmt (d\<lparr>ad_out := out\<rparr>) = dstream fmt d"
  by (simp_all add: dstream_def)

lemma dstream_reset:
  "dstream fmt (adec_reset lib d) = resetDecompressionStream lib (dstream fmt d)"
  by (simp add: dstream_def adec_reset_def)

text \<open>Resetting the encoder agrees with a decoder that has just been reset.\<close>

lemma unpend_agree:
  assumes "lossless lib (format_algorithm fmt) l2 cap R"
    and "ast_comp st = Some c" and "sc_algorithm c = format_algorithm fmt"
    and "\<not> ast_pend st \<longrightarrow> fresh_compressor lib (format_algorithm fmt) c"
    and "fresh_decompressor lib (format_algorithm fmt) (dstream fmt d)"
  shows "streams_agree lib fmt R (abs_unpend lib st) d"
proof -
  obtain c' where c': "ast_comp (abs_unpend lib st) = Some c'"
    "fresh_compressor lib (format_algorithm fmt) c'"
  proof (cases "ast_pend st")
    case True
    show ?thesis
      by (rule that [of "resetCompressionStream lib c"]) (use True assms in \<open>auto simp: abs_unpend_def\<close>)
  next
    case False
    show ?thesis by (rule that [of c]) (use False assms in \<open>auto simp: abs_unpend_def\<close>)
  qed
  moreover have "sc_algorithm c' = format_algorithm fmt"
    using c'(2) by (simp add: fresh_compressor_def)
  moreover have "sc_algorithm (dstream fmt d) = format_algorithm fmt"
    using assms(5) by (simp add: fresh_decompressor_def)
  moreover have "R c' (dstream fmt d)" by (rule lossless_fresh [OF assms(1) c'(2) assms(5)])
  ultimately show ?thesis using assms(5) by (auto simp: streams_agree_def)
qed

lemma agree_end:
  assumes "streams_agree lib fmt R st d"
  shows "fresh_decompressor lib (format_algorithm fmt) (dstream fmt (adec_start (adec_end lib d)))"
proof (cases "ad_flush d")
  case True
  have "dstream fmt (adec_start (adec_end lib d)) = resetDecompressionStream lib (dstream fmt d)"
    using True by (simp add: adec_end_def adec_start_def dstream_def adec_reset_def)
  with assms show ?thesis by (auto simp: streams_agree_def)
next
  case False
  have "dstream fmt (adec_start (adec_end lib d)) = dstream fmt d"
    using False by (simp add: adec_end_def adec_start_def dstream_def)
  with assms False show ?thesis by (auto simp: streams_agree_def)
qed

lemma views_send:
  assumes "views lib l2 cap d0 (ast_enc st) d" and "in_sync lib fmt R st d"
    and "fmt \<noteq> 0 \<Longrightarrow> lossless lib (format_algorithm fmt) l2 cap R"
  shows "\<exists>d'. views lib l2 cap d0 (ast_enc (abs_send lib st)) d' \<and>
    in_sync lib fmt R (abs_send lib st) d' \<and> ad_out d' = ad_out d"
proof (cases "acur (ast_enc st) = []")
  case True
  then have "abs_send lib st = st"
    using assms(2) by (simp add: abs_send_def abs_unpend_def in_sync_def)
  with assms(1,2) show ?thesis by auto
next
  case False
  let ?d' = "adec_start (adec_end lib d)"
  have v: "views lib l2 cap d0 (ast_enc (abs_send lib st)) ?d'"
    using views_flush [OF assms(1) False] by simp
  have keep: "ad_part ?d' = 0 \<and> ad_acc ?d' = [] \<and> ad_out ?d' = ad_out d"
    using assms(2) by (simp add: adec_start_def adec_end_def adec_reset_def in_sync_def)
  have agree: "streams_agree lib fmt R (abs_send lib st) ?d'" if "fmt \<noteq> 0"
  proof -
    have a: "streams_agree lib fmt R st d" using assms(2) that by (simp add: in_sync_def)
    then obtain c where "ast_comp st = Some c" "sc_algorithm c = format_algorithm fmt"
      "\<not> ast_pend st \<longrightarrow> fresh_compressor lib (format_algorithm fmt) c"
      by (auto simp: streams_agree_def)
    then show ?thesis
      unfolding abs_send_def
      by (intro unpend_agree [OF assms(3) [OF that] _ _ _ agree_end [OF a]]) simp_all
  qed
  have "in_sync lib fmt R (abs_send lib st) ?d'"
    using keep agree by (simp add: in_sync_def abs_send_def)
  with v keep show ?thesis by blast
qed

text \<open>What the compressor makes of a frame, the decoder can unpack.\<close>

lemma pack_unpack:
  assumes "in_sync lib fmt R st d" and "length x \<le> l2" and "l2 \<le> cap" and "fmt \<in> {0, 1, 2}"
    and "fmt \<noteq> 0 \<Longrightarrow> lossless lib (format_algorithm fmt) l2 cap R"
    and "abs_pack lib cap fmt x st = (payload, st1)"
  obtains d1 where "unpack lib cap fmt payload d = Some (x, d1)" and "length payload \<le> cap"
    and "ast_enc st1 = ast_enc st" and "fmt = 0 \<Longrightarrow> payload = x \<and> st1 = st"
    and "fmt \<noteq> 0 \<Longrightarrow> ast_pend st1"
    and "fmt \<noteq> 0 \<Longrightarrow> streams_agree lib fmt R st1 (d1\<lparr>ad_flush := True\<rparr>)"
proof (cases "fmt = 0")
  case True
  show thesis
    by (rule that [of d]) (use True assms in \<open>simp_all add: abs_pack_def unpack_none is_compressed_def\<close>)
next
  case False
  then have "streams_agree lib fmt R st d" using assms(1) by (simp add: in_sync_def)
  then obtain c where c: "ast_comp st = Some c" "R c (dstream fmt d)"
    "sc_algorithm c = format_algorithm fmt" "sc_algorithm (dstream fmt d) = format_algorithm fmt"
    by (auto simp: streams_agree_def)
  obtain out c' e where comp: "sc_compress lib x cap c = (int (length out), out, c')"
      and len: "length out \<le> cap"
      and dec: "sc_decompress lib out cap (dstream fmt d) = (int (length x), x, e)"
      and R: "R c' e"
    using losslessE [OF assms(5) [OF False] c(2) assms(2)] by blast
  have st1: "payload = out" "st1 = st\<lparr>ast_comp := Some c', ast_pend := True\<rparr>"
    using assms(6) False c(1) comp by (simp_all add: abs_pack_def)
  have algs: "sc_algorithm c' = format_algorithm fmt" "sc_algorithm e = format_algorithm fmt"
    using sc_compress_algorithm [OF comp] sc_decompress_algorithm [OF dec] c by simp_all
  let ?d1 = "if fmt = 1 then d\<lparr>ad_lz4 := e\<rparr> else d\<lparr>ad_zstd := e\<rparr>"
  have d1: "dstream fmt (?d1\<lparr>ad_flush := True\<rparr>) = e" by (simp add: dstream_def)
  have u: "unpack lib cap fmt payload d = Some (x, ?d1)"
  proof (cases "fmt = 1")
    case True
    then show ?thesis
      using unpack_lz4 [of lib out cap d "int (length x)" x e] dec by (simp add: st1 dstream_def)
  next
    case n1: False
    then have "fmt = 2" using assms(4) False by blast
    then show ?thesis
      using unpack_zstd [of lib out cap d "int (length x)" x e] dec by (simp add: st1 dstream_def)
  qed
  show thesis
  proof (rule that [OF u])
    show "streams_agree lib fmt R st1 (?d1\<lparr>ad_flush := True\<rparr>)"
      unfolding streams_agree_def d1 using R algs by (simp add: st1)
  qed (use False len in \<open>simp_all add: st1\<close>)
qed

lemma room_add: "room m a < 88 \<Longrightarrow> 104 \<le> m \<Longrightarrow> acur a \<noteq> []"
  by (auto simp: room_def)

lemma room_flush [simp]: "room m (abs_flush a) = m - 16"
  by (simp add: room_def)

text \<open>A frame put into segments: the decoder that reads them gives it back.\<close>

lemma abs_frame_segments:
  assumes "views lib l2 cap d0 (ast_enc st) d" and sync: "in_sync lib fmt R st d"
    and "length x \<le> l2" and "l2 \<le> cap" and "l2 < 65536" and "cap \<le> 22352" and "fmt \<in> {0, 1, 2}"
    and R: "fmt \<noteq> 0 \<Longrightarrow> lossless lib (format_algorithm fmt) l2 cap R"
    and pack: "abs_pack lib cap fmt x st = (payload, st1)"
    and "104 \<le> m" and "88 \<le> room m (ast_enc st)"
    and st2: "st2 = (if length payload > room m (ast_enc st1)
       then abs_unpend lib (st1\<lparr>ast_enc := abs_parts m (of_nat (length x)) fmt 1 payload (ast_enc st1)\<rparr>)
       else st1\<lparr>ast_enc := abs_add (Complete (of_nat (length x)) fmt payload) (ast_enc st1)\<rparr>)"
  shows "\<exists>d'. views lib l2 cap d0 (ast_enc st2) d' \<and> in_sync lib fmt R st2 d' \<and>
    ad_out d' = ad_out d @ [x]"
proof -
  obtain d1 where u: "unpack lib cap fmt payload d = Some (x, d1)" and len: "length payload \<le> cap"
    and enc1: "ast_enc st1 = ast_enc st" and plain: "fmt = 0 \<Longrightarrow> payload = x \<and> st1 = st"
    and pend: "fmt \<noteq> 0 \<Longrightarrow> ast_pend st1"
    and agree: "fmt \<noteq> 0 \<Longrightarrow> streams_agree lib fmt R st1 (d1\<lparr>ad_flush := True\<rparr>)"
    using pack_unpack [OF sync assms(3,4,7) R pack] by blast
  have idle: "ad_part d = 0" "ad_acc d = []" using sync by (simp_all add: in_sync_def)
  have d1: "ad_part d1 = 0" "ad_acc d1 = []"
    using unpack_frame [OF u] idle by simp_all
  have orig: "unat (of_nat (length x) :: u16) = length x" using assms(3,5) by simp
  show ?thesis
  proof (cases "length payload > room m (ast_enc st1)")
    case False
    let ?d' = "d1\<lparr>ad_out := ad_out d @ [x], ad_flush := True\<rparr>"
    have "adec_seg lib l2 cap (Complete (of_nat (length x)) fmt payload) d = Some ?d'"
      using idle orig len u assms(3) by simp
    from views_add [OF assms(1) this] False
    have v: "views lib l2 cap d0 (ast_enc st2) ?d'" by (simp add: st2 enc1)
    have "streams_agree lib fmt R st2 ?d'" if "fmt \<noteq> 0"
      using agree [OF that] False by (simp add: streams_agree_def st2)
    moreover have "fmt = 0 \<Longrightarrow> \<not> ast_pend st2"
      using plain sync False by (simp add: in_sync_def st2)
    ultimately have "in_sync lib fmt R st2 ?d'"
      using d1 False by (simp add: in_sync_def st2 abs_add_def)
    with v show ?thesis by (intro exI [of _ ?d']) simp
  next
    case True
    have r: "0 < room m (ast_enc st)" "payload \<noteq> []" using True assms(11) enc1 by auto
    have left: "parts_left m 1 (ast_enc st) (length payload)"
    proof -
      have "length payload \<le> 254 * 88" using len assms(6) by simp
      also have "\<dots> \<le> 254 * (m - 16)" using assms(10) by simp
      also have "\<dots> \<le> ((if acur (ast_enc st) = [] then 256 else 255) - unat (1 :: u8)) * (m - 16)"
        by simp
      finally show ?thesis by (simp only: parts_left_def)
    qed
    have fits: "is_compressed fmt \<or> length (ad_acc d @ payload) \<le> unat (of_nat (length x) :: u16)"
    proof (cases "fmt = 0")
      case True
      then show ?thesis using plain orig idle by simp
    qed (use assms(7) in \<open>auto simp: is_compressed_def\<close>)
    have "16 < m" using assms(10) by simp
    obtain d' where v: "views lib l2 cap d0
        (abs_parts m (of_nat (length x)) fmt 1 payload (ast_enc st)) d'"
      and out: "ad_out d' = ad_out d @ [x]" "ad_part d' = 0" "ad_acc d' = []"
      and streams: "ad_lz4 d' = resetDecompressionStream lib (ad_lz4 d1)"
        "ad_zstd d' = resetDecompressionStream lib (ad_zstd d1)"
      using abs_parts_views [OF assms(1) r(2) \<open>16 < m\<close> r(1) _ left _ _ _ fits, of x d1]
        u idle len orig assms(3) by auto
    have enc2: "ast_enc st2 = abs_parts m (of_nat (length x)) fmt 1 payload (ast_enc st)"
      and st2': "st2 = abs_unpend lib (st1\<lparr>ast_enc :=
        abs_parts m (of_nat (length x)) fmt 1 payload (ast_enc st1)\<rparr>)"
      using True by (simp_all add: st2 enc1)
    have "streams_agree lib fmt R st2 d'" if nz: "fmt \<noteq> 0"
    proof -
      obtain c where c: "ast_comp st1 = Some c" "sc_algorithm c = format_algorithm fmt"
        and alg: "sc_algorithm (dstream fmt d1) = format_algorithm fmt"
        using agree [OF nz] by (auto simp: streams_agree_def)
      have "dstream fmt d' = resetDecompressionStream lib (dstream fmt d1)"
        by (simp add: dstream_def streams)
      then have "fresh_decompressor lib (format_algorithm fmt) (dstream fmt d')"
        using alg by auto
      then show ?thesis
        unfolding st2' by (intro unpend_agree [OF R [OF nz]]) (use c pend [OF nz] in simp_all)
    qed
    then have "in_sync lib fmt R st2 d'" using out by (simp add: in_sync_def st2')
    with v out enc2 show ?thesis by auto
  qed
qed

lemma abs_frame_views:
  assumes "views lib l2 cap d0 (ast_enc st) d" and "in_sync lib fmt R st d"
    and "length x \<le> l2" and "l2 \<le> cap" and "l2 < 65536" and "cap \<le> 22352" and "fmt \<in> {0, 1, 2}"
    and "fmt \<noteq> 0 \<Longrightarrow> lossless lib (format_algorithm fmt) l2 cap R"
    and "104 \<le> m" and "88 \<le> room m (ast_enc st)"
  shows "\<exists>d'. views lib l2 cap d0 (ast_enc (abs_frame lib m cap fmt x st)) d' \<and>
    in_sync lib fmt R (abs_frame lib m cap fmt x st) d' \<and> ad_out d' = ad_out d @ [x] \<and>
    88 \<le> room m (ast_enc (abs_frame lib m cap fmt x st))"
proof -
  obtain payload st1 where pack: "abs_pack lib cap fmt x st = (payload, st1)"
    by (cases "abs_pack lib cap fmt x st")
  define st2 where "st2 = (if length payload > room m (ast_enc st1)
       then abs_unpend lib (st1\<lparr>ast_enc := abs_parts m (of_nat (length x)) fmt 1 payload (ast_enc st1)\<rparr>)
       else st1\<lparr>ast_enc := abs_add (Complete (of_nat (length x)) fmt payload) (ast_enc st1)\<rparr>)"
  obtain d2 where d2: "views lib l2 cap d0 (ast_enc st2) d2" "in_sync lib fmt R st2 d2"
    "ad_out d2 = ad_out d @ [x]"
    using abs_frame_segments [OF assms(1-8) pack assms(9,10) st2_def] by blast
  have frame: "abs_frame lib m cap fmt x st =
      (if room m (ast_enc st2) < 88 then abs_send lib st2 else st2)"
    by (simp add: abs_frame_def pack st2_def Let_def)
  show ?thesis
  proof (cases "room m (ast_enc st2) < 88")
    case True
    from views_send [OF d2(1,2) assms(8)] obtain d' where
      "views lib l2 cap d0 (ast_enc (abs_send lib st2)) d'"
      "in_sync lib fmt R (abs_send lib st2) d'" "ad_out d' = ad_out d2" by blast
    with True d2(3) assms(9) show ?thesis by (auto simp: frame)
  next
    case False
    with d2 show ?thesis by (auto simp: frame)
  qed
qed

section \<open>Many frames\<close>

definition abs_frames ::
    "'s codec_lib \<Rightarrow> nat \<Rightarrow> nat \<Rightarrow> u8 \<Rightarrow> u8 list list \<Rightarrow> 's astate \<Rightarrow> 's astate"
where
  "abs_frames lib m cap fmt = fold (abs_frame lib m cap fmt)"

lemma abs_frames_views:
  assumes "l2 \<le> cap" and "l2 < 65536" and "cap \<le> 22352" and "fmt \<in> {0, 1, 2}"
    and "fmt \<noteq> 0 \<Longrightarrow> lossless lib (format_algorithm fmt) l2 cap R" and "104 \<le> m"
    and "views lib l2 cap d0 (ast_enc st) d" and "in_sync lib fmt R st d"
    and "88 \<le> room m (ast_enc st)" and "\<forall>x \<in> set xs. length x \<le> l2"
  shows "\<exists>d'. views lib l2 cap d0 (ast_enc (abs_frames lib m cap fmt xs st)) d' \<and>
    in_sync lib fmt R (abs_frames lib m cap fmt xs st) d' \<and> ad_out d' = ad_out d @ xs \<and>
    88 \<le> room m (ast_enc (abs_frames lib m cap fmt xs st))"
  using assms(7-)
proof (induction xs arbitrary: st d)
  case (Cons x xs)
  let ?st = "abs_frame lib m cap fmt x st"
  obtain d1 where d1: "views lib l2 cap d0 (ast_enc ?st) d1" "in_sync lib fmt R ?st d1"
    "ad_out d1 = ad_out d @ [x]" "88 \<le> room m (ast_enc ?st)"
    using abs_frame_views [OF Cons.prems(1,2) _ assms(1-6) Cons.prems(3), of x] Cons.prems(4) by auto
  have "\<forall>x \<in> set xs. length x \<le> l2" using Cons.prems(4) by simp
  from Cons.IH [OF d1(1,2,4) this] d1(3) show ?case by (simp add: abs_frames_def)
qed (auto simp: abs_frames_def)

section \<open>The sequence numbers\<close>

text \<open>The numbers of the packets sent from the counter \<open>s\<close>, with the counter after them.\<close>

fun seqs_from :: "u32 \<Rightarrow> u32 list \<Rightarrow> u32 \<Rightarrow> bool" where
  "seqs_from s [] t \<longleftrightarrow> t = s"
| "seqs_from s (q # qs) t \<longleftrightarrow> q = this_seq s \<and> seqs_from (q + 1) qs t"

lemma seqs_from_snoc: "seqs_from s qs t \<Longrightarrow> seqs_from s (qs @ [this_seq t]) (this_seq t + 1)"
  by (induction s qs t rule: seqs_from.induct) simp_all

definition sent_ok :: "u32 \<Rightarrow> aenc \<Rightarrow> bool" where
  "sent_ok s a \<longleftrightarrow> seqs_from s (map fst (aout a)) (aseq a) \<and> (\<forall>p \<in> set (aout a). snd p \<noteq> [])"

lemma sent_flush: "sent_ok s a \<Longrightarrow> sent_ok s (abs_flush a)"
  by (auto simp: sent_ok_def abs_flush_def seqs_from_snoc)

lemma sent_add: "sent_ok s a \<Longrightarrow> sent_ok s (abs_add x a)"
  by (simp add: sent_ok_def abs_add_def)

lemma sent_parts: "sent_ok s a \<Longrightarrow> sent_ok s (abs_parts m orig fmt part rest a)"
proof (induction m orig fmt part rest a rule: abs_parts.induct)
  case (1 m orig fmt part rest a)
  show ?case
  proof (cases "rest = [] \<or> room m a = 0")
    case False
    with 1 show ?thesis by (simp add: abs_parts_step sent_add sent_flush)
  qed (use 1 in \<open>simp add: abs_parts_stop\<close>)
qed

lemma ast_enc_pack: "abs_pack lib cap fmt x st = (payload, st1) \<Longrightarrow> ast_enc st1 = ast_enc st"
  by (auto simp: abs_pack_def case_prod_unfold Let_def split: if_splits option.splits)

lemma sent_frame: "sent_ok s (ast_enc st) \<Longrightarrow> sent_ok s (ast_enc (abs_frame lib m cap fmt x st))"
  by (cases "abs_pack lib cap fmt x st")
    (simp add: abs_frame_def Let_def ast_enc_pack sent_parts sent_add sent_flush)

lemma sent_frames: "sent_ok s (ast_enc st) \<Longrightarrow> sent_ok s (ast_enc (abs_frames lib m cap fmt xs st))"
  by (induction xs arbitrary: st) (simp_all add: abs_frames_def sent_frame)

text \<open>Packets are only added to those sent.\<close>

lemma aout_flush: "length (aout a) \<le> length (aout (abs_flush a))"
  by (simp add: abs_flush_def)

lemma aout_add [simp]: "aout (abs_add s a) = aout a"
  by (simp add: abs_add_def)

lemma aout_parts: "length (aout a) \<le> length (aout (abs_parts m orig fmt part rest a))"
proof (induction m orig fmt part rest a rule: abs_parts.induct)
  case (1 m orig fmt part rest a)
  show ?case
  proof (cases "rest = [] \<or> room m a = 0")
    case False
    let ?n = "min (length rest) (room m a)"
    let ?a1 = "abs_add (Part (?n = length rest) orig fmt part (take ?n rest)) a"
    let ?a2 = "if used (acur ?a1) = m then abs_flush ?a1 else ?a1"
    have "length (aout a) \<le> length (aout ?a2)" using aout_flush [of ?a1] by simp
    also have "\<dots> \<le> length (aout (abs_parts m orig fmt (part + 1) (drop ?n rest) ?a2))"
      by (rule 1 [OF False refl refl refl])
    finally show ?thesis using False by (simp add: abs_parts_step)
  qed (simp add: abs_parts_stop)
qed

lemma aout_frame: "length (aout (ast_enc st)) \<le> length (aout (ast_enc (abs_frame lib m cap fmt x st)))"
proof -
  obtain payload st1 where pack: "abs_pack lib cap fmt x st = (payload, st1)"
    by (cases "abs_pack lib cap fmt x st")
  let ?a = "ast_enc st1"
  have "length (aout ?a) \<le> length (aout (abs_parts m (of_nat (length x)) fmt 1 payload ?a))"
    by (rule aout_parts)
  then show ?thesis
    using aout_flush [of "abs_parts m (of_nat (length x)) fmt 1 payload ?a"]
      aout_flush [of "abs_add (Complete (of_nat (length x)) fmt payload) ?a"]
    by (simp add: abs_frame_def Let_def pack ast_enc_pack [OF pack, symmetric])
qed

lemma aout_frames:
  "length (aout (ast_enc st)) \<le> length (aout (ast_enc (abs_frames lib m cap fmt xs st)))"
proof (induction xs arbitrary: st)
  case (Cons x xs)
  have "length (aout (ast_enc st)) \<le> length (aout (ast_enc (abs_frame lib m cap fmt x st)))"
    by (rule aout_frame)
  also have "\<dots> \<le> length (aout (ast_enc (abs_frames lib m cap fmt xs (abs_frame lib m cap fmt x st))))"
    by (rule Cons.IH)
  finally show ?case by (simp add: abs_frames_def)
qed (simp add: abs_frames_def)

text \<open>
  How many packets a frame can make the encoder send: one that was under construction, one for
  every \<open>m - 16\<close> bytes of the payload, and one that is closed because little room is left.
\<close>

lemma aout_flush_bound: "length (aout (abs_flush a)) \<le> length (aout a) + 1"
  by (simp add: abs_flush_def)

lemma div_step: "(n :: nat) = k + n' \<Longrightarrow> 0 < k \<Longrightarrow> n div k = 1 + n' div k"
  by (simp add: div_add_self1)

lemma aout_parts_bound:
  "16 < m \<Longrightarrow> length (aout (abs_parts m orig fmt part rest a)) \<le>
    length (aout a) + (if acur a = [] then 0 else 1) + length rest div (m - 16)"
proof (induction m orig fmt part rest a rule: abs_parts.induct)
  case (1 m orig fmt part rest a)
  show ?case
  proof (cases "rest = [] \<or> room m a = 0")
    case False
    let ?n = "min (length rest) (room m a)"
    let ?a1 = "abs_add (Part (?n = length rest) orig fmt part (take ?n rest)) a"
    let ?a2 = "if used (acur ?a1) = m then abs_flush ?a1 else ?a1"
    have step: "abs_parts m orig fmt part rest a = abs_parts m orig fmt (part + 1) (drop ?n rest) ?a2"
      using False by (intro abs_parts_step) simp_all
    have full: "used (acur ?a1) = m \<longleftrightarrow> ?n = room m a"
      using False by (auto simp: abs_add_def room_def)
    show ?thesis
    proof (cases "?n = room m a")
      case True
      have a2: "?a2 = abs_flush ?a1" using True full by simp
      have "length (aout ?a2) \<le> length (aout a) + 1"
        unfolding a2 using aout_flush_bound [of ?a1] by simp
      moreover have "length (aout (abs_parts m orig fmt (part + 1) (drop ?n rest) ?a2)) \<le>
          length (aout ?a2) + 0 + length (drop ?n rest) div (m - 16)"
        using "1.IH" [OF False refl refl refl "1.prems"] unfolding a2 by simp
      moreover have "1 + length (drop ?n rest) div (m - 16) \<le>
          (if acur a = [] then 0 else 1) + length rest div (m - 16)"
      proof (cases "acur a = []")
        case e: True
        then have "?n = m - 16" using True by (simp add: room_def)
        then have "length rest = (m - 16) + length (drop ?n rest)" by simp
        then have "length rest div (m - 16) = 1 + length (drop ?n rest) div (m - 16)"
          using "1.prems" by (intro div_step) simp_all
        with e show ?thesis by simp
      qed (simp add: div_le_mono)
      ultimately show ?thesis unfolding step by linarith
    next
      case n: False
      then have "?n = length rest" by arith
      moreover have a2: "?a2 = ?a1" using n unfolding full [symmetric] by simp
      ultimately have "drop ?n rest = []" by simp
      then show ?thesis unfolding step a2 by (simp add: abs_parts_stop)
    qed
  qed (simp add: abs_parts_stop)
qed

lemma length_abs_pack:
  "abs_pack lib cap fmt x st = (payload, st1) \<Longrightarrow> length x \<le> cap \<Longrightarrow> length payload \<le> cap"
  by (auto simp: abs_pack_def Let_def split: if_splits option.splits prod.splits
      dest: length_sc_compress)

lemma aout_frame_bound:
  assumes "16 < m" and "length x \<le> cap"
  shows "length (aout (ast_enc (abs_frame lib m cap fmt x st))) \<le>
    length (aout (ast_enc st)) + (cap div (m - 16) + 2)"
proof -
  obtain payload st1 where pack: "abs_pack lib cap fmt x st = (payload, st1)"
    by (cases "abs_pack lib cap fmt x st")
  let ?a = "ast_enc st1"
  let ?p = "abs_parts m (of_nat (length x)) fmt 1 payload ?a"
  have "length payload div (m - 16) \<le> cap div (m - 16)"
    using length_abs_pack [OF pack assms(2)] by (rule div_le_mono)
  then have "length (aout ?p) \<le> length (aout ?a) + 1 + cap div (m - 16)"
    using aout_parts_bound [OF assms(1), of "of_nat (length x)" fmt 1 payload ?a]
    by (simp split: if_splits)
  then show ?thesis
    using aout_flush_bound [of ?p] aout_flush_bound [of "abs_add (Complete (of_nat (length x)) fmt payload) ?a"]
    by (simp add: abs_frame_def Let_def pack ast_enc_pack [OF pack, symmetric])
qed

lemma aout_frames_bound:
  assumes "16 < m" and "\<forall>x \<in> set xs. length x \<le> cap"
  shows "length (aout (ast_enc (abs_frames lib m cap fmt xs st))) \<le>
    length (aout (ast_enc st)) + length xs * (cap div (m - 16) + 2)"
  using assms(2)
proof (induction xs arbitrary: st)
  case (Cons x xs)
  have "length x \<le> cap" "\<forall>x \<in> set xs. length x \<le> cap" using Cons.prems by simp_all
  from aout_frame_bound [OF assms(1) this(1), of lib fmt st]
    Cons.IH [OF this(2), of "abs_frame lib m cap fmt x st"]
  show ?case by (simp add: abs_frames_def)
qed (simp add: abs_frames_def)

text \<open>No packet is larger than \<open>m\<close> bytes.\<close>

definition packets_fit :: "nat \<Rightarrow> aenc \<Rightarrow> bool" where
  "packets_fit m a \<longleftrightarrow> used (acur a) \<le> m \<and> (\<forall>p \<in> set (aout a). used (snd p) \<le> m)"

lemma length_packet_bytes: "length (packet_bytes p) = used (snd p)"
  by (simp add: packet_bytes_def used_def)

lemma fit_flush: "packets_fit m a \<Longrightarrow> 8 \<le> m \<Longrightarrow> packets_fit m (abs_flush a)"
  by (auto simp: packets_fit_def abs_flush_def)

lemma fit_add:
  "packets_fit m a \<Longrightarrow> used (acur a) + 8 + length (seg_payload s) \<le> m \<Longrightarrow> packets_fit m (abs_add s a)"
  by (simp add: packets_fit_def abs_add_def)

lemma fit_parts: "packets_fit m a \<Longrightarrow> 8 \<le> m \<Longrightarrow> packets_fit m (abs_parts m orig fmt part rest a)"
proof (induction m orig fmt part rest a rule: abs_parts.induct)
  case (1 m orig fmt part rest a)
  show ?case
  proof (cases "rest = [] \<or> room m a = 0")
    case False
    let ?n = "min (length rest) (room m a)"
    let ?a1 = "abs_add (Part (?n = length rest) orig fmt part (take ?n rest)) a"
    have "packets_fit m ?a1"
      using False by (intro fit_add "1.prems") (auto simp: room_def min_def)
    then have "packets_fit m (if used (acur ?a1) = m then abs_flush ?a1 else ?a1)"
      using fit_flush "1.prems"(2) by simp
    from "1.IH" [OF False refl refl refl this "1.prems"(2)] show ?thesis
      using False by (simp add: abs_parts_step)
  qed (use 1 in \<open>simp add: abs_parts_stop\<close>)
qed

lemma fit_frame:
  assumes "packets_fit m (ast_enc st)" and "88 \<le> room m (ast_enc st)" and "104 \<le> m"
  shows "packets_fit m (ast_enc (abs_frame lib m cap fmt x st))"
proof -
  obtain payload st1 where pack: "abs_pack lib cap fmt x st = (payload, st1)"
    by (cases "abs_pack lib cap fmt x st")
  let ?a = "ast_enc st1" and ?s = "Complete (of_nat (length x)) fmt payload"
  have a: "packets_fit m ?a" "88 \<le> room m ?a" using assms ast_enc_pack [OF pack] by simp_all
  have "packets_fit m (abs_add ?s ?a)" if "\<not> room m ?a < length payload"
    using that a(2) by (intro fit_add a(1)) (simp add: room_def)
  moreover have "packets_fit m (abs_parts m (of_nat (length x)) fmt 1 payload ?a)"
    using assms(3) by (intro fit_parts a(1)) simp
  ultimately show ?thesis
    using assms(3) by (simp add: abs_frame_def Let_def pack fit_flush)
qed

end
