(* ===== verification/Encoder_Correct.thy ===== *)
theory Encoder_Correct
  imports Encoder Codec_Spec
begin

unbundle bit_operations_syntax

text \<open>
  The encoder of the program implements the abstract encoder of \<open>Codec_Spec\<close>: the simulation
  relation, and one lemma per operation that takes related states to related states and shows that
  the operation returns (it neither throws nor sleeps nor loops) as long as the pool has a buffer
  for every packet that is sent.
\<close>

section \<open>The simulation relation\<close>

text \<open>
  \<open>cap\<close> is the size of every buffer, \<open>old\<close> what the transmit pool held at the start, and \<open>N\<close> the
  number of packets that can be sent before the pool of available buffers runs dry.
\<close>

definition enc_rel ::
    "nat \<Rightarrow> nat \<Rightarrow> u8 list list \<Rightarrow> ('s, 'f) encoder \<Rightarrow> 's astate \<Rightarrow> bool"
where
  "enc_rel cap N old e st \<longleftrightarrow>
     buffer_ok cap (enc_tx_buffer e) \<and>
     dataSize (enc_tx_buffer e) = used (acur (ast_enc st)) \<and>
     drop 8 (buffer_data (enc_tx_buffer e)) = segs_bytes (acur (ast_enc st)) \<and>
     used (acur (ast_enc st)) \<le> unat (enc_l4mtu e) \<and>
     enc_opt_len e = of_bool (acur (ast_enc st) \<noteq> []) \<and>
     enc_packet_count e = of_nat (length (acur (ast_enc st))) \<and>
     enc_sequence e = aseq (ast_enc st) \<and>
     pool_ok cap (enc_available_buffer_pool e) \<and> pool_ok cap (enc_tx_buffer_pool e) \<and>
     map buffer_data (pool (enc_tx_buffer_pool e)) = old @ map packet_bytes (aout (ast_enc st)) \<and>
     N \<le> length (pool (enc_available_buffer_pool e)) + length (aout (ast_enc st)) \<and>
     (\<forall>b \<in> set (enc_inflight_buffers e). buffer_ok cap b) \<and>
     (ast_pend st \<longleftrightarrow> enc_inflight_buffers e \<noteq> []) \<and>
     ast_comp st = enc_compressor e \<and>
     statistic_ok (enc_statCompressionRatio e)"

definition enc_fixed :: "('s, 'f) encoder \<Rightarrow> u16 \<times> u16 \<times> u8 \<times> packet_buffer option" where
  "enc_fixed e = (enc_l2mtu e, enc_l4mtu e, enc_packet_format e, enc_comp_buffer e)"

lemma enc_fixedD:
  "enc_fixed e' = enc_fixed e \<Longrightarrow> enc_l2mtu e' = enc_l2mtu e \<and> enc_l4mtu e' = enc_l4mtu e \<and>
    enc_packet_format e' = enc_packet_format e \<and> enc_comp_buffer e' = enc_comp_buffer e"
  by (simp add: enc_fixed_def)

lemma used_empty: "used segs = 8 \<longleftrightarrow> segs = []"
  using used_bounds [of segs] by (cases segs) auto

section \<open>Taking and sending a buffer\<close>

lemma take_buffer:
  assumes "pool_ok cap avail" and "pool avail \<noteq> []" and "8 \<le> cap"
  obtains b q where "encoder_take_buffer avail = Inr (b, q)" and "buffer_ok cap b"
    and "dataSize b = 8" and "pool_ok cap q" and "length (pool avail) = Suc (length (pool q))"
    and "\<exists>c. pool avail = c # pool q"
proof -
  obtain c cs where cs: "pool avail = c # cs" using assms(2) by (cases "pool avail") auto
  have c: "buffer_ok cap c" using assms(1) cs by (simp add: pool_ok_def)
  let ?b = "(Buffer_clear c)\<lparr>dataSize := 8\<rparr>"
  show thesis
  proof (rule that [of ?b "avail\<lparr>pool := cs\<rparr>"])
    show "encoder_take_buffer avail = Inr (?b, avail\<lparr>pool := cs\<rparr>)"
      using c assms(3)
      by (simp add: encoder_take_buffer_def BufferPool_pop_wait_simps(2) [OF cs]
          Buffer_setDataSize_def Buffer_clear_def buffer_ok_def sizeof_PacketHeader_def)
    show "buffer_ok cap ?b" using c assms(3) by (simp add: Buffer_clear_def buffer_ok_def)
    show "pool_ok cap (avail\<lparr>pool := cs\<rparr>)" using assms(1) cs by (simp add: pool_ok_def)
  qed (use cs in simp_all)
qed

text \<open>The header and the segments of a packet under construction make up the packet.\<close>

lemma written_packet:
  assumes "buffer_ok cap b" and "dataSize b = used segs" and "segs \<noteq> []"
    and "drop 8 (buffer_data b) = segs_bytes segs"
  shows "\<exists>b'. Buffer_write 0 (PacketHeader_bytes (packet_header_of seq)) b = Inr b' \<and>
    buffer_ok cap b' \<and> buffer_data b' = packet_bytes (seq, segs)"
proof -
  have len: "8 \<le> dataSize b" "dataSize b \<le> length (content b)"
    using assms(1,2) used_bounds [of segs] by (auto simp: buffer_ok_def)
  let ?h = "PacketHeader_bytes (packet_header_of seq)"
  let ?b = "b\<lparr>content := overwrite 0 ?h (content b)\<rparr>"
  have "take (dataSize b) (overwrite 0 ?h (content b)) = ?h @ drop 8 (take (dataSize b) (content b))"
    using len by (simp add: overwrite_def drop_take)
  then have "buffer_data ?b = packet_bytes (seq, segs)"
    using assms(4) by (simp add: buffer_data_def packet_bytes_def)
  moreover have "Buffer_write 0 ?h b = Inr ?b" using len by (simp add: Buffer_write_def)
  moreover have "buffer_ok cap ?b" using assms(1) len by (simp add: buffer_ok_def)
  ultimately show ?thesis by blast
qed

lemma flush_buffer_refines:
  assumes rel: "enc_rel cap N old e st" and "8 \<le> cap" and "8 \<le> unat (enc_l4mtu e)"
    and room: "length (aout (abs_flush (ast_enc st))) \<le> N"
  shows "\<exists>e'. encoder_flush_buffer e = Inr e' \<and>
    enc_rel cap N old e' (st\<lparr>ast_enc := abs_flush (ast_enc st)\<rparr>) \<and> enc_fixed e' = enc_fixed e"
proof (cases "acur (ast_enc st) = []")
  case True
  then have "encoder_flush_buffer e = Inr e"
    using rel by (simp add: encoder_flush_buffer_def enc_rel_def Buffer_getDataSize_def
        sizeof_PacketHeader_def)
  with True rel show ?thesis by simp
next
  case False
  let ?a = "ast_enc st"
  have r: "buffer_ok cap (enc_tx_buffer e)" "dataSize (enc_tx_buffer e) = used (acur ?a)"
    "drop 8 (buffer_data (enc_tx_buffer e)) = segs_bytes (acur ?a)"
    "pool_ok cap (enc_available_buffer_pool e)" "pool_ok cap (enc_tx_buffer_pool e)"
    "enc_opt_len e = 1" "enc_sequence e = aseq ?a"
    "N \<le> length (pool (enc_available_buffer_pool e)) + length (aout ?a)"
    using rel False by (simp_all add: enc_rel_def)
  let ?seq = "this_seq (aseq ?a)"
  obtain b where b: "Buffer_write 0 (PacketHeader_bytes (packet_header_of ?seq)) (enc_tx_buffer e) = Inr b"
    "buffer_ok cap b" "buffer_data b = packet_bytes (?seq, acur ?a)"
    using written_packet [OF r(1,2) False r(3)] by blast
  let ?txp = "(enc_tx_buffer_pool e)\<lparr>pool := pool (enc_tx_buffer_pool e) @ [b]\<rparr>"
  have push: "BufferPool_push b (enc_tx_buffer_pool e) = Inr ?txp"
    using r(5) b(2) by (intro BufferPool_push_ok [of _ cap]) (simp_all add: pool_ok_def)
  have "pool (enc_available_buffer_pool e) \<noteq> []"
    using room r(8) False by (auto simp: abs_flush_def)
  then obtain t q where t: "encoder_take_buffer (enc_available_buffer_pool e) = Inr (t, q)"
    "buffer_ok cap t" "dataSize t = 8" "pool_ok cap q"
    "length (pool (enc_available_buffer_pool e)) = Suc (length (pool q))"
    using take_buffer [OF r(4) _ assms(2)] by metis
  let ?e = "e\<lparr>enc_sequence := ?seq + 1, enc_tx_buffer_pool := ?txp, enc_tx_buffer := t,
      enc_available_buffer_pool := q, enc_opt_len := 0, enc_packet_count := 0\<rparr>"
  have hdr: "\<lparr>ph_ver = ucast SETH_PACKET_HEADER_VERSION_V1, ph_opt_len = ucast (enc_opt_len e),
      ph_oam = 0, ph_critical = 0, ph_reserved = 0, ph_format = PacketHeaderFormat_value ENCAPSULATED,
      ph_channel = 0, ph_sequence = cpu_to_be_32 ?seq\<rparr> = packet_header_of ?seq"
    using r(6) by (simp add: packet_header_of_def SETH_PACKET_HEADER_VERSION_V1_def)
  have seq: "(if enc_sequence e = UINT32_MAX then 1 else enc_sequence e) = ?seq"
    using r(7) by (simp add: this_seq_def UINT32_MAX_def)
  have "used (acur ?a) \<noteq> 8" using False by (simp add: used_empty)
  then have run: "encoder_flush_buffer e = Inr ?e"
    unfolding encoder_flush_buffer_def seq Let_def hdr
    using b(1) push t(1) r(2)
    by (simp add: Buffer_getDataSize_def sizeof_PacketHeader_def encoder_getTxBuffer_def)
  have "drop 8 (buffer_data t) = []" using t(2,3) by (simp add: length_buffer_data)
  moreover have "pool_ok cap ?txp" using r(5) b(2) by (simp add: pool_ok_def)
  moreover have "enc_l4mtu ?e = enc_l4mtu e" by simp
  ultimately have "enc_rel cap N old ?e (st\<lparr>ast_enc := abs_flush ?a\<rparr>)"
    using rel False t b(3) r(8) assms(3) by (simp add: enc_rel_def abs_flush_def)
  with run show ?thesis by (auto simp: enc_fixed_def)
qed

lemma flushInflight_refines:
  assumes "enc_rel cap N old e st"
  shows "\<exists>e'. encoder_flushInflight lib e = Inr e' \<and> enc_rel cap N old e' (abs_unpend lib st) \<and>
    enc_fixed e' = enc_fixed e"
proof (cases "enc_inflight_buffers e = []")
  case True
  then show ?thesis using assms by (simp add: encoder_flushInflight_def abs_unpend_def enc_rel_def)
next
  case False
  have "BufferPool_push_list (enc_inflight_buffers e) (enc_available_buffer_pool e) =
    Inr ((enc_available_buffer_pool e)\<lparr>pool := pool (enc_available_buffer_pool e)
           @ enc_inflight_buffers e\<rparr>, [])"
    using assms by (intro BufferPool_push_list_ok [of _ cap]) (simp_all add: enc_rel_def pool_ok_def)
  with False assms show ?thesis
    by (auto simp: encoder_flushInflight_def abs_unpend_def enc_rel_def enc_fixed_def pool_ok_def)
qed

lemma flush_refines:
  assumes "enc_rel cap N old e st" and "8 \<le> cap" and "8 \<le> unat (enc_l4mtu e)"
    and "length (aout (abs_flush (ast_enc st))) \<le> N"
  shows "\<exists>e'. encoder_flush lib e = Inr e' \<and> enc_rel cap N old e' (abs_send lib st) \<and>
    enc_fixed e' = enc_fixed e"
proof -
  obtain e1 where e1: "encoder_flush_buffer e = Inr e1"
    "enc_rel cap N old e1 (st\<lparr>ast_enc := abs_flush (ast_enc st)\<rparr>)" "enc_fixed e1 = enc_fixed e"
    using flush_buffer_refines [OF assms] by blast
  obtain e2 where "encoder_flushInflight lib e1 = Inr e2" "enc_rel cap N old e2 (abs_send lib st)"
    "enc_fixed e2 = enc_fixed e1"
    using flushInflight_refines [OF e1(2), of lib] by (auto simp: abs_send_def)
  with e1 show ?thesis by (simp add: encoder_flush_def)
qed

section \<open>Adding a segment\<close>

lemma max_payload_room:
  assumes "dataSize (enc_tx_buffer e) \<noteq> 0"
  shows "unat (encoder_getMaxPayloadSize sz e) = unat (enc_l4mtu e) - 8 - dataSize (enc_tx_buffer e)"
proof -
  define l u where "l = unat (enc_l4mtu e)" and "u = dataSize (enc_tx_buffer e)"
  have l: "uint (enc_l4mtu e) = int l" "l < 65536" by (simp_all add: l_def)
  have eq: "encoder_getMaxPayloadSize sz e =
      (if int l - 8 - int u \<le> 0 then 0 else word_of_int (int l - 8 - int u))"
    using assms by (simp add: encoder_getMaxPayloadSize_def Buffer_getDataSize_def u_def
        sizeof_PacketHeaderOption_def l(1))
  have "unat (encoder_getMaxPayloadSize sz e) = l - 8 - u"
  proof (cases "8 + u < l")
    case True
    then have "int l - 8 - int u = int (l - 8 - u)" by simp
    then have "encoder_getMaxPayloadSize sz e = of_nat (l - 8 - u)" using True unfolding eq by simp
    moreover have "l - 8 - u < 65536" using l(2) by simp
    ultimately show ?thesis by simp
  qed (simp add: eq)
  then show ?thesis by (simp add: l_def u_def)
qed

lemma max_payload:
  assumes "enc_rel cap N old e st"
  shows "unat (encoder_getMaxPayloadSize sz e) = room (unat (enc_l4mtu e)) (ast_enc st)"
proof -
  have "dataSize (enc_tx_buffer e) = used (acur (ast_enc st))" "used (acur (ast_enc st)) \<noteq> 0"
    using assms used_bounds [of "acur (ast_enc st)"] by (auto simp: enc_rel_def)
  then show ?thesis using max_payload_room [of e sz] by (simp add: room_def)
qed

lemma packet_count_zero:
  assumes "length segs < 4294967295"
  shows "(of_nat (length segs) :: u32) = 0 \<longleftrightarrow> segs = []"
proof
  assume "(of_nat (length segs) :: u32) = 0"
  then have "unat (of_nat (length segs) :: u32) = 0" by simp
  with assms show "segs = []" by simp
qed simp

lemma add_payload_refines:
  assumes rel: "enc_rel cap N old e st" and "cap < 65536" and "unat (enc_l4mtu e) \<le> cap"
    and opt: "opt = seg_option s" and pay: "payload = seg_payload s"
    and fits: "used (acur (ast_enc st)) + 8 + length payload \<le> unat (enc_l4mtu e)"
  shows "\<exists>e'. encoder_add_payload opt payload e = Inr e' \<and>
    enc_rel cap N old e' (st\<lparr>ast_enc := abs_add s (ast_enc st)\<rparr>) \<and> enc_fixed e' = enc_fixed e \<and>
    content (enc_tx_buffer e') = overwrite (dataSize (enc_tx_buffer e))
      (PacketHeaderOption_bytes opt @ payload) (content (enc_tx_buffer e))"
proof -
  let ?b = "enc_tx_buffer e" and ?a = "ast_enc st"
  have b: "buffer_ok cap ?b" "dataSize ?b = used (acur ?a)"
    using rel by (simp_all add: enc_rel_def)
  have fit: "dataSize ?b + length (PacketHeaderOption_bytes opt) + length payload \<le> cap"
    using fits assms(3) b by simp
  obtain b1 b2 b3 where w: "Buffer_write (dataSize ?b) (PacketHeaderOption_bytes opt) ?b = Inr b1"
    "Buffer_setDataSize (dataSize ?b + length (PacketHeaderOption_bytes opt)) b1 = Inr b2"
    "Buffer_append payload b2 = Inr b3" "buffer_ok cap b3"
    "buffer_data b3 = buffer_data ?b @ PacketHeaderOption_bytes opt @ payload"
    "dataSize b3 = dataSize ?b + length (PacketHeaderOption_bytes opt) + length payload"
    "content b3 = overwrite (dataSize ?b) (PacketHeaderOption_bytes opt @ payload) (content ?b)"
    by (rule Buffer_extend [OF b(1) fit]) blast
  have len: "length (acur ?a) < 4294967295"
    using used_bounds [of "acur ?a"] fits unat_u16_bound [of "enc_l4mtu e"]
    by (simp del: unat_u16_bound)
  have count: "enc_packet_count e = of_nat (length (acur ?a))"
    and optlen: "enc_opt_len e = of_bool (acur ?a \<noteq> [])"
    using rel by (simp_all add: enc_rel_def)
  let ?e = "e\<lparr>enc_tx_buffer := b3,
      enc_opt_len := (if enc_packet_count e = 0 then enc_opt_len e + 1 else enc_opt_len e),
      enc_packet_count := enc_packet_count e + 1\<rparr>"
  have run: "encoder_add_payload opt payload e = Inr ?e"
    using w(1-3) by (simp add: encoder_add_payload_def Buffer_getDataSize_def
        sizeof_PacketHeaderOption_def)
  have "enc_rel cap N old ?e (st\<lparr>ast_enc := abs_add s ?a\<rparr>)"
    unfolding enc_rel_def
  proof (intro conjI)
    show "drop 8 (buffer_data (enc_tx_buffer ?e)) =
        segs_bytes (acur (ast_enc (st\<lparr>ast_enc := abs_add s ?a\<rparr>)))"
      using rel w(5) b used_bounds [of "acur ?a"]
      by (simp add: enc_rel_def abs_add_def seg_bytes_def opt pay length_buffer_data [OF b(1)])
    show "enc_opt_len ?e = of_bool (acur (ast_enc (st\<lparr>ast_enc := abs_add s ?a\<rparr>)) \<noteq> [])"
      using packet_count_zero [OF len] count optlen by (simp add: abs_add_def)
  qed (use rel w fits b pay in \<open>simp_all add: enc_rel_def abs_add_def\<close>)
  with run w(7) show ?thesis by (auto simp: enc_fixed_def)
qed

text \<open>Marking the last part of a frame: one byte of its option header is written again.\<close>

lemma overwrite_head:
  "p + length (y # ys) \<le> length xs \<Longrightarrow>
    overwrite p [z] (overwrite p (y # ys) xs) = overwrite p (z # ys) xs"
  by (simp add: overwrite_def min_def)

lemma part_option_bytes:
  "PacketHeaderOption_bytes (seg_option (Part l orig fmt part payload)) =
     (if l then 3 else 1) # tl (PacketHeaderOption_bytes (seg_option (Part False orig fmt part payload)))"
  by (simp add: PacketHeaderOption_bytes_def)

lemma complete_bit:
  assumes rel: "enc_rel cap N old e (st\<lparr>ast_enc := abs_add (Part False orig fmt part payload) a\<rparr>)"
    and b: "buffer_ok cap b" "dataSize b = used (acur a)" "drop 8 (buffer_data b) = segs_bytes (acur a)"
    and con: "content (enc_tx_buffer e) = overwrite (dataSize b)
      (PacketHeaderOption_bytes (seg_option (Part False orig fmt part payload)) @ payload) (content b)"
    and fits: "used (acur a) + 8 + length payload \<le> cap"
  shows "\<exists>b'. Buffer_write (dataSize b) [PacketHeaderOptionType_value PARTIAL_PACKET OR
        PacketHeaderOptionType_value COMPLETE_PACKET] (enc_tx_buffer e) = Inr b' \<and>
    enc_rel cap N old (e\<lparr>enc_tx_buffer := b'\<rparr>)
      (st\<lparr>ast_enc := abs_add (Part True orig fmt part payload) a\<rparr>)"
proof -
  let ?t = "enc_tx_buffer e"
  let ?hdr = "\<lambda>l. PacketHeaderOption_bytes (seg_option (Part l orig fmt part payload))"
  let ?b = "?t\<lparr>content := overwrite (dataSize b) [3] (content ?t)\<rparr>"
  have t: "buffer_ok cap ?t" "dataSize ?t = used (acur a) + 8 + length payload"
    using rel by (simp_all add: enc_rel_def abs_add_def)
  have len: "length (content b) = cap" using b(1) by (simp add: buffer_ok_def)
  have inside: "dataSize b + length (?hdr True @ payload) \<le> length (content b)"
    using fits b(2) len by simp
  have run: "Buffer_write (dataSize b) [PacketHeaderOptionType_value PARTIAL_PACKET OR
      PacketHeaderOptionType_value COMPLETE_PACKET] ?t = Inr ?b"
    using t(1) fits b(2) by (simp add: Buffer_write_def buffer_ok_def)
  have ok: "buffer_ok cap ?b" using t(1) fits b(2) by (simp add: buffer_ok_def)
  have bytes: "?hdr False @ payload = 1 # (tl (?hdr False) @ payload)"
    "?hdr True @ payload = 3 # (tl (?hdr False) @ payload)"
    by (subst part_option_bytes, simp only: if_True if_False append_Cons)+
  have "dataSize b + length (1 # (tl (?hdr False) @ payload)) \<le> length (content b)"
    using inside unfolding bytes by (simp only: list.size)
  from overwrite_head [OF this, of 3]
  have "content ?b = overwrite (dataSize b) (?hdr True @ payload) (content b)"
    unfolding bytes by (simp only: con bytes) simp
  moreover have "dataSize ?b = dataSize b + length (?hdr True @ payload)"
    using t(2) b(2) by simp
  ultimately have "buffer_data ?b = buffer_data b @ ?hdr True @ payload"
    using take_overwrite [OF inside] unfolding buffer_data_def by simp
  moreover have "8 \<le> length (buffer_data b)"
    using used_bounds [of "acur a"] b(2) by (simp add: length_buffer_data [OF b(1)])
  ultimately have "drop 8 (buffer_data ?b) = segs_bytes (acur (abs_add (Part True orig fmt part payload) a))"
    using b(3) by (simp add: abs_add_def seg_bytes_def del: seg_option.simps)
  with rel ok t have "enc_rel cap N old (e\<lparr>enc_tx_buffer := ?b\<rparr>)
      (st\<lparr>ast_enc := abs_add (Part True orig fmt part payload) a\<rparr>)"
    by (simp add: enc_rel_def abs_add_def)
  with run show ?thesis by blast
qed

section \<open>Splitting a frame\<close>

lemma part_refines:
  fixes e :: "('s, 'f) encoder" and pos :: u16 and a :: aenc and m :: nat
  defines "rest \<equiv> \<lambda>packet :: packet_buffer. drop (unat pos) (buffer_data packet)"
  defines "n \<equiv> \<lambda>packet. min (length (rest packet)) (room m a)"
  defines "a1 \<equiv> \<lambda>packet orig fmt part.
    abs_add (Part (n packet = length (rest packet)) orig fmt part (take (n packet) (rest packet))) a"
  defines "a2 \<equiv> \<lambda>packet orig fmt part. if used (acur (a1 packet orig fmt part)) = m
    then abs_flush (a1 packet orig fmt part) else a1 packet orig fmt part"
  assumes rel: "enc_rel cap N old e st" and a: "ast_enc st = a" and m: "m = unat (enc_l4mtu e)"
    and sizes: "8 \<le> m" "m \<le> cap" "cap < 65536"
    and packet: "buffer_ok cap packet" and rest: "rest packet \<noteq> []" and room: "0 < room m a"
    and avail: "length (aout (a2 packet orig fmt part)) \<le> N"
  shows "\<exists>e'. encoder_part orig fmt packet (e, pos, part) =
      Inr (e', pos + of_nat (n packet), part + 1) \<and>
    enc_rel cap N old e' (st\<lparr>ast_enc := a2 packet orig fmt part\<rparr>) \<and> enc_fixed e' = enc_fixed e"
proof -
  let ?n = "n packet" and ?rest = "rest packet"
  let ?pl = "take ?n ?rest" and ?b = "enc_tx_buffer e"
  let ?s = "\<lambda>l. Part l orig fmt part (take ?n ?rest)"
  let ?last = "?n = length ?rest"
  have restlen: "length ?rest = dataSize packet - unat pos" "length ?rest < 65536"
    using length_buffer_data [OF packet] packet sizes by (auto simp: rest_def buffer_ok_def)
  have pos: "unat pos + length ?rest = dataSize packet"
    using rest packet by (simp add: rest_def length_buffer_data)
  have n16: "?n < 65536" using restlen by (simp add: n_def)
  define left where "left = (of_nat (dataSize packet - unat pos) :: u16)"
  have left: "unat left = length ?rest" using restlen by (simp add: left_def)
  have size: "(if left > encoder_getMaxPayloadSize left e
      then encoder_getMaxPayloadSize left e else left) = of_nat ?n" (is "?size = _")
  proof -
    have "unat ?size = ?n"
      using max_payload [OF rel, of left] left a m by (simp add: n_def word_less_nat_alt min_def)
    then show ?thesis using n16 by (simp add: word_unat_eq_iff)
  qed
  have usz: "unat (of_nat ?n :: u16) = ?n" using n16 by simp
  have len_pl: "length ?pl = ?n" by (simp add: n_def)
  have read: "Buffer_read (unat pos) ?n packet = Inr ?pl"
  proof -
    have "unat pos + ?n \<le> dataSize packet" using pos by (simp add: n_def)
    from Buffer_read_data [OF packet this] show ?thesis by (simp add: slice_def rest_def)
  qed
  define opt where "opt = \<lparr>po_type = PacketHeaderOptionType_value PARTIAL_PACKET,
      po_packet_size = cpu_to_be_16 orig, po_format = fmt,
      po_payload_length = cpu_to_be_16 (of_nat ?n), po_part = part, po_reserved = 0\<rparr>"
  have opt: "opt = seg_option (?s False)" 
    by (simp only: opt_def seg_option.simps len_pl if_False PacketHeaderOptionType_value.simps)
  have fits: "used (acur (ast_enc st)) + 8 + length ?pl \<le> unat (enc_l4mtu e)"
    using room by (simp add: len_pl a m n_def room_def)
  obtain e1 where e1: "encoder_add_payload opt ?pl e = Inr e1"
    "enc_rel cap N old e1 (st\<lparr>ast_enc := abs_add (?s False) (ast_enc st)\<rparr>)"
    "enc_fixed e1 = enc_fixed e"
    "content (enc_tx_buffer e1) = overwrite (dataSize ?b) (PacketHeaderOption_bytes opt @ ?pl) (content ?b)"
    using add_payload_refines [OF rel sizes(3) _ opt _ fits] m sizes(2) by auto
  have ds: "dataSize ?b = used (acur a)" "buffer_ok cap ?b" "drop 8 (buffer_data ?b) = segs_bytes (acur a)"
    using rel a by (simp_all add: enc_rel_def)
  have fits2: "used (acur a) + 8 + length ?pl \<le> cap" using fits a m sizes(2) by simp
  obtain b where b: "(if left - of_nat ?n = 0
        then Buffer_write (dataSize ?b) [po_type opt OR PacketHeaderOptionType_value COMPLETE_PACKET]
               (enc_tx_buffer e1)
        else Inr (enc_tx_buffer e1)) = Inr b"
    and rel2: "enc_rel cap N old (e1\<lparr>enc_tx_buffer := b\<rparr>) (st\<lparr>ast_enc := abs_add (?s ?last) a\<rparr>)"
  proof (cases ?last)
    case True
    have "po_type opt = PacketHeaderOptionType_value PARTIAL_PACKET" by (simp add: opt_def)
    moreover have "left = of_nat ?n" using left True n16 by (simp add: word_unat_eq_iff)
    ultimately show thesis
      using complete_bit [OF e1(2) [unfolded a] ds(2,1,3) e1(4) [unfolded opt] fits2] True
      by (auto intro: that)
  next
    case False
    have "left \<noteq> of_nat ?n" using left usz False by auto
    then show thesis using e1(2) False a by (intro that [of "enc_tx_buffer e1"]) simp_all
  qed
  have a1: "abs_add (?s ?last) a = a1 packet orig fmt part" by (simp add: a1_def)
  let ?e2 = "e1\<lparr>enc_tx_buffer := b\<rparr>"
  have fx2: "enc_fixed ?e2 = enc_fixed e" using e1(3) by (simp add: enc_fixed_def)
  have l4: "enc_l4mtu ?e2 = enc_l4mtu e" using enc_fixedD [OF fx2] by simp
  have bsize: "dataSize b = used (acur (a1 packet orig fmt part))"
    using rel2 by (simp add: enc_rel_def a1)
  obtain e3 where e3: "(if dataSize b = unat (enc_l4mtu ?e2) then encoder_flush_buffer ?e2 else Inr ?e2) = Inr e3"
    "enc_rel cap N old e3 (st\<lparr>ast_enc := a2 packet orig fmt part\<rparr>)" "enc_fixed e3 = enc_fixed ?e2"
  proof (cases "dataSize b = m")
    case True
    have "8 \<le> cap" "8 \<le> unat (enc_l4mtu ?e2)" using sizes m l4 by simp_all
    moreover have "length (aout (abs_flush (ast_enc (st\<lparr>ast_enc := abs_add (?s ?last) a\<rparr>)))) \<le> N"
      using avail True bsize by (simp add: a2_def a1)
    ultimately show thesis
      using flush_buffer_refines [OF rel2] True bsize l4 m that by (auto simp: a2_def a1)
  next
    case False
    then show thesis using that [of ?e2] rel2 bsize l4 m by (simp add: a2_def a1)
  qed
  have "encoder_part orig fmt packet (e, pos, part) = Inr (e3, pos + of_nat ?n, part + 1)"
    unfolding encoder_part_def prod.case Buffer_getDataSize_def left_def [symmetric] Let_def size
      opt_def [symmetric] usz read rbind_simps e1(1) b e3(1) by simp
  with e3 fx2 show ?thesis by metis
qed

lemma parts_refines:
  assumes "enc_rel cap N old e st" and "ast_enc st = a" and "m = unat (enc_l4mtu e)"
    and "16 < m" and "m \<le> cap" and "cap < 65536" and "buffer_ok cap packet"
    and "rest = drop (unat pos) (buffer_data packet)" and "rest \<noteq> [] \<Longrightarrow> 0 < room m a"
    and "length (aout (abs_parts m orig fmt part rest a)) \<le> N"
  shows "\<exists>e' pos' part'. encoder_parts orig fmt packet (e, pos, part) = Inr (e', pos', part') \<and>
    enc_rel cap N old e' (st\<lparr>ast_enc := abs_parts m orig fmt part rest a\<rparr>) \<and>
    enc_fixed e' = enc_fixed e"
  using assms
proof (induction m orig fmt part rest a arbitrary: e st pos rule: abs_parts.induct)
  case (1 m orig fmt part rest a)
  have len: "length (buffer_data packet) = dataSize packet"
    by (rule length_buffer_data [OF "1.prems"(7)])
  show ?case
  proof (cases "rest = []")
    case True
    then have "\<not> unat pos < dataSize packet" using "1.prems"(8) len by simp
    then have "encoder_parts orig fmt packet (e, pos, part) = Inr (e, pos, part)"
      by (simp add: encoder_parts_def Buffer_getDataSize_def)
    with True "1.prems"(1,2) show ?thesis by (auto simp: abs_parts_stop)
  next
    case False
    let ?n = "min (length rest) (room m a)"
    let ?a1 = "abs_add (Part (?n = length rest) orig fmt part (take ?n rest)) a"
    let ?a2 = "if used (acur ?a1) = m then abs_flush ?a1 else ?a1"
    have room: "0 < room m a" by (rule "1.prems"(9) [OF False])
    have step: "abs_parts m orig fmt part rest a = abs_parts m orig fmt (part + 1) (drop ?n rest) ?a2"
      using False room by (intro abs_parts_step) simp_all
    have "length (aout ?a2) \<le> length (aout (abs_parts m orig fmt part rest a))"
      unfolding step by (rule aout_parts)
    then have avail: "length (aout ?a2) \<le> N" using "1.prems"(10) by (rule le_trans)
    have "8 \<le> m" using "1.prems"(4) by simp
    note part = part_refines [OF "1.prems"(1,2,3) this "1.prems"(5,6,7), of pos orig fmt part]
    obtain e1 where e1: "encoder_part orig fmt packet (e, pos, part) =
        Inr (e1, pos + of_nat ?n, part + 1)"
      and rel1: "enc_rel cap N old e1 (st\<lparr>ast_enc := ?a2\<rparr>)" and fx1: "enc_fixed e1 = enc_fixed e"
      using part False room avail unfolding "1.prems"(8) [symmetric] by metis
    have inside: "unat pos < dataSize packet" using False "1.prems"(8) len by simp
    have end_pos: "unat pos + length rest = dataSize packet" using inside "1.prems"(8) len by simp
    have pos1: "unat (pos + of_nat ?n) = unat pos + ?n"
    proof -
      have "dataSize packet < 65536" using "1.prems"(6,7) by (simp add: buffer_ok_def)
      then have "unat pos + ?n < 65536" "?n < 65536" using end_pos by simp_all
      then show ?thesis by (simp add: unat_word_ariths)
    qed
    have "drop ?n rest = drop (unat (pos + of_nat ?n)) (buffer_data packet)"
      unfolding pos1 using "1.prems"(8) by (metis drop_drop add.commute)
    moreover have "0 < room m ?a2" if "drop ?n rest \<noteq> []"
    proof -
      have "?n = room m a" using that by (simp add: min_def split: if_splits)
      then have "used (acur ?a1) = m" using room by (simp add: abs_add_def room_def)
      then show ?thesis using "1.prems"(4) by simp
    qed
    ultimately obtain e2 pos2 part2 where e2:
      "encoder_parts orig fmt packet (e1, pos + of_nat ?n, part + 1) = Inr (e2, pos2, part2)"
      "enc_rel cap N old e2 (st\<lparr>ast_enc := abs_parts m orig fmt (part + 1) (drop ?n rest) ?a2\<rparr>)"
      "enc_fixed e2 = enc_fixed e1"
      using "1.IH" [of ?n ?a1 ?a2 "e1" "st\<lparr>ast_enc := ?a2\<rparr>" "pos + of_nat ?n"] False room rel1
        "1.prems"(3-7,10) enc_fixedD [OF fx1] unfolding step by auto
    have "encoder_parts orig fmt packet (e, pos, part) =
        encoder_parts orig fmt packet (e1, pos + of_nat ?n, part + 1)"
      unfolding encoder_parts_def
      by (subst rwhile_unfold) (use inside e1 in \<open>simp add: Buffer_getDataSize_def\<close>)
    with e2 fx1 show ?thesis unfolding step by metis
  qed
qed

section \<open>Whole frames\<close>

lemma complete_refines:
  assumes "enc_rel cap N old e st" and "cap < 65536" and "unat (enc_l4mtu e) \<le> cap"
    and "buffer_ok cap packet" and "dataSize packet \<le> room (unat (enc_l4mtu e)) (ast_enc st)"
    and "0 < room (unat (enc_l4mtu e)) (ast_enc st)"
  shows "\<exists>e'. encoder_complete orig fmt packet e = Inr e' \<and>
    enc_rel cap N old e'
      (st\<lparr>ast_enc := abs_add (Complete orig fmt (buffer_data packet)) (ast_enc st)\<rparr>) \<and>
    enc_fixed e' = enc_fixed e"
proof -
  have len: "length (buffer_data packet) = dataSize packet" by (rule length_buffer_data [OF assms(4)])
  let ?opt = "\<lparr>po_type = PacketHeaderOptionType_value COMPLETE_PACKET,
      po_packet_size = cpu_to_be_16 orig, po_format = fmt,
      po_payload_length = cpu_to_be_16 (of_nat (dataSize packet)), po_part = 0, po_reserved = 0\<rparr>"
  have opt: "?opt = seg_option (Complete orig fmt (buffer_data packet))" by (simp add: len)
  have "used (acur (ast_enc st)) + 8 + length (buffer_data packet) \<le> unat (enc_l4mtu e)"
    using assms(5,6) by (simp add: room_def len)
  then obtain e' where "encoder_add_payload ?opt (buffer_data packet) e = Inr e'"
    "enc_rel cap N old e'
      (st\<lparr>ast_enc := abs_add (Complete orig fmt (buffer_data packet)) (ast_enc st)\<rparr>)"
    "enc_fixed e' = enc_fixed e"
    using add_payload_refines [OF assms(1-3) opt, of "buffer_data packet"] by auto
  moreover have "Buffer_read 0 (dataSize packet) packet = Inr (buffer_data packet)"
    using Buffer_read_data [OF assms(4), of 0 "dataSize packet"] by (simp add: slice_def len)
  ultimately show ?thesis by (simp add: encoder_complete_def Buffer_getDataSize_def)
qed

definition enc_config :: "('s, 'f) encoder \<Rightarrow> u16 \<times> u16 \<times> u8" where
  "enc_config e = (enc_l2mtu e, enc_l4mtu e, enc_packet_format e)"

definition comp_buffer_ok :: "nat \<Rightarrow> ('s, 'f) encoder \<Rightarrow> bool" where
  "comp_buffer_ok cap e \<longleftrightarrow> (\<exists>b. enc_comp_buffer e = Some b \<and> buffer_ok cap b)"

lemma enc_fixed_config: "enc_fixed e' = enc_fixed e \<Longrightarrow> enc_config e' = enc_config e"
  by (simp add: enc_fixed_def enc_config_def)

lemma compress_refines:
  assumes rel: "enc_rel cap N old e st" and raw: "buffer_ok cap raw" and "cap < 65536"
    and "comp_buffer_ok cap e" and fmt: "enc_packet_format e = fmt"
    and R: "fmt \<noteq> 0 \<Longrightarrow> lossless lib alg l2 cap R"
    and stream: "fmt \<noteq> 0 \<Longrightarrow> \<exists>c d. ast_comp st = Some c \<and> R c d" and "dataSize raw \<le> l2"
    and pack: "abs_pack lib cap fmt (buffer_data raw) st = (payload, st1)"
  shows "\<exists>packet e1. encoder_compress ratio lib raw e = Inr (packet, fmt, e1) \<and>
    enc_rel cap N old e1 st1 \<and> buffer_ok cap packet \<and> buffer_data packet = payload \<and>
    enc_config e1 = enc_config e \<and>
    (if fmt = 0 then packet = raw \<and> enc_comp_buffer e1 = enc_comp_buffer e
     else enc_comp_buffer e1 = None)"
proof (cases "fmt = 0")
  case True
  with rel raw fmt pack show ?thesis by (simp add: encoder_compress_def abs_pack_def)
next
  case False
  obtain cb where cb: "enc_comp_buffer e = Some cb" "buffer_ok cap cb"
    using assms(4) by (auto simp: comp_buffer_ok_def)
  obtain c d where c: "ast_comp st = Some c" "R c d" using stream [OF False] by blast
  have len: "length (buffer_data raw) = dataSize raw" by (rule length_buffer_data [OF raw])
  have short: "length (buffer_data raw) \<le> l2" using len assms(8) by simp
  obtain out c' where comp: "sc_compress lib (buffer_data raw) cap c = (int (length out), out, c')"
    "out \<noteq> []" "length out \<le> cap"
    using losslessE [OF R [OF False] c(2) short] by blast
  have st1: "payload = out" "st1 = st\<lparr>ast_comp := Some c', ast_pend := True\<rparr>"
    using pack False c(1) comp(1) by (simp_all add: abs_pack_def)
  have "dataSize raw < 65536" using raw assms(3) by (simp add: buffer_ok_def)
  then have read: "Buffer_read 0 (unat (of_nat (dataSize raw) :: u16)) raw = Inr (buffer_data raw)"
    using Buffer_read_data [OF raw, of 0 "dataSize raw"] by (simp add: slice_def len)
  obtain b1 b2 where b: "Buffer_write 0 out cb = Inr b1"
    "Buffer_setDataSize (length out) b1 = Inr b2" "buffer_ok cap b2" "buffer_data b2 = out"
    using Buffer_replace [OF cb(2) comp(3)] by blast
  have stat: "statistic_ok (enc_statCompressionRatio e)" using rel by (simp add: enc_rel_def)
  obtain stat' where stat': "Statistic_add (ratio (int (length out)) (of_nat (dataSize raw)))
      (enc_statCompressionRatio e) = Inr stat'" "statistic_ok stat'"
    using Statistic_add_ok [OF stat] by blast
  let ?e = "(encoder_pushInflight raw (e\<lparr>enc_compressor := Some c', enc_comp_buffer := None\<rparr>))
      \<lparr>enc_statCompressionRatio := stat'\<rparr>"
  have "content cb = content cb \<and> Buffer_getBufferSize cb = cap" and "enc_compressor e = Some c"
    using cb c rel by (simp_all add: buffer_ok_def Buffer_getBufferSize_def enc_rel_def)
  then have "encoder_compress ratio lib raw e = Inr (b2, fmt, ?e)"
    using False fmt cb(1) comp b(1,2) read stat'(1) assms(3)
    by (simp add: encoder_compress_def Buffer_getDataSize_def encoder_pushInflight_def)
  moreover have "enc_rel cap N old ?e st1"
    using rel raw stat'(2) by (auto simp: enc_rel_def encoder_pushInflight_def st1)
  moreover have "enc_config ?e = enc_config e" "enc_comp_buffer ?e = None"
    by (simp_all add: enc_config_def encoder_pushInflight_def)
  ultimately show ?thesis using b(3,4) False st1 by auto
qed

text \<open>The frame in the packets: the middle of \<open>encode\<close>.\<close>

lemma segments_refine:
  assumes rel: "enc_rel cap N old e st" and m: "m = unat (enc_l4mtu e)" and "16 < m" and "m \<le> cap"
    and "cap < 65536" and packet: "buffer_ok cap packet" and room: "0 < room m (ast_enc st)"
    and st2: "st2 = (if length (buffer_data packet) > room m (ast_enc st)
       then abs_unpend lib (st\<lparr>ast_enc := abs_parts m orig fmt 1 (buffer_data packet) (ast_enc st)\<rparr>)
       else st\<lparr>ast_enc := abs_add (Complete orig fmt (buffer_data packet)) (ast_enc st)\<rparr>)"
    and avail: "length (aout (ast_enc st2)) \<le> N"
  shows "\<exists>e'. (if Buffer_getDataSize packet
                  > unat (encoder_getMaxPayloadSize (of_nat (Buffer_getDataSize packet)) e)
             then rbind (encoder_parts orig fmt packet (e, 0, 1)) (\<lambda>(e2, _, _). encoder_flushInflight lib e2)
             else encoder_complete orig fmt packet e) = Inr e' \<and>
    enc_rel cap N old e' st2 \<and> enc_fixed e' = enc_fixed e"
proof -
  have len: "length (buffer_data packet) = dataSize packet" by (rule length_buffer_data [OF packet])
  note max = max_payload [OF rel]
  show ?thesis
  proof (cases "dataSize packet > room m (ast_enc st)")
    case True
    then have enc2: "ast_enc st2 = abs_parts m orig fmt 1 (buffer_data packet) (ast_enc st)"
      by (simp add: st2 len)
    have "buffer_data packet = drop (unat (0 :: u16)) (buffer_data packet)" by simp
    from parts_refines [OF rel refl m assms(3-6) this room avail [unfolded enc2]]
    obtain e1 pos part where e1: "encoder_parts orig fmt packet (e, 0, 1) = Inr (e1, pos, part)"
      "enc_rel cap N old e1
         (st\<lparr>ast_enc := abs_parts m orig fmt 1 (buffer_data packet) (ast_enc st)\<rparr>)"
      "enc_fixed e1 = enc_fixed e"
      by blast
    from flushInflight_refines [OF e1(2), of lib] True e1 show ?thesis
      by (auto simp: Buffer_getDataSize_def max m [symmetric] st2 len)
  next
    case False
    have "unat (enc_l4mtu e) \<le> cap" using assms(4) m by simp
    from complete_refines [OF rel assms(5) this packet, of orig fmt] False room
    show ?thesis by (auto simp: Buffer_getDataSize_def max m [symmetric] st2 len)
  qed
qed

lemma encode_refines:
  assumes rel: "enc_rel cap N old e st" and raw: "buffer_ok cap raw"
    and size: "dataSize raw \<le> unat (enc_l2mtu e)" and m: "m = unat (enc_l4mtu e)"
    and "104 \<le> m" and "m \<le> cap" and "cap < 65536" and room: "88 \<le> room m (ast_enc st)"
    and comp: "comp_buffer_ok cap e" and fmt: "enc_packet_format e = fmt"
    and R: "fmt \<noteq> 0 \<Longrightarrow> lossless lib alg (unat (enc_l2mtu e)) cap R"
    and stream: "fmt \<noteq> 0 \<Longrightarrow> \<exists>c d. ast_comp st = Some c \<and> R c d"
    and avail: "length (aout (ast_enc (abs_frame lib m cap fmt (buffer_data raw) st))) \<le> N"
  shows "\<exists>e'. encoder_encode ratio lib raw e = Inr e' \<and>
    enc_rel cap N old e' (abs_frame lib m cap fmt (buffer_data raw) st) \<and>
    comp_buffer_ok cap e' \<and> enc_config e' = enc_config e"
proof -
  let ?x = "buffer_data raw"
  obtain payload st1 where pack: "abs_pack lib cap fmt ?x st = (payload, st1)"
    by (cases "abs_pack lib cap fmt ?x st")
  have len: "length ?x = dataSize raw" by (rule length_buffer_data [OF raw])
  have orig: "unat (of_nat (dataSize raw) :: u16) = dataSize raw"
    using raw assms(7) by (simp add: buffer_ok_def)
  have small: "\<not> of_nat (dataSize raw) > enc_l2mtu e"
    using size orig by (simp add: word_less_nat_alt)
  obtain packet e1 where e1: "encoder_compress ratio lib raw e = Inr (packet, fmt, e1)"
    "enc_rel cap N old e1 st1" "buffer_ok cap packet" "buffer_data packet = payload"
    "enc_config e1 = enc_config e"
    and cb: "if fmt = 0 then packet = raw \<and> enc_comp_buffer e1 = enc_comp_buffer e
       else enc_comp_buffer e1 = None"
    using compress_refines [OF rel raw assms(7) comp fmt R stream size pack] by metis
  have m1: "m = unat (enc_l4mtu e1)" using e1(5) m by (simp add: enc_config_def)
  define st2 where "st2 = (if length payload > room m (ast_enc st1)
       then abs_unpend lib (st1\<lparr>ast_enc := abs_parts m (of_nat (dataSize raw)) fmt 1 payload (ast_enc st1)\<rparr>)
       else st1\<lparr>ast_enc := abs_add (Complete (of_nat (dataSize raw)) fmt payload) (ast_enc st1)\<rparr>)"
  define st3 where "st3 = (if room m (ast_enc st2) < 88 then abs_send lib st2 else st2)"
  have frame: "abs_frame lib m cap fmt ?x st = st3"
    by (simp add: abs_frame_def pack st2_def st3_def Let_def len)
  have avail3: "length (aout (ast_enc st3)) \<le> N" using avail by (simp add: frame)
  have "length (aout (ast_enc st2)) \<le> length (aout (ast_enc st3))"
    by (simp add: st3_def aout_flush)
  then have avail2: "length (aout (ast_enc st2)) \<le> N" using avail3 by simp
  have room1: "0 < room m (ast_enc st1)" using room ast_enc_pack [OF pack] by simp
  have "16 < m" using assms(5) by simp
  from segments_refine [OF e1(2) m1 this assms(6,7) e1(3) room1 _ avail2, of lib "of_nat (dataSize raw)" fmt]
  obtain e2 where e2: "(if Buffer_getDataSize packet
            > unat (encoder_getMaxPayloadSize (of_nat (Buffer_getDataSize packet)) e1)
       then rbind (encoder_parts (of_nat (dataSize raw)) fmt packet (e1, 0, 1))
              (\<lambda>(e2, _, _). encoder_flushInflight lib e2)
       else encoder_complete (of_nat (dataSize raw)) fmt packet e1) = Inr e2"
    "enc_rel cap N old e2 st2" "enc_fixed e2 = enc_fixed e1"
    using st2_def e1(4) by auto
  have m2: "m = unat (enc_l4mtu e2)" using enc_fixedD [OF e2(3)] m1 by simp
  obtain e3 where e3: "(if room m (ast_enc st2) < 88
      then rbind (encoder_flush_buffer e2) (encoder_flushInflight lib) else Inr e2) = Inr e3"
    "enc_rel cap N old e3 st3" "enc_fixed e3 = enc_fixed e2"
  proof (cases "room m (ast_enc st2) < 88")
    case True
    have "8 \<le> cap" "8 \<le> unat (enc_l4mtu e2)" using assms(5,6) m2 by simp_all
    moreover have "length (aout (abs_flush (ast_enc st2))) \<le> N"
      using avail3 True by (simp add: st3_def)
    ultimately show thesis
      using flush_refines [OF e2(2)] True that unfolding encoder_flush_def st3_def by metis
  next
    case False
    then show thesis using e2(2) by (intro that [of e2]) (simp_all add: st3_def)
  qed
  have fixed3: "enc_packet_format e3 = fmt" "enc_comp_buffer e3 = enc_comp_buffer e1"
    "enc_config e3 = enc_config e"
    using enc_fixedD [OF e3(3)] enc_fixedD [OF e2(3)] e1(5) fmt by (auto simp: enc_config_def)
  have run: "encoder_encode ratio lib raw e =
      (if fmt \<noteq> 0 \<and> enc_comp_buffer e3 = None then Inr (e3\<lparr>enc_comp_buffer := Some packet\<rparr>)
       else rbind (BufferPool_push packet (enc_available_buffer_pool e3)) (\<lambda>avail.
            Inr (e3\<lparr>enc_available_buffer_pool := avail\<rparr>)))"
  proof -
    have max2: "unat (encoder_getMaxPayloadSize SETH_PACKET_MAX_SIZE e2) = room m (ast_enc st2)"
      using max_payload [OF e2(2)] m2 by simp
    have n: "sizeof_PacketHeader + sizeof_PacketHeaderOption * 10 = 88"
      by (simp add: sizeof_PacketHeader_def sizeof_PacketHeaderOption_def)
    show ?thesis
      unfolding encoder_encode_def Let_def Buffer_getDataSize_def [of raw]
      using small by (simp only: if_False e1(1) rbind_simps prod.case e2(1) max2 n e3(1) fixed3(1)
          PacketHeaderOptionFormatType_value.simps)
  qed
  show ?thesis
  proof (cases "fmt = 0")
    case True
    let ?pool = "(enc_available_buffer_pool e3)\<lparr>pool := pool (enc_available_buffer_pool e3) @ [packet]\<rparr>"
    have "BufferPool_push packet (enc_available_buffer_pool e3) = Inr ?pool"
      using e3(2) e1(3) by (intro BufferPool_push_ok [of _ cap]) (simp_all add: enc_rel_def pool_ok_def)
    then have "encoder_encode ratio lib raw e = Inr (e3\<lparr>enc_available_buffer_pool := ?pool\<rparr>)"
      using run True by simp
    moreover have "enc_rel cap N old (e3\<lparr>enc_available_buffer_pool := ?pool\<rparr>) st3"
      using e3(2) e1(3) by (simp add: enc_rel_def pool_ok_def)
    moreover have "comp_buffer_ok cap (e3\<lparr>enc_available_buffer_pool := ?pool\<rparr>)"
      using comp cb True fixed3(2) by (simp add: comp_buffer_ok_def)
    ultimately show ?thesis using fixed3(3) by (simp add: frame enc_config_def)
  next
    case False
    then have "encoder_encode ratio lib raw e = Inr (e3\<lparr>enc_comp_buffer := Some packet\<rparr>)"
      using run cb fixed3(2) by simp
    moreover have "enc_rel cap N old (e3\<lparr>enc_comp_buffer := Some packet\<rparr>) st3"
      using e3(2) by (simp add: enc_rel_def)
    ultimately show ?thesis using fixed3(3) e1(3) by (simp add: frame enc_config_def comp_buffer_ok_def)
  qed
qed

end
