(* ===== verification/Loss_Spec.thy ===== *)
theory Loss_Spec
  imports Codec_Spec Sockaddr "HOL-Library.Sublist"
begin

unbundle bit_operations_syntax

text \<open>
  The abstract decoder on a network that loses, repeats and reorders packets. It gives up the frame
  under assembly when a number is missing and skips the parts of a frame whose beginning it has
  not seen. On the packets of a decoder that misses nothing it agrees with the one of
  \<open>Codec_Spec\<close>; on any other selection of them it delivers exactly the frames whose packets have
  arrived one after the other.
\<close>

section \<open>Segments that cannot be used\<close>

text \<open>How many frames a segment completes.\<close>

fun completes :: "seg \<Rightarrow> bool" where
  "completes (Complete orig fmt payload) = True"
| "completes (Part l orig fmt part payload) = l"

text \<open>Does a segment belong to a frame that has begun before?\<close>

fun continues :: "seg \<Rightarrow> bool" where
  "continues (Complete orig fmt payload) = False"
| "continues (Part l orig fmt part payload) = (part \<noteq> 1)"

definition adec_drop :: "'s codec_lib \<Rightarrow> 's adec \<Rightarrow> 's adec" where
  "adec_drop lib d = (adec_reset lib d)\<lparr>ad_part := 0, ad_acc := []\<rparr>"

definition part_lost :: "u16 \<Rightarrow> u8 \<Rightarrow> u8 \<Rightarrow> 's adec \<Rightarrow> bool" where
  "part_lost orig fmt part d \<longleftrightarrow>
     unat part \<noteq> unat (ad_part d) + 1 \<or> (ad_part d \<noteq> 0 \<and> (orig \<noteq> ad_orig d \<or> fmt \<noteq> ad_fmt d))"

fun ldec_seg :: "'s codec_lib \<Rightarrow> nat \<Rightarrow> nat \<Rightarrow> seg \<Rightarrow> 's adec \<Rightarrow> 's adec option" where
  "ldec_seg lib l2 cap (Complete orig fmt payload) d =
     adec_seg lib l2 cap (Complete orig fmt payload) (if ad_part d \<noteq> 0 then adec_drop lib d else d)"
| "ldec_seg lib l2 cap (Part last' orig fmt part payload) d =
     (if unat orig > l2 then None
      else if part_lost orig fmt part d then Some ((adec_drop lib d)\<lparr>ad_flush := False\<rparr>)
      else adec_seg lib l2 cap (Part last' orig fmt part payload) d)"

fun ldec_segs :: "'s codec_lib \<Rightarrow> nat \<Rightarrow> nat \<Rightarrow> seg list \<Rightarrow> 's adec \<Rightarrow> 's adec option" where
  "ldec_segs lib l2 cap [] d = Some d"
| "ldec_segs lib l2 cap (s # segs) d =
     Option.bind (ldec_seg lib l2 cap s d) (ldec_segs lib l2 cap segs)"

definition ldec_packet :: "'s codec_lib \<Rightarrow> nat \<Rightarrow> nat \<Rightarrow> seg list \<Rightarrow> 's adec \<Rightarrow> 's adec option" where
  "ldec_packet lib l2 cap segs d = map_option (adec_end lib) (ldec_segs lib l2 cap segs (adec_start d))"

text \<open>
  The number of a packet against that of the one before (\<^const>\<open>None\<close> for the first packet). A
  number far below the last one is taken for the first after the counter has wrapped.
\<close>

definition number_gap :: "u32 option \<Rightarrow> u32 \<Rightarrow> bool" where
  "number_gap prev seq \<longleftrightarrow>
     (case prev of
        None \<Rightarrow> False
      | Some l \<Rightarrow> seq \<noteq> l + 1 \<and> \<not> (seq < l + 1 \<and> is_sequence_wrapping seq l))"

fun ldec_packets ::
    "'s codec_lib \<Rightarrow> nat \<Rightarrow> nat \<Rightarrow> u32 option \<Rightarrow> (u32 \<times> seg list) list \<Rightarrow> 's adec \<Rightarrow> 's adec option"
where
  "ldec_packets lib l2 cap prev [] d = Some d"
| "ldec_packets lib l2 cap prev (p # ps) d =
     Option.bind (ldec_packet lib l2 cap (snd p) (if number_gap prev (fst p) then adec_drop lib d else d))
       (ldec_packets lib l2 cap (Some (fst p)) ps)"

section \<open>Facts about segments\<close>

lemma adec_seg_part:
  assumes "adec_seg lib l2 cap (Part last' orig fmt part payload) ad = Some ad'"
  shows "unat part = unat (ad_part ad) + 1"
    and "ad_part ad \<noteq> 0 \<longrightarrow> orig = ad_orig ad \<and> fmt = ad_fmt ad"
    and "length (ad_acc ad @ payload) \<le> cap"
    and "is_compressed fmt \<or> length (ad_acc ad @ payload) \<le> unat orig"
    and "unat orig \<le> l2"
proof -
  have "\<not> (unat orig > l2 \<or> unat part \<noteq> unat (ad_part ad) + 1 \<or>
         (ad_part ad \<noteq> 0 \<and> (orig \<noteq> ad_orig ad \<or> fmt \<noteq> ad_fmt ad)) \<or>
         length (ad_acc ad @ payload) > cap \<or>
         (\<not> is_compressed fmt \<and> length (ad_acc ad @ payload) > unat orig))" (is "\<not> ?bad")
  proof
    assume ?bad
    then have "adec_seg lib l2 cap (Part last' orig fmt part payload) ad = None"
      by (simp only: adec_seg.simps if_True)
    with assms show False by simp
  qed
  note ok = this
  show "unat part = unat (ad_part ad) + 1" using ok by blast
  show "ad_part ad \<noteq> 0 \<longrightarrow> orig = ad_orig ad \<and> fmt = ad_fmt ad" using ok by blast
  show "length (ad_acc ad @ payload) \<le> cap" using ok not_less by blast
  show "is_compressed fmt \<or> length (ad_acc ad @ payload) \<le> unat orig" using ok not_less by blast
  show "unat orig \<le> l2" using ok not_less by blast
qed

lemma adec_seg_out:
  "adec_seg lib l2 cap s ad = Some ad' \<Longrightarrow>
    length (ad_out ad') = length (ad_out ad) + of_bool (completes s)"
  by (cases s) (auto split: if_splits option.splits)

lemma adec_seg_orig: "adec_seg lib l2 cap s ad = Some ad' \<Longrightarrow> unat (seg_orig s) \<le> l2"
proof (cases s)
  case (Part l orig fmt part payload)
  then show "adec_seg lib l2 cap s ad = Some ad' \<Longrightarrow> ?thesis"
    using adec_seg_part(5) by auto
qed (auto split: if_splits)

lemma adec_drop_fields [simp]:
  "ad_part (adec_drop lib d) = 0" "ad_acc (adec_drop lib d) = []" "ad_out (adec_drop lib d) = ad_out d"
  "ad_flush (adec_drop lib d) = ad_flush d"
  "ad_lz4 (adec_drop lib d) = resetDecompressionStream lib (ad_lz4 d)"
  "ad_zstd (adec_drop lib d) = resetDecompressionStream lib (ad_zstd d)"
  by (simp_all add: adec_drop_def adec_reset_def)

text \<open>Where nothing is missing both abstract decoders do the same.\<close>

lemma adec_seg_not_lost:
  "adec_seg lib l2 cap (Part l orig fmt part payload) d = Some d' \<Longrightarrow> \<not> part_lost orig fmt part d"
  using adec_seg_part(1,2) by (fastforce simp: part_lost_def)

lemma ldec_seg_strict:
  assumes "adec_seg lib l2 cap s d = Some d'"
  shows "ldec_seg lib l2 cap s d = Some d'"
proof (cases s)
  case (Complete orig fmt payload)
  with assms have "ad_part d = 0" by (auto split: if_splits)
  with assms Complete show ?thesis by simp
next
  case (Part l orig fmt part payload)
  note seg = assms [unfolded Part]
  show ?thesis using adec_seg_not_lost [OF seg] adec_seg_part(5) [OF seg] seg by (simp add: Part)
qed

lemma ldec_segs_strict:
  "adec_segs lib l2 cap segs d = Some d' \<Longrightarrow> ldec_segs lib l2 cap segs d = Some d'"
proof (induction segs arbitrary: d)
  case (Cons s segs)
  then obtain d1 where "adec_seg lib l2 cap s d = Some d1" "adec_segs lib l2 cap segs d1 = Some d'"
    by (auto simp: bind_eq_Some_conv)
  with Cons.IH [of d1] show ?case by (simp add: ldec_seg_strict)
qed simp

lemma ldec_packet_strict:
  "adec_packet lib l2 cap segs d = Some d' \<Longrightarrow> ldec_packet lib l2 cap segs d = Some d'"
  by (auto simp: adec_packet_def ldec_packet_def ldec_segs_strict)

lemma number_gap_next:
  assumes "prev = None \<or> (\<exists>l. prev = Some l \<and> q = this_seq (l + 1) \<and> l \<noteq> 0xFFFFFFFF)"
  shows "\<not> number_gap prev q"
proof (cases prev)
  case (Some l)
  then have q: "q = this_seq (l + 1)" "l \<noteq> 0xFFFFFFFF" using assms by auto
  show ?thesis
  proof (cases "l + 1 = 0xFFFFFFFF")
    case True
    then have "l = 0xFFFFFFFE" by (simp add: eq_diff_eq [symmetric])
    then show ?thesis using q Some by (simp add: number_gap_def this_seq_def is_sequence_wrapping_def)
  qed (use q Some in \<open>simp add: number_gap_def this_seq_def\<close>)
qed (simp add: number_gap_def)

lemma ldec_packets_strict:
  assumes "adec_packets lib l2 cap (map snd ps) d = Some d'" and "seqs_from s (map fst ps) t"
    and "prev = None \<or> (prev = Some (s - 1) \<and> s \<noteq> 0)"
  shows "ldec_packets lib l2 cap prev ps d = Some d'"
  using assms
proof (induction ps arbitrary: d s prev)
  case (Cons p ps)
  obtain d1 where d1: "adec_packet lib l2 cap (snd p) d = Some d1"
    "adec_packets lib l2 cap (map snd ps) d1 = Some d'"
    using Cons.prems(1) by (auto simp: bind_eq_Some_conv)
  have q: "fst p = this_seq s" "seqs_from (fst p + 1) (map fst ps) t" using Cons.prems(2) by auto
  have "\<exists>l. prev = Some l \<and> fst p = this_seq (l + 1) \<and> l \<noteq> 0xFFFFFFFF" if "prev \<noteq> None"
  proof (intro exI conjI)
    have l: "prev = Some (s - 1)" "s \<noteq> 0" using Cons.prems(3) that by auto
    show "prev = Some (s - 1)" by (fact l)
    show "fst p = this_seq (s - 1 + 1)" using q(1) by simp
    show "s - 1 \<noteq> 0xFFFFFFFF"
    proof
      assume "s - 1 = 0xFFFFFFFF"
      then have "s = 0xFFFFFFFF + 1" by (simp only: diff_eq_eq)
      with l(2) show False by simp
    qed
  qed
  then have gap: "\<not> number_gap prev (fst p)" by (intro number_gap_next) blast
  have "fst p + 1 \<noteq> 0"
  proof
    assume "fst p + 1 = 0"
    then have "fst p = 0xFFFFFFFF" by (simp add: eq_neg_iff_add_eq_0 [symmetric])
    then show False using q(1) by (auto simp: this_seq_def split: if_splits)
  qed
  then have "ldec_packets lib l2 cap (Some (fst p)) ps d1 = Some d'"
    by (intro Cons.IH [OF d1(2) q(2)]) simp
  with gap show ?case by (simp add: ldec_packet_strict [OF d1(1)])
qed simp

text \<open>The number after the next one is noticed to be too high, except about where the counter wraps.\<close>

lemma number_gap_skipped:
  assumes "q \<noteq> 0xFFFFFFFF"
  shows "number_gap (Some q) (this_seq (this_seq (q + 1) + 1)) \<longleftrightarrow> unat q < 0xFFFFFFFD"
proof -
  consider "q = 0xFFFFFFFD" | "q = 0xFFFFFFFE" | "q \<noteq> 0xFFFFFFFD" "q \<noteq> 0xFFFFFFFE" by blast
  then show ?thesis
  proof cases
    case 3
    have "unat q < 4294967296" by (rule unsigned_less [of q, simplified])
    moreover have "unat q \<noteq> 4294967295" "unat q \<noteq> 4294967293" "unat q \<noteq> 4294967294"
      using assms 3 by (auto simp: word_unat_eq_iff)
    ultimately have u: "unat q < 4294967293" by linarith
    then have n: "unat (q + 1) = unat q + 1" "unat (q + 1 + 1) = unat q + 2"
      by (simp_all add: unat_word_ariths)
    then have "q + 1 \<noteq> 0xFFFFFFFF" "q + 1 + 1 \<noteq> 0xFFFFFFFF" using u by (auto simp: word_unat_eq_iff)
    then have "this_seq (this_seq (q + 1) + 1) = q + 1 + 1" by (simp add: this_seq_def)
    moreover have "q + 1 + 1 \<noteq> q + 1" "\<not> q + 1 + 1 < q + 1"
      unfolding word_unat_eq_iff word_less_nat_alt n by simp_all
    ultimately show ?thesis using u by (simp add: number_gap_def)
  qed (simp_all add: this_seq_def number_gap_def is_sequence_wrapping_def)
qed

end
