(* ===== verification/Decoder_Correct.thy ===== *)
theory Decoder_Correct
  imports Decoder Loss_Spec
begin

unbundle bit_operations_syntax

text \<open>
  The decoder of the program implements the abstract decoder of \<open>Loss_Spec\<close>: on packets of segments
  with any sequence numbers it delivers the frames that the abstract decoder delivers. The packets
  of an encoder that arrive in their order are the case of the abstract decoder of \<open>Codec_Spec\<close>.
\<close>

section \<open>The simulation relation\<close>

text \<open>
  \<open>cap\<close> is the size of every buffer, \<open>old\<close> what the transmit pool held at the start, and \<open>N\<close> the
  number of frames that can be handed over before the pool of available buffers may run dry.
\<close>

definition dec_rel :: "nat \<Rightarrow> nat \<Rightarrow> u8 list list \<Rightarrow> 's decoder \<Rightarrow> 's adec \<Rightarrow> bool" where
  "dec_rel cap N old d ad \<longleftrightarrow>
     buffer_ok cap (dec_tx_buffer d) \<and> buffer_data (dec_tx_buffer d) = ad_acc ad \<and>
     buffer_ok cap (dec_dcomp_buffer d) \<and>
     dec_last_part d = ad_part ad \<and>
     (ad_part ad \<noteq> 0 \<longrightarrow> dec_last_orig_packet_size d = ad_orig ad \<and> dec_last_format d = ad_fmt ad) \<and>
     dec_compressorLZ4 d = ad_lz4 ad \<and> dec_compressorZSTD d = ad_zstd ad \<and>
     pool_ok cap (dec_tx_buffer_pool d) \<and> pool_ok cap (dec_available_buffer_pool d) \<and>
     map buffer_data (pool (dec_tx_buffer_pool d)) = old @ ad_out ad \<and>
     N \<le> length (pool (dec_available_buffer_pool d)) + length (ad_out ad) \<and>
     (\<forall>b \<in> set (dec_inflight_buffers d). buffer_ok cap b)"

definition dec_config :: "'s decoder \<Rightarrow> u16 \<times> bool \<times> u32" where
  "dec_config d = (dec_l2mtu d, dec_first_packet d, dec_last_sequence d)"

definition idle_ok :: "'s adec \<Rightarrow> bool" where
  "idle_ok ad \<longleftrightarrow> (ad_part ad = 0 \<longrightarrow> ad_acc ad = [])"

section \<open>The internal operations\<close>

lemma dec_flushInflight_refines:
  assumes "dec_rel cap N old d ad"
  shows "\<exists>d'. decoder_flushInflight lib d = Inr d' \<and> dec_rel cap N old d' (adec_reset lib ad) \<and>
    dec_config d' = dec_config d"
proof (cases "dec_inflight_buffers d = []")
  case True
  with assms show ?thesis
    by (simp add: decoder_flushInflight_def dec_rel_def dec_config_def adec_reset_def)
next
  case False
  have "BufferPool_push_list (dec_inflight_buffers d) (dec_available_buffer_pool d) =
    Inr ((dec_available_buffer_pool d)\<lparr>pool := pool (dec_available_buffer_pool d)
           @ dec_inflight_buffers d\<rparr>, [])"
    using assms by (intro BufferPool_push_list_ok [of _ cap]) (simp_all add: dec_rel_def pool_ok_def)
  with False assms show ?thesis
    by (auto simp: decoder_flushInflight_def dec_rel_def dec_config_def adec_reset_def pool_ok_def)
qed

lemma dec_emit_refines:
  assumes rel: "dec_rel cap N old d (ad\<lparr>ad_acc := x\<rparr>)" and "length (ad_out ad) < N"
  shows "\<exists>d'. decoder_emit pb d = Inr d' \<and>
    dec_rel cap N old d' (ad\<lparr>ad_part := 0, ad_acc := [], ad_out := ad_out ad @ [x]\<rparr>) \<and>
    dec_config d' = dec_config d"
proof -
  have r: "buffer_ok cap (dec_tx_buffer d)" "pool_ok cap (dec_tx_buffer_pool d)"
    "pool_ok cap (dec_available_buffer_pool d)"
    "pool (dec_available_buffer_pool d) \<noteq> []"
    using rel assms(2) by (auto simp: dec_rel_def)
  then obtain b bs where bs: "pool (dec_available_buffer_pool d) = b # bs"
    by (cases "pool (dec_available_buffer_pool d)") auto
  have b: "buffer_ok cap b" using r(3) bs by (simp add: pool_ok_def)
  let ?t = "PacketBuffer_setPacketSource (packet_source pb) (dec_tx_buffer d)"
  have push: "BufferPool_push ?t (dec_tx_buffer_pool d) =
      Inr ((dec_tx_buffer_pool d)\<lparr>pool := pool (dec_tx_buffer_pool d) @ [?t]\<rparr>)"
    using r by (intro BufferPool_push_ok [of _ cap]) (simp_all add: pool_ok_def)
  let ?d = "decoder_clearState (d\<lparr>dec_tx_buffer_pool := (dec_tx_buffer_pool d)\<lparr>pool :=
      pool (dec_tx_buffer_pool d) @ [?t]\<rparr>, dec_tx_buffer := b,
      dec_available_buffer_pool := (dec_available_buffer_pool d)\<lparr>pool := bs\<rparr>\<rparr>)"
  have "decoder_emit pb d = Inr ?d"
    by (simp add: decoder_emit_def push decoder_getTxBuffer_def BufferPool_pop_wait_simps(2) [OF bs])
  moreover have "dec_rel cap N old ?d (ad\<lparr>ad_part := 0, ad_acc := [], ad_out := ad_out ad @ [x]\<rparr>)"
    using rel b bs r(1) by (simp add: dec_rel_def decoder_clearState_def pool_ok_def)
  moreover have "dec_config ?d = dec_config d" by (simp add: dec_config_def decoder_clearState_def)
  ultimately show ?thesis by blast
qed

lemma dec_decompress_refines:
  assumes rel: "dec_rel cap N old d ad" and "is_compressed fmt"
    and u: "unpack lib cap fmt payload ad = Some (x, ad1)"
  shows "\<exists>d1. decoder_decompress lib fmt payload cap d = Some (int (length x), x, d1) \<and>
    dec_rel cap N old d1 ad1 \<and> length x \<le> cap \<and> dec_tx_buffer d1 = dec_tx_buffer d \<and>
    dec_dcomp_buffer d1 = dec_dcomp_buffer d \<and> dec_config d1 = dec_config d"
  using u
proof (cases rule: unpack_SomeE)
  case (LZ4 sc)
  have "length x \<le> cap" by (rule length_sc_decompress [OF LZ4(3)])
  with LZ4 rel show ?thesis
    by (auto simp: decoder_decompress_def dec_rel_def dec_config_def)
next
  case (ZSTD sc)
  have "length x \<le> cap" by (rule length_sc_decompress [OF ZSTD(3)])
  with ZSTD rel show ?thesis
    by (auto simp: decoder_decompress_def dec_rel_def dec_config_def)
qed (use assms(2) in simp)

lemma option_compressed [simp]:
  "OPTION_FORMAT_IS_COMPRESSED opt \<longleftrightarrow> is_compressed (po_format opt)"
  by (simp add: OPTION_FORMAT_IS_COMPRESSED_def is_compressed_def)

lemma seg_option_fields:
  "be_to_cpu_16 (po_packet_size (seg_option s)) = seg_orig s"
  "be_to_cpu_16 (po_payload_length (seg_option s)) = of_nat (length (seg_payload s))"
  "po_format (seg_option s) = seg_format s"
  "po_reserved (seg_option s) = 0"
  by (cases s; simp)+

section \<open>One segment\<close>

lemma dec_complete_refines:
  assumes rel: "dec_rel cap N old d ad" and idle: "idle_ok ad" and "cap < 65536"
    and seg: "adec_seg lib l2 cap (Complete orig fmt payload) ad = Some ad'"
    and opt: "opt = seg_option (Complete orig fmt payload)"
    and pos: "unat pos + 8 + length payload \<le> dataSize pb" "dataSize pb < 65536"
    and read: "Buffer_read (unat pos + 8) (length payload) pb = Inr payload"
    and room: "length (ad_out ad) < N"
  shows "\<exists>d'. decoder_complete lib pb opt pos d =
      Inr (Next d' (pos + 8 + of_nat (length payload)) True) \<and>
    dec_rel cap N old d' ad' \<and> ad_flush ad' \<and> idle_ok ad' \<and> dec_config d' = dec_config d"
proof -
  obtain x ad1 where u: "unpack lib cap fmt payload ad = Some (x, ad1)" and x: "length x = unat orig"
    and idle': "ad_part ad = 0" "ad_acc ad = []" and len: "length payload \<le> cap"
    and ad': "ad' = ad1\<lparr>ad_out := ad_out ad @ [x], ad_flush := True\<rparr>"
    using seg idle by (auto simp: idle_ok_def split: if_splits option.splits)
  note fr = unpack_frame [OF u]
  have p8: "unat (pos + 8) = unat pos + 8" using pos by (simp add: unat_word_ariths)
  have pl: "unat (of_nat (length payload) :: u16) = length payload" using pos by simp
  have cap_tx: "Buffer_getBufferSize (dec_tx_buffer d) = cap"
    using rel by (simp add: dec_rel_def buffer_ok_def Buffer_getBufferSize_def)
  have "\<exists>d2. decoder_unpack lib opt payload d = Inr (Inr d2) \<and>
      dec_rel cap N old d2 (ad1\<lparr>ad_acc := x\<rparr>) \<and> Buffer_getDataSize (dec_tx_buffer d2) = length x \<and>
      dec_config d2 = dec_config d" (is "\<exists>d2. ?run = Inr (Inr d2) \<and> _")
  proof (cases "is_compressed fmt")
    case True
    obtain d1 where d1: "decoder_decompress lib fmt payload cap d = Some (int (length x), x, d1)"
      "dec_rel cap N old d1 ad1" "length x \<le> cap" "dec_tx_buffer d1 = dec_tx_buffer d"
      "dec_config d1 = dec_config d"
      using dec_decompress_refines [OF rel True u] by blast
    have tx: "buffer_ok cap (dec_tx_buffer d1)" using d1(2) by (simp add: dec_rel_def)
    obtain b1 b2 where b: "Buffer_write 0 x (dec_tx_buffer d1) = Inr b1"
      "Buffer_setDataSize (length x) b1 = Inr b2" "buffer_ok cap b2" "buffer_data b2 = x"
      "dataSize b2 = length x"
      using Buffer_replace [OF tx d1(3)] by blast
    have "?run = Inr (Inr (d1\<lparr>dec_tx_buffer := b2\<rparr>))"
      using True d1(1,3) b(1,2) assms(3) by (simp add: opt cap_tx decoder_unpack_def)
    moreover have "dec_rel cap N old (d1\<lparr>dec_tx_buffer := b2\<rparr>) (ad1\<lparr>ad_acc := x\<rparr>)"
      using d1(2) b by (simp add: dec_rel_def)
    ultimately show ?thesis using b(5) d1(5) by (auto simp: Buffer_getDataSize_def dec_config_def)
  next
    case False
    then have x': "x = payload" "ad1 = ad" using u by (simp_all add: unpack_none)
    have tx: "buffer_ok cap (dec_tx_buffer d)" "dataSize (dec_tx_buffer d) = 0"
      "buffer_data (dec_tx_buffer d) = []"
      using rel idle' length_buffer_data [of cap "dec_tx_buffer d"] by (simp_all add: dec_rel_def)
    have fit: "dataSize (dec_tx_buffer d) + length payload \<le> cap" using tx(2) len by simp
    obtain b where b: "Buffer_append payload (dec_tx_buffer d) = Inr b" "buffer_ok cap b"
      "buffer_data b = payload" "dataSize b = length payload"
      using Buffer_append_fits [OF tx(1) fit] tx(2,3) by auto
    have "?run = Inr (Inr (d\<lparr>dec_tx_buffer := b\<rparr>))" using False b(1) by (simp add: opt decoder_unpack_def)
    moreover have "dec_rel cap N old (d\<lparr>dec_tx_buffer := b\<rparr>) (ad1\<lparr>ad_acc := x\<rparr>)"
      using rel b x' by (simp add: dec_rel_def)
    ultimately show ?thesis using b(4) x' by (auto simp: Buffer_getDataSize_def dec_config_def)
  qed
  then obtain d2 where d2: "?run = Inr (Inr d2)" "dec_rel cap N old d2 (ad1\<lparr>ad_acc := x\<rparr>)"
    "Buffer_getDataSize (dec_tx_buffer d2) = length x" "dec_config d2 = dec_config d" by blast
  have room1: "length (ad_out ad1) < N" using fr room by simp
  obtain d3 where d3: "decoder_emit pb d2 = Inr d3"
    "dec_rel cap N old d3 (ad1\<lparr>ad_part := 0, ad_acc := [], ad_out := ad_out ad1 @ [x]\<rparr>)"
    "dec_config d3 = dec_config d2"
    using dec_emit_refines [OF d2(2) room1, of pb] by blast
  have last: "dec_last_part d = 0" using rel idle' by (simp add: dec_rel_def)
  have part: "po_part opt = 0" by (simp add: opt)
  have f: "be_to_cpu_16 (po_packet_size opt) = orig"
    "be_to_cpu_16 (po_payload_length opt) = of_nat (length payload)"
    using seg_option_fields [of "Complete orig fmt payload"] by (simp_all add: opt)
  have "decoder_complete lib pb opt pos d = Inr (Next d3 (pos + 8 + of_nat (length payload)) True)"
    unfolding decoder_complete_def Let_def f
    using last part pos(1) read d2(1,3) d3(1) x
    by (simp add: sizeof_PacketHeaderOption_def p8 pl Buffer_getDataSize_def)
  moreover have "dec_rel cap N old d3 ad'"
    using d3(2) fr idle' by (simp add: dec_rel_def ad')
  moreover have "idle_ok ad'" using fr idle' by (simp add: ad' idle_ok_def)
  ultimately show ?thesis using d3(3) d2(4) by (simp add: ad')
qed

lemma dec_finish_refines:
  assumes rel: "dec_rel cap N old d ad" and "cap < 65536"
    and u: "unpack lib cap fmt (ad_acc ad) ad = Some (x, ad1)" and x: "length x = unat orig"
    and opt: "po_format opt = fmt" "be_to_cpu_16 (po_packet_size opt) = orig"
    and room: "length (ad_out ad) < N"
  shows "\<exists>d'. decoder_finish lib pb opt next_pos d = Inr (Next d' next_pos False) \<and>
    dec_rel cap N old d' ((adec_reset lib ad1)\<lparr>ad_part := 0, ad_acc := [], ad_out := ad_out ad @ [x]\<rparr>) \<and>
    dec_config d' = dec_config d"
proof -
  note fr = unpack_frame [OF u]
  have tx: "buffer_ok cap (dec_tx_buffer d)" "buffer_data (dec_tx_buffer d) = ad_acc ad"
    using rel by (simp_all add: dec_rel_def)
  have cap_dcomp: "Buffer_getBufferSize (dec_dcomp_buffer d) = cap"
    using rel by (simp add: dec_rel_def buffer_ok_def Buffer_getBufferSize_def)
  have "\<exists>d2. decoder_unpack_parts lib opt d = Inr (Inr d2) \<and>
      dec_rel cap N old d2 (ad1\<lparr>ad_acc := x\<rparr>) \<and> Buffer_getDataSize (dec_tx_buffer d2) = length x \<and>
      dec_config d2 = dec_config d" (is "\<exists>d2. ?run = Inr (Inr d2) \<and> _")
  proof (cases "is_compressed fmt")
    case True
    have read: "Buffer_read 0 (dataSize (dec_tx_buffer d)) (dec_tx_buffer d) = Inr (ad_acc ad)"
      using Buffer_read_data [OF tx(1), of 0 "dataSize (dec_tx_buffer d)"] tx(2)
        length_buffer_data [OF tx(1)] by (simp add: slice_def)
    obtain d1 where d1: "decoder_decompress lib fmt (ad_acc ad) cap d = Some (int (length x), x, d1)"
      "dec_rel cap N old d1 ad1" "length x \<le> cap" "dec_tx_buffer d1 = dec_tx_buffer d"
      "dec_dcomp_buffer d1 = dec_dcomp_buffer d" "dec_config d1 = dec_config d"
      using dec_decompress_refines [OF rel True u] by blast
    have dc: "buffer_ok cap (dec_dcomp_buffer d1)" using d1(2) by (simp add: dec_rel_def)
    obtain b1 b2 where b: "Buffer_write 0 x (dec_dcomp_buffer d1) = Inr b1"
      "Buffer_setDataSize (length x) b1 = Inr b2" "buffer_ok cap b2" "buffer_data b2 = x"
      "dataSize b2 = length x"
      using Buffer_replace [OF dc d1(3)] by blast
    let ?d2 = "d1\<lparr>dec_dcomp_buffer := dec_tx_buffer d1, dec_tx_buffer := b2\<rparr>"
    have "?run = Inr (Inr ?d2)"
      using True d1(1,3) b(1,2) assms(2) read by (simp add: opt cap_dcomp Buffer_getDataSize_def decoder_unpack_parts_def)
    moreover have "dec_rel cap N old ?d2 (ad1\<lparr>ad_acc := x\<rparr>)"
      using d1(2) b by (simp add: dec_rel_def)
    ultimately show ?thesis using b(5) d1(6) by (auto simp: Buffer_getDataSize_def dec_config_def)
  next
    case False
    then have "x = ad_acc ad" "ad1 = ad" using u by (auto simp: unpack_none)
    with False rel tx show ?thesis
      by (auto simp: opt Buffer_getDataSize_def decoder_unpack_parts_def length_buffer_data [OF tx(1), symmetric])
  qed
  then obtain d2 where d2: "?run = Inr (Inr d2)" "dec_rel cap N old d2 (ad1\<lparr>ad_acc := x\<rparr>)"
    "Buffer_getDataSize (dec_tx_buffer d2) = length x" "dec_config d2 = dec_config d" by blast
  have room1: "length (ad_out ad1) < N" using fr room by simp
  obtain d3 where d3: "decoder_emit pb d2 = Inr d3"
    "dec_rel cap N old d3 (ad1\<lparr>ad_part := 0, ad_acc := [], ad_out := ad_out ad1 @ [x]\<rparr>)"
    "dec_config d3 = dec_config d2"
    using dec_emit_refines [OF d2(2) room1, of pb] by blast
  obtain d4 where d4: "decoder_flushInflight lib d3 = Inr d4"
    "dec_rel cap N old d4 (adec_reset lib (ad1\<lparr>ad_part := 0, ad_acc := [], ad_out := ad_out ad1 @ [x]\<rparr>))"
    "dec_config d4 = dec_config d3"
    using dec_flushInflight_refines [OF d3(2)] by blast
  have "decoder_finish lib pb opt next_pos d = Inr (Next d4 next_pos False)"
    unfolding decoder_finish_def d2(1) using d2(3) d3(1) d4(1) x opt(2) by simp
  moreover have "adec_reset lib (ad1\<lparr>ad_part := 0, ad_acc := [], ad_out := ad_out ad1 @ [x]\<rparr>) =
      (adec_reset lib ad1)\<lparr>ad_part := 0, ad_acc := [], ad_out := ad_out ad @ [x]\<rparr>"
    using fr by (simp add: adec_reset_def)
  ultimately show ?thesis using d4(2,3) d3(3) d2(4) by auto
qed

lemma seg_types:
  "po_type (seg_option (Complete orig fmt payload)) = 2"
  "po_type (seg_option (Part l orig fmt part payload)) = (if l then 3 else 1)"
  by simp_all

lemma dec_partial_refines:
  assumes rel: "dec_rel cap N old d ad" and idle: "idle_ok ad" and "cap < 65536"
    and seg: "adec_seg lib l2 cap (Part last' orig fmt part payload) ad = Some ad'"
    and opt: "opt = seg_option (Part last' orig fmt part payload)"
    and pos: "unat pos + 8 + length payload \<le> dataSize pb" "dataSize pb < 65536"
    and read: "Buffer_read (unat pos + 8) (length payload) pb = Inr payload"
    and room: "last' \<Longrightarrow> length (ad_out ad) < N"
  shows "\<exists>d'. decoder_partial lib pb opt pos d =
      Inr (Next d' (pos + 8 + of_nat (length payload)) False) \<and>
    dec_rel cap N old d' ad' \<and> \<not> ad_flush ad' \<and> idle_ok ad' \<and> dec_config d' = dec_config d"
proof -
  note c = adec_seg_part [OF seg]
  have p8: "unat (pos + 8) = unat pos + 8" using pos by (simp add: unat_word_ariths)
  have pl: "unat (of_nat (length payload) :: u16) = length payload" using pos by simp
  have f: "be_to_cpu_16 (po_packet_size opt) = orig"
    "be_to_cpu_16 (po_payload_length opt) = of_nat (length payload)" "po_format opt = fmt"
    using seg_option_fields [of "Part last' orig fmt part payload"] by (simp_all add: opt)
  have part: "po_part opt = part" by (simp add: opt)
  have tx: "buffer_ok cap (dec_tx_buffer d)" "buffer_data (dec_tx_buffer d) = ad_acc ad"
    "dec_last_part d = ad_part ad"
    "ad_part ad \<noteq> 0 \<longrightarrow> dec_last_orig_packet_size d = ad_orig ad \<and> dec_last_format d = ad_fmt ad"
    using rel by (simp_all add: dec_rel_def)
  have ds: "dataSize (dec_tx_buffer d) = length (ad_acc ad)"
    using length_buffer_data [OF tx(1)] tx(2) by simp
  have "part = 1 \<longrightarrow> ad_part ad = 0" using c(1) by (auto simp: word_unat_eq_iff)
  then have no_skip: "\<not> decoder_skip opt d"
    using c(1,2) tx(3,4) by (auto simp: decoder_skip_def part f)
  have fit: "dataSize (dec_tx_buffer d) + length payload \<le> cap" using c(3) ds by simp
  obtain b where b: "Buffer_append payload (dec_tx_buffer d) = Inr b" "buffer_ok cap b"
    "buffer_data b = ad_acc ad @ payload"
    using Buffer_append_fits [OF tx(1) fit] tx(2) by metis
  let ?d1 = "d\<lparr>dec_tx_buffer := b\<rparr>" and ?next = "pos + 8 + of_nat (length payload)"
  have bs: "length (content (dec_tx_buffer d)) = cap" using tx(1) by (simp add: buffer_ok_def)
  have run: "decoder_partial lib pb opt pos d =
      (if OPTION_TYPE_IS_COMPLETE opt then decoder_finish lib pb opt ?next ?d1
       else Inr (Next (?d1\<lparr>dec_last_part := part, dec_last_format := fmt,
              dec_last_orig_packet_size := orig\<rparr>) ?next False))"
  proof (cases "is_compressed fmt")
    case True
    then show ?thesis
      unfolding decoder_partial_def Let_def f part
      using no_skip pos(1) read b(1) c(3) fit
      by (simp add: sizeof_PacketHeaderOption_def p8 pl Buffer_getDataSize_def
          Buffer_getBufferSize_def ds bs f)
  next
    case False
    then have "length (ad_acc ad) + length payload \<le> unat orig" using c(4) by simp
    with False show ?thesis
      unfolding decoder_partial_def Let_def f part
      using no_skip pos(1) read b(1) c(3) fit
      by (simp add: sizeof_PacketHeaderOption_def p8 pl Buffer_getDataSize_def
          Buffer_getBufferSize_def ds bs f)
  qed
  have is_last: "OPTION_TYPE_IS_COMPLETE opt \<longleftrightarrow> last'"
    by (simp add: OPTION_TYPE_IS_COMPLETE_def opt)
  show ?thesis
  proof (cases last')
    case False
    then have ad': "ad' = ad\<lparr>ad_part := part, ad_orig := orig, ad_fmt := fmt,
        ad_acc := ad_acc ad @ payload, ad_flush := False\<rparr>"
      using seg by (simp split: if_splits)
    have "part \<noteq> 0" using c(1) by auto
    then have "idle_ok ad'" by (simp add: ad' idle_ok_def)
    with False run is_last rel b show ?thesis by (simp add: ad' dec_rel_def dec_config_def)
  next
    case True
    let ?ad = "ad\<lparr>ad_acc := ad_acc ad @ payload\<rparr>"
    have rel1: "dec_rel cap N old ?d1 ?ad" using rel b by (simp add: dec_rel_def)
    obtain x ad1 where u: "unpack lib cap fmt (ad_acc ad @ payload) ad = Some (x, ad1)"
      and x: "length x = unat orig"
      and ad': "ad' = (adec_reset lib ad1)\<lparr>ad_part := 0, ad_orig := 0, ad_fmt := 0, ad_acc := [],
                        ad_out := ad_out ad @ [x], ad_flush := False\<rparr>"
      using seg True by (auto split: if_splits option.splits)
    obtain ad2 where u2: "unpack lib cap fmt (ad_acc ?ad) ?ad = Some (x, ad2)"
      "ad_lz4 ad2 = ad_lz4 ad1" "ad_zstd ad2 = ad_zstd ad1"
      using unpack_streams [OF u, of ?ad] by auto
    have "length (ad_out ?ad) < N" using room [OF True] by simp
    from dec_finish_refines [OF rel1 assms(3) u2(1) x f(3,1) this, of pb ?next]
    obtain d' where d': "decoder_finish lib pb opt ?next ?d1 = Inr (Next d' ?next False)"
      "dec_rel cap N old d'
         ((adec_reset lib ad2)\<lparr>ad_part := 0, ad_acc := [], ad_out := ad_out ?ad @ [x]\<rparr>)"
      "dec_config d' = dec_config ?d1" by blast
    have "dec_rel cap N old d' ad'"
      using d'(2) u2(2,3) by (simp add: dec_rel_def ad' adec_reset_def)
    moreover have "idle_ok ad'" by (simp add: ad' idle_ok_def)
    ultimately show ?thesis using run is_last True d'(1,3) by (simp add: ad' dec_config_def)
  qed
qed

text \<open>What the decoder does when something is missing.\<close>

lemma dec_drop_state_refines:
  assumes rel: "dec_rel cap N old d ad"
  shows "\<exists>d'. decoder_drop_state lib d = Inr d' \<and> dec_rel cap N old d' (adec_drop lib ad) \<and>
    dec_last_part d' = 0 \<and> dec_config d' = dec_config d"
proof -
  have "dec_rel cap N old (decoder_clearState d) (ad\<lparr>ad_part := 0, ad_acc := []\<rparr>)"
    using rel by (simp add: dec_rel_def decoder_clearState_def)
  moreover have "adec_reset lib (ad\<lparr>ad_part := 0, ad_acc := []\<rparr>) = adec_drop lib ad"
    by (simp add: adec_reset_def adec_drop_def)
  moreover have "dec_config (decoder_clearState d) = dec_config d"
    by (simp add: dec_config_def decoder_clearState_def)
  moreover have "dec_last_part d' = 0" if "dec_rel cap N old d' (adec_drop lib ad)" for d'
    using that by (simp add: dec_rel_def)
  ultimately show ?thesis
    unfolding decoder_drop_state_def using dec_flushInflight_refines by metis
qed

lemma decoder_complete_drop:
  assumes "dec_last_part d \<noteq> 0" and "decoder_drop_state lib d = Inr d1" and "dec_last_part d1 = 0"
  shows "decoder_complete lib pb opt pos d = decoder_complete lib pb opt pos d1"
  using assms by (simp add: decoder_complete_def)

lemma decoder_skip_part_lost:
  assumes "dec_rel cap N old d ad" and "opt = seg_option (Part l orig fmt part payload)"
  shows "decoder_skip opt d \<longleftrightarrow> part_lost orig fmt part ad"
proof -
  have f: "be_to_cpu_16 (po_packet_size opt) = orig" "po_format opt = fmt" "po_part opt = part"
    using seg_option_fields [of "Part l orig fmt part payload"] by (simp_all add: assms(2))
  have d: "dec_last_part d = ad_part ad"
    "ad_part ad \<noteq> 0 \<Longrightarrow> dec_last_orig_packet_size d = ad_orig ad \<and> dec_last_format d = ad_fmt ad"
    using assms(1) by (simp_all add: dec_rel_def)
  have "part = 1 \<Longrightarrow> ad_part ad \<noteq> 0 \<Longrightarrow> unat part \<noteq> unat (ad_part ad) + 1"
    by (auto simp: word_unat_eq_iff)
  with d show ?thesis by (cases "ad_part ad = 0") (auto simp: decoder_skip_def part_lost_def f)
qed

lemma dec_skip_refines:
  assumes rel: "dec_rel cap N old d ad" and opt: "opt = seg_option (Part l orig fmt part payload)"
    and lost: "part_lost orig fmt part ad"
  shows "\<exists>d'. decoder_partial lib pb opt pos d =
      Inr (Next d' (pos + 8 + of_nat (length payload)) False) \<and>
    dec_rel cap N old d' ((adec_drop lib ad)\<lparr>ad_flush := False\<rparr>) \<and> dec_config d' = dec_config d"
proof -
  have skip: "decoder_skip opt d" using decoder_skip_part_lost [OF rel opt] lost by simp
  have f: "be_to_cpu_16 (po_payload_length opt) = of_nat (length payload)"
    using seg_option_fields [of "Part l orig fmt part payload"] by (simp add: opt)
  obtain d' where d': "decoder_drop_state lib d = Inr d'" "dec_rel cap N old d' (adec_drop lib ad)"
    "dec_config d' = dec_config d"
    using dec_drop_state_refines [OF rel] by blast
  have "dec_rel cap N old d' ((adec_drop lib ad)\<lparr>ad_flush := False\<rparr>)"
    using d'(2) by (simp add: dec_rel_def)
  with d' skip show ?thesis
    by (simp add: decoder_partial_def f sizeof_PacketHeaderOption_def)
qed

lemma ldec_seg_orig: "ldec_seg lib l2 cap s ad = Some ad' \<Longrightarrow> unat (seg_orig s) \<le> l2"
  using adec_seg_orig [of lib l2 cap s] by (cases s) (auto split: if_splits simp del: adec_seg.simps)

lemma ldec_seg_out: "ldec_seg lib l2 cap s ad = Some ad' \<Longrightarrow> length (ad_out ad) \<le> length (ad_out ad')"
  using adec_seg_out [of lib l2 cap s ad ad'] adec_seg_out [of lib l2 cap s "adec_drop lib ad" ad']
  by (cases s) (auto split: if_splits simp del: adec_seg.simps)

lemma ldec_segs_out:
  "ldec_segs lib l2 cap segs ad = Some ad' \<Longrightarrow> length (ad_out ad) \<le> length (ad_out ad')"
proof (induction segs arbitrary: ad)
  case (Cons s segs)
  then obtain ad1 where "ldec_seg lib l2 cap s ad = Some ad1" "ldec_segs lib l2 cap segs ad1 = Some ad'"
    by (auto simp: bind_eq_Some_conv)
  with Cons.IH [of ad1] ldec_seg_out [of lib l2 cap s ad ad1] show ?case by simp
qed simp

lemma dec_round_refines:
  assumes rel: "dec_rel cap N old d ad" and idle: "idle_ok ad" and "cap < 65536"
    and seg: "ldec_seg lib l2 cap s ad = Some ad'" and l2: "l2 = unat (dec_l2mtu d)"
    and pb: "buffer_ok cap pb" and data: "drop (unat pos) (buffer_data pb) = seg_bytes s @ rest"
    and room: "length (ad_out ad') \<le> N"
  shows "\<exists>d'. decoder_round lib pb (Next d pos fl) =
      Inr (Next d' (pos + 8 + of_nat (length (seg_payload s))) (ad_flush ad')) \<and>
    dec_rel cap N old d' ad' \<and> idle_ok ad' \<and> dec_config d' = dec_config d"
proof -
  have len: "length (buffer_data pb) = dataSize pb" by (rule length_buffer_data [OF pb])
  have "length (drop (unat pos) (buffer_data pb)) = 8 + length (seg_payload s) + length rest"
    by (simp add: data)
  then have pos: "unat pos + 8 + length (seg_payload s) \<le> dataSize pb" using len by simp
  have ds: "dataSize pb < 65536" using pb assms(3) by (simp add: buffer_ok_def)
  have hdr: "Buffer_read (unat pos) 8 pb = Inr (PacketHeaderOption_bytes (seg_option s))"
    using Buffer_read_data [OF pb, of "unat pos" 8] pos data by (simp add: slice_def seg_bytes_def)
  have "drop (unat pos + 8) (buffer_data pb) = drop 8 (drop (unat pos) (buffer_data pb))"
    by (simp add: add.commute)
  then have read: "Buffer_read (unat pos + 8) (length (seg_payload s)) pb = Inr (seg_payload s)"
    using Buffer_read_data [OF pb pos] by (simp add: slice_def data seg_bytes_def)
  have small: "\<not> be_to_cpu_16 (po_packet_size (seg_option s)) > dec_l2mtu d"
    unfolding seg_option_fields(1) using ldec_seg_orig [OF seg] l2 by (simp add: word_less_nat_alt)
  have round: "decoder_round lib pb (Next d pos fl) =
      (if po_type (seg_option s) = PacketHeaderOptionType_value COMPLETE_PACKET
       then decoder_complete lib pb (seg_option s) pos d
       else if OPTION_TYPE_IS_PARTIAL (seg_option s) then decoder_partial lib pb (seg_option s) pos d
       else Inr (Next d pos fl))"
    using small by (simp add: decoder_round_def hdr sizeof_PacketHeaderOption_def)
  show ?thesis
  proof (cases s)
    case (Complete orig fmt payload)
    let ?ad = "if ad_part ad \<noteq> 0 then adec_drop lib ad else ad"
    have seg1: "adec_seg lib l2 cap (Complete orig fmt payload) ?ad = Some ad'" using seg Complete by simp
    have grow: "length (ad_out ?ad) < N" using adec_seg_out [OF seg1] room by simp
    obtain d1 where d1: "decoder_complete lib pb (seg_option s) pos d = decoder_complete lib pb (seg_option s) pos d1"
      "dec_rel cap N old d1 ?ad" "idle_ok ?ad" "dec_config d1 = dec_config d"
    proof (cases "ad_part ad = 0")
      case True
      with rel idle show thesis by (intro that [of d]) simp_all
    next
      case False
      obtain d1 where d1: "decoder_drop_state lib d = Inr d1" "dec_rel cap N old d1 (adec_drop lib ad)"
        "dec_last_part d1 = 0" "dec_config d1 = dec_config d"
        using dec_drop_state_refines [OF rel] by blast
      have "dec_last_part d \<noteq> 0" using rel False by (simp add: dec_rel_def)
      from decoder_complete_drop [OF this d1(1,3)] d1(2,4) False show thesis
        by (intro that [of d1]) (simp_all add: idle_ok_def)
    qed
    from dec_complete_refines [OF d1(2,3) assms(3) seg1 refl _ ds _ grow, of pos]
      pos read Complete round d1(1,4)
    show ?thesis by (auto simp del: seg_option.simps simp: seg_types)
  next
    case (Part l orig fmt part payload)
    have partial: "OPTION_TYPE_IS_PARTIAL (seg_option s)" "po_type (seg_option s) \<noteq> 2"
      by (simp_all add: OPTION_TYPE_IS_PARTIAL_def Part)
    show ?thesis
    proof (cases "part_lost orig fmt part ad")
      case True
      then have ad': "ad' = (adec_drop lib ad)\<lparr>ad_flush := False\<rparr>" using seg Part by (simp split: if_splits)
      then have "idle_ok ad'" by (simp add: idle_ok_def)
      with dec_skip_refines [OF rel refl True, of lib pb l payload pos] ad' Part round partial
      show ?thesis by (auto simp del: seg_option.simps)
    next
      case False
      then have seg1: "adec_seg lib l2 cap (Part l orig fmt part payload) ad = Some ad'"
        using seg Part by (simp split: if_splits del: adec_seg.simps)
      have "length (ad_out ad) < N" if l using adec_seg_out [OF seg1] room that by simp
      from dec_partial_refines [OF rel idle assms(3) seg1 refl _ ds _ this, of pos]
        pos read Part round partial
      show ?thesis by (auto simp del: seg_option.simps)
    qed
  qed
qed

section \<open>A packet\<close>

text \<open>The loop gets through the segments at the front of what is left, and then goes on behind them.\<close>

lemma dec_frames_prefix:
  assumes "dec_rel cap N old d ad" and "idle_ok ad" and cap: "cap < 65536"
    and "ldec_segs lib l2 cap segs ad = Some ad'" and "l2 = unat (dec_l2mtu d)"
    and pb: "buffer_ok cap pb" and "drop (unat pos) (buffer_data pb) = segs_bytes segs @ rest"
    and "length (ad_out ad') \<le> N"
  shows "\<exists>d' pos'. decoder_frames lib pb (Next d pos (ad_flush ad)) = decoder_frames lib pb (Next d' pos' (ad_flush ad')) \<and>
    drop (unat pos') (buffer_data pb) = rest \<and>
    dec_rel cap N old d' ad' \<and> idle_ok ad' \<and> dec_config d' = dec_config d"
  using assms(1,2,4,5,7,8)
proof (induction segs arbitrary: d ad pos)
  case Nil
  then show ?case by auto
next
  case (Cons s segs)
  obtain ad1 where ad1: "ldec_seg lib l2 cap s ad = Some ad1" "ldec_segs lib l2 cap segs ad1 = Some ad'"
    using Cons.prems(3) by (auto simp: bind_eq_Some_conv)
  have data: "drop (unat pos) (buffer_data pb) = seg_bytes s @ segs_bytes segs @ rest"
    using Cons.prems(5) by simp
  have "length (ad_out ad1) \<le> N" using ldec_segs_out [OF ad1(2)] Cons.prems(6) by simp
  from dec_round_refines [OF Cons.prems(1,2) cap ad1(1) Cons.prems(4) pb data this]
  obtain d1 where d1: "decoder_round lib pb (Next d pos (ad_flush ad)) =
      Inr (Next d1 (pos + 8 + of_nat (length (seg_payload s))) (ad_flush ad1))"
    "dec_rel cap N old d1 ad1" "idle_ok ad1" "dec_config d1 = dec_config d" by blast
  let ?pos = "pos + 8 + of_nat (length (seg_payload s)) :: u16"
  have len: "length (buffer_data pb) = unat pos + 8 + length (seg_payload s) + length (segs_bytes segs @ rest)"
  proof -
    have "length (drop (unat pos) (buffer_data pb)) =
        8 + length (seg_payload s) + length (segs_bytes segs @ rest)" by (simp add: data)
    then show ?thesis by simp
  qed
  have "length (buffer_data pb) < 65536"
    using length_buffer_data [OF pb] pb cap by (simp add: buffer_ok_def)
  then have pos: "unat ?pos = unat pos + 8 + length (seg_payload s)"
    using len by (simp add: unat_word_ariths)
  have "drop (unat ?pos) (buffer_data pb) =
      drop (8 + length (seg_payload s)) (drop (unat pos) (buffer_data pb))"
    unfolding pos drop_drop by (simp add: add.commute add.left_commute)
  then have data1: "drop (unat ?pos) (buffer_data pb) = segs_bytes segs @ rest" by (simp add: data)
  have l2: "l2 = unat (dec_l2mtu d1)" using Cons.prems(4) d1(4) by (simp add: dec_config_def)
  have more: "decoder_more pb (Next d pos (ad_flush ad))"
    using len length_buffer_data [OF pb] by (simp add: decoder_more_def Buffer_getDataSize_def)
  from Cons.IH [OF d1(2,3) ad1(2) l2 data1 Cons.prems(6)] d1(1,4) more
  show ?case by (simp add: decoder_frames_def rwhile_step)
qed

lemma dec_frames_refines:
  assumes "dec_rel cap N old d ad" and "idle_ok ad" and "cap < 65536"
    and "ldec_segs lib l2 cap segs ad = Some ad'" and "l2 = unat (dec_l2mtu d)"
    and pb: "buffer_ok cap pb" and data: "drop (unat pos) (buffer_data pb) = segs_bytes segs"
    and "length (ad_out ad') \<le> N"
  shows "\<exists>d' pos'. decoder_frames lib pb (Next d pos (ad_flush ad)) = Inr (Next d' pos' (ad_flush ad')) \<and>
    dec_rel cap N old d' ad' \<and> idle_ok ad' \<and> dec_config d' = dec_config d"
proof -
  have data': "drop (unat pos) (buffer_data pb) = segs_bytes segs @ []" using data by simp
  obtain d' pos' where d': "decoder_frames lib pb (Next d pos (ad_flush ad)) = decoder_frames lib pb (Next d' pos' (ad_flush ad'))"
    "drop (unat pos') (buffer_data pb) = []" "dec_rel cap N old d' ad'" "idle_ok ad'" "dec_config d' = dec_config d"
    using dec_frames_prefix [OF assms(1-6) data' assms(8)] by blast
  have "\<not> decoder_more pb (Next d' pos' (ad_flush ad'))"
    using d'(2) length_buffer_data [OF pb] by (simp add: decoder_more_def Buffer_getDataSize_def)
  with d' show ?thesis by (auto simp: decoder_frames_def)
qed

text \<open>The check of the sequence number, on any number whatever.\<close>

definition dec_number :: "'s decoder \<Rightarrow> u32 option" where
  "dec_number d = (if dec_first_packet d then None else Some (dec_last_sequence d))"

lemma dec_rel_number:
  "dec_rel cap N old (d\<lparr>dec_first_packet := f\<rparr>) ad = dec_rel cap N old d ad"
  "dec_rel cap N old (d\<lparr>dec_last_sequence := n\<rparr>) ad = dec_rel cap N old d ad"
  by (simp_all add: dec_rel_def)

lemma dec_sequence_refines:
  assumes rel: "dec_rel cap N old d ad"
  shows "\<exists>d'. decoder_sequence lib seq d = Inr d' \<and>
    dec_rel cap N old d' (if number_gap (dec_number d) seq then adec_drop lib ad else ad) \<and>
    dec_config d' = (dec_l2mtu d, False, seq)"
proof (cases "dec_first_packet d")
  case True
  then show ?thesis
    using rel by (simp add: decoder_sequence_def dec_number_def number_gap_def dec_rel_number dec_config_def)
next
  case False
  obtain d1 where d1: "decoder_drop_state lib d = Inr d1" "dec_rel cap N old d1 (adec_drop lib ad)"
    "dec_config d1 = dec_config d"
    using dec_drop_state_refines [OF rel] by blast
  have c: "dec_l2mtu d1 = dec_l2mtu d" "\<not> dec_first_packet d1" "dec_last_sequence d1 = dec_last_sequence d"
    using d1(3) False by (simp_all add: dec_config_def)
  let ?next = "dec_last_sequence d + 1"
  consider "seq > ?next" | "seq < ?next" "is_sequence_wrapping seq (dec_last_sequence d)"
    | "seq < ?next" "\<not> is_sequence_wrapping seq (dec_last_sequence d)" | "seq = ?next"
    by (meson linorder_neqE)
  then show ?thesis
  proof cases
    case 1
    then have "\<not> seq < ?next" "seq \<noteq> ?next" by simp_all
    with 1 False d1 c show ?thesis
      by (simp add: decoder_sequence_def Let_def dec_number_def number_gap_def dec_rel_number dec_config_def)
  next
    case 2
    then have "\<not> seq > ?next" by simp
    with 2 False rel show ?thesis
      by (simp add: decoder_sequence_def Let_def dec_number_def number_gap_def dec_rel_number dec_config_def)
  next
    case 3
    then have "\<not> seq > ?next" "seq \<noteq> ?next" by simp_all
    with 3 False d1 c show ?thesis
      by (simp add: decoder_sequence_def Let_def dec_number_def number_gap_def dec_rel_number dec_config_def)
  next
    case 4
    with False rel show ?thesis
      by (simp add: decoder_sequence_def Let_def dec_number_def number_gap_def dec_rel_number dec_config_def)
  qed
qed

lemma u64_left:
  assumes "16 \<le> n" and "n < 65536"
  shows "\<not> (of_nat n - 8 :: u64) < 8"
proof -
  have "(of_nat n - 8 :: u64) = of_nat (n - 8)" using assms(1) by simp
  moreover have "unat (of_nat (n - 8) :: u64) = n - 8"
    using assms(2) by (intro unat_of_nat_small) simp
  ultimately show ?thesis using assms(1) by (simp add: word_less_nat_alt)
qed

lemma decoder_options_single:
  assumes "Buffer_read 8 8 pb = Inr (PacketHeaderOption_bytes opt)" and "po_reserved opt = 0"
    and "OPTION_TYPE_IS_VALID opt" and "16 \<le> dataSize pb" and "dataSize pb < 65536"
  shows "decoder_options pb 1 1 8 0 = Inr (Some 8)"
  using assms(1-3) u64_left [OF assms(4,5)]
  by (simp add: One_nat_def sizeof_PacketHeaderOption_def Buffer_getDataSize_def del: of_nat_diff)

lemma header_of_fields:
  "\<not> packet_header_bad (packet_header_of seq)" "unat (ph_opt_len (packet_header_of seq)) = 1"
  "be_to_cpu_32 (ph_sequence (packet_header_of seq)) = seq"
  by (simp_all add: packet_header_bad_def packet_header_of_def SETH_PACKET_HEADER_VERSION_V1_def)

lemma seg_option_valid: "OPTION_TYPE_IS_VALID (seg_option s)"
  unfolding OPTION_TYPE_IS_VALID_iff by (cases s) simp_all

text \<open>Up to the loop: the checks of the header and the search for the first option header.\<close>

lemma dec_packet_begins:
  assumes rel: "dec_rel cap N old d ad" and idle: "idle_ok ad" and cap: "cap < 65536" and "segs \<noteq> []"
    and pb: "buffer_ok cap pb" and data: "buffer_data pb = packet_bytes (seq, segs) @ tail"
  obtains d1 where "decoder_decode lib pb d = rbind (decoder_frames lib pb (Next d1 8 True)) (decoder_end lib pb)"
    and "dec_rel cap N old d1 (adec_start (if number_gap (dec_number d) seq then adec_drop lib ad else ad))"
    and "idle_ok (adec_start (if number_gap (dec_number d) seq then adec_drop lib ad else ad))"
    and "dec_config d1 = (dec_l2mtu d, False, seq)"
    and "drop (unat (8 :: u16)) (buffer_data pb) = segs_bytes segs @ tail"
proof -
  obtain s segs' where segs: "segs = s # segs'" using assms(4) by (cases segs) auto
  let ?ad = "if number_gap (dec_number d) seq then adec_drop lib ad else ad"
  let ?h = "packet_header_of seq"
  have len: "length (buffer_data pb) = dataSize pb" by (rule length_buffer_data [OF pb])
  have ds: "16 \<le> dataSize pb" "dataSize pb < 65536"
    using len data segs pb cap by (auto simp: packet_bytes_def buffer_ok_def)
  have read: "Buffer_read 0 8 pb = Inr (PacketHeader_bytes ?h)"
    using Buffer_read_data [OF pb, of 0 8] ds data by (simp add: slice_def packet_bytes_def)
  have "Buffer_read 8 8 pb = Inr (PacketHeaderOption_bytes (seg_option s))"
    using Buffer_read_data [OF pb, of 8 8] ds data
    by (simp add: slice_def packet_bytes_def segs seg_bytes_def)
  from decoder_options_single [OF this seg_option_fields(4) seg_option_valid ds]
  have opts: "decoder_options pb 1 1 8 0 = Inr (Some 8)" .
  obtain d1 where d1: "decoder_sequence lib seq d = Inr d1" "dec_rel cap N old d1 ?ad"
    "dec_config d1 = (dec_l2mtu d, False, seq)"
    using dec_sequence_refines [OF rel] by blast
  have "dec_rel cap N old d1 (adec_start ?ad)"
    using d1(2) by (simp add: dec_rel_def adec_start_def split: if_splits)
  moreover have "idle_ok (adec_start ?ad)" using idle by (simp add: idle_ok_def adec_start_def)
  moreover have "drop (unat (8 :: u16)) (buffer_data pb) = segs_bytes segs @ tail"
    by (simp add: data packet_bytes_def)
  moreover have "decoder_decode lib pb d = rbind (decoder_frames lib pb (Next d1 8 True)) (decoder_end lib pb)"
    unfolding decoder_decode_def
    using ds(1) read d1(1) opts
    by (simp add: sizeof_PacketHeader_def Buffer_getDataSize_def header_of_fields decoder_payload_def)
  ultimately show thesis using that d1(3) by blast
qed

lemma dec_packet_refines:
  assumes rel: "dec_rel cap N old d ad" and idle: "idle_ok ad" and cap: "cap < 65536"
    and packet: "ldec_packet lib l2 cap segs (if number_gap (dec_number d) seq then adec_drop lib ad else ad) = Some ad'"
    and l2: "l2 = unat (dec_l2mtu d)" and "segs \<noteq> []"
    and pb: "buffer_ok cap pb" and data: "buffer_data pb = packet_bytes (seq, segs)"
    and room: "length (ad_out ad') \<le> N"
  shows "\<exists>d'. decoder_decode lib pb d = Inr d' \<and> dec_rel cap N old d' ad' \<and> idle_ok ad' \<and>
    dec_config d' = (dec_l2mtu d, False, seq)"
proof -
  let ?ad = "if number_gap (dec_number d) seq then adec_drop lib ad else ad"
  obtain ad1 where ad1: "ldec_segs lib l2 cap segs (adec_start ?ad) = Some ad1"
    and ad': "ad' = adec_end lib ad1"
    using packet by (auto simp: ldec_packet_def)
  have data': "buffer_data pb = packet_bytes (seq, segs) @ []" using data by simp
  obtain d1 where d1: "decoder_decode lib pb d = rbind (decoder_frames lib pb (Next d1 8 True)) (decoder_end lib pb)"
    and rel1: "dec_rel cap N old d1 (adec_start ?ad)" and idle1: "idle_ok (adec_start ?ad)"
    and d1_config: "dec_config d1 = (dec_l2mtu d, False, seq)"
    and "drop (unat (8 :: u16)) (buffer_data pb) = segs_bytes segs @ []"
    by (rule dec_packet_begins [OF rel idle cap assms(6) pb data'])
  then have data1: "drop (unat (8 :: u16)) (buffer_data pb) = segs_bytes segs" by simp
  have room1: "length (ad_out ad1) \<le> N" using room by (simp add: ad' adec_end_def adec_reset_def split: if_splits)
  have l2': "l2 = unat (dec_l2mtu d1)" using l2 d1_config by (simp add: dec_config_def)
  from dec_frames_refines [OF rel1 idle1 cap ad1 l2' pb data1 room1]
  obtain d2 pos where d2: "decoder_frames lib pb (Next d1 8 True) = Inr (Next d2 pos (ad_flush ad1))"
    "dec_rel cap N old d2 ad1" "idle_ok ad1" "dec_config d2 = dec_config d1"
    by (auto simp: adec_start_def)
  have run: "decoder_decode lib pb d =
      (if ad_flush ad1 then decoder_flushInflight lib (decoder_pushInflight pb d2)
       else Inr (decoder_pushInflight pb d2))"
    by (simp add: d1 d2(1) decoder_end_def)
  have rel2: "dec_rel cap N old (decoder_pushInflight pb d2) ad1"
    using d2(2) pb by (auto simp: dec_rel_def decoder_pushInflight_def)
  have idle': "idle_ok ad'"
    using d2(3) by (simp add: ad' adec_end_def adec_reset_def idle_ok_def)
  have config: "dec_config (decoder_pushInflight pb d2) = (dec_l2mtu d, False, seq)"
    using d2(4) d1_config by (simp add: dec_config_def decoder_pushInflight_def)
  show ?thesis
  proof (cases "ad_flush ad1")
    case True
    from dec_flushInflight_refines [OF rel2] obtain d3 where
      "decoder_flushInflight lib (decoder_pushInflight pb d2) = Inr d3"
      "dec_rel cap N old d3 (adec_reset lib ad1)" "dec_config d3 = dec_config (decoder_pushInflight pb d2)"
      by blast
    with True run idle' config show ?thesis by (auto simp: ad' adec_end_def)
  next
    case False
    with run rel2 idle' config show ?thesis by (auto simp: ad' adec_end_def)
  qed
qed

text \<open>
  The loop looks for a further header as long as there is data: behind the segments of a packet
  that goes on for a few bytes up to the end of its buffer, the header is not in the buffer.
\<close>

lemma dec_packet_overrun:
  assumes rel: "dec_rel cap N old d ad" and idle: "idle_ok ad" and cap: "cap < 65536" and "segs \<noteq> []"
    and pb: "buffer_ok cap pb" and data: "buffer_data pb = packet_bytes (seq, segs) @ tail"
    and segs: "ldec_segs lib (unat (dec_l2mtu d)) cap segs
      (adec_start (if number_gap (dec_number d) seq then adec_drop lib ad else ad)) = Some ad'"
    and room: "length (ad_out ad') \<le> N"
    and tail: "tail \<noteq> []" "cap + length tail < dataSize pb + 8"
  shows "decoder_decode lib pb d = Inl Out_of_bounds"
proof -
  obtain d1 where d1: "decoder_decode lib pb d = rbind (decoder_frames lib pb (Next d1 8 True)) (decoder_end lib pb)"
    and rel1: "dec_rel cap N old d1 (adec_start (if number_gap (dec_number d) seq then adec_drop lib ad else ad))"
    and idle1: "idle_ok (adec_start (if number_gap (dec_number d) seq then adec_drop lib ad else ad))"
    and config: "dec_config d1 = (dec_l2mtu d, False, seq)"
    and data1: "drop (unat (8 :: u16)) (buffer_data pb) = segs_bytes segs @ tail"
    by (rule dec_packet_begins [OF rel idle cap assms(4) pb data])
  have l2: "unat (dec_l2mtu d) = unat (dec_l2mtu d1)" using config by (simp add: dec_config_def)
  from dec_frames_prefix [OF rel1 idle1 cap segs l2 pb data1 room]
  obtain d2 pos where d2: "decoder_frames lib pb (Next d1 8 True) = decoder_frames lib pb (Next d2 pos (ad_flush ad'))"
    "drop (unat pos) (buffer_data pb) = tail"
    by (auto simp: adec_start_def)
  have "dataSize pb - unat pos = length tail"
    using arg_cong [OF d2(2), of length] length_buffer_data [OF pb] by simp
  moreover have "0 < length tail" using tail(1) by simp
  ultimately have pos: "unat pos < dataSize pb" "cap < unat pos + 8" using tail(2) by linarith+
  have "decoder_more pb (Next d2 pos (ad_flush ad'))" using pos(1) by (simp add: decoder_more_def Buffer_getDataSize_def)
  moreover have "decoder_round lib pb (Next d2 pos (ad_flush ad')) = Inl Out_of_bounds"
    using pb pos(2) by (simp add: decoder_round_def Buffer_read_def sizeof_PacketHeaderOption_def buffer_ok_def)
  ultimately show ?thesis using d1 d2(1) by (simp add: decoder_frames_def rwhile_step)
qed

lemma ldec_packets_out:
  "ldec_packets lib l2 cap prev ps ad = Some ad' \<Longrightarrow> length (ad_out ad) \<le> length (ad_out ad')"
proof (induction ps arbitrary: ad prev)
  case (Cons p ps)
  let ?ad = "if number_gap prev (fst p) then adec_drop lib ad else ad"
  obtain ad1 where ad1: "ldec_packet lib l2 cap (snd p) ?ad = Some ad1"
    "ldec_packets lib l2 cap (Some (fst p)) ps ad1 = Some ad'"
    using Cons.prems by (auto simp: bind_eq_Some_conv)
  then obtain ad2 where "ldec_segs lib l2 cap (snd p) (adec_start ?ad) = Some ad2" "ad1 = adec_end lib ad2"
    by (auto simp: ldec_packet_def)
  with ldec_segs_out [of lib l2 cap "snd p" "adec_start ?ad" ad2] Cons.IH [OF ad1(2)] show ?case
    by (auto simp: adec_start_def adec_end_def adec_reset_def split: if_splits)
qed simp

text \<open>Packets in the order of their arrival, whatever their numbers.\<close>

lemma dec_packets_refines:
  assumes "dec_rel cap N old d ad" and "idle_ok ad" and cap: "cap < 65536"
    and "ldec_packets lib l2 cap (dec_number d) ps ad = Some ad'" and "l2 = unat (dec_l2mtu d)"
    and "\<forall>p \<in> set ps. snd p \<noteq> []"
    and "\<forall>pb \<in> set pbs. buffer_ok cap pb" and "map buffer_data pbs = map packet_bytes ps"
    and "length (ad_out ad') \<le> N"
  shows "\<exists>d'. decoder_decode_all lib pbs d = Inr d' \<and> dec_rel cap N old d' ad' \<and> idle_ok ad'"
  using assms(1,2,4-)
proof (induction ps arbitrary: d ad pbs)
  case Nil
  then show ?case by (simp add: decoder_decode_all_def)
next
  case (Cons p ps)
  obtain q segs where p: "p = (q, segs)" by (cases p)
  obtain pb pbs' where pbs: "pbs = pb # pbs'" "buffer_data pb = packet_bytes (q, segs)"
    "map buffer_data pbs' = map packet_bytes ps"
    using Cons.prems(7) p by (cases pbs) auto
  obtain ad1 where ad1: "ldec_packet lib l2 cap segs (if number_gap (dec_number d) q then adec_drop lib ad else ad) = Some ad1"
    "ldec_packets lib l2 cap (Some q) ps ad1 = Some ad'"
    using Cons.prems(3) p by (auto simp: bind_eq_Some_conv)
  have "length (ad_out ad1) \<le> length (ad_out ad')" by (rule ldec_packets_out [OF ad1(2)])
  then have room: "length (ad_out ad1) \<le> N" using Cons.prems(8) by simp
  have segs: "segs \<noteq> []" "buffer_ok cap pb" using Cons.prems(5,6) p pbs by auto
  from dec_packet_refines [OF Cons.prems(1,2) cap ad1(1) Cons.prems(4) segs pbs(2) room]
  obtain d1 where d1: "decoder_decode lib pb d = Inr d1" "dec_rel cap N old d1 ad1" "idle_ok ad1"
    "dec_config d1 = (dec_l2mtu d, False, q)" by blast
  have c1: "dec_l2mtu d1 = dec_l2mtu d" "dec_number d1 = Some q"
    using d1(4) by (simp_all add: dec_config_def dec_number_def)
  have "ldec_packets lib l2 cap (dec_number d1) ps ad1 = Some ad'" unfolding c1(2) by (rule ad1(2))
  with Cons.IH [OF d1(2,3) this] Cons.prems c1 pbs d1(1)
  show ?case by (auto simp: decoder_decode_all_def)
qed

end
