(* ===== verification/Tunnel.thy ===== *)
theory Tunnel
  imports Remote_Node Encoder_Correct Decoder_Correct
begin

unbundle bit_operations_syntax

text \<open>
  The tunnel from end to end: frames that the encoder thread of one end is given, in whatever
  batches and with whatever timeouts between them, come out of the decoder of the other end, in
  their order and byte for byte.
\<close>

section \<open>The parameters\<close>

definition lib_ready :: "'s codec_lib \<Rightarrow> bool" where
  "lib_ready lib \<longleftrightarrow>
     (\<exists>a b. StreamCompressorLZ4 lib = Inr a \<and> StreamCompressorZSTD lib = Inr b)"

definition tunnel_ok ::
    "'s codec_lib \<Rightarrow> ('s stream_compressor \<Rightarrow> 's stream_compressor \<Rightarrow> bool) \<Rightarrow> nat \<Rightarrow> u16 \<Rightarrow> u16 \<Rightarrow> u8 \<Rightarrow> bool"
where
  "tunnel_ok lib R cap l2mtu l4mtu fmt \<longleftrightarrow>
     104 \<le> unat l4mtu \<and> unat l4mtu \<le> cap \<and> unat l2mtu \<le> cap \<and> cap \<le> 22352 \<and>
     (\<exists>f. fmt = PacketHeaderOptionFormatType_value f) \<and>
     (fmt \<noteq> 0 \<longrightarrow> lossless lib (format_algorithm fmt) (unat l2mtu) cap R) \<and> lib_ready lib"

lemma format_values:
  "(\<exists>f. fmt = PacketHeaderOptionFormatType_value f) \<longleftrightarrow> fmt \<in> {0, 1, 2}"
proof
  assume "fmt \<in> {0, 1, 2}"
  then consider "fmt = PacketHeaderOptionFormatType_value FORMAT_NONE"
    | "fmt = PacketHeaderOptionFormatType_value COMPRESSED_LZ4"
    | "fmt = PacketHeaderOptionFormatType_value COMPRESSED_ZSTD" by auto
  then show "\<exists>f. fmt = PacketHeaderOptionFormatType_value f" by cases blast+
next
  assume "\<exists>f. fmt = PacketHeaderOptionFormatType_value f"
  then obtain f where "fmt = PacketHeaderOptionFormatType_value f" by blast
  then show "fmt \<in> {0, 1, 2}" by (cases f) simp_all
qed

section \<open>An encoder and the decoder that will read its packets\<close>

definition tunnel_inv ::
    "'s codec_lib \<Rightarrow> ('s stream_compressor \<Rightarrow> 's stream_compressor \<Rightarrow> bool) \<Rightarrow> nat \<Rightarrow> nat \<Rightarrow>
       u16 \<times> u16 \<times> u8 \<Rightarrow> 's adec \<Rightarrow> ('s, 'f) encoder \<Rightarrow> 's astate \<Rightarrow> 's adec \<Rightarrow> bool"
where
  "tunnel_inv lib R cap N config d0 e st d \<longleftrightarrow>
     enc_rel cap N [] e st \<and> comp_buffer_ok cap e \<and> enc_config e = config \<and>
     88 \<le> room (unat (fst (snd config))) (ast_enc st) \<and>
     packets_fit (unat (fst (snd config))) (ast_enc st) \<and> sent_ok 1 (ast_enc st) \<and>
     views lib (unat (fst config)) cap d0 (ast_enc st) d \<and>
     in_sync lib (snd (snd config)) R st d"

lemma tunnel_encode:
  assumes ok: "tunnel_ok lib R cap l2mtu l4mtu fmt"
    and inv: "tunnel_inv lib R cap N (l2mtu, l4mtu, fmt) d0 e st d"
    and raw: "buffer_ok cap raw" "dataSize raw \<le> unat l2mtu"
    and avail: "length (aout (ast_enc (abs_frame lib (unat l4mtu) cap fmt (buffer_data raw) st))) \<le> N"
  shows "\<exists>e' d'. encoder_encode ratio lib raw e = Inr e' \<and>
    tunnel_inv lib R cap N (l2mtu, l4mtu, fmt) d0 e'
      (abs_frame lib (unat l4mtu) cap fmt (buffer_data raw) st) d' \<and>
    ad_out d' = ad_out d @ [buffer_data raw]"
proof -
  let ?m = "unat l4mtu" and ?x = "buffer_data raw"
  have o: "104 \<le> ?m" "?m \<le> cap" "unat l2mtu \<le> cap" "cap \<le> 22352" "fmt \<in> {0, 1, 2}"
    "fmt \<noteq> 0 \<Longrightarrow> lossless lib (format_algorithm fmt) (unat l2mtu) cap R"
    using ok by (simp_all add: tunnel_ok_def format_values)
  have i: "enc_rel cap N [] e st" "comp_buffer_ok cap e" "enc_l2mtu e = l2mtu" "enc_l4mtu e = l4mtu"
    "enc_packet_format e = fmt" "88 \<le> room ?m (ast_enc st)" "packets_fit ?m (ast_enc st)"
    "sent_ok 1 (ast_enc st)" "views lib (unat l2mtu) cap d0 (ast_enc st) d" "in_sync lib fmt R st d"
    using inv by (simp_all add: tunnel_inv_def enc_config_def)
  have len: "length ?x = dataSize raw" by (rule length_buffer_data [OF raw(1)])
  have stream: "\<exists>c d. ast_comp st = Some c \<and> R c d" if "fmt \<noteq> 0"
    using i(10) that by (auto simp: in_sync_def streams_agree_def)
  have "dataSize raw \<le> unat (enc_l2mtu e)" "?m = unat (enc_l4mtu e)" "cap < 65536"
    "fmt \<noteq> 0 \<Longrightarrow> lossless lib (format_algorithm fmt) (unat (enc_l2mtu e)) cap R"
    using raw(2) i o by simp_all
  from encode_refines [OF i(1) raw(1) this(1,2) o(1,2) this(3) i(6,2,5) this(4) stream avail]
  obtain e' where e': "encoder_encode ratio lib raw e = Inr e'"
    "enc_rel cap N [] e' (abs_frame lib ?m cap fmt ?x st)" "comp_buffer_ok cap e'"
    "enc_config e' = enc_config e" by blast
  have "length ?x \<le> unat l2mtu" "unat l2mtu < 65536" using len raw(2) by simp_all
  from abs_frame_views [OF i(9,10) this(1) o(3) this(2) o(4-6,1) i(6)]
  obtain d' where d': "views lib (unat l2mtu) cap d0 (ast_enc (abs_frame lib ?m cap fmt ?x st)) d'"
    "in_sync lib fmt R (abs_frame lib ?m cap fmt ?x st) d'" "ad_out d' = ad_out d @ [?x]"
    "88 \<le> room ?m (ast_enc (abs_frame lib ?m cap fmt ?x st))" by blast
  have "enc_config e' = (l2mtu, l4mtu, fmt)" using e'(4) i by (simp add: enc_config_def)
  then have "tunnel_inv lib R cap N (l2mtu, l4mtu, fmt) d0 e' (abs_frame lib ?m cap fmt ?x st) d'"
    using e'(2,3) d' fit_frame [OF i(7,6) o(1)] sent_frame [OF i(8)]
    unfolding tunnel_inv_def by simp
  with e'(1) d'(3) show ?thesis by blast
qed

lemma tunnel_encode_all:
  assumes ok: "tunnel_ok lib R cap l2mtu l4mtu fmt"
    and "tunnel_inv lib R cap N (l2mtu, l4mtu, fmt) d0 e st d"
    and "\<forall>b \<in> set bs. buffer_ok cap b \<and> dataSize b \<le> unat l2mtu"
    and "length (aout (ast_enc (abs_frames lib (unat l4mtu) cap fmt (map buffer_data bs) st))) \<le> N"
  shows "\<exists>e' d'. encoder_encode_all ratio lib bs e = Inr e' \<and>
    tunnel_inv lib R cap N (l2mtu, l4mtu, fmt) d0 e'
      (abs_frames lib (unat l4mtu) cap fmt (map buffer_data bs) st) d' \<and>
    ad_out d' = ad_out d @ map buffer_data bs"
  using assms(2-)
proof (induction bs arbitrary: e st d)
  case Nil
  then show ?case by (auto simp: encoder_encode_all_def abs_frames_def)
next
  case (Cons b bs)
  let ?st = "abs_frame lib (unat l4mtu) cap fmt (buffer_data b) st"
  have rest: "length (aout (ast_enc (abs_frames lib (unat l4mtu) cap fmt (map buffer_data bs) ?st))) \<le> N"
    using Cons.prems(3) by (simp add: abs_frames_def)
  then have sent: "length (aout (ast_enc ?st)) \<le> N" by (rule le_trans [OF aout_frames])
  have b: "buffer_ok cap b" "dataSize b \<le> unat l2mtu" using Cons.prems(2) by simp_all
  obtain e1 d1 where e1: "encoder_encode ratio lib b e = Inr e1"
    "tunnel_inv lib R cap N (l2mtu, l4mtu, fmt) d0 e1 ?st d1" "ad_out d1 = ad_out d @ [buffer_data b]"
    using tunnel_encode [OF ok Cons.prems(1) b sent] by blast
  have "\<forall>b \<in> set bs. buffer_ok cap b \<and> dataSize b \<le> unat l2mtu" using Cons.prems(2) by simp
  from Cons.IH [OF e1(2) this rest] e1 show ?case
    by (auto simp: encoder_encode_all_def abs_frames_def)
qed

lemma tunnel_flush:
  assumes ok: "tunnel_ok lib R cap l2mtu l4mtu fmt"
    and inv: "tunnel_inv lib R cap N (l2mtu, l4mtu, fmt) d0 e st d"
    and avail: "length (aout (ast_enc (abs_send lib st))) \<le> N"
  shows "\<exists>e' d'. encoder_flush lib e = Inr e' \<and>
    tunnel_inv lib R cap N (l2mtu, l4mtu, fmt) d0 e' (abs_send lib st) d' \<and> ad_out d' = ad_out d"
proof -
  let ?m = "unat l4mtu"
  have o: "104 \<le> ?m" "?m \<le> cap"
    "fmt \<noteq> 0 \<Longrightarrow> lossless lib (format_algorithm fmt) (unat l2mtu) cap R"
    using ok by (simp_all add: tunnel_ok_def)
  have i: "enc_rel cap N [] e st" "comp_buffer_ok cap e" "enc_config e = (l2mtu, l4mtu, fmt)"
    "packets_fit ?m (ast_enc st)" "sent_ok 1 (ast_enc st)"
    "views lib (unat l2mtu) cap d0 (ast_enc st) d" "in_sync lib fmt R st d"
    using inv by (simp_all add: tunnel_inv_def)
  have "8 \<le> cap" "8 \<le> unat (enc_l4mtu e)" using o i(3) by (simp_all add: enc_config_def)
  from flush_refines [OF i(1) this avail [unfolded ast_enc_send]]
  obtain e' where e': "encoder_flush lib e = Inr e'" "enc_rel cap N [] e' (abs_send lib st)"
    "enc_fixed e' = enc_fixed e" by blast
  from views_send [OF i(6,7) o(3)]
  obtain d' where "views lib (unat l2mtu) cap d0 (ast_enc (abs_send lib st)) d'"
    "in_sync lib fmt R (abs_send lib st) d'" "ad_out d' = ad_out d" by blast
  moreover have "comp_buffer_ok cap e'" using i(2) enc_fixedD [OF e'(3)] by (simp add: comp_buffer_ok_def)
  moreover have "packets_fit ?m (abs_flush (ast_enc st))" using o(1) by (intro fit_flush i(4)) simp
  ultimately have "tunnel_inv lib R cap N (l2mtu, l4mtu, fmt) d0 e' (abs_send lib st) d' \<and>
      ad_out d' = ad_out d"
    using e'(2) enc_fixed_config [OF e'(3)] i(3) sent_flush [OF i(5)] o(1)
    unfolding tunnel_inv_def by simp
  with e'(1) show ?thesis by blast
qed

section \<open>The encoder thread\<close>

text \<open>The abstract encoder on what the waits of the thread give it.\<close>

definition abs_handle ::
    "'s codec_lib \<Rightarrow> nat \<Rightarrow> nat \<Rightarrow> u8 \<Rightarrow> bool \<times> packet_buffer list \<Rightarrow> 's astate \<Rightarrow> 's astate"
where
  "abs_handle lib m cap fmt = (\<lambda>(got, bs) st.
     if got then abs_frames lib m cap fmt (map buffer_data bs) st else abs_send lib st)"

definition frames_of :: "(bool \<times> packet_buffer list) list \<Rightarrow> packet_buffer list" where
  "frames_of evs = concat (map snd (filter fst evs))"

lemma frames_of_Cons: "frames_of (ev # evs) = (if fst ev then snd ev else []) @ frames_of evs"
  by (simp add: frames_of_def)

lemma aout_handle: "length (aout (ast_enc st)) \<le> length (aout (ast_enc (abs_handle lib m cap fmt ev st)))"
  by (cases ev) (simp add: abs_handle_def aout_frames aout_flush)

lemma aout_handles:
  "length (aout (ast_enc st)) \<le> length (aout (ast_enc (fold (abs_handle lib m cap fmt) evs st)))"
proof (induction evs arbitrary: st)
  case (Cons ev evs)
  from le_trans [OF aout_handle Cons.IH] show ?case by simp
qed simp

lemma aout_handles_bound:
  assumes "16 < m" and "\<forall>b \<in> set (frames_of evs). length (buffer_data b) \<le> cap"
  shows "length (aout (ast_enc (fold (abs_handle lib m cap fmt) evs st))) \<le>
    length (aout (ast_enc st)) + length (frames_of evs) * (cap div (m - 16) + 2) + length evs"
  using assms(2)
proof (induction evs arbitrary: st)
  case (Cons ev evs)
  obtain got bs where ev: "ev = (got, bs)" by (cases ev)
  let ?st = "abs_handle lib m cap fmt ev st" and ?k = "cap div (m - 16) + 2"
  have "length (aout (ast_enc ?st)) \<le>
      length (aout (ast_enc st)) + length (if got then bs else []) * ?k + 1"
  proof (cases got)
    case True
    then have "\<forall>x \<in> set (map buffer_data bs). length x \<le> cap"
      using Cons.prems by (simp add: ev frames_of_Cons)
    from aout_frames_bound [OF assms(1) this, of lib fmt st] True show ?thesis
      by (simp add: ev abs_handle_def)
  next
    case False
    then show ?thesis using aout_flush_bound [of "ast_enc st"] by (simp add: ev abs_handle_def)
  qed
  moreover have "\<forall>b \<in> set (frames_of evs). length (buffer_data b) \<le> cap"
    using Cons.prems by (simp add: frames_of_Cons)
  note Cons.IH [OF this, of ?st]
  ultimately show ?case
    by (cases got) (simp_all add: ev frames_of_Cons algebra_simps)
qed (simp add: frames_of_def)

lemma tunnel_handle_all:
  assumes ok: "tunnel_ok lib R cap l2mtu l4mtu fmt"
    and "tunnel_inv lib R cap N (l2mtu, l4mtu, fmt) d0 e st d"
    and "\<forall>b \<in> set (frames_of evs). buffer_ok cap b \<and> dataSize b \<le> unat l2mtu"
    and "length (aout (ast_enc (fold (abs_handle lib (unat l4mtu) cap fmt) evs st))) \<le> N"
  shows "\<exists>e' d'. rfold (encoder_handle ratio lib) evs e = Inr e' \<and>
    tunnel_inv lib R cap N (l2mtu, l4mtu, fmt) d0 e'
      (fold (abs_handle lib (unat l4mtu) cap fmt) evs st) d' \<and>
    ad_out d' = ad_out d @ map buffer_data (frames_of evs)"
  using assms(2-)
proof (induction evs arbitrary: e st d)
  case Nil
  then show ?case by (auto simp: frames_of_def)
next
  case (Cons ev evs)
  obtain got bs where ev: "ev = (got, bs)" by (cases ev)
  let ?st = "abs_handle lib (unat l4mtu) cap fmt ev st"
  have rest: "length (aout (ast_enc (fold (abs_handle lib (unat l4mtu) cap fmt) evs ?st))) \<le> N"
    using Cons.prems(3) by simp
  then have sent: "length (aout (ast_enc ?st)) \<le> N" by (rule le_trans [OF aout_handles])
  obtain e1 d1 where e1: "encoder_handle ratio lib ev e = Inr e1"
    "tunnel_inv lib R cap N (l2mtu, l4mtu, fmt) d0 e1 ?st d1"
    "ad_out d1 = ad_out d @ map buffer_data (if got then bs else [])"
  proof (cases got)
    case True
    have "\<forall>b \<in> set bs. buffer_ok cap b \<and> dataSize b \<le> unat l2mtu"
      using Cons.prems(2) True by (simp add: ev frames_of_Cons)
    from tunnel_encode_all [OF ok Cons.prems(1) this, of ratio] sent True show thesis
      by (auto simp: ev abs_handle_def encoder_handle_def intro: that)
  next
    case False
    from tunnel_flush [OF ok Cons.prems(1)] sent False show thesis
      by (auto simp: ev abs_handle_def encoder_handle_def intro: that)
  qed
  have "\<forall>b \<in> set (frames_of evs). buffer_ok cap b \<and> dataSize b \<le> unat l2mtu"
    using Cons.prems(2) by (simp add: frames_of_Cons)
  from Cons.IH [OF e1(2) this rest] e1(1,3) show ?case
    by (auto simp: ev frames_of_Cons)
qed

section \<open>The two ends when they start\<close>

definition adec_init :: "'s stream_compressor \<Rightarrow> 's stream_compressor \<Rightarrow> 's adec" where
  "adec_init lz4 zstd =
     \<lparr>ad_part = 0, ad_orig = 0, ad_fmt = 0, ad_acc = [], ad_lz4 = lz4, ad_zstd = zstd,
      ad_out = [], ad_flush = True\<rparr>"

definition aenc_init :: "'s stream_compressor option \<Rightarrow> 's astate" where
  "aenc_init c = \<lparr>ast_enc = \<lparr>aseq = 1, acur = [], aout = []\<rparr>, ast_comp = c, ast_pend = False\<rparr>"

definition format_compressor ::
    "u8 \<Rightarrow> 's stream_compressor \<Rightarrow> 's stream_compressor \<Rightarrow> 's stream_compressor option" where
  "format_compressor fmt lz4 zstd = (if fmt = 0 then None else if fmt = 1 then Some lz4 else Some zstd)"

lemma decoder_start:
  assumes "StreamCompressorLZ4 lib = Inr lz4" and "StreamCompressorZSTD lib = Inr zstd"
    and "pool_ok cap tap" and "pool_ok cap avail" and "N + 2 \<le> length (pool avail)"
  shows "\<exists>d0. PacketDecoder garbage lib l2mtu tap avail = Inr d0 \<and>
    dec_rel cap N (map buffer_data (pool tap)) d0 (adec_init lz4 zstd) \<and>
    dec_first_packet d0 \<and> dec_l2mtu d0 = l2mtu"
proof -
  obtain b c bs where p: "pool avail = b # c # bs"
    using assms(5) by (cases "pool avail"; cases "tl (pool avail)") auto
  have b: "buffer_ok cap b" "buffer_ok cap c" "\<forall>x \<in> set bs. buffer_ok cap x"
    using assms(4) p by (simp_all add: pool_ok_def)
  have p1: "pool (avail\<lparr>pool := c # bs\<rparr>) = c # bs" by simp
  show ?thesis
    using assms b
    by (simp add: PacketDecoder_def BufferPool_pop_wait_simps(2) [OF p]
        BufferPool_pop_wait_simps(2) [OF p1] dec_rel_def adec_init_def decoder_clearState_def
        pool_ok_def p)
qed

text \<open>A new decoder on any packets that the abstract decoder accepts.\<close>

lemma decoder_on_packets:
  assumes lib: "StreamCompressorLZ4 lib = Inr lz4" "StreamCompressorZSTD lib = Inr zstd"
    and pools: "pool_ok cap tap" "pool_ok cap tx" and cap: "cap < 65536"
    and spec: "ldec_packets lib (unat l2mtu) cap None ps (adec_init lz4 zstd) = Some ad"
    and segs: "\<forall>p \<in> set ps. snd p \<noteq> []"
    and pbs: "\<forall>pb \<in> set pbs. buffer_ok cap pb" "map buffer_data pbs = map packet_bytes ps"
    and tx: "length (ad_out ad) + 2 \<le> length (pool tx)"
  shows "\<exists>d0 d1. PacketDecoder garbage lib l2mtu tap tx = Inr d0 \<and> decoder_handle lib pbs d0 = Inr d1 \<and>
    dec_rel cap (length (ad_out ad)) (map buffer_data (pool tap)) d1 ad"
proof -
  obtain d0 where d0: "PacketDecoder garbage lib l2mtu tap tx = Inr d0"
    "dec_rel cap (length (ad_out ad)) (map buffer_data (pool tap)) d0 (adec_init lz4 zstd)"
    "dec_first_packet d0" "dec_l2mtu d0 = l2mtu"
    using decoder_start [OF lib pools tx] by blast
  have number: "dec_number d0 = None" using d0(3) by (simp add: dec_number_def)
  have idle: "idle_ok (adec_init lz4 zstd)" by (simp add: idle_ok_def adec_init_def)
  have "\<exists>d1. decoder_decode_all lib pbs d0 = Inr d1 \<and>
      dec_rel cap (length (ad_out ad)) (map buffer_data (pool tap)) d1 ad \<and> idle_ok ad"
    using spec d0(4)
    by (intro dec_packets_refines [OF d0(2) idle cap _ _ segs pbs]) (simp_all add: number)
  with d0(1) show ?thesis by (auto simp: decoder_handle_def)
qed

lemma encoder_start:
  fixes lib :: "'s codec_lib"
  assumes ok: "tunnel_ok lib R cap l2mtu l4mtu fmt"
    and "StreamCompressorLZ4 lib = Inr lz4" and "StreamCompressorZSTD lib = Inr zstd"
    and "pool_ok cap avail" and "N + 2 \<le> length (pool avail)"
  shows "\<exists>(e0 :: ('s, 'f) encoder) st0 d. rbind (PacketEncoder l2mtu l4mtu (BufferPool cap) avail)
        (encoder_setPacketFormat lib fmt) = Inr e0 \<and>
    tunnel_inv lib R cap N (l2mtu, l4mtu, fmt) (adec_init lz4 zstd) e0 st0 d \<and>
    ad_out d = [] \<and> aout (ast_enc st0) = [] \<and> st0 = aenc_init (format_compressor fmt lz4 zstd)"
proof -
  let ?c = "if fmt = 0 then None else if fmt = 1 then Some lz4 else Some zstd"
  let ?st = "aenc_init ?c" and ?d = "adec_start (adec_init lz4 zstd)"
  have fmt: "fmt \<in> {0, 1, 2}" and cap: "104 \<le> unat l4mtu" "8 \<le> cap"
    and R: "fmt \<noteq> 0 \<Longrightarrow> lossless lib (format_algorithm fmt) (unat l2mtu) cap R"
    using ok by (simp_all add: tunnel_ok_def format_values)
  obtain b c bs where p: "pool avail = b # c # bs"
    using assms(5) by (cases "pool avail"; cases "tl (pool avail)") auto
  have b: "buffer_ok cap b" "pool_ok cap (avail\<lparr>pool := c # bs\<rparr>)" "length bs \<ge> N"
    using assms(4,5) p by (simp_all add: pool_ok_def)
  have ne: "pool (avail\<lparr>pool := c # bs\<rparr>) \<noteq> []" by simp
  obtain t q where t: "encoder_take_buffer (avail\<lparr>pool := c # bs\<rparr>) = Inr (t, q)"
    "buffer_ok cap t" "dataSize t = 8" "pool_ok cap q" "Suc (length bs) = Suc (length (pool q))"
    by (rule take_buffer [OF b(2) ne cap(2)]) simp
  define e1 :: "('s, 'f) encoder" where "e1 = \<lparr>enc_l2mtu = l2mtu, enc_l4mtu = l4mtu, enc_sequence = 1, enc_tx_buffer = t,
      enc_inflight_buffers = [], enc_packet_format = fmt, enc_compressor = ?c,
      enc_comp_buffer = Some b, enc_opt_len = 0, enc_packet_count = 0,
      enc_available_buffer_pool = q, enc_tx_buffer_pool = BufferPool cap,
      enc_statCompressionRatio = Statistic 1000\<rparr>"
  have run: "rbind (PacketEncoder l2mtu l4mtu (BufferPool cap) avail)
      (encoder_setPacketFormat lib fmt) = Inr e1"
    using fmt assms(2,3)
    by (auto simp: PacketEncoder_def BufferPool_pop_wait_simps(2) [OF p] t(1)
        encoder_setPacketFormat_def e1_def)
  have "enc_rel cap N [] e1 ?st"
    using t b(3) cap length_buffer_data [OF t(2)]
    by (simp add: enc_rel_def e1_def aenc_init_def pool_ok_def)
  moreover have "in_sync lib fmt R ?st ?d"
  proof -
    have "streams_agree lib fmt R ?st ?d" if nz: "fmt \<noteq> 0"
    proof -
      have d: "dstream fmt ?d = (if fmt = 1 then lz4 else zstd)"
        by (simp add: dstream_def adec_start_def adec_init_def)
      have alg: "sc_algorithm lz4 = LZ4" "sc_algorithm zstd = ZSTD"
        using assms(2,3)
        by (auto simp: StreamCompressorLZ4_def StreamCompressorZSTD_def split: option.splits)
      have "fresh_compressor lib (format_algorithm fmt) (if fmt = 1 then lz4 else zstd)"
        "fresh_decompressor lib (format_algorithm fmt) (if fmt = 1 then lz4 else zstd)"
        using assms(2,3) alg
        by (simp_all add: fresh_compressor_def fresh_decompressor_def format_algorithm_def)
      with lossless_fresh [OF R [OF nz] this] nz d alg show ?thesis
        by (auto simp: streams_agree_def aenc_init_def format_algorithm_def)
    qed
    then show ?thesis by (simp add: in_sync_def adec_start_def adec_init_def aenc_init_def)
  qed
  moreover have "views lib (unat l2mtu) cap (adec_init lz4 zstd) (ast_enc ?st) ?d"
    by (simp add: views_def aenc_init_def)
  ultimately have "tunnel_inv lib R cap N (l2mtu, l4mtu, fmt) (adec_init lz4 zstd) e1 ?st ?d"
    using b(1) cap
    by (simp add: tunnel_inv_def comp_buffer_ok_def enc_config_def e1_def room_def packets_fit_def
        sent_ok_def aenc_init_def)
  with run show ?thesis
    by (intro exI [of _ e1] exI [of _ ?st] exI [of _ ?d])
      (simp add: adec_start_def adec_init_def aenc_init_def format_compressor_def)
qed

lemma length_buffer_data_ok: "buffer_ok cap b \<Longrightarrow> dataSize b = length (buffer_data b)"
  by (simp add: length_buffer_data)

lemma packet_bytes_sequence:
  "be_to_cpu_32 (ph_sequence (PacketHeader_at (take 8 (packet_bytes p)))) = fst p"
  by (simp add: packet_bytes_def packet_header_of_def)

section \<open>A whole run\<close>

text \<open>
  The encoder thread from its start through any rounds: it follows the abstract encoder, and the
  abstract decoder that reads what has been sent has all the frames.
\<close>

lemma encoder_run:
  fixes lib :: "'s codec_lib" and ratio :: "int \<Rightarrow> u16 \<Rightarrow> 'f"
  assumes ok: "tunnel_ok lib R cap l2mtu l4mtu fmt"
    and lib: "StreamCompressorLZ4 lib = Inr lz4" "StreamCompressorZSTD lib = Inr zstd"
    and pool: "pool_ok cap rx"
    and frames: "\<forall>b \<in> set (frames_of evs). buffer_ok cap b \<and> dataSize b \<le> unat l2mtu"
    and rx: "length (frames_of evs) * (cap div (unat l4mtu - 16) + 2) + length evs + 2 \<le> length (pool rx)"
    and st: "st = fold (abs_handle lib (unat l4mtu) cap fmt) evs (aenc_init (format_compressor fmt lz4 zstd))"
  obtains e0 e1 :: "('s, 'f) encoder" and N d where
    "rbind (PacketEncoder l2mtu l4mtu (BufferPool cap) rx) (encoder_setPacketFormat lib fmt) = Inr e0"
    and "rfold (encoder_handle ratio lib) evs e0 = Inr e1"
    and "tunnel_inv lib R cap N (l2mtu, l4mtu, fmt) (adec_init lz4 zstd) e1 st d"
    and "ad_out d = map buffer_data (frames_of evs)"
    and "length (aout (ast_enc st)) \<le> length (frames_of evs) * (cap div (unat l4mtu - 16) + 2) + length evs"
proof -
  let ?N = "length (pool rx) - 2" and ?st0 = "aenc_init (format_compressor fmt lz4 zstd)"
  have o: "16 < unat l4mtu" using ok by (simp add: tunnel_ok_def)
  have "?N + 2 \<le> length (pool rx)" using rx by simp
  from encoder_start [OF ok lib pool this] obtain e0 :: "('s, 'f) encoder" and d0 where
    e0: "rbind (PacketEncoder l2mtu l4mtu (BufferPool cap) rx) (encoder_setPacketFormat lib fmt) = Inr e0"
      "tunnel_inv lib R cap ?N (l2mtu, l4mtu, fmt) (adec_init lz4 zstd) e0 ?st0 d0" "ad_out d0 = []" by blast
  have "\<forall>b \<in> set (frames_of evs). length (buffer_data b) \<le> cap"
    using frames by (simp add: length_buffer_data_le)
  from aout_handles_bound [OF o this, of lib fmt ?st0]
  have bound: "length (aout (ast_enc st)) \<le> length (frames_of evs) * (cap div (unat l4mtu - 16) + 2) + length evs"
    by (simp add: st aenc_init_def)
  with rx have sent: "length (aout (ast_enc st)) \<le> ?N" by simp
  obtain e1 d where "rfold (encoder_handle ratio lib) evs e0 = Inr e1"
    "tunnel_inv lib R cap ?N (l2mtu, l4mtu, fmt) (adec_init lz4 zstd) e1 st d"
    "ad_out d = map buffer_data (frames_of evs)"
    using tunnel_handle_all [OF ok e0(2) frames sent [unfolded st], of ratio] e0(3) unfolding st by auto
  with that e0(1) bound show thesis by blast
qed

text \<open>Every packet that waits to be sent fits into a datagram and passes the checks of a receiver.\<close>

lemma tunnel_packets:
  assumes inv: "tunnel_inv lib R cap N (l2mtu, l4mtu, fmt) ad0 e st d"
  shows "map buffer_data (pool (enc_tx_buffer_pool e)) = map packet_bytes (aout (ast_enc st))"
    and "length (pool (enc_tx_buffer_pool e)) = length (aout (ast_enc st))"
    and "\<forall>b \<in> set (pool (enc_tx_buffer_pool e)). buffer_ok cap b \<and> dataSize b \<le> unat l4mtu \<and>
      16 \<le> dataSize b \<and> \<not> packet_header_bad (PacketHeader_at (take 8 (buffer_data b)))"
proof -
  let ?pool = "pool (enc_tx_buffer_pool e)"
  show out: "map buffer_data ?pool = map packet_bytes (aout (ast_enc st))"
    using inv by (simp add: tunnel_inv_def enc_rel_def)
  from arg_cong [OF this, of length] show "length ?pool = length (aout (ast_enc st))" by simp
  show "\<forall>b \<in> set ?pool. buffer_ok cap b \<and> dataSize b \<le> unat l4mtu \<and> 16 \<le> dataSize b \<and>
      \<not> packet_header_bad (PacketHeader_at (take 8 (buffer_data b)))"
  proof
    fix b assume b: "b \<in> set ?pool"
    then have "buffer_data b \<in> set (map packet_bytes (aout (ast_enc st)))"
      unfolding out [symmetric] by simp
    then obtain p where p: "p \<in> set (aout (ast_enc st))" "buffer_data b = packet_bytes p" by auto
    have bok: "buffer_ok cap b" using inv b by (simp add: tunnel_inv_def enc_rel_def pool_ok_def)
    have size: "dataSize b = used (snd p)"
      using length_buffer_data_ok [OF bok] p(2) by (simp add: length_packet_bytes)
    have "used (snd p) \<le> unat l4mtu" "snd p \<noteq> []"
      using inv p(1) by (simp_all add: tunnel_inv_def packets_fit_def sent_ok_def)
    moreover from this(2) have "16 \<le> used (snd p)"
      using used_bounds [of "snd p"] by (cases "snd p") auto
    moreover have "take 8 (buffer_data b) = PacketHeader_bytes (packet_header_of (fst p))"
      by (simp add: p(2) packet_bytes_def)
    ultimately show "buffer_ok cap b \<and> dataSize b \<le> unat l4mtu \<and> 16 \<le> dataSize b \<and>
        \<not> packet_header_bad (PacketHeader_at (take 8 (buffer_data b)))"
      using bok size by (simp add: header_of_fields(1))
  qed
qed

text \<open>
  What reaches the decoder at the other end: after the encoder has flushed, the buffers with the
  bytes of its packets are decoded to the frames.
\<close>

lemma decoder_run:
  fixes e :: "('s, 'f) encoder"
  assumes inv: "tunnel_inv lib R cap N (l2mtu, l4mtu, fmt) (adec_init lz4 zstd) e st d"
    and flushed: "acur (ast_enc st) = []" and cap: "cap < 65536"
    and lib: "StreamCompressorLZ4 lib = Inr lz4" "StreamCompressorZSTD lib = Inr zstd"
    and pools: "pool_ok cap tap" "pool_ok cap tx" "length (ad_out d) + 2 \<le> length (pool tx)"
  shows "\<exists>d0. PacketDecoder garbage lib l2mtu tap tx = Inr d0 \<and>
    (\<forall>pbs. (\<forall>pb \<in> set pbs. buffer_ok cap pb) \<and>
        map buffer_data pbs = map buffer_data (pool (enc_tx_buffer_pool e)) \<longrightarrow>
      (\<exists>d1. decoder_handle lib pbs d0 = Inr d1 \<and>
        map buffer_data (pool (dec_tx_buffer_pool d1)) = map buffer_data (pool tap) @ ad_out d))"
proof -
  obtain ad where ad: "adec_packets lib (unat l2mtu) cap
      (map snd (aout (ast_enc st))) (adec_init lz4 zstd) = Some ad" "d = adec_start ad"
    using inv flushed views_flushed unfolding tunnel_inv_def fst_conv snd_conv by metis
  have out: "ad_out ad = ad_out d" using ad(2) by (simp add: adec_start_def)
  have seqs: "sent_ok 1 (ast_enc st)" using inv by (simp add: tunnel_inv_def)
  note packets = tunnel_packets(1) [OF inv]
  obtain d0 where d0: "PacketDecoder garbage lib l2mtu tap tx = Inr d0"
    "dec_rel cap (length (ad_out d)) (map buffer_data (pool tap)) d0 (adec_init lz4 zstd)"
    "dec_first_packet d0" "dec_l2mtu d0 = l2mtu"
    using decoder_start [OF lib pools] by blast
  have "ldec_packets lib (unat l2mtu) cap None (aout (ast_enc st)) (adec_init lz4 zstd) = Some ad"
    using seqs by (intro ldec_packets_strict [OF ad(1)]) (auto simp: sent_ok_def)
  then have ldec: "ldec_packets lib (unat l2mtu) cap (dec_number d0) (aout (ast_enc st)) (adec_init lz4 zstd) = Some ad"
    using d0(3) by (simp add: dec_number_def)
  have "\<exists>d1. decoder_handle lib pbs d0 = Inr d1 \<and>
      map buffer_data (pool (dec_tx_buffer_pool d1)) = map buffer_data (pool tap) @ ad_out d"
    if pbs: "\<forall>pb \<in> set pbs. buffer_ok cap pb"
      "map buffer_data pbs = map buffer_data (pool (enc_tx_buffer_pool e))" for pbs
  proof -
    have "idle_ok (adec_init lz4 zstd)" by (simp add: idle_ok_def adec_init_def)
    then obtain d1 where "decoder_decode_all lib pbs d0 = Inr d1"
      "dec_rel cap (length (ad_out d)) (map buffer_data (pool tap)) d1 ad"
      using dec_packets_refines [OF d0(2) _ cap ldec, of pbs] d0(3,4) seqs pbs
        packets out by (auto simp: sent_ok_def)
    then show ?thesis using out by (auto simp: decoder_handle_def dec_rel_def)
  qed
  with d0(1) show ?thesis by blast
qed

end
