(* ===== verification/Loss_Frames.thy ===== *)
theory Loss_Frames
  imports Loss_Spec
begin

unbundle bit_operations_syntax

text \<open>
  Which frames arrive when packets are lost, repeated or reordered: a decoder that is handed some
  of the packets of an encoder is compared with one that gets all of them.
\<close>

section \<open>The frames that arrive\<close>

text \<open>How many frames end in the first \<open>k\<close> packets, and which is the first to begin in packet \<open>k\<close> or later.\<close>

definition ends :: "(u32 \<times> seg list) list \<Rightarrow> nat \<Rightarrow> nat" where
  "ends ps k = length (filter completes (concat (map snd (take k ps))))"

definition begins :: "(u32 \<times> seg list) list \<Rightarrow> nat \<Rightarrow> nat" where
  "begins ps k = ends ps k + of_bool (continues (hd (snd (ps ! k))))"

text \<open>
  The packets arrive in the order of the list of their indices. A run js a stretch of it in which
  they follow one another; \<open>run\<close> is the first index of the present run and the last one that
  arrived. A packet delivers the frames that end in it, less one that began before the run.
\<close>

fun arrived :: "(u32 \<times> seg list) list \<Rightarrow> 'a list \<Rightarrow> (nat \<times> nat) option \<Rightarrow> nat list \<Rightarrow> 'a list" where
  "arrived ps F run [] = []"
| "arrived ps F run (i # js) =
     (let start = (case run of None \<Rightarrow> i | Some (s, l) \<Rightarrow> if i = Suc l then s else i)
      in drop (max (begins ps start) (ends ps i)) (take (ends ps (Suc i)) F)
         @ arrived ps F (Some (start, i)) js)"

text \<open>No frame arrives that was not sent.\<close>

lemma set_arrived: "set (arrived ps F run js) \<subseteq> set F"
proof (induction js arbitrary: run)
  case (Cons i js)
  show ?case
    using Cons.IH by (auto simp: Let_def dest!: in_set_dropD in_set_takeD)
qed simp

lemma ends_mono: "i \<le> j \<Longrightarrow> ends ps i \<le> ends ps j"
proof -
  assume "i \<le> j"
  then have "take j ps = take i ps @ take (j - i) (drop i ps)" by (metis le_add_diff_inverse take_add)
  then show ?thesis by (simp add: ends_def)
qed

lemma drop_split: "a \<le> b \<Longrightarrow> drop a F = drop a (take b F) @ drop b F"
proof -
  assume "a \<le> b"
  have "drop a F = drop a (take b F @ drop b F)" by simp
  also have "\<dots> = drop a (take b F) @ drop (a - length (take b F)) (drop b F)" by (simp only: drop_append)
  also have "drop (a - length (take b F)) (drop b F) = drop b F"
    using \<open>a \<le> b\<close> by (cases "length F \<le> b") simp_all
  finally show ?thesis .
qed

lemma drop_take_split:
  "a \<le> b \<Longrightarrow> b \<le> c \<Longrightarrow> drop a (take c F) = drop a (take b F) @ drop b (take c F)"
  using drop_split [of a b "take c F"] by (simp add: min_def)

lemma subseq_drop: "a \<le> m \<Longrightarrow> subseq (drop m F) (drop a F)"
proof -
  assume "a \<le> m"
  then have "drop m F = drop (m - a) (drop a F)" by simp
  then show ?thesis by (metis suffix_drop suffix_imp_subseq)
qed

lemma subseq_drop_take:
  assumes "subseq xs (drop b F)" and "a \<le> b"
  shows "subseq (drop (max m a) (take b F) @ xs) (drop a F)"
  unfolding drop_split [OF assms(2), of F] using assms(1)
  by (intro list_emb_append_mono subseq_drop) simp_all

text \<open>Packets that are only lost leave the frames in their order.\<close>

lemma subseq_arrived:
  assumes "sorted_wrt (<) js" and "\<forall>i \<in> set js. k \<le> i"
  shows "subseq (arrived ps F run js) (drop (ends ps k) F)"
  using assms
proof (induction js arbitrary: run k)
  case (Cons i js)
  have i: "k \<le> i" "sorted_wrt (<) js" "\<forall>j \<in> set js. Suc i \<le> j" using Cons.prems by auto
  have "subseq (arrived ps F run' js) (drop (ends ps (Suc i)) F)" for run'
    by (rule Cons.IH [OF i(2,3)])
  from subseq_drop_take [OF this ends_mono [of i "Suc i"]]
  have "subseq (arrived ps F run (i # js)) (drop (ends ps i) F)" by (simp add: Let_def)
  moreover have "subseq (drop (ends ps i) F) (drop (ends ps k) F)"
    using ends_mono [OF i(1)] by (rule subseq_drop)
  ultimately show ?case using subseq_order.trans by blast
qed simp

text \<open>When all packets arrive, all frames do.\<close>

lemma arrived_run:
  assumes "begins ps s \<le> ends ps (Suc k)" and "k < n"
  shows "arrived ps F (Some (s, k)) [Suc k..<n] = drop (ends ps (Suc k)) (take (ends ps n) F)"
  using assms
proof (induction "n - Suc k" arbitrary: k)
  case (Suc m)
  then have k: "Suc k < n" "[Suc k..<n] = Suc k # [Suc (Suc k)..<n]" by (simp_all add: upt_conv_Cons)
  have mono: "ends ps (Suc k) \<le> ends ps (Suc (Suc k))" "ends ps (Suc (Suc k)) \<le> ends ps n"
    using k(1) by (simp_all add: ends_mono)
  have "m = n - Suc (Suc k)" using Suc.hyps(2) by simp
  from Suc.hyps(1) [OF this] Suc.prems(1) mono k(1)
  have "arrived ps F (Some (s, Suc k)) [Suc (Suc k)..<n] =
      drop (ends ps (Suc (Suc k))) (take (ends ps n) F)" by simp
  then show ?case using Suc.prems drop_take_split [OF mono, of F] by (simp add: k(2) max_absorb2)
next
  case 0
  then have "n = Suc k" by simp
  then show ?case by simp
qed

lemma arrived_all:
  assumes "begins ps 0 = 0"
  shows "arrived ps F None [0..<n] = take (ends ps n) F"
proof (cases n)
  case (Suc m)
  have e: "ends ps 0 = 0" by (simp add: ends_def)
  have "arrived ps F (Some (0, 0)) [Suc 0..<n] = drop (ends ps (Suc 0)) (take (ends ps n) F)"
    using assms Suc by (intro arrived_run) simp_all
  moreover have "[0..<n] = 0 # [Suc 0..<n]" using Suc by (simp add: upt_conv_Cons)
  ultimately show ?thesis
    using assms e drop_take_split [of 0 "ends ps (Suc 0)" "ends ps n" F] ends_mono [of "Suc 0" n ps] Suc
    by simp
qed (simp add: ends_def)

section \<open>A decoder that lags behind\<close>

definition algorithms_ok :: "'s adec \<Rightarrow> bool" where
  "algorithms_ok d \<longleftrightarrow> sc_algorithm (ad_lz4 d) = LZ4 \<and> sc_algorithm (ad_zstd d) = ZSTD"

definition fresh_streams :: "'s codec_lib \<Rightarrow> 's adec \<Rightarrow> bool" where
  "fresh_streams lib d \<longleftrightarrow> fresh_decompressor lib LZ4 (ad_lz4 d) \<and> fresh_decompressor lib ZSTD (ad_zstd d)"

text \<open>
  \<open>D\<close> has got everything, \<open>e\<close> some. Either they are in the same state, or \<open>D\<close> is inside a frame of
  which \<open>e\<close> has missed the beginning. \<open>m\<close> is the number of the first frame that \<open>e\<close> can deliver.
\<close>

definition same_state ::
    "('s stream_compressor \<Rightarrow> 's stream_compressor \<Rightarrow> bool) \<Rightarrow> 's adec \<Rightarrow> 's adec \<Rightarrow> bool" where
  "same_state B D e \<longleftrightarrow>
     ad_part e = ad_part D \<and> ad_acc e = ad_acc D \<and>
     (ad_part D \<noteq> 0 \<longrightarrow> ad_orig e = ad_orig D \<and> ad_fmt e = ad_fmt D) \<and>
     B (ad_lz4 D) (ad_lz4 e) \<and> B (ad_zstd D) (ad_zstd e)"

definition lags ::
    "('s stream_compressor \<Rightarrow> 's stream_compressor \<Rightarrow> bool) \<Rightarrow> nat \<Rightarrow> 's adec \<Rightarrow> 's adec \<Rightarrow> bool" where
  "lags B m D e \<longleftrightarrow>
     algorithms_ok D \<and> algorithms_ok e \<and> ad_flush e = ad_flush D \<and>
     (if m \<le> length (ad_out D) then same_state B D e
      else m = Suc (length (ad_out D)) \<and> ad_part D \<noteq> 0 \<and> ad_part e = 0 \<and> ad_acc e = [])"

text \<open>Between packets and frames the decompressors are as good as new.\<close>

definition rests :: "'s codec_lib \<Rightarrow> 's adec \<Rightarrow> bool" where
  "rests lib d \<longleftrightarrow> algorithms_ok d \<and>
     (ad_part d = 0 \<longrightarrow> ad_acc d = [] \<and> (\<not> ad_flush d \<longrightarrow> fresh_streams lib d))"

lemma adec_reset_fields [simp]:
  "ad_part (adec_reset lib d) = ad_part d" "ad_acc (adec_reset lib d) = ad_acc d"
  "ad_orig (adec_reset lib d) = ad_orig d" "ad_fmt (adec_reset lib d) = ad_fmt d"
  "ad_out (adec_reset lib d) = ad_out d" "ad_flush (adec_reset lib d) = ad_flush d"
  "ad_lz4 (adec_reset lib d) = resetDecompressionStream lib (ad_lz4 d)"
  "ad_zstd (adec_reset lib d) = resetDecompressionStream lib (ad_zstd d)"
  by (simp_all add: adec_reset_def)

lemma algorithms_reset [simp]:
  "algorithms_ok (adec_reset lib d) = algorithms_ok d"
  "algorithms_ok (adec_drop lib d) = algorithms_ok d"
  by (simp_all add: algorithms_ok_def adec_reset_def adec_drop_def)

lemma fresh_streams_reset [simp]:
  "algorithms_ok d \<Longrightarrow> fresh_streams lib (adec_reset lib d)"
  "algorithms_ok d \<Longrightarrow> fresh_streams lib (adec_drop lib d)"
  by (auto simp: algorithms_ok_def fresh_streams_def adec_reset_def)

lemma algorithms_update [simp]:
  "algorithms_ok (d\<lparr>ad_part := a\<rparr>) = algorithms_ok d" "algorithms_ok (d\<lparr>ad_orig := b\<rparr>) = algorithms_ok d"
  "algorithms_ok (d\<lparr>ad_fmt := c\<rparr>) = algorithms_ok d" "algorithms_ok (d\<lparr>ad_acc := x\<rparr>) = algorithms_ok d"
  "algorithms_ok (d\<lparr>ad_out := y\<rparr>) = algorithms_ok d" "algorithms_ok (d\<lparr>ad_flush := f\<rparr>) = algorithms_ok d"
  by (simp_all add: algorithms_ok_def)

lemma fresh_streams_update [simp]:
  "fresh_streams lib (d\<lparr>ad_part := a\<rparr>) = fresh_streams lib d"
  "fresh_streams lib (d\<lparr>ad_orig := b\<rparr>) = fresh_streams lib d"
  "fresh_streams lib (d\<lparr>ad_fmt := c\<rparr>) = fresh_streams lib d"
  "fresh_streams lib (d\<lparr>ad_acc := x\<rparr>) = fresh_streams lib d"
  "fresh_streams lib (d\<lparr>ad_out := y\<rparr>) = fresh_streams lib d"
  "fresh_streams lib (d\<lparr>ad_flush := f\<rparr>) = fresh_streams lib d"
  by (simp_all add: fresh_streams_def)

lemma alike_fresh_streams:
  "alike lib cap B \<Longrightarrow> fresh_streams lib d \<Longrightarrow> fresh_streams lib e \<Longrightarrow>
    B (ad_lz4 d) (ad_lz4 e) \<and> B (ad_zstd d) (ad_zstd e)"
  unfolding fresh_streams_def by (blast intro: alike_fresh)

lemma unpack_alike:
  assumes lib: "alike lib cap B" and B: "B (ad_lz4 D) (ad_lz4 e)" "B (ad_zstd D) (ad_zstd e)"
    and alg: "algorithms_ok D" "algorithms_ok e" and u: "unpack lib cap fmt payload D = Some (x, D1)"
  shows "\<exists>e1. unpack lib cap fmt payload e = Some (x, e1) \<and> B (ad_lz4 D1) (ad_lz4 e1) \<and>
    B (ad_zstd D1) (ad_zstd e1) \<and> algorithms_ok D1 \<and> algorithms_ok e1"
  using u
proof (cases rule: unpack_SomeE)
  case (LZ4 sc)
  obtain e' where e': "sc_decompress lib payload cap (ad_lz4 e) = (int (length x), x, e')" "B sc e'"
    by (rule alike_decompress [OF lib B(1) LZ4(3)])
  then have "unpack lib cap fmt payload e = Some (x, e\<lparr>ad_lz4 := e'\<rparr>)"
    unfolding LZ4(1) unpack_lz4 [OF e'(1)] by simp
  with LZ4 e' B alg show ?thesis by (simp add: algorithms_ok_def)
next
  case (ZSTD sc)
  obtain e' where e': "sc_decompress lib payload cap (ad_zstd e) = (int (length x), x, e')" "B sc e'"
    by (rule alike_decompress [OF lib B(2) ZSTD(3)])
  then have "unpack lib cap fmt payload e = Some (x, e\<lparr>ad_zstd := e'\<rparr>)"
    unfolding ZSTD(1) unpack_zstd [OF e'(1)] by simp
  with ZSTD e' B alg show ?thesis by (simp add: algorithms_ok_def)
next
  case Plain
  with B alg show ?thesis by (simp add: unpack_none)
qed

section \<open>One segment\<close>

lemma unpack_algorithms:
  "unpack lib cap fmt payload d = Some (x, d') \<Longrightarrow> algorithms_ok d \<Longrightarrow> algorithms_ok d'"
  by (erule unpack_SomeE) (auto simp: algorithms_ok_def)

lemma rests_seg:
  assumes "rests lib D" and "adec_seg lib l2 cap s D = Some D'"
  shows "rests lib D'"
proof (cases s)
  case (Complete orig fmt payload)
  with assms(2) obtain x D1 where u: "unpack lib cap fmt payload D = Some (x, D1)" "ad_part D = 0"
    "D' = D1\<lparr>ad_out := ad_out D @ [x], ad_flush := True\<rparr>"
    by (auto split: if_splits option.splits)
  then show ?thesis
    using assms(1) unpack_frame [OF u(1)] unpack_algorithms [OF u(1)] by (simp add: rests_def)
next
  case (Part l orig fmt part payload)
  note seg = assms(2) [unfolded Part]
  show ?thesis
  proof (cases l)
    case True
    with seg obtain x D1 where u: "unpack lib cap fmt (ad_acc D @ payload) D = Some (x, D1)"
      "D' = (adec_reset lib D1)\<lparr>ad_part := 0, ad_orig := 0, ad_fmt := 0, ad_acc := [],
                        ad_out := ad_out D @ [x], ad_flush := False\<rparr>"
      by (auto split: if_splits option.splits)
    have "algorithms_ok D1" using assms(1) unpack_algorithms [OF u(1)] by (simp add: rests_def)
    then show ?thesis by (simp add: u(2) rests_def)
  next
    case False
    with seg have "D' = D\<lparr>ad_part := part, ad_orig := orig, ad_fmt := fmt,
        ad_acc := ad_acc D @ payload, ad_flush := False\<rparr>" by (simp split: if_splits)
    moreover have "part \<noteq> 0" using adec_seg_part(1) [OF seg] by auto
    ultimately show ?thesis using assms(1) by (simp add: rests_def)
  qed
qed

text \<open>A decoder in the same state does the same.\<close>

lemma same_state_seg:
  assumes lib: "alike lib cap B" and alg: "algorithms_ok D" "algorithms_ok e"
    and same: "same_state B D e" and seg: "adec_seg lib l2 cap s D = Some D'"
  shows "\<exists>e'. adec_seg lib l2 cap s e = Some e' \<and> same_state B D' e' \<and> algorithms_ok D' \<and>
    algorithms_ok e' \<and> ad_flush e' = ad_flush D' \<and>
    ad_out e' = ad_out e @ drop (length (ad_out D)) (ad_out D')"
proof -
  note S = same [unfolded same_state_def]
  have B: "B (ad_lz4 D) (ad_lz4 e)" "B (ad_zstd D) (ad_zstd e)" using S by simp_all
  note alike = unpack_alike [OF lib B alg]
  show ?thesis
  proof (cases s)
    case (Complete orig fmt payload)
    with seg obtain x D1 where u: "unpack lib cap fmt payload D = Some (x, D1)" "ad_part D = 0"
      "unat orig \<le> l2" "length payload \<le> cap" "length x = unat orig"
      "D' = D1\<lparr>ad_out := ad_out D @ [x], ad_flush := True\<rparr>"
      by (auto split: if_splits option.splits)
    obtain e1 where e1: "unpack lib cap fmt payload e = Some (x, e1)" "B (ad_lz4 D1) (ad_lz4 e1)"
      "B (ad_zstd D1) (ad_zstd e1)" "algorithms_ok D1" "algorithms_ok e1" using alike [OF u(1)] by blast
    have "adec_seg lib l2 cap s e = Some (e1\<lparr>ad_out := ad_out e @ [x], ad_flush := True\<rparr>)"
      using u e1(1) S by (simp add: Complete)
    with u(6) e1 S unpack_frame [OF u(1)] unpack_frame [OF e1(1)] u(2) show ?thesis
      by (simp add: same_state_def)
  next
    case (Part l orig fmt part payload)
    note c = adec_seg_part [OF seg [unfolded Part]]
    show ?thesis
    proof (cases l)
      case True
      with seg Part obtain x D1 where u: "unpack lib cap fmt (ad_acc D @ payload) D = Some (x, D1)"
        "length x = unat orig"
        "D' = (adec_reset lib D1)\<lparr>ad_part := 0, ad_orig := 0, ad_fmt := 0, ad_acc := [],
                          ad_out := ad_out D @ [x], ad_flush := False\<rparr>"
        by (auto split: if_splits option.splits)
      obtain e1 where e1: "unpack lib cap fmt (ad_acc D @ payload) e = Some (x, e1)"
        "algorithms_ok D1" "algorithms_ok e1" using alike [OF u(1)] by blast
      let ?e' = "(adec_reset lib e1)\<lparr>ad_part := 0, ad_orig := 0, ad_fmt := 0, ad_acc := [],
                          ad_out := ad_out e @ [x], ad_flush := False\<rparr>"
      have "adec_seg lib l2 cap s e = Some ?e'"
        using c u(2) e1(1) S True by (simp add: Part) (metis not_less)
      moreover have "same_state B D' ?e'"
        using alike_fresh_streams [OF lib fresh_streams_reset(1) [OF e1(2)] fresh_streams_reset(1) [OF e1(3)]]
        by (simp add: same_state_def u(3))
      ultimately show ?thesis using u(3) e1 by simp
    next
      case False
      with seg Part have D': "D' = D\<lparr>ad_part := part, ad_orig := orig, ad_fmt := fmt,
          ad_acc := ad_acc D @ payload, ad_flush := False\<rparr>" by (simp split: if_splits)
      have "adec_seg lib l2 cap s e = Some (e\<lparr>ad_part := part, ad_orig := orig, ad_fmt := fmt,
          ad_acc := ad_acc D @ payload, ad_flush := False\<rparr>)"
        using c S False by (simp add: Part) (metis not_less)
      with D' S alg show ?thesis by (simp add: same_state_def)
    qed
  qed
qed

text \<open>A decoder that has missed the beginning of a frame skips its parts.\<close>

lemma behind_seg:
  assumes lib: "alike lib cap B" and alg: "algorithms_ok D" "algorithms_ok e"
    and behind: "ad_part D \<noteq> 0" "ad_part e = 0" and seg: "adec_seg lib l2 cap s D = Some D'"
  shows "\<exists>e'. ldec_seg lib l2 cap s e = Some e' \<and> algorithms_ok D' \<and> algorithms_ok e' \<and>
    ad_flush e' = ad_flush D' \<and> ad_out e' = ad_out e \<and> ad_part e' = 0 \<and> ad_acc e' = [] \<and>
    (if completes s then same_state B D' e' else ad_part D' \<noteq> 0)"
proof (cases s)
  case (Complete orig fmt payload)
  with seg behind show ?thesis by simp
next
  case (Part l orig fmt part payload)
  note c = adec_seg_part [OF seg [unfolded Part]]
  have "unat (ad_part D) \<noteq> 0" using behind(1) by (simp add: word_unat_eq_iff)
  then have "part_lost orig fmt part e" using c(1) behind(2) by (simp add: part_lost_def)
  then have e': "ldec_seg lib l2 cap s e = Some ((adec_drop lib e)\<lparr>ad_flush := False\<rparr>)"
    using c(5) by (simp add: Part)
  show ?thesis
  proof (cases l)
    case True
    with seg Part obtain x D1 where u: "unpack lib cap fmt (ad_acc D @ payload) D = Some (x, D1)"
      "D' = (adec_reset lib D1)\<lparr>ad_part := 0, ad_orig := 0, ad_fmt := 0, ad_acc := [],
                        ad_out := ad_out D @ [x], ad_flush := False\<rparr>"
      by (auto split: if_splits option.splits)
    have "algorithms_ok D1" by (rule unpack_algorithms [OF u(1) alg(1)])
    moreover from this have "same_state B D' ((adec_drop lib e)\<lparr>ad_flush := False\<rparr>)"
      using alike_fresh_streams [OF lib fresh_streams_reset(1) fresh_streams_reset(2) [OF alg(2)]]
      by (simp add: same_state_def u(2))
    ultimately show ?thesis using e' True alg by (simp add: Part u(2))
  next
    case False
    with seg Part have "D' = D\<lparr>ad_part := part, ad_orig := orig, ad_fmt := fmt,
        ad_acc := ad_acc D @ payload, ad_flush := False\<rparr>" by (simp split: if_splits)
    moreover have "part \<noteq> 0" using c(1) by auto
    ultimately show ?thesis using e' False alg by (simp add: Part)
  qed
qed

lemma lags_seg:
  assumes lib: "alike lib cap B" and lags: "lags B m D e" and seg: "adec_seg lib l2 cap s D = Some D'"
  shows "\<exists>e'. ldec_seg lib l2 cap s e = Some e' \<and> lags B m D' e' \<and>
    ad_out e' = ad_out e @ drop (max m (length (ad_out D))) (ad_out D')"
proof -
  have alg: "algorithms_ok D" "algorithms_ok e" using lags by (simp_all add: lags_def)
  note out = adec_seg_out [OF seg]
  show ?thesis
  proof (cases "m \<le> length (ad_out D)")
    case True
    then have "same_state B D e" using lags by (simp add: lags_def)
    from same_state_seg [OF lib alg this seg] obtain e' where
      e': "adec_seg lib l2 cap s e = Some e'" "same_state B D' e'" "algorithms_ok D'"
      "algorithms_ok e'" "ad_flush e' = ad_flush D'"
      "ad_out e' = ad_out e @ drop (length (ad_out D)) (ad_out D')" by blast
    with True out show ?thesis
      by (intro exI [of _ e']) (simp add: ldec_seg_strict lags_def max_absorb2)
  next
    case False
    then have behind: "m = Suc (length (ad_out D))" "ad_part D \<noteq> 0" "ad_part e = 0"
      using lags by (simp_all add: lags_def)
    from behind_seg [OF lib alg behind(2,3) seg] obtain e' where
      e': "ldec_seg lib l2 cap s e = Some e'" "algorithms_ok D'" "algorithms_ok e'"
      "ad_flush e' = ad_flush D'" "ad_out e' = ad_out e" "ad_part e' = 0" "ad_acc e' = []"
      "if completes s then same_state B D' e' else ad_part D' \<noteq> 0" by blast
    with behind out show ?thesis
      by (intro exI [of _ e']) (cases "completes s"; simp add: lags_def)
  qed
qed

section \<open>Packets\<close>

lemma adec_seg_prefix:
  "adec_seg lib l2 cap s D = Some D' \<Longrightarrow> \<exists>xs. ad_out D' = ad_out D @ xs"
  by (cases s) (auto split: if_splits option.splits)

lemma adec_segs_prefix:
  "adec_segs lib l2 cap segs D = Some D' \<Longrightarrow> \<exists>xs. ad_out D' = ad_out D @ xs"
proof (induction segs arbitrary: D)
  case (Cons s segs)
  then obtain D1 where "adec_seg lib l2 cap s D = Some D1" "adec_segs lib l2 cap segs D1 = Some D'"
    by (auto simp: bind_eq_Some_conv)
  with Cons.IH [of D1] adec_seg_prefix [of lib l2 cap s D D1] show ?case by force
qed simp

lemma adec_segs_ends:
  "adec_segs lib l2 cap segs D = Some D' \<Longrightarrow>
    length (ad_out D') = length (ad_out D) + length (filter completes segs)"
proof (induction segs arbitrary: D)
  case (Cons s segs)
  then obtain D1 where "adec_seg lib l2 cap s D = Some D1" "adec_segs lib l2 cap segs D1 = Some D'"
    by (auto simp: bind_eq_Some_conv)
  with Cons.IH [of D1] adec_seg_out [of lib l2 cap s D D1] show ?case by simp
qed simp

lemma lags_segs:
  assumes lib: "alike lib cap B" and "lags B m D e" and "adec_segs lib l2 cap segs D = Some D'"
  shows "\<exists>e'. ldec_segs lib l2 cap segs e = Some e' \<and> lags B m D' e' \<and>
    ad_out e' = ad_out e @ drop (max m (length (ad_out D))) (ad_out D')"
  using assms(2,3)
proof (induction segs arbitrary: D e)
  case (Cons s segs)
  obtain D1 where D1: "adec_seg lib l2 cap s D = Some D1" "adec_segs lib l2 cap segs D1 = Some D'"
    using Cons.prems(2) by (auto simp: bind_eq_Some_conv)
  obtain e1 where e1: "ldec_seg lib l2 cap s e = Some e1" "lags B m D1 e1"
    "ad_out e1 = ad_out e @ drop (max m (length (ad_out D))) (ad_out D1)"
    using lags_seg [OF lib Cons.prems(1) D1(1)] by blast
  obtain e' where e': "ldec_segs lib l2 cap segs e1 = Some e'" "lags B m D' e'"
    "ad_out e' = ad_out e1 @ drop (max m (length (ad_out D1))) (ad_out D')"
    using Cons.IH [OF e1(2) D1(2)] by blast
  obtain xs ys where p: "ad_out D1 = ad_out D @ xs" "ad_out D' = ad_out D1 @ ys"
    using adec_seg_prefix [OF D1(1)] adec_segs_prefix [OF D1(2)] by blast
  have "drop (max m (length (ad_out D))) (ad_out D') =
      drop (max m (length (ad_out D))) (ad_out D1) @ drop (max m (length (ad_out D1))) (ad_out D')"
    unfolding p(2) by (cases "m \<le> length (ad_out D1)") (auto simp: p(1) max_def)
  with e1 e' show ?case by auto
next
  case Nil
  then show ?case by (auto simp: lags_def)
qed

lemma adec_start_fields [simp]:
  "ad_part (adec_start d) = ad_part d" "ad_acc (adec_start d) = ad_acc d" "ad_out (adec_start d) = ad_out d"
  "ad_orig (adec_start d) = ad_orig d" "ad_fmt (adec_start d) = ad_fmt d" "ad_lz4 (adec_start d) = ad_lz4 d"
  "ad_zstd (adec_start d) = ad_zstd d" "ad_flush (adec_start d)"
  "algorithms_ok (adec_start d) = algorithms_ok d" "fresh_streams lib (adec_start d) = fresh_streams lib d"
  by (simp_all add: adec_start_def)

lemma lags_started: "lags B m D e \<Longrightarrow> lags B m (adec_start D) (adec_start e)"
  by (simp add: lags_def same_state_def split: if_splits)

lemma lags_packet:
  assumes lib: "alike lib cap B" and lags: "lags B m (adec_start D) (adec_start e)"
    and "adec_packet lib l2 cap segs D = Some D'"
  shows "\<exists>e'. ldec_packet lib l2 cap segs e = Some e' \<and> lags B m (adec_start D') (adec_start e') \<and>
    ad_out e' = ad_out e @ drop (max m (length (ad_out D))) (ad_out D')"
proof -
  obtain D1 where D1: "adec_segs lib l2 cap segs (adec_start D) = Some D1" "D' = adec_end lib D1"
    using assms(3) by (auto simp: adec_packet_def)
  from lags_segs [OF lib lags D1(1)] obtain e1 where
    e1: "ldec_segs lib l2 cap segs (adec_start e) = Some e1" "lags B m D1 e1"
    "ad_out e1 = ad_out e @ drop (max m (length (ad_out D))) (ad_out D1)" by auto
  have alg: "algorithms_ok D1" "algorithms_ok e1" "ad_flush e1 = ad_flush D1"
    using e1(2) by (simp_all add: lags_def)
  have reset: "lags B m (adec_reset lib D1) (adec_reset lib e1)"
    using e1(2) alike_fresh_streams [OF lib fresh_streams_reset(1) [OF alg(1)] fresh_streams_reset(1) [OF alg(2)]]
    by (simp add: lags_def same_state_def split: if_splits)
  have "lags B m D' (adec_end lib e1)" using reset e1(2) alg(3) by (simp add: D1(2) adec_end_def)
  moreover have "ad_out D' = ad_out D1" "ad_out (adec_end lib e1) = ad_out e1"
    by (simp_all add: D1(2) adec_end_def adec_reset_def)
  ultimately show ?thesis using e1(1,3) lags_started by (auto simp: ldec_packet_def)
qed

lemma rests_segs:
  "rests lib D \<Longrightarrow> adec_segs lib l2 cap segs D = Some D' \<Longrightarrow> rests lib D'"
proof (induction segs arbitrary: D)
  case (Cons s segs)
  then obtain D1 where "adec_seg lib l2 cap s D = Some D1" "adec_segs lib l2 cap segs D1 = Some D'"
    by (auto simp: bind_eq_Some_conv)
  with Cons.IH [of D1] rests_seg [OF Cons.prems(1), of l2 cap s D1] show ?case by simp
qed simp

lemma rests_packet:
  assumes "rests lib D" and "adec_packet lib l2 cap segs D = Some D'"
  shows "rests lib D' \<and> (ad_part D' = 0 \<longrightarrow> fresh_streams lib D')"
proof -
  obtain D1 where D1: "adec_segs lib l2 cap segs (adec_start D) = Some D1" "D' = adec_end lib D1"
    using assms(2) by (auto simp: adec_packet_def)
  have "rests lib (adec_start D)" using assms(1) by (simp add: rests_def adec_start_def)
  then have "rests lib D1" using D1(1) by (rule rests_segs)
  then have r: "algorithms_ok D1" "ad_part D1 = 0 \<Longrightarrow> ad_acc D1 = []"
    "ad_part D1 = 0 \<Longrightarrow> \<not> ad_flush D1 \<Longrightarrow> fresh_streams lib D1" by (simp_all add: rests_def)
  have f: "ad_part (adec_reset lib D1) = ad_part D1" "ad_acc (adec_reset lib D1) = ad_acc D1"
    "ad_flush (adec_reset lib D1) = ad_flush D1" by (simp_all add: adec_reset_def)
  show ?thesis
  proof (cases "ad_flush D1")
    case True
    then have "D' = adec_reset lib D1" by (simp add: D1(2) adec_end_def)
    with r f show ?thesis by (simp add: rests_def)
  next
    case False
    then have "D' = D1" by (simp add: D1(2) adec_end_def)
    with r False show ?thesis by (simp add: rests_def)
  qed
qed

text \<open>The first segment of a packet tells whether a frame is under assembly.\<close>

lemma first_segment:
  assumes "adec_packet lib l2 cap segs D = Some D'" and "segs \<noteq> []"
  shows "continues (hd segs) \<longleftrightarrow> ad_part D \<noteq> 0"
proof -
  obtain s segs' where segs: "segs = s # segs'" using assms(2) by (cases segs) simp_all
  then obtain D1 where s: "segs = s # segs'" "adec_seg lib l2 cap s (adec_start D) = Some D1"
    using assms(1) by (auto simp: adec_packet_def bind_eq_Some_conv simp del: adec_seg.simps)
  show ?thesis
  proof (cases s)
    case (Complete orig fmt payload)
    have "ad_part (adec_start D) = 0" using s(2) unfolding Complete by (simp split: if_splits)
    then show ?thesis by (simp add: s(1) Complete)
  next
    case (Part l orig fmt part payload)
    have "unat part = unat (ad_part D) + 1"
      using adec_seg_part(1) [OF s(2) [unfolded Part]] by (simp add: adec_start_def)
    then show ?thesis by (auto simp: s(1) Part word_unat_eq_iff)
  qed
qed

text \<open>A run begins: the decoder is idle, it has given up what it had.\<close>

lemma lags_start:
  assumes lib: "alike lib cap B" and D: "rests lib D" "ad_part D = 0 \<longrightarrow> fresh_streams lib D"
    and e: "algorithms_ok e" "fresh_streams lib e" "ad_part e = 0" "ad_acc e = []"
  shows "lags B (length (ad_out D) + of_bool (ad_part D \<noteq> 0)) (adec_start D) (adec_start e)"
  using D e alike_fresh_streams [OF lib _ e(2), of D]
  by (cases "ad_part D = 0") (auto simp: lags_def same_state_def rests_def)

section \<open>All arrivals\<close>

text \<open>The states of the decoder that gets everything.\<close>

lemma adec_states:
  assumes "adec_packets lib l2 cap ps d0 = Some Dn"
  obtains D where "D 0 = d0" and "D (length ps) = Dn"
    and "\<forall>k < length ps. adec_packet lib l2 cap (ps ! k) (D k) = Some (D (Suc k))"
  using assms
proof (induction ps arbitrary: d0 thesis)
  case Nil
  show ?case by (rule Nil.prems(1) [of "\<lambda>_. d0"]) (use Nil.prems(2) in simp_all)
next
  case (Cons p ps)
  obtain d1 where d1: "adec_packet lib l2 cap p d0 = Some d1" "adec_packets lib l2 cap ps d1 = Some Dn"
    using Cons.prems(2) by (auto simp: bind_eq_Some_conv)
  from Cons.IH [OF _ d1(2)] obtain D where D: "D 0 = d1" "D (length ps) = Dn"
    "\<forall>k < length ps. adec_packet lib l2 cap (ps ! k) (D k) = Some (D (Suc k))" by blast
  show ?case
    by (rule Cons.prems(1) [of "case_nat d0 D"]) (use d1(1) D in \<open>auto split: nat.split simp: nth_Cons\<close>)
qed

lemma ends_Suc: "k < length ps \<Longrightarrow> ends ps (Suc k) = ends ps k + length (filter completes (snd (ps ! k)))"
  by (simp add: ends_def take_Suc_conv_app_nth)

lemma adec_packet_out:
  assumes "adec_packet lib l2 cap segs D = Some D'"
  shows "\<exists>xs. ad_out D' = ad_out D @ xs \<and> length xs = length (filter completes segs)"
proof -
  obtain D1 where D1: "adec_segs lib l2 cap segs (adec_start D) = Some D1" "D' = adec_end lib D1"
    using assms by (auto simp: adec_packet_def)
  have "ad_out D' = ad_out D1" by (simp add: D1(2) adec_end_def)
  with adec_segs_prefix [OF D1(1)] adec_segs_ends [OF D1(1)] show ?thesis by auto
qed

lemma number_gap_index:
  assumes "i < 2147483648" and "l < 2147483648"
  shows "number_gap (Some (of_nat (Suc l))) (of_nat (Suc i)) \<longleftrightarrow> i \<noteq> Suc l"
proof -
  have small: "unat (of_nat n :: u32) = n" if "n < 4294967296" for n
    using that by (intro unat_of_nat_small) simp
  have i: "unat (of_nat (Suc i) :: u32) = Suc i" by (rule small) (use assms in simp)
  have l: "unat (of_nat (Suc l) :: u32) = Suc l" by (rule small) (use assms in simp)
  have "(of_nat (Suc l) + 1 :: u32) = of_nat (Suc (Suc l))" by (simp only: of_nat_Suc add.commute)
  then have l1: "unat (of_nat (Suc l) + 1 :: u32) = Suc (Suc l)"
    using small [of "Suc (Suc l)"] assms by simp
  have "\<not> is_sequence_wrapping (of_nat (Suc i)) (of_nat (Suc l))"
    unfolding is_sequence_wrapping_unat i l using assms by simp
  then have "number_gap (Some (of_nat (Suc l))) (of_nat (Suc i)) \<longleftrightarrow>
      (of_nat (Suc i) :: u32) \<noteq> of_nat (Suc l) + 1"
    by (simp only: number_gap_def option.case simp_thms)
  also have "\<dots> \<longleftrightarrow> i \<noteq> Suc l" unfolding word_unat_eq_iff i l1 by simp
  finally show ?thesis .
qed

text \<open>
  The packets of an encoder, numbered from 1, and the states of a decoder that gets them all. The
  bound on their number is that from which a packet out of order is taken for one after a wrap.
\<close>

definition whole_run ::
    "'s codec_lib \<Rightarrow> nat \<Rightarrow> nat \<Rightarrow> (u32 \<times> seg list) list \<Rightarrow> (nat \<Rightarrow> 's adec) \<Rightarrow> bool"
where
  "whole_run lib l2 cap ps D \<longleftrightarrow>
     length ps < 2147483648 \<and> rests lib (D 0) \<and> fresh_streams lib (D 0) \<and> ad_out (D 0) = [] \<and>
     (\<forall>k < length ps. adec_packet lib l2 cap (snd (ps ! k)) (D k) = Some (D (Suc k)) \<and>
        snd (ps ! k) \<noteq> [] \<and> fst (ps ! k) = of_nat (Suc k))"

lemma whole_run_rests:
  assumes "whole_run lib l2 cap ps D" and "k \<le> length ps"
  shows "rests lib (D k) \<and> (ad_part (D k) = 0 \<longrightarrow> fresh_streams lib (D k))"
  using assms(2)
proof (induction k)
  case (Suc k)
  then have "rests lib (D k)" "adec_packet lib l2 cap (snd (ps ! k)) (D k) = Some (D (Suc k))"
    using assms(1) by (simp_all add: whole_run_def)
  then show ?case by (rule rests_packet)
qed (use assms(1) in \<open>simp add: whole_run_def\<close>)

lemma whole_run_out:
  assumes run: "whole_run lib l2 cap ps D" and "k \<le> length ps"
  shows "length (ad_out (D k)) = ends ps k" and "ad_out (D k) = take (ends ps k) (ad_out (D (length ps)))"
proof -
  have step: "\<exists>xs. ad_out (D (Suc k)) = ad_out (D k) @ xs \<and> length xs = length (filter completes (snd (ps ! k)))"
    if "k < length ps" for k
    using run that by (intro adec_packet_out) (auto simp: whole_run_def)
  show len: "length (ad_out (D k)) = ends ps k" using assms(2)
  proof (induction k)
    case 0
    then show ?case using run by (simp add: whole_run_def ends_def)
  next
    case (Suc k)
    then show ?case using step [of k] by (auto simp: ends_Suc)
  qed
  have "\<exists>xs. ad_out (D (length ps)) = ad_out (D k) @ xs" using assms(2)
  proof (induction "length ps - k" arbitrary: k)
    case (Suc m)
    then have "k < length ps" "m = length ps - Suc k" by simp_all
    with Suc.hyps(1) [of "Suc k"] step [of k] show ?case by auto
  qed simp
  with len show "ad_out (D k) = take (ends ps k) (ad_out (D (length ps)))" by auto
qed

lemma begins_run:
  assumes run: "whole_run lib l2 cap ps D" and "k < length ps"
  shows "begins ps k = length (ad_out (D k)) + of_bool (ad_part (D k) \<noteq> 0)"
proof -
  have "adec_packet lib l2 cap (snd (ps ! k)) (D k) = Some (D (Suc k))" "snd (ps ! k) \<noteq> []"
    using assms by (simp_all add: whole_run_def)
  from first_segment [OF this] whole_run_out(1) [OF run, of k] assms(2) show ?thesis
    by (simp add: begins_def)
qed

text \<open>One packet, as the next of a run or as the first of a new one.\<close>

lemma arrival:
  assumes lib: "alike lib cap B" and run: "whole_run lib l2 cap ps D" and k: "k < length ps"
    and lags: "lags B (begins ps s) (adec_start (D k)) (adec_start e)"
  shows "\<exists>e'. ldec_packet lib l2 cap (snd (ps ! k)) e = Some e' \<and>
    lags B (begins ps s) (adec_start (D (Suc k))) (adec_start e') \<and>
    ad_out e' = ad_out e @ drop (max (begins ps s) (ends ps k))
      (take (ends ps (Suc k)) (ad_out (D (length ps))))"
proof -
  have packet: "adec_packet lib l2 cap (snd (ps ! k)) (D k) = Some (D (Suc k))"
    using run k by (simp add: whole_run_def)
  have k': "k \<le> length ps" "Suc k \<le> length ps" using k by simp_all
  from lags_packet [OF lib lags packet] show ?thesis
    unfolding whole_run_out(1) [OF run k'(1)] whole_run_out(2) [OF run k'(2), symmetric] .
qed

lemma arrival_start:
  assumes "alike lib cap B" and run: "whole_run lib l2 cap ps D" and k: "k < length ps"
    and e: "algorithms_ok e" "fresh_streams lib e" "ad_part e = 0" "ad_acc e = []"
  shows "lags B (begins ps k) (adec_start (D k)) (adec_start e)"
  unfolding begins_run [OF run k]
  using whole_run_rests [OF run, of k] k e by (intro lags_start [OF assms(1)]) simp_all

lemma arrivals:
  assumes lib: "alike lib cap B" and run: "whole_run lib l2 cap ps D" and "\<forall>i \<in> set js. i < length ps"
    and "l < length ps" and "lags B (begins ps s) (adec_start (D (Suc l))) (adec_start e)"
  shows "\<exists>e'. ldec_packets lib l2 cap (Some (of_nat (Suc l))) (map ((!) ps) js) e = Some e' \<and>
    ad_out e' = ad_out e @ arrived ps (ad_out (D (length ps))) (Some (s, l)) js"
  using assms(3-)
proof (induction js arbitrary: l s e)
  case (Cons i js)
  have i: "i < length ps" "\<forall>j \<in> set js. j < length ps" using Cons.prems(1) by simp_all
  have num: "fst (ps ! i) = of_nat (Suc i)" using run i(1) by (simp add: whole_run_def del: of_nat_Suc)
  have gap: "number_gap (Some (of_nat (Suc l))) (fst (ps ! i)) \<longleftrightarrow> i \<noteq> Suc l"
    unfolding num using run i(1) Cons.prems(2) by (intro number_gap_index) (simp_all add: whole_run_def)
  let ?e = "if i \<noteq> Suc l then adec_drop lib e else e" and ?s = "if i = Suc l then s else i"
  have alg: "algorithms_ok e" using Cons.prems(3) by (simp add: lags_def)
  have "lags B (begins ps ?s) (adec_start (D i)) (adec_start ?e)"
    using Cons.prems(3) arrival_start [OF lib run i(1), of "adec_drop lib e"] alg by simp
  from arrival [OF lib run i(1) this] obtain e1 where
    e1: "ldec_packet lib l2 cap (snd (ps ! i)) ?e = Some e1"
    "lags B (begins ps ?s) (adec_start (D (Suc i))) (adec_start e1)"
    "ad_out e1 = ad_out ?e @ drop (max (begins ps ?s) (ends ps i))
       (take (ends ps (Suc i)) (ad_out (D (length ps))))" by blast
  from Cons.IH [OF i(2) i(1) e1(2)] obtain e2 where
    "ldec_packets lib l2 cap (Some (of_nat (Suc i))) (map ((!) ps) js) e1 = Some e2"
    "ad_out e2 = ad_out e1 @ arrived ps (ad_out (D (length ps))) (Some (?s, i)) js" by blast
  note e2 = this
  have "ldec_packets lib l2 cap (Some (of_nat (Suc l))) (map ((!) ps) (i # js)) e = Some e2"
    using e2(1) by (simp only: list.map ldec_packets.simps num gap [unfolded num] e1(1) bind.bind_lunit)
  moreover have "ad_out ?e = ad_out e" by simp
  then have "ad_out e2 = ad_out e @ arrived ps (ad_out (D (length ps))) (Some (s, l)) (i # js)"
    unfolding e2(2) e1(3) by (simp add: Let_def)
  ultimately show ?case by blast
next
  case Nil
  then show ?case by simp
qed

lemma all_arrivals:
  assumes lib: "alike lib cap B" and run: "whole_run lib l2 cap ps D" and js: "\<forall>i \<in> set js. i < length ps"
    and idle: "ad_part (D 0) = 0"
  shows "\<exists>e. ldec_packets lib l2 cap None (map ((!) ps) js) (D 0) = Some e \<and>
    ad_out e = arrived ps (ad_out (D (length ps))) None js"
proof (cases js)
  case Nil
  then show ?thesis using run by (simp add: whole_run_def)
next
  case (Cons i js')
  have i: "i < length ps" "\<forall>j \<in> set js'. j < length ps" using js Cons by simp_all
  have num: "fst (ps ! i) = of_nat (Suc i)" using run i(1) by (simp add: whole_run_def del: of_nat_Suc)
  have D0: "algorithms_ok (D 0)" "fresh_streams lib (D 0)" "ad_acc (D 0) = []" "ad_out (D 0) = []"
    using run idle by (simp_all add: whole_run_def rests_def)
  from arrival [OF lib run i(1) arrival_start [OF lib run i(1) D0(1,2) idle D0(3)]] obtain e1 where
    e1: "ldec_packet lib l2 cap (snd (ps ! i)) (D 0) = Some e1"
    "lags B (begins ps i) (adec_start (D (Suc i))) (adec_start e1)"
    "ad_out e1 = drop (max (begins ps i) (ends ps i)) (take (ends ps (Suc i)) (ad_out (D (length ps))))"
    using D0(4) by auto
  from arrivals [OF lib run i(2,1) e1(2)] obtain e2 where
    "ldec_packets lib l2 cap (Some (of_nat (Suc i))) (map ((!) ps) js') e1 = Some e2"
    "ad_out e2 = ad_out e1 @ arrived ps (ad_out (D (length ps))) (Some (i, i)) js'" by blast
  with e1(1,3) num show ?thesis by (simp add: Cons number_gap_def Let_def del: of_nat_Suc)
qed

end
