(* ===== verification/Loss_Tunnel.thy ===== *)
theory Loss_Tunnel
  imports Tunnel Loss_Frames
begin

unbundle bit_operations_syntax

text \<open>
  The tunnel over a network that loses, repeats and reorders packets: the decoder of the program on
  a selection of the packets of the encoder of the program.
\<close>

lemma seqs_from_nth:
  "seqs_from s qs t \<Longrightarrow> unat s + length qs < 4294967295 \<Longrightarrow> k < length qs \<Longrightarrow> qs ! k = s + of_nat k"
proof (induction s qs t arbitrary: k rule: seqs_from.induct)
  case (2 s q qs t)
  have "s \<noteq> 0xFFFFFFFF"
  proof
    assume "s = 0xFFFFFFFF"
    then have "unat s = 4294967295" by simp
    with "2.prems"(2) show False by simp
  qed
  then have q: "q = s" using "2.prems"(1) by (simp add: this_seq_def)
  have "unat (s + 1) \<le> unat s + 1" by (simp add: unat_word_ariths)
  then have "unat (q + 1) + length qs < 4294967295" using "2.prems"(2) q by simp
  from "2.IH" [OF _ this] "2.prems"(1,3) show ?case by (cases k) (simp_all add: q)
qed simp

lemma arrived_surplus:
  "length F = ends ps (length ps) \<Longrightarrow> \<forall>i \<in> set js. i < length ps \<Longrightarrow>
    arrived ps (F @ xs) run js = arrived ps F run js"
proof (induction js arbitrary: run)
  case (Cons i js)
  have "ends ps (Suc i) \<le> length F" using Cons.prems by (simp add: ends_mono)
  with Cons show ?case by (simp add: Let_def)
qed simp

lemma created_algorithms:
  assumes "StreamCompressorLZ4 lib = Inr lz4" and "StreamCompressorZSTD lib = Inr zstd"
  shows "algorithms_ok (adec_init lz4 zstd)" and "fresh_streams lib (adec_init lz4 zstd)"
  using assms
  by (auto simp: adec_init_def algorithms_ok_def fresh_streams_def fresh_decompressor_def
      StreamCompressorLZ4_def StreamCompressorZSTD_def split: option.splits)

text \<open>The packets an encoder has sent and the frames in them, for a decoder that gets everything.\<close>

lemma tunnel_whole_run:
  assumes inv: "tunnel_inv lib R cap N (l2mtu, l4mtu, fmt) (adec_init lz4 zstd) e st d"
    and lib: "StreamCompressorLZ4 lib = Inr lz4" "StreamCompressorZSTD lib = Inr zstd"
    and few: "length (aout (ast_enc st)) < 2147483648"
  obtains D xs where "whole_run lib (unat l2mtu) cap (aout (ast_enc st)) D" and "D 0 = adec_init lz4 zstd"
    and "ad_out d = ad_out (D (length (aout (ast_enc st)))) @ xs" and "acur (ast_enc st) = [] \<Longrightarrow> xs = []"
proof -
  let ?ps = "aout (ast_enc st)"
  obtain Dn where Dn: "adec_packets lib (unat l2mtu) cap (map snd ?ps) (adec_init lz4 zstd) = Some Dn"
    "adec_segs lib (unat l2mtu) cap (acur (ast_enc st)) (adec_start Dn) = Some d"
    using inv by (auto simp: tunnel_inv_def views_def)
  obtain D where D: "D 0 = adec_init lz4 zstd" "D (length ?ps) = Dn"
    "\<forall>k < length ?ps. adec_packet lib (unat l2mtu) cap (snd (?ps ! k)) (D k) = Some (D (Suc k))"
    by (rule adec_states [OF Dn(1)]) auto
  have sent: "seqs_from 1 (map fst ?ps) (aseq (ast_enc st))" "\<forall>p \<in> set ?ps. snd p \<noteq> []"
    using inv by (simp_all add: tunnel_inv_def sent_ok_def)
  have "fst (?ps ! k) = of_nat (Suc k)" if "k < length ?ps" for k
    using seqs_from_nth [OF sent(1), of k] few that by simp
  moreover have "rests lib (D 0)" "fresh_streams lib (D 0)" "ad_out (D 0) = []"
    using created_algorithms [OF lib] by (simp_all add: D(1) rests_def adec_init_def)
  ultimately have "whole_run lib (unat l2mtu) cap ?ps D"
    using D(3) few sent(2) by (simp add: whole_run_def del: of_nat_Suc)
  moreover obtain xs where "ad_out d = ad_out Dn @ xs"
    using adec_segs_prefix [OF Dn(2)] by auto
  moreover from this have "xs = []" if "acur (ast_enc st) = []" using Dn(2) that by auto
  ultimately show thesis using D(1,2) by (intro that [of D xs]) simp_all
qed

text \<open>What arrives of them, in any order and number, is decoded to the frames that are whole.\<close>

lemma decoder_arrivals:
  assumes inv: "tunnel_inv lib R cap N (l2mtu, l4mtu, fmt) (adec_init lz4 zstd) e st d"
    and alike: "alike lib cap B" and cap: "cap < 65536"
    and lib: "StreamCompressorLZ4 lib = Inr lz4" "StreamCompressorZSTD lib = Inr zstd"
    and few: "length (aout (ast_enc st)) < 2147483648"
    and js: "\<forall>i \<in> set js. i < length (aout (ast_enc st))"
    and pbs: "\<forall>pb \<in> set pbs. buffer_ok cap pb" "map buffer_data pbs = map (\<lambda>i. packet_bytes (aout (ast_enc st) ! i)) js"
    and pools: "pool_ok cap tap" "pool_ok cap tx"
    and tx: "length (arrived (aout (ast_enc st)) (ad_out d) None js) + 2 \<le> length (pool tx)"
  shows "\<exists>d0 d1. PacketDecoder garbage lib l2mtu tap tx = Inr d0 \<and> decoder_handle lib pbs d0 = Inr d1 \<and>
    map buffer_data (pool (dec_tx_buffer_pool d1)) =
      map buffer_data (pool tap) @ arrived (aout (ast_enc st)) (ad_out d) None js"
proof -
  let ?ps = "aout (ast_enc st)"
  obtain D xs where run: "whole_run lib (unat l2mtu) cap ?ps D" and D0: "D 0 = adec_init lz4 zstd"
    and out: "ad_out d = ad_out (D (length ?ps)) @ xs"
    by (rule tunnel_whole_run [OF inv lib few]) blast
  have idle: "ad_part (D 0) = 0" by (simp add: D0 adec_init_def)
  have "length (ad_out (D (length ?ps))) = ends ?ps (length ?ps)" by (rule whole_run_out [OF run]) simp
  then have same: "arrived ?ps (ad_out d) None js = arrived ?ps (ad_out (D (length ?ps))) None js"
    unfolding out using js by (rule arrived_surplus)
  obtain ad where ad: "ldec_packets lib (unat l2mtu) cap None (map ((!) ?ps) js) (adec_init lz4 zstd) = Some ad"
    "ad_out ad = arrived ?ps (ad_out d) None js"
    using all_arrivals [OF alike run js idle] unfolding same D0 by blast
  have segs: "\<forall>p \<in> set (map ((!) ?ps) js). snd p \<noteq> []" using run js by (simp add: whole_run_def)
  have data: "map buffer_data pbs = map packet_bytes (map ((!) ?ps) js)" using pbs(2) by (simp add: comp_def)
  have room: "length (ad_out ad) + 2 \<le> length (pool tx)" unfolding ad(2) by (rule tx)
  from decoder_on_packets [OF lib pools cap ad(1) segs pbs(1) data room, of garbage] ad(2)
  show ?thesis by (auto simp: dec_rel_def)
qed

text \<open>
  Two parts of a frame with a packet missing between them: they are put together when the decoder
  does not notice.
\<close>

lemma ldec_first_part:
  assumes "unat n \<le> l2" and "length x \<le> cap" and "length x \<le> unat n"
  shows "ldec_packet lib l2 cap [Part False n 0 1 x] (adec_init lz4 zstd) =
    Some ((adec_init lz4 zstd)\<lparr>ad_part := 1, ad_orig := n, ad_fmt := 0, ad_acc := x, ad_flush := False\<rparr>)"
  using assms
  by (simp add: ldec_packet_def adec_start_def adec_end_def adec_init_def part_lost_def is_compressed_def)

lemma ldec_second_part:
  assumes "unat n \<le> l2" and "length (x @ y) \<le> cap" and "length (x @ y) = unat n"
    and d: "ad_part d = 1" "ad_orig d = n" "ad_fmt d = 0" "ad_acc d = x" "ad_out d = []"
  shows "\<exists>ad. ldec_packet lib l2 cap [Part True n 0 2 y] d = Some ad \<and> ad_out ad = [x @ y]"
  using assms
  by (simp add: ldec_packet_def adec_start_def adec_end_def part_lost_def is_compressed_def
      unpack_none)

lemma ldec_lone_part:
  assumes "unat n \<le> l2" and d: "ad_part d = 0" "ad_out d = []"
  shows "\<exists>ad. ldec_packet lib l2 cap [Part True n 0 2 y] d = Some ad \<and> ad_out ad = []"
  using assms by (simp add: ldec_packet_def adec_start_def adec_end_def part_lost_def)

lemma two_parts:
  assumes n: "unat n \<le> l2" "unat n \<le> cap" "length x + length y = unat n"
  shows "\<exists>ad. ldec_packets lib l2 cap None [(q, [Part False n 0 1 x]), (q2, [Part True n 0 2 y])]
      (adec_init lz4 zstd) = Some ad \<and>
    ad_out ad = (if number_gap (Some q) q2 then [] else [x @ y])"
proof -
  let ?d = "(adec_init lz4 zstd)\<lparr>ad_part := 1, ad_orig := n, ad_fmt := 0, ad_acc := x, ad_flush := False\<rparr>"
  have first: "ldec_packet lib l2 cap [Part False n 0 1 x] (adec_init lz4 zstd) = Some ?d"
    using n by (intro ldec_first_part) simp_all
  have out: "ad_out ?d = []" by (simp add: adec_init_def)
  have "\<exists>ad. ldec_packet lib l2 cap [Part True n 0 2 y]
      (if number_gap (Some q) q2 then adec_drop lib ?d else ?d) = Some ad \<and>
    ad_out ad = (if number_gap (Some q) q2 then [] else [x @ y])"
  proof (cases "number_gap (Some q) q2")
    case True
    have d: "ad_part (adec_drop lib ?d) = 0" "ad_out (adec_drop lib ?d) = []" using out by simp_all
    from ldec_lone_part [OF n(1) d, of lib cap y] True show ?thesis by simp
  next
    case False
    from ldec_second_part [of n l2 x y cap ?d lib] n out False show ?thesis by simp
  qed
  then show ?thesis
    unfolding ldec_packets.simps fst_conv snd_conv by (simp add: number_gap_def [of None] first)
qed

text \<open>If every packet arrives, and in order, every frame does that is not still in the encoder.\<close>

lemma tunnel_arrived_all:
  assumes inv: "tunnel_inv lib R cap N (l2mtu, l4mtu, fmt) (adec_init lz4 zstd) e st d"
    and flushed: "acur (ast_enc st) = []"
    and lib: "StreamCompressorLZ4 lib = Inr lz4" "StreamCompressorZSTD lib = Inr zstd"
    and few: "length (aout (ast_enc st)) < 2147483648"
  shows "arrived (aout (ast_enc st)) (ad_out d) None [0..<length (aout (ast_enc st))] = ad_out d"
proof -
  let ?ps = "aout (ast_enc st)"
  obtain D xs where run: "whole_run lib (unat l2mtu) cap ?ps D" and D0: "D 0 = adec_init lz4 zstd"
    and out: "ad_out d = ad_out (D (length ?ps)) @ xs" "acur (ast_enc st) = [] \<Longrightarrow> xs = []"
    by (rule tunnel_whole_run [OF inv lib few]) blast
  have d: "ad_out d = ad_out (D (length ?ps))" using out flushed by simp
  have n: "length (ad_out (D (length ?ps))) = ends ?ps (length ?ps)" by (rule whole_run_out [OF run]) simp
  show ?thesis
  proof (cases "?ps = []")
    case True
    then show ?thesis by (simp add: d D0 adec_init_def)
  next
    case False
    have "begins ?ps 0 = 0" using begins_run [OF run, of 0] False by (simp add: D0 adec_init_def)
    then show ?thesis by (simp add: arrived_all d n [symmetric])
  qed
qed

end
