(* ===== verification/Decoder_Safe.thy ===== *)
theory Decoder_Safe
  imports Decoder
begin

unbundle bit_operations_syntax

text \<open>
  What the decoder does on any packet whatever, also one that no encoder has made: it throws
  nothing, it writes inside its buffers, it loses none of them, and no frame it hands over is
  larger than the interface allows. What remains is that it can wait for a buffer and that it may
  not return: the packets on which it does not are at the end.
\<close>

section \<open>The invariant\<close>

definition dec_mem :: "nat \<Rightarrow> 's decoder \<Rightarrow> bool" where
  "dec_mem cap d \<longleftrightarrow>
     buffer_ok cap (dec_tx_buffer d) \<and> buffer_ok cap (dec_dcomp_buffer d) \<and>
     pool_ok cap (dec_available_buffer_pool d) \<and> pool_ok cap (dec_tx_buffer_pool d) \<and>
     (\<forall>b \<in> set (dec_inflight_buffers d). buffer_ok cap b)"

definition dec_small :: "'s decoder \<Rightarrow> bool" where
  "dec_small d \<longleftrightarrow> (\<forall>b \<in> set (pool (dec_tx_buffer_pool d)). dataSize b \<le> unat (dec_l2mtu d))"

definition dec_idle :: "'s decoder \<Rightarrow> bool" where
  "dec_idle d \<longleftrightarrow> (dec_last_part d = 0 \<longrightarrow> dataSize (dec_tx_buffer d) = 0)"

definition dec_count :: "'s decoder \<Rightarrow> nat" where
  "dec_count d = length (pool (dec_available_buffer_pool d)) + length (dec_inflight_buffers d)
     + length (pool (dec_tx_buffer_pool d))"

text \<open>
  \<open>keeps S cap d0 n d\<close>: \<open>d\<close> has come from \<open>d0\<close>, with \<open>n\<close> buffers more in its hands, and the
  frames it has delivered since are from a source in \<open>S\<close>.
\<close>

definition keeps :: "sockaddr set \<Rightarrow> nat \<Rightarrow> 's decoder \<Rightarrow> nat \<Rightarrow> 's decoder \<Rightarrow> bool" where
  "keeps S cap d0 n d \<longleftrightarrow>
     dec_mem cap d \<and> dec_l2mtu d = dec_l2mtu d0 \<and> dec_count d = dec_count d0 + n \<and>
     (\<exists>fs. pool (dec_tx_buffer_pool d) = pool (dec_tx_buffer_pool d0) @ fs \<and>
       (\<forall>b \<in> set fs. dataSize b \<le> unat (dec_l2mtu d0) \<and> packet_source b \<in> S))"

lemma keeps_refl: "dec_mem cap d \<Longrightarrow> keeps S cap d 0 d"
  by (simp add: keeps_def)

lemma keeps_tx:
  "keeps S cap d0 n d \<Longrightarrow> buffer_ok cap b \<Longrightarrow> keeps S cap d0 n (d\<lparr>dec_tx_buffer := b\<rparr>)"
  by (simp add: keeps_def dec_mem_def dec_count_def)

lemma keeps_dcomp:
  "keeps S cap d0 n d \<Longrightarrow> buffer_ok cap b \<Longrightarrow> keeps S cap d0 n (d\<lparr>dec_dcomp_buffer := b\<rparr>)"
  by (simp add: keeps_def dec_mem_def dec_count_def)

lemma keeps_buffers: "keeps S cap d0 n d \<Longrightarrow>
    buffer_ok cap (dec_tx_buffer d) \<and> buffer_ok cap (dec_dcomp_buffer d)"
  by (simp add: keeps_def dec_mem_def)

lemma keeps_update:
  "keeps S cap d0 n (d\<lparr>dec_last_part := x\<rparr>) \<longleftrightarrow> keeps S cap d0 n d"
  "keeps S cap d0 n (d\<lparr>dec_last_format := f\<rparr>) \<longleftrightarrow> keeps S cap d0 n d"
  "keeps S cap d0 n (d\<lparr>dec_last_orig_packet_size := s\<rparr>) \<longleftrightarrow> keeps S cap d0 n d"
  "keeps S cap d0 n (d\<lparr>dec_last_sequence := q\<rparr>) \<longleftrightarrow> keeps S cap d0 n d"
  "keeps S cap d0 n (d\<lparr>dec_first_packet := b\<rparr>) \<longleftrightarrow> keeps S cap d0 n d"
  "keeps S cap d0 n (d\<lparr>dec_compressorLZ4 := c\<rparr>) \<longleftrightarrow> keeps S cap d0 n d"
  "keeps S cap d0 n (d\<lparr>dec_compressorZSTD := c\<rparr>) \<longleftrightarrow> keeps S cap d0 n d"
  by (simp_all add: keeps_def dec_mem_def dec_count_def)

lemma dec_idle_clear [simp]: "dec_idle (decoder_clearState d)"
  by (simp add: dec_idle_def decoder_clearState_def)

lemma keeps_clear: "keeps S cap d0 n d \<Longrightarrow> keeps S cap d0 n (decoder_clearState d)"
  by (simp add: keeps_def dec_mem_def dec_count_def decoder_clearState_def)

section \<open>The internal operations\<close>

lemma safe_flush:
  assumes "keeps S cap d0 n d"
  shows "safe {} (\<lambda>d'. keeps S cap d0 n d' \<and> dec_last_part d' = dec_last_part d \<and>
    dec_tx_buffer d' = dec_tx_buffer d) (decoder_flushInflight lib d)"
proof (cases "dec_inflight_buffers d = []")
  case True
  with assms show ?thesis by (simp add: decoder_flushInflight_def keeps_update)
next
  case False
  have "BufferPool_push_list (dec_inflight_buffers d) (dec_available_buffer_pool d) =
    Inr ((dec_available_buffer_pool d)\<lparr>pool := pool (dec_available_buffer_pool d)
           @ dec_inflight_buffers d\<rparr>, [])"
    using assms by (intro BufferPool_push_list_ok [of _ cap]) (simp_all add: keeps_def dec_mem_def pool_ok_def)
  with False assms show ?thesis
    by (auto simp: decoder_flushInflight_def keeps_def dec_mem_def dec_count_def pool_ok_def)
qed

lemma safe_drop_state:
  assumes "keeps S cap d0 n d"
  shows "safe {} (\<lambda>d'. keeps S cap d0 n d' \<and> dec_last_part d' = 0 \<and> dec_idle d') (decoder_drop_state lib d)"
  unfolding decoder_drop_state_def
  by (rule safe_mono [OF safe_flush [OF keeps_clear [OF assms]]])
    (auto simp: dec_idle_def decoder_clearState_def)

lemma keeps_push: "keeps S cap d0 n d \<Longrightarrow> buffer_ok cap pb \<Longrightarrow> keeps S cap d0 (n + 1) (decoder_pushInflight pb d)"
  by (auto simp: keeps_def dec_mem_def dec_count_def decoder_pushInflight_def)

lemma safe_clear_flush:
  assumes "keeps S cap d0 n d" and "buffer_ok cap pb"
  shows "safe {} (\<lambda>d'. keeps S cap d0 (n + 1) d' \<and> dec_idle d') (decoder_clearStateAndFlushInflight lib pb d)"
  unfolding decoder_clearStateAndFlushInflight_def
  by (rule safe_mono [OF safe_flush [OF keeps_push [OF keeps_clear [OF assms(1)] assms(2)]]])
    (auto simp: dec_idle_def decoder_clearState_def decoder_pushInflight_def)

text \<open>How a round ends: going on with the same buffers, or returned with the packet's one more.\<close>

definition round_ok :: "sockaddr set \<Rightarrow> nat \<Rightarrow> 's decoder \<Rightarrow> 's round_end \<Rightarrow> bool" where
  "round_ok S cap d0 r \<longleftrightarrow>
     (case r of
        Next d pos fl \<Rightarrow> keeps S cap d0 0 d \<and> dec_idle d
      | Returned d \<Rightarrow> keeps S cap d0 1 d \<and> dec_idle d)"

lemma safe_bail:
  assumes "keeps S cap d0 0 d" and "buffer_ok cap pb"
  shows "safe {Would_block} (round_ok S cap d0) (decoder_bail lib pb d)"
  unfolding decoder_bail_def
  by (rule safe_rbind [OF safe_mono [OF safe_clear_flush [OF assms]]])
    (auto simp: round_ok_def)

lemma safe_emit:
  assumes k: "keeps S cap d0 0 d" and src: "packet_source pb \<in> S" and size: "dataSize (dec_tx_buffer d) \<le> unat (dec_l2mtu d)"
  shows "safe {Would_block} (\<lambda>d'. keeps S cap d0 0 d' \<and> dec_last_part d' = 0 \<and> dec_idle d') (decoder_emit pb d)"
proof -
  have m: "buffer_ok cap (dec_tx_buffer d)" "pool_ok cap (dec_tx_buffer_pool d)"
    "pool_ok cap (dec_available_buffer_pool d)"
    using k by (simp_all add: keeps_def dec_mem_def)
  let ?t = "PacketBuffer_setPacketSource (packet_source pb) (dec_tx_buffer d)"
  have sent: "packet_source ?t = packet_source pb" by (simp add: PacketBuffer_setPacketSource_def)
  have push: "BufferPool_push ?t (dec_tx_buffer_pool d) =
      Inr ((dec_tx_buffer_pool d)\<lparr>pool := pool (dec_tx_buffer_pool d) @ [?t]\<rparr>)"
    using m by (intro BufferPool_push_ok [of _ cap]) (simp_all add: pool_ok_def)
  show ?thesis
  proof (cases "pool (dec_available_buffer_pool d)")
    case Nil
    then show ?thesis
      by (simp add: decoder_emit_def push decoder_getTxBuffer_def BufferPool_pop_wait_simps)
  next
    case (Cons b bs)
    with k m size src sent show ?thesis
      by (auto simp: decoder_emit_def push decoder_getTxBuffer_def BufferPool_pop_wait_simps(2) [OF Cons]
          keeps_def dec_mem_def dec_count_def pool_ok_def decoder_clearState_def dec_idle_def)
  qed
qed

section \<open>The frames\<close>

text \<open>
  All that is needed of the libraries here: a decompressor does not report more bytes than it was
  given room for.
\<close>

definition codec_bounded :: "'s codec_lib \<Rightarrow> nat \<Rightarrow> bool" where
  "codec_bounded lib cap \<longleftrightarrow>
     (\<forall>input sc n out sc'. sc_decompress lib input cap sc = (n, out, sc') \<longrightarrow> n \<le> int cap)"

lemma decompress_bounds:
  assumes "codec_bounded lib cap" and "keeps S cap d0 0 d"
    and "decoder_decompress lib format input cap d = Some (n, out, d')"
  shows "n \<le> int cap \<and> length out \<le> cap \<and> keeps S cap d0 0 d' \<and>
    dec_tx_buffer d' = dec_tx_buffer d \<and> dec_dcomp_buffer d' = dec_dcomp_buffer d \<and>
    dec_last_part d' = dec_last_part d"
proof -
  consider sc where "sc_decompress lib input cap (dec_compressorLZ4 d) = (n, out, sc)"
      "d' = d\<lparr>dec_compressorLZ4 := sc\<rparr>"
    | sc where "sc_decompress lib input cap (dec_compressorZSTD d) = (n, out, sc)"
      "d' = d\<lparr>dec_compressorZSTD := sc\<rparr>"
    using assms(3) by (auto simp: decoder_decompress_def Let_def split: if_splits prod.splits)
  then show ?thesis
  proof cases
    case 1
    have "n \<le> int cap" using assms(1) 1(1) unfolding codec_bounded_def by blast
    with 1 length_sc_decompress [OF 1(1)] assms(2) show ?thesis by (simp add: keeps_update)
  next
    case 2
    have "n \<le> int cap" using assms(1) 2(1) unfolding codec_bounded_def by blast
    with 2 length_sc_decompress [OF 2(1)] assms(2) show ?thesis by (simp add: keeps_update)
  qed
qed

text \<open>Decompressed bytes go into a buffer of the pool's size: neither write can fail.\<close>

lemma write_decompressed:
  assumes "buffer_ok cap b" and "length out \<le> cap" and "n \<le> int cap" and "0 \<le> n" and "cap < 65536"
  shows "\<exists>b1 b2. Buffer_write 0 out b = Inr b1 \<and> buffer_ok cap b1 \<and>
    Buffer_setDataSize (size_of_int n) b1 = Inr b2 \<and> buffer_ok cap b2"
proof -
  let ?b1 = "b\<lparr>content := overwrite 0 out (content b)\<rparr>"
  have "size_of_int n = nat n" using assms(3-5) by (simp add: size_of_int_small)
  then have "Buffer_setDataSize (size_of_int n) ?b1 = Inr (?b1\<lparr>dataSize := nat n\<rparr>)"
    using assms by (simp add: Buffer_setDataSize_def buffer_ok_def)
  moreover have "buffer_ok cap ?b1" "buffer_ok cap (?b1\<lparr>dataSize := nat n\<rparr>)"
    using assms by (simp_all add: buffer_ok_def)
  moreover have "Buffer_write 0 out b = Inr ?b1"
    using assms by (simp add: Buffer_write_def buffer_ok_def)
  ultimately show ?thesis by blast
qed

lemma write_ok: "buffer_ok cap b \<Longrightarrow> length out \<le> cap \<Longrightarrow>
    \<exists>b1. Buffer_write 0 out b = Inr b1 \<and> buffer_ok cap b1"
  by (simp add: Buffer_write_def buffer_ok_def)

definition unpacked_ok :: "sockaddr set \<Rightarrow> nat \<Rightarrow> 's decoder \<Rightarrow> 's decoder + 's decoder \<Rightarrow> bool" where
  "unpacked_ok S cap d0 u \<longleftrightarrow> (case u of Inl d \<Rightarrow> keeps S cap d0 0 d | Inr d \<Rightarrow> keeps S cap d0 0 d)"

lemma safe_unpack:
  assumes k: "keeps S cap d0 0 d" and empty: "dataSize (dec_tx_buffer d) = 0"
    and len: "length payload \<le> cap" and "cap < 65536" and lib: "codec_bounded lib cap"
  shows "safe {} (unpacked_ok S cap d0) (decoder_unpack lib opt payload d)"
proof (cases "OPTION_FORMAT_IS_COMPRESSED opt")
  case True
  note tx = keeps_buffers [OF k, THEN conjunct1]
  have cap: "Buffer_getBufferSize (dec_tx_buffer d) = cap"
    using tx by (simp add: Buffer_getBufferSize_def buffer_ok_def)
  show ?thesis
  proof (cases "decoder_decompress lib (po_format opt) payload cap d")
    case None
    then show ?thesis using True k by (simp add: decoder_unpack_def cap unpacked_ok_def)
  next
    case (Some r)
    obtain n out d2 where r: "r = (n, out, d2)" by (cases r)
    note b = decompress_bounds [OF lib k Some [unfolded r]]
    have tx2: "buffer_ok cap (dec_tx_buffer d2)" using b tx by simp
    obtain b1 where w: "Buffer_write 0 out (dec_tx_buffer d2) = Inr b1" "buffer_ok cap b1"
      using write_ok [OF tx2] b by blast
    show ?thesis
    proof (cases "n < 0")
      case neg: True
      have "keeps S cap d0 0 (d2\<lparr>dec_tx_buffer := b1\<rparr>)" using keeps_tx b w(2) by blast
      then show ?thesis using True neg w by (simp add: decoder_unpack_def cap Some r unpacked_ok_def)
    next
      case False
      then obtain b2 where b2: "Buffer_setDataSize (size_of_int n) b1 = Inr b2" "buffer_ok cap b2"
        using write_decompressed [OF tx2, of out n] b assms(4) w(1) by auto
      have "keeps S cap d0 0 (d2\<lparr>dec_tx_buffer := b2\<rparr>)" using keeps_tx b b2(2) by blast
      then show ?thesis using True False w b2 by (simp add: decoder_unpack_def cap Some r unpacked_ok_def)
    qed
  qed
next
  case False
  have "dataSize (dec_tx_buffer d) + length payload \<le> cap" using empty len by simp
  then obtain b where "Buffer_append payload (dec_tx_buffer d) = Inr b" "buffer_ok cap b"
    using Buffer_append_fits [OF keeps_buffers [OF k, THEN conjunct1]] by metis
  then show ?thesis using False keeps_tx [OF k] by (simp add: decoder_unpack_def unpacked_ok_def)
qed

lemma safe_unpack_parts:
  assumes k: "keeps S cap d0 0 d" and "cap < 65536" and lib: "codec_bounded lib cap"
  shows "safe {} (unpacked_ok S cap d0) (decoder_unpack_parts lib opt d)"
proof (cases "OPTION_FORMAT_IS_COMPRESSED opt")
  case True
  note bufs = keeps_buffers [OF k]
  have cap: "Buffer_getBufferSize (dec_dcomp_buffer d) = cap"
    using bufs by (simp add: Buffer_getBufferSize_def buffer_ok_def)
  let ?in = "buffer_data (dec_tx_buffer d)"
  have read: "Buffer_read 0 (Buffer_getDataSize (dec_tx_buffer d)) (dec_tx_buffer d) = Inr ?in"
    using bufs by (simp add: Buffer_read_def Buffer_getDataSize_def buffer_ok_def slice_def buffer_data_def)
  show ?thesis
  proof (cases "decoder_decompress lib (po_format opt) ?in cap d")
    case None
    then show ?thesis using True k by (simp add: decoder_unpack_parts_def cap read unpacked_ok_def)
  next
    case (Some r)
    obtain n out d2 where r: "r = (n, out, d2)" by (cases r)
    note b = decompress_bounds [OF lib k Some [unfolded r]]
    have dc: "buffer_ok cap (dec_dcomp_buffer d2)" using b bufs by simp
    obtain b1 where w: "Buffer_write 0 out (dec_dcomp_buffer d2) = Inr b1" "buffer_ok cap b1"
      using write_ok [OF dc] b by blast
    show ?thesis
    proof (cases "n < 0")
      case neg: True
      have "keeps S cap d0 0 (d2\<lparr>dec_dcomp_buffer := b1\<rparr>)" using keeps_dcomp b w(2) by blast
      then show ?thesis
        using True neg w by (simp add: decoder_unpack_parts_def cap read Some r unpacked_ok_def)
    next
      case False
      then obtain b2 where b2: "Buffer_setDataSize (size_of_int n) b1 = Inr b2" "buffer_ok cap b2"
        using write_decompressed [OF dc, of out n] b assms(2) w(1) by auto
      have "buffer_ok cap (dec_tx_buffer d2)" using b bufs by simp
      then have "keeps S cap d0 0 (d2\<lparr>dec_dcomp_buffer := dec_tx_buffer d2, dec_tx_buffer := b2\<rparr>)"
        using b b2(2) by (intro keeps_tx keeps_dcomp) simp_all
      then show ?thesis
        using True False w b2 by (simp add: decoder_unpack_parts_def cap read Some r unpacked_ok_def)
    qed
  qed
qed (use k in \<open>simp add: decoder_unpack_parts_def unpacked_ok_def\<close>)

lemma unpackedE:
  assumes "unpacked_ok S cap d0 u"
  obtains d where "u = Inl d" and "keeps S cap d0 0 d" | d where "u = Inr d" and "keeps S cap d0 0 d"
  using assms by (cases u) (auto simp: unpacked_ok_def)

lemma safe_sized_emit:
  assumes k: "keeps S cap d0 0 d" and src: "packet_source pb \<in> S" and "unat sz \<le> unat (dec_l2mtu d0)"
    and "\<not> Buffer_getDataSize (dec_tx_buffer d) \<noteq> unat (sz :: u16)"
  shows "safe {Would_block} (\<lambda>d'. keeps S cap d0 0 d' \<and> dec_last_part d' = 0 \<and> dec_idle d') (decoder_emit pb d)"
  using assms by (intro safe_emit [OF k src]) (simp add: Buffer_getDataSize_def keeps_def)

lemma safe_complete:
  assumes k: "keeps S cap d0 0 d" and idle: "dec_idle d" and pb: "buffer_ok cap pb" and "cap < 65536"
    and lib: "codec_bounded lib cap" and src: "packet_source pb \<in> S"
    and orig: "unat (be_to_cpu_16 (po_packet_size opt)) \<le> unat (dec_l2mtu d0)"
  shows "safe {Would_block} (round_ok S cap d0) (decoder_complete lib pb opt pos d)"
  unfolding decoder_complete_def Let_def
proof (rule safe_rbind [where Q = "\<lambda>d1. keeps S cap d0 0 d1 \<and> dec_last_part d1 = 0 \<and> dec_idle d1"])
  show "safe {Would_block} (\<lambda>d1. keeps S cap d0 0 d1 \<and> dec_last_part d1 = 0 \<and> dec_idle d1)
      (if dec_last_part d \<noteq> 0 then decoder_drop_state lib d else Inr d)"
  proof (cases "dec_last_part d = 0")
    case False
    then show ?thesis by (simp, intro safe_mono [OF safe_drop_state [OF k]]) auto
  qed (use k idle in simp)
next
  fix d1
  assume d1: "keeps S cap d0 0 d1 \<and> dec_last_part d1 = 0 \<and> dec_idle d1"
  then have k1: "keeps S cap d0 0 d1" and empty: "dataSize (dec_tx_buffer d1) = 0"
    by (simp_all add: dec_idle_def)
  let ?p = "unat (pos + of_nat sizeof_PacketHeaderOption)"
  let ?n = "unat (be_to_cpu_16 (po_payload_length opt))"
  have main: "safe {Would_block} (round_ok S cap d0)
      (rbind (decoder_unpack lib opt payload d1) (\<lambda>unpacked.
         case unpacked of Inl d2 \<Rightarrow> decoder_bail lib pb d2
         | Inr d2 \<Rightarrow> if Buffer_getDataSize (dec_tx_buffer d2) \<noteq> unat (be_to_cpu_16 (po_packet_size opt))
             then decoder_bail lib pb d2
             else rbind (decoder_emit pb d2) (\<lambda>d3. Inr (Next d3 next_pos True))))"
    if "length payload \<le> cap" for payload next_pos
  proof (rule safe_rbind [where Q = "unpacked_ok S cap d0"])
    show "safe {Would_block} (unpacked_ok S cap d0) (decoder_unpack lib opt payload d1)"
      by (rule safe_mono [OF safe_unpack [OF k1 empty that assms(4) lib]]) auto
  next
    fix u assume "unpacked_ok S cap d0 u"
    then show "safe {Would_block} (round_ok S cap d0) (case u of Inl d2 \<Rightarrow> decoder_bail lib pb d2
         | Inr d2 \<Rightarrow> if Buffer_getDataSize (dec_tx_buffer d2) \<noteq> unat (be_to_cpu_16 (po_packet_size opt))
             then decoder_bail lib pb d2
             else rbind (decoder_emit pb d2) (\<lambda>d3. Inr (Next d3 next_pos True)))"
    proof (cases rule: unpackedE)
      case (2 d2)
      show ?thesis unfolding 2(1) sum.case
        by (intro safe_if safe_bail [OF 2(2) pb] safe_rbind [OF safe_sized_emit [OF 2(2) src orig]])
          (simp_all add: round_ok_def)
    qed (simp add: safe_bail pb)
  qed
  have "Buffer_read ?p ?n pb = Inr (slice ?p ?n (buffer_data pb)) \<and>
      length (slice ?p ?n (buffer_data pb)) \<le> cap"
    if "\<not> ?p + ?n > Buffer_getDataSize pb"
  proof -
    have "?p + ?n \<le> dataSize pb" using that by (simp add: Buffer_getDataSize_def)
    with Buffer_read_data [OF pb this] pb show ?thesis
      by (simp add: length_buffer_data [OF pb] buffer_ok_def)
  qed
  then show "safe {Would_block} (round_ok S cap d0)
     (if po_part opt \<noteq> 0 then decoder_bail lib pb d1
      else if ?p + ?n > Buffer_getDataSize pb then decoder_bail lib pb d1
      else rbind (Buffer_read ?p ?n pb) (\<lambda>payload.
           rbind (decoder_unpack lib opt payload d1) (\<lambda>unpacked.
           case unpacked of Inl d2 \<Rightarrow> decoder_bail lib pb d2
           | Inr d2 \<Rightarrow> if Buffer_getDataSize (dec_tx_buffer d2) \<noteq> unat (be_to_cpu_16 (po_packet_size opt))
               then decoder_bail lib pb d2
               else rbind (decoder_emit pb d2) (\<lambda>d3.
                    Inr (Next d3 (pos + of_nat sizeof_PacketHeaderOption
                           + be_to_cpu_16 (po_payload_length opt)) True)))))"
    using main by (intro safe_if safe_bail [OF k1 pb]) auto
qed

lemma safe_finish:
  assumes k: "keeps S cap d0 0 d" and pb: "buffer_ok cap pb" and "cap < 65536"
    and lib: "codec_bounded lib cap" and src: "packet_source pb \<in> S"
    and orig: "unat (be_to_cpu_16 (po_packet_size opt)) \<le> unat (dec_l2mtu d0)"
  shows "safe {Would_block} (round_ok S cap d0) (decoder_finish lib pb opt next_pos d)"
  unfolding decoder_finish_def
proof (rule safe_rbind [where Q = "unpacked_ok S cap d0"])
  show "safe {Would_block} (unpacked_ok S cap d0) (decoder_unpack_parts lib opt d)"
    by (rule safe_mono [OF safe_unpack_parts [OF k assms(3) lib]]) auto
next
  fix u assume "unpacked_ok S cap d0 u"
  then show "safe {Would_block} (round_ok S cap d0) (case u of Inl d1 \<Rightarrow> decoder_bail lib pb d1
     | Inr d1 \<Rightarrow> if Buffer_getDataSize (dec_tx_buffer d1) \<noteq> unat (be_to_cpu_16 (po_packet_size opt))
         then decoder_bail lib pb d1
         else rbind (decoder_emit pb d1) (\<lambda>d2. rbind (decoder_flushInflight lib d2) (\<lambda>d3.
              Inr (Next d3 next_pos False))))"
  proof (cases rule: unpackedE)
    case (2 d1)
    have "safe {Would_block} (round_ok S cap d0)
        (rbind (decoder_flushInflight lib d2) (\<lambda>d3. Inr (Next d3 next_pos False)))"
      if d2: "keeps S cap d0 0 d2 \<and> dec_last_part d2 = 0 \<and> dec_idle d2" for d2
      by (rule safe_rbind [OF safe_mono [OF safe_flush [OF conjunct1 [OF d2]], of "{Would_block}"]])
        (use d2 in \<open>auto simp: round_ok_def dec_idle_def\<close>)
    then show ?thesis unfolding 2(1) sum.case
      by (intro safe_if safe_bail [OF 2(2) pb] safe_rbind [OF safe_sized_emit [OF 2(2) src orig]]) auto
  qed (simp add: safe_bail pb)
qed

lemma safe_partial:
  assumes k: "keeps S cap d0 0 d" and idle: "dec_idle d" and pb: "buffer_ok cap pb" and "cap < 65536"
    and lib: "codec_bounded lib cap" and src: "packet_source pb \<in> S"
    and orig: "unat (be_to_cpu_16 (po_packet_size opt)) \<le> unat (dec_l2mtu d0)"
  shows "safe {Would_block} (round_ok S cap d0) (decoder_partial lib pb opt pos d)"
  unfolding decoder_partial_def Let_def
proof (intro safe_if safe_bail [OF k pb], goal_cases)
  case 1
  show ?case
    by (rule safe_rbind [OF safe_mono [OF safe_drop_state [OF k], of "{Would_block}"]])
      (auto simp: round_ok_def)
next
  case 2
  let ?p = "unat (pos + of_nat sizeof_PacketHeaderOption)"
  let ?n = "unat (be_to_cpu_16 (po_payload_length opt))"
  note tx = keeps_buffers [OF k, THEN conjunct1]
  have "?p + ?n \<le> dataSize pb" using 2 by (simp add: Buffer_getDataSize_def)
  then have read: "Buffer_read ?p ?n pb = Inr (slice ?p ?n (buffer_data pb))"
    and len: "length (slice ?p ?n (buffer_data pb)) = ?n"
    using Buffer_read_data [OF pb] by (simp_all add: length_buffer_data [OF pb])
  have "dataSize (dec_tx_buffer d) + length (slice ?p ?n (buffer_data pb)) \<le> cap"
    unfolding len using 2 tx by (simp add: Buffer_getDataSize_def Buffer_getBufferSize_def buffer_ok_def)
  then obtain b where b: "Buffer_append (slice ?p ?n (buffer_data pb)) (dec_tx_buffer d) = Inr b"
    "buffer_ok cap b" using Buffer_append_fits [OF tx] by metis
  have k1: "keeps S cap d0 0 (d\<lparr>dec_tx_buffer := b\<rparr>)" by (rule keeps_tx [OF k b(2)])
  have "po_part opt \<noteq> 0" using 2(1) by (auto simp: decoder_skip_def)
  then show ?case
    unfolding read rbind_simps b(1)
    by (intro safe_if safe_finish [OF k1 pb assms(4) lib src orig])
      (use k1 in \<open>simp add: round_ok_def keeps_update dec_idle_def\<close>)
qed

text \<open>
  The loop reads the 8 bytes of a header at any position inside the data. They lie in the buffer
  when the packet leaves 7 bytes of it; otherwise the read may go past its end.
\<close>

abbreviation overrun :: "nat \<Rightarrow> packet_buffer \<Rightarrow> cpp_error set" where
  "overrun cap pb \<equiv> (if dataSize pb + 7 \<le> cap then {} else {Out_of_bounds})"

lemma safe_round:
  assumes r: "round_ok S cap d0 r" and more: "decoder_more pb r" and pb: "buffer_ok cap pb"
    and "cap < 65536" and lib: "codec_bounded lib cap"
    and src: "packet_source pb \<in> S"
  shows "safe (insert Would_block (overrun cap pb)) (round_ok S cap d0) (decoder_round lib pb r)"
proof (cases r)
  case (Next d pos fl)
  then have k: "keeps S cap d0 0 d" and idle: "dec_idle d" and pos: "unat pos < dataSize pb"
    using r more by (simp_all add: round_ok_def decoder_more_def Buffer_getDataSize_def)
  have l2: "dec_l2mtu d = dec_l2mtu d0" using k by (simp add: keeps_def)
  have main: "safe {Would_block} (round_ok S cap d0) (decoder_round lib pb r)"
    if read: "Buffer_read (unat pos) sizeof_PacketHeaderOption pb = Inr bs" for bs
    unfolding decoder_round_def Next round_end.case read rbind_simps Let_def
  proof (intro safe_if safe_bail [OF k pb], goal_cases)
    case 1
    then have "unat (be_to_cpu_16 (po_packet_size (PacketHeaderOption_at bs))) \<le> unat (dec_l2mtu d0)"
      by (simp add: l2 word_le_nat_alt not_less)
    then show ?case by (rule safe_complete [OF k idle pb assms(4) lib src])
  next
    case 2
    then have "unat (be_to_cpu_16 (po_packet_size (PacketHeaderOption_at bs))) \<le> unat (dec_l2mtu d0)"
      by (simp add: l2 word_le_nat_alt not_less)
    then show ?case by (rule safe_partial [OF k idle pb assms(4) lib src])
  next
    case 3
    then show ?case using k idle by (simp add: round_ok_def)
  qed
  show ?thesis
  proof (cases "unat pos + 8 \<le> cap")
    case True
    then obtain bs where "Buffer_read (unat pos) sizeof_PacketHeaderOption pb = Inr bs"
      using pb by (simp add: Buffer_read_def sizeof_PacketHeaderOption_def buffer_ok_def)
    from main [OF this] show ?thesis by (rule safe_mono) auto
  next
    case False
    then have "decoder_round lib pb r = Inl Out_of_bounds"
      using pb by (simp add: Next decoder_round_def Buffer_read_def sizeof_PacketHeaderOption_def buffer_ok_def)
    then show ?thesis using False pos by simp
  qed
qed (use r in \<open>simp add: decoder_round_def\<close>)

section \<open>The header\<close>

lemma safe_sequence:
  assumes "keeps S cap d0 0 d" and "dec_idle d"
  shows "safe {} (\<lambda>d'. keeps S cap d0 0 d' \<and> dec_idle d') (decoder_sequence lib seq d)"
  unfolding decoder_sequence_def Let_def
proof (rule safe_rbind [where Q = "\<lambda>d'. keeps S cap d0 0 d' \<and> dec_idle d'"])
  let ?d1 = "if dec_first_packet d then d\<lparr>dec_first_packet := False, dec_last_sequence := seq - 1\<rparr> else d"
  have "keeps S cap d0 0 ?d1" "dec_idle ?d1" using assms by (simp_all add: keeps_update dec_idle_def)
  then show "safe {} (\<lambda>d'. keeps S cap d0 0 d' \<and> dec_idle d')
      (if dec_last_sequence ?d1 + 1 < seq then decoder_drop_state lib ?d1 else Inr ?d1)"
    by (intro safe_if safe_mono [OF safe_drop_state]) auto
next
  fix d2 assume d2: "keeps S cap d0 0 d2 \<and> dec_idle d2"
  show "safe {} (\<lambda>d'. keeps S cap d0 0 d' \<and> dec_idle d')
     (rbind (if seq < dec_last_sequence d2 + 1
             then if is_sequence_wrapping seq (dec_last_sequence d2)
                  then Inr (d2\<lparr>dec_last_sequence := 0\<rparr>) else decoder_drop_state lib d2
             else Inr d2) (\<lambda>d3. Inr (d3\<lparr>dec_last_sequence := seq\<rparr>)))"
  proof (rule safe_rbind [where Q = "\<lambda>d'. keeps S cap d0 0 d' \<and> dec_idle d'"])
    show "safe {} (\<lambda>d'. keeps S cap d0 0 d' \<and> dec_idle d')
        (if seq < dec_last_sequence d2 + 1
         then if is_sequence_wrapping seq (dec_last_sequence d2)
              then Inr (d2\<lparr>dec_last_sequence := 0\<rparr>) else decoder_drop_state lib d2
         else Inr d2)"
      using d2 by (intro safe_if safe_mono [OF safe_drop_state]) (auto simp: keeps_update dec_idle_def)
  qed (simp add: keeps_update dec_idle_def)
qed

text \<open>The loop over the option headers reads inside the packet only.\<close>

lemma u64_left_fits:
  assumes "unat (c :: u16) \<le> n" and "n < 65536" and "\<not> 8 > (of_nat n - ucast c :: u64)"
  shows "unat c + 8 \<le> n"
proof -
  have c: "(ucast c :: u64) = of_nat (unat c)" by simp
  have "(of_nat n - ucast c :: u64) = of_nat (n - unat c)"
    unfolding c using assms(1) by (simp only: of_nat_diff)
  moreover have "unat (of_nat (n - unat c) :: u64) = n - unat c"
    using assms(2) by (intro unat_of_nat_small) simp
  ultimately show ?thesis using assms(1,3) by (simp add: word_less_nat_alt)
qed

lemma safe_options:
  assumes pb: "buffer_ok cap pb" and "cap < 65536" and "unat cur_pos \<le> dataSize pb"
  shows "safe {} (\<lambda>_. True) (decoder_options pb opt_len todo cur_pos packet_header_pos)"
  using assms(3)
proof (induction todo arbitrary: cur_pos packet_header_pos)
  case (Suc todo)
  show ?case
  proof (cases "of_nat sizeof_PacketHeaderOption > (of_nat (Buffer_getDataSize pb) - ucast cur_pos :: u64)")
    case False
    have ds: "dataSize pb < 65536" using pb assms(2) by (simp add: buffer_ok_def)
    have fit: "unat cur_pos + 8 \<le> dataSize pb"
      using False by (intro u64_left_fits [OF Suc.prems ds])
        (simp add: sizeof_PacketHeaderOption_def Buffer_getDataSize_def)
    then obtain bs where read: "Buffer_read (unat cur_pos) sizeof_PacketHeaderOption pb = Inr bs"
      using Buffer_read_data [OF pb fit] by (simp add: sizeof_PacketHeaderOption_def)
    have "unat (cur_pos + 8) = unat cur_pos + 8" using fit ds by (simp add: unat_word_ariths)
    then have "unat (cur_pos + of_nat sizeof_PacketHeaderOption) \<le> dataSize pb"
      using fit by (simp add: sizeof_PacketHeaderOption_def)
    note IH = Suc.IH [OF this]
    show ?thesis
      unfolding decoder_options.simps read rbind_simps Let_def
      by (intro safe_if IH) simp_all
  qed simp
qed simp

section \<open>Any packet\<close>

lemma safe_frames:
  assumes "round_ok S cap d0 r" and "buffer_ok cap pb" and "cap < 65536"
    and "codec_bounded lib cap" and "packet_source pb \<in> S"
  shows "safe ({Would_block, Diverges} \<union> overrun cap pb) (round_ok S cap d0) (decoder_frames lib pb r)"
proof -
  have "safe (insert Diverges (insert Would_block (overrun cap pb))) (\<lambda>r. round_ok S cap d0 r \<and> \<not> decoder_more pb r)
      (decoder_frames lib pb r)"
    unfolding decoder_frames_def
    by (rule rwhile_safe [OF safe_round]) (use assms in auto)
  then show ?thesis by (rule safe_mono) auto
qed

lemma safe_end:
  assumes r: "round_ok S cap d r" and pb: "buffer_ok cap pb"
  shows "safe {} (\<lambda>d'. keeps S cap d 1 d' \<and> dec_idle d') (decoder_end lib pb r)"
proof (cases r)
  case (Next d2 pos fl)
  then have k2: "keeps S cap d 0 d2" "dec_idle d2" using r by (simp_all add: round_ok_def)
  have k3: "keeps S cap d 1 (decoder_pushInflight pb d2)" using keeps_push [OF k2(1) pb] by simp
  have i3: "dec_idle (decoder_pushInflight pb d2)"
    using k2(2) by (simp add: dec_idle_def decoder_pushInflight_def)
  have "safe {} (\<lambda>d'. keeps S cap d 1 d' \<and> dec_idle d')
      (decoder_flushInflight lib (decoder_pushInflight pb d2))"
    by (rule safe_mono [OF safe_flush [OF k3]]) (use i3 in \<open>auto simp: dec_idle_def\<close>)
  with k3 i3 show ?thesis by (simp add: Next decoder_end_def Let_def)
qed (use r in \<open>simp add: round_ok_def decoder_end_def\<close>)

lemma safe_payload:
  assumes k: "keeps S cap d 0 d1" and idle: "dec_idle d1" and pb: "buffer_ok cap pb"
    and "cap < 65536" and "codec_bounded lib cap" and "packet_source pb \<in> S"
  shows "safe ({Would_block, Diverges} \<union> overrun cap pb) (\<lambda>d'. keeps S cap d 1 d' \<and> dec_idle d')
    (decoder_payload lib pb found d1)"
proof -
  let ?E = "{Would_block, Diverges} \<union> overrun cap pb"
  have bail: "safe ?E (\<lambda>d'. keeps S cap d 1 d' \<and> dec_idle d')
      (decoder_clearStateAndFlushInflight lib pb d1)"
    by (rule safe_mono [OF safe_clear_flush [OF k pb]]) auto
  have "safe ?E (\<lambda>d'. keeps S cap d 1 d' \<and> dec_idle d')
      (rbind (decoder_frames lib pb (Next d1 p True)) (decoder_end lib pb))" for p
    by (rule safe_rbind [OF safe_frames safe_mono [OF safe_end]])
      (use assms in \<open>auto simp: round_ok_def\<close>)
  with bail show ?thesis by (cases found) (auto simp: decoder_payload_def intro: safe_if)
qed

lemma safe_decode:
  assumes mem: "dec_mem cap d" and idle: "dec_idle d" and pb: "buffer_ok cap pb"
    and cap: "cap < 65536" and lib: "codec_bounded lib cap" and src: "packet_source pb \<in> S"
  shows "safe ({Would_block, Diverges} \<union> overrun cap pb) (\<lambda>d'. keeps S cap d 1 d' \<and> dec_idle d') (decoder_decode lib pb d)"
proof (cases "Buffer_getDataSize pb < sizeof_PacketHeader")
  case True
  have "BufferPool_push pb (dec_available_buffer_pool d) =
      Inr ((dec_available_buffer_pool d)\<lparr>pool := pool (dec_available_buffer_pool d) @ [pb]\<rparr>)"
    using mem pb by (intro BufferPool_push_ok [of _ cap]) (simp_all add: dec_mem_def pool_ok_def)
  with True mem pb show ?thesis
    by (simp add: decoder_decode_def keeps_def dec_mem_def dec_count_def dec_idle_def pool_ok_def)
next
  case False
  note k = keeps_refl [OF mem]
  have big: "8 \<le> dataSize pb" using False by (simp add: Buffer_getDataSize_def sizeof_PacketHeader_def)
  then obtain bs where read: "Buffer_read 0 sizeof_PacketHeader pb = Inr bs"
    using Buffer_read_data [OF pb, of 0 8] by (simp add: sizeof_PacketHeader_def)
  have "unat (of_nat sizeof_PacketHeader :: u16) \<le> dataSize pb"
    using big by (simp add: sizeof_PacketHeader_def)
  note opts = safe_options [OF pb cap this]
  let ?E = "{Would_block, Diverges} \<union> overrun cap pb"
  have bail: "safe ?E (\<lambda>d'. keeps S cap d 1 d' \<and> dec_idle d')
      (decoder_clearStateAndFlushInflight lib pb d)"
    by (rule safe_mono [OF safe_clear_flush [OF k pb]]) auto
  have body: "safe ?E (\<lambda>d'. keeps S cap d 1 d' \<and> dec_idle d')
      (rbind (decoder_options pb n n (of_nat sizeof_PacketHeader) 0)
        (\<lambda>found. decoder_payload lib pb found d1))"
    if "keeps S cap d 0 d1 \<and> dec_idle d1" for d1 n
    by (rule safe_rbind [OF safe_mono [OF opts] safe_payload])
      (use that pb cap lib src in auto)
  show ?thesis
    unfolding decoder_decode_def read rbind_simps Let_def
    by (intro safe_if bail safe_rbind [OF safe_mono [OF safe_sequence [OF k idle]] body])
      (use False in auto)
qed

text \<open>A run over any packets.\<close>

lemma keeps_trans: "keeps S cap d0 m d1 \<Longrightarrow> keeps S cap d1 n d2 \<Longrightarrow> keeps S cap d0 (m + n) d2"
  by (auto simp: keeps_def)

lemma safe_decode_all:
  assumes "dec_mem cap d" and "dec_idle d" and "cap < 65536" and "codec_bounded lib cap"
    and "\<forall>pb \<in> set pbs. buffer_ok cap pb \<and> packet_source pb \<in> S"
    and E: "\<forall>pb \<in> set pbs. overrun cap pb \<subseteq> E"
  shows "safe ({Would_block, Diverges} \<union> E) (\<lambda>d'. keeps S cap d (length pbs) d' \<and> dec_idle d')
    (decoder_decode_all lib pbs d)"
  using assms(1,2,5,6) unfolding decoder_decode_all_def
proof (induction pbs arbitrary: d)
  case (Cons pb pbs)
  have pb: "buffer_ok cap pb" "packet_source pb \<in> S" using Cons.prems(3) by simp_all
  have first: "safe ({Would_block, Diverges} \<union> E) (\<lambda>d'. keeps S cap d 1 d' \<and> dec_idle d') (decoder_decode lib pb d)"
    by (rule safe_mono [OF safe_decode [OF Cons.prems(1,2) pb(1) assms(3,4) pb(2)]]) (use Cons.prems(4) in auto)
  show ?case unfolding rfold.simps
  proof (rule safe_rbind [OF first])
    fix d1 assume d1: "keeps S cap d 1 d1 \<and> dec_idle d1"
    then have "dec_mem cap d1" by (simp add: keeps_def)
    from Cons.IH [OF this] d1 Cons.prems(3,4)
    have "safe ({Would_block, Diverges} \<union> E) (\<lambda>d'. keeps S cap d1 (length pbs) d' \<and> dec_idle d')
        (rfold (decoder_decode lib) pbs d1)" by simp
    then show "safe ({Would_block, Diverges} \<union> E) (\<lambda>d'. keeps S cap d (length (pb # pbs)) d' \<and> dec_idle d')
        (rfold (decoder_decode lib) pbs d1)"
      by (rule safe_mono) (use d1 keeps_trans [of S cap d 1 d1] in auto)
  qed
qed (simp add: keeps_refl)

lemma PacketDecoder_mem:
  assumes "PacketDecoder g lib l2mtu tap avail = Inr d" and "pool_ok cap tap" and "pool_ok cap avail"
  shows "dec_mem cap d \<and> dec_idle d \<and> dec_l2mtu d = l2mtu \<and> dec_first_packet d \<and>
    dec_tx_buffer_pool d = tap"
  using assms
  by (auto simp: PacketDecoder_def BufferPool_pop_wait_Inr pool_ok_def dec_mem_def dec_idle_def
      decoder_clearState_def elim!: rbind_InrE)

lemma PacketDecoder_taken:
  "PacketDecoder g lib l2mtu tap avail = Inr d \<Longrightarrow>
    length (pool avail) = length (pool (dec_available_buffer_pool d)) + 2"
  by (auto simp: PacketDecoder_def BufferPool_pop_wait_Inr decoder_clearState_def elim!: rbind_InrE)

end
