(* ===== verification/Decoder_Limits.thy ===== *)
theory Decoder_Limits
  imports Decoder_Safe Decoder_Correct
begin

unbundle bit_operations_syntax

text \<open>
  What the decoder does on packets that it refuses or that it cannot use, as equations; and the
  packets on which it does not return or reads outside its buffer.
\<close>

section \<open>Clearing and releasing\<close>

text \<open>The buffers in flight go back to the pool and both decompressors start afresh.\<close>

definition released :: "'s codec_lib \<Rightarrow> 's decoder \<Rightarrow> 's decoder" where
  "released lib d =
     d\<lparr>dec_available_buffer_pool := (dec_available_buffer_pool d)\<lparr>pool :=
           pool (dec_available_buffer_pool d) @ dec_inflight_buffers d\<rparr>,
       dec_inflight_buffers := [],
       dec_compressorLZ4 := resetDecompressionStream lib (dec_compressorLZ4 d),
       dec_compressorZSTD := resetDecompressionStream lib (dec_compressorZSTD d)\<rparr>"

lemma flushInflight_eq:
  assumes "dec_mem cap d"
  shows "decoder_flushInflight lib d = Inr (released lib d)"
proof (cases "dec_inflight_buffers d = []")
  case True
  then show ?thesis by (simp add: decoder_flushInflight_def released_def)
next
  case False
  have "BufferPool_push_list (dec_inflight_buffers d) (dec_available_buffer_pool d) =
    Inr ((dec_available_buffer_pool d)\<lparr>pool := pool (dec_available_buffer_pool d)
           @ dec_inflight_buffers d\<rparr>, [])"
    using assms by (intro BufferPool_push_list_ok [of _ cap]) (simp_all add: dec_mem_def pool_ok_def)
  with False show ?thesis by (simp add: decoder_flushInflight_def released_def)
qed

lemma dec_mem_clear: "dec_mem cap d \<Longrightarrow> dec_mem cap (decoder_clearState d)"
  by (simp add: dec_mem_def decoder_clearState_def)

lemma drop_state_eq: "dec_mem cap d \<Longrightarrow> decoder_drop_state lib d = Inr (released lib (decoder_clearState d))"
  unfolding decoder_drop_state_def by (rule flushInflight_eq [OF dec_mem_clear])

lemma clear_flush_eq:
  assumes "dec_mem cap d" and "buffer_ok cap pb"
  shows "decoder_clearStateAndFlushInflight lib pb d =
    Inr (released lib (decoder_pushInflight pb (decoder_clearState d)))"
proof -
  have "dec_mem cap (decoder_pushInflight pb (decoder_clearState d))"
    using dec_mem_clear [OF assms(1)] assms(2) by (auto simp: dec_mem_def decoder_pushInflight_def)
  then show ?thesis unfolding decoder_clearStateAndFlushInflight_def by (rule flushInflight_eq)
qed

lemma dec_mem_released: "dec_mem cap d \<Longrightarrow> dec_mem cap (released lib d)"
  by (auto simp: dec_mem_def released_def pool_ok_def)

section \<open>The sequence number\<close>

text \<open>
  All the ways of the sequence check after the first packet: the next number, a number that is
  taken for a wrap, and a gap or an old packet, on which a frame that is half assembled is given up.
\<close>

lemma decoder_sequence_eq:
  assumes "dec_mem cap d" and "\<not> dec_first_packet d"
  shows "decoder_sequence lib seq d =
    Inr ((if seq = dec_last_sequence d + 1 \<or>
             seq < dec_last_sequence d + 1 \<and> is_sequence_wrapping seq (dec_last_sequence d)
          then d else released lib (decoder_clearState d))\<lparr>dec_last_sequence := seq\<rparr>)"
proof -
  let ?l = "dec_last_sequence d" and ?d = "released lib (decoder_clearState d)"
  have last: "dec_last_sequence ?d = ?l" by (simp add: released_def decoder_clearState_def)
  have run: "decoder_sequence lib seq d =
      rbind (if seq > ?l + 1 then Inr ?d else Inr d) (\<lambda>d2.
      rbind (if seq < dec_last_sequence d2 + 1
             then if is_sequence_wrapping seq (dec_last_sequence d2)
                  then Inr (d2\<lparr>dec_last_sequence := 0\<rparr>) else decoder_drop_state lib d2
             else Inr d2) (\<lambda>d3. Inr (d3\<lparr>dec_last_sequence := seq\<rparr>)))"
    using assms(2) by (simp add: decoder_sequence_def drop_state_eq [OF assms(1)] Let_def)
  consider (gap) "seq > ?l + 1" | (succ) "seq = ?l + 1" | (old) "seq < ?l + 1" by force
  then show ?thesis
  proof cases
    case gap
    then have "\<not> seq < ?l + 1" "seq \<noteq> ?l + 1" by auto
    with gap show ?thesis unfolding run by (simp add: last)
  next
    case succ
    then show ?thesis unfolding run by simp
  next
    case old
    then have "\<not> seq > ?l + 1" "seq \<noteq> ?l + 1" by auto
    with old show ?thesis unfolding run by (simp add: drop_state_eq [OF assms(1)])
  qed
qed

section \<open>Packets on which the loop does not end\<close>

text \<open>A state from which every round comes back to the same position.\<close>

lemma decode_stuck:
  assumes pb: "buffer_ok cap pb" "16 \<le> dataSize pb" "dataSize pb < 65536"
    and h: "PacketHeader_at (take 8 (buffer_data pb)) = h" "\<not> packet_header_bad h" "ph_opt_len h = 1"
    and opt: "PacketHeaderOption_at (slice 8 8 (buffer_data pb)) = opt" "po_reserved opt = 0"
      "OPTION_TYPE_IS_VALID opt"
    and d1: "decoder_sequence lib (be_to_cpu_32 (ph_sequence h)) d = Inr d1" and "I d1"
    and step: "\<And>d fl. I d \<Longrightarrow> \<exists>d' fl'. decoder_round lib pb (Next d 8 fl) = Inr (Next d' 8 fl') \<and> I d'"
  shows "decoder_decode lib pb d = Inl Diverges"
proof -
  have read0: "Buffer_read 0 8 pb = Inr (take 8 (buffer_data pb))"
    using Buffer_read_data [OF pb(1), of 0 8] pb(2) by (simp add: slice_def)
  have read8: "Buffer_read 8 8 pb = Inr (slice 8 8 (buffer_data pb))"
    using Buffer_read_data [OF pb(1), of 8 8] pb(2) by simp
  have left: "\<not> (of_nat (dataSize pb) - 8 :: u64) < 8" by (rule u64_left [OF pb(2,3)])
  have opts: "decoder_options pb 1 1 8 0 = Inr (Some 8)"
    using opt left read8
    by (simp add: One_nat_def sizeof_PacketHeaderOption_def Buffer_getDataSize_def Let_def del: of_nat_diff)
  have loop: "decoder_frames lib pb (Next d1 8 True) = Inl Diverges"
    unfolding decoder_frames_def
  proof (rule rwhile_diverges [where I = "\<lambda>r. \<exists>d fl. r = Next d 8 fl \<and> I d"])
    fix r :: "'a round_end"
    assume "\<exists>d fl. r = Next d 8 fl \<and> I d"
    then obtain d fl where r: "r = Next d 8 fl" "I d" by blast
    have "decoder_more pb r" using pb(2) by (simp add: r decoder_more_def Buffer_getDataSize_def)
    with step [OF r(2), of fl] r
    show "decoder_more pb r \<and> (\<exists>t. decoder_round lib pb r = Inr t \<and> (\<exists>d fl. t = Next d 8 fl \<and> I d))"
      by auto
  qed (use \<open>I d1\<close> in auto)
  have "unat (ph_opt_len h) = 1" using h(3) by simp
  then show ?thesis
    using pb(2) h(1,2) d1 opts loop
    by (simp add: decoder_decode_def Buffer_getDataSize_def sizeof_PacketHeader_def read0 decoder_payload_def Let_def)
qed

lemma decode_type_0:
  assumes mem: "dec_mem cap d" and idle: "dec_idle d"
    and pb: "buffer_ok cap pb" "16 \<le> dataSize pb" "dataSize pb < 65536"
    and h: "PacketHeader_at (take 8 (buffer_data pb)) = h" "\<not> packet_header_bad h" "ph_opt_len h = 1"
    and opt: "PacketHeaderOption_at (slice 8 8 (buffer_data pb)) = opt" "po_reserved opt = 0"
      "po_type opt = 0" "be_to_cpu_16 (po_packet_size opt) \<le> dec_l2mtu d"
  shows "decoder_decode lib pb d = Inl Diverges"
proof -
  have "safe {} (\<lambda>d'. keeps UNIV cap d 0 d' \<and> dec_idle d') (decoder_sequence lib (be_to_cpu_32 (ph_sequence h)) d)"
    by (rule safe_sequence [OF keeps_refl [OF mem] idle])
  then obtain d1 where d1: "decoder_sequence lib (be_to_cpu_32 (ph_sequence h)) d = Inr d1"
    "dec_l2mtu d1 = dec_l2mtu d"
    by (cases "decoder_sequence lib (be_to_cpu_32 (ph_sequence h)) d") (auto simp: keeps_def)
  have small: "\<not> dec_l2mtu d < be_to_cpu_16 (po_packet_size opt)" using opt(4) by simp
  have type0: "OPTION_TYPE_IS_VALID opt" "\<not> OPTION_TYPE_IS_PARTIAL opt"
    using type_0_valid [OF opt(3)] by simp_all
  have read8: "Buffer_read 8 8 pb = Inr (slice 8 8 (buffer_data pb))"
    using Buffer_read_data [OF pb(1), of 8 8] pb(2) by simp
  show ?thesis
  proof (rule decode_stuck [OF pb h opt(1,2) type0(1) d1(1), where I = "\<lambda>d'. d' = d1"])
    fix d' :: "'a decoder" and fl
    assume "d' = d1"
    then show "\<exists>d'' fl'. decoder_round lib pb (Next d' 8 fl) = Inr (Next d'' 8 fl') \<and> d'' = d1"
      using opt(1,3) small type0 d1(2)
      by (simp add: decoder_round_def read8 sizeof_PacketHeaderOption_def Let_def)
  qed simp
qed

text \<open>
  The next position of a part that is skipped is computed in 16 bits, and without a comparison with
  the size of the packet: a length of 65528 leads back to the same header.
\<close>

lemma decode_skip_wraps:
  assumes mem: "dec_mem cap d" and idle: "dec_idle d"
    and pb: "buffer_ok cap pb" "16 \<le> dataSize pb" "dataSize pb < 65536"
    and h: "PacketHeader_at (take 8 (buffer_data pb)) = h" "\<not> packet_header_bad h" "ph_opt_len h = 1"
    and opt: "PacketHeaderOption_at (slice 8 8 (buffer_data pb)) = opt" "po_reserved opt = 0"
      "po_type opt \<in> {1, 3}" "be_to_cpu_16 (po_packet_size opt) \<le> dec_l2mtu d"
      "po_part opt = 0" "be_to_cpu_16 (po_payload_length opt) = 65528"
  shows "decoder_decode lib pb d = Inl Diverges"
proof -
  have "safe {} (\<lambda>d'. keeps UNIV cap d 0 d' \<and> dec_idle d') (decoder_sequence lib (be_to_cpu_32 (ph_sequence h)) d)"
    by (rule safe_sequence [OF keeps_refl [OF mem] idle])
  then obtain d1 where d1: "decoder_sequence lib (be_to_cpu_32 (ph_sequence h)) d = Inr d1"
    "dec_mem cap d1 \<and> dec_l2mtu d1 = dec_l2mtu d"
    by (cases "decoder_sequence lib (be_to_cpu_32 (ph_sequence h)) d") (auto simp: keeps_def)
  have small: "\<not> dec_l2mtu d < be_to_cpu_16 (po_packet_size opt)" using opt(4) by simp
  have types: "OPTION_TYPE_IS_VALID opt" "OPTION_TYPE_IS_PARTIAL opt" "po_type opt \<noteq> 2"
    using opt(3) by (auto simp: OPTION_TYPE_IS_VALID_iff OPTION_TYPE_IS_PARTIAL_bit)
  have read8: "Buffer_read 8 8 pb = Inr (slice 8 8 (buffer_data pb))"
    using Buffer_read_data [OF pb(1), of 8 8] pb(2) by simp
  show ?thesis
  proof (rule decode_stuck [OF pb h opt(1,2) types(1) d1(1),
        where I = "\<lambda>d'. dec_mem cap d' \<and> dec_l2mtu d' = dec_l2mtu d"])
    fix d' :: "'a decoder" and fl
    assume d': "dec_mem cap d' \<and> dec_l2mtu d' = dec_l2mtu d"
    let ?d = "released lib (decoder_clearState d')"
    have "decoder_skip opt d'" using opt(5) by (simp add: decoder_skip_def)
    moreover have "dec_mem cap ?d" by (rule dec_mem_released [OF dec_mem_clear]) (use d' in simp)
    moreover have "dec_l2mtu ?d = dec_l2mtu d" using d' by (simp add: released_def decoder_clearState_def)
    moreover have "decoder_drop_state lib d' = Inr ?d" by (rule drop_state_eq [of cap]) (use d' in simp)
    ultimately show "\<exists>d'' fl'. decoder_round lib pb (Next d' 8 fl) = Inr (Next d'' 8 fl') \<and>
        dec_mem cap d'' \<and> dec_l2mtu d'' = dec_l2mtu d"
      using opt(1,3,6) small types d'
      by (intro exI [of _ ?d] exI [of _ False]) (simp add: decoder_round_def read8 sizeof_PacketHeaderOption_def Let_def decoder_partial_def)
  qed (use d1 in simp)
qed

section \<open>Packets whose end is read past\<close>

text \<open>A frame that is sent whole and not compressed.\<close>

abbreviation plain_segment :: "u8 list \<Rightarrow> seg" where
  "plain_segment f \<equiv> Complete (of_nat (length f)) 0 f"

lemma plain_segments:
  "\<forall>f \<in> set fs. length f \<le> l2 \<and> length f \<le> cap \<and> length f < 65536 \<Longrightarrow>
    \<exists>ad'. ldec_segs lib l2 cap (map plain_segment fs) ad = Some ad' \<and> ad_out ad' = ad_out ad @ fs"
proof (induction fs arbitrary: ad)
  case (Cons f fs)
  have "unat (of_nat (length f) :: u16) = length f" using Cons.prems by (intro unat_of_nat_u16) simp
  then have "\<exists>ad1. ldec_seg lib l2 cap (plain_segment f) ad = Some ad1 \<and> ad_out ad1 = ad_out ad @ [f]"
    using Cons.prems by (simp add: unpack_none is_compressed_def)
  then show ?case using Cons.IH Cons.prems by fastforce
qed simp

text \<open>The abstract decoder that a decoder in any state stands for.\<close>

lemma dec_rel_self:
  assumes "dec_mem cap d"
  shows "dec_rel cap (length (pool (dec_available_buffer_pool d))) (map buffer_data (pool (dec_tx_buffer_pool d))) d
    \<lparr>ad_part = dec_last_part d, ad_orig = dec_last_orig_packet_size d, ad_fmt = dec_last_format d,
     ad_acc = buffer_data (dec_tx_buffer d), ad_lz4 = dec_compressorLZ4 d, ad_zstd = dec_compressorZSTD d,
     ad_out = [], ad_flush = True\<rparr>"
  using assms by (simp add: dec_rel_def dec_mem_def)

lemma decode_overrun:
  assumes mem: "dec_mem cap d" and idle: "dec_idle d" and cap: "cap < 65536" and pb: "buffer_ok cap pb"
    and data: "buffer_data pb = packet_bytes (seq, map plain_segment fs) @ tail"
    and fs: "fs \<noteq> []" "\<forall>f \<in> set fs. length f \<le> unat (dec_l2mtu d) \<and> length f \<le> cap"
    and room: "length fs \<le> length (pool (dec_available_buffer_pool d))"
    and tail: "tail \<noteq> []" "cap + length tail < dataSize pb + 8"
  shows "decoder_decode lib pb d = Inl Out_of_bounds"
proof -
  let ?ad = "\<lparr>ad_part = dec_last_part d, ad_orig = dec_last_orig_packet_size d, ad_fmt = dec_last_format d,
     ad_acc = buffer_data (dec_tx_buffer d), ad_lz4 = dec_compressorLZ4 d, ad_zstd = dec_compressorZSTD d,
     ad_out = [], ad_flush = True\<rparr> :: 'a adec"
  let ?start = "adec_start (if number_gap (dec_number d) seq then adec_drop lib ?ad else ?ad)"
  have small: "\<forall>f \<in> set fs. length f \<le> unat (dec_l2mtu d) \<and> length f \<le> cap \<and> length f < 65536"
    using fs(2) cap by auto
  obtain ad' where ad': "ldec_segs lib (unat (dec_l2mtu d)) cap (map plain_segment fs) ?start = Some ad'"
    "ad_out ad' = ad_out ?start @ fs"
    using plain_segments [OF small] by blast
  have "idle_ok ?ad" using idle by (simp add: idle_ok_def dec_idle_def buffer_data_def)
  moreover have "length (ad_out ad') \<le> length (pool (dec_available_buffer_pool d))"
    using room ad'(2) by (simp add: adec_start_def)
  ultimately show ?thesis
    using dec_packet_overrun [OF dec_rel_self [OF mem] _ cap _ pb data ad'(1) _ tail] fs(1) by simp
qed

section \<open>Packets on which it does\<close>

text \<open>
  The headers of the frames as the loop visits them, from the position \<open>p\<close>: each has the type of a
  complete frame or of a part, and the next position does not wrap. The chain ends at the end of
  the data, or where a header would not lie in the buffer.
\<close>

inductive frame_chain :: "u8 list \<Rightarrow> nat \<Rightarrow> nat \<Rightarrow> bool" for bytes size where
  chain_end: "size \<le> p \<Longrightarrow> frame_chain bytes size p"
| chain_cut: "length bytes < p + 8 \<Longrightarrow> frame_chain bytes size p"
| chain_frame: "p < size \<Longrightarrow>
    po_type (PacketHeaderOption_at (slice p 8 bytes)) = 2 \<or>
      OPTION_TYPE_IS_PARTIAL (PacketHeaderOption_at (slice p 8 bytes)) \<Longrightarrow>
    q = p + 8 + unat (be_to_cpu_16 (po_payload_length (PacketHeaderOption_at (slice p 8 bytes)))) \<Longrightarrow>
    q < 65536 \<Longrightarrow> frame_chain bytes size q \<Longrightarrow> frame_chain bytes size p"

lemma bail_not_Next: "decoder_bail lib pb d \<noteq> Inr (Next d' pos fl)"
  by (auto simp: decoder_bail_def rbind_Inr_conv)

lemma complete_next:
  "decoder_complete lib pb opt pos d = Inr (Next d' pos' fl) \<Longrightarrow>
    pos' = pos + 8 + be_to_cpu_16 (po_payload_length opt)"
  by (auto simp: decoder_complete_def Let_def sizeof_PacketHeaderOption_def bail_not_Next
      elim!: rbind_InrE split: if_splits sum.splits)

lemma finish_next: "decoder_finish lib pb opt next_pos d = Inr (Next d' pos' fl) \<Longrightarrow> pos' = next_pos"
  by (auto simp: decoder_finish_def bail_not_Next elim!: rbind_InrE split: if_splits sum.splits)

lemma partial_next:
  "decoder_partial lib pb opt pos d = Inr (Next d' pos' fl) \<Longrightarrow>
    pos' = pos + 8 + be_to_cpu_16 (po_payload_length opt)"
  by (auto simp: decoder_partial_def Let_def sizeof_PacketHeaderOption_def bail_not_Next
      dest!: finish_next elim!: rbind_InrE split: if_splits)

lemma round_next:
  assumes "decoder_round lib pb (Next d pos fl) = Inr (Next d' pos' fl')"
    and "po_type opt = 2 \<or> OPTION_TYPE_IS_PARTIAL opt"
    and opt: "opt = PacketHeaderOption_at (slice (unat pos) 8 (content pb))"
  shows "pos' = pos + 8 + be_to_cpu_16 (po_payload_length opt)"
  using assms(1,2)
  by (auto simp: decoder_round_def sizeof_PacketHeaderOption_def Buffer_read_def Let_def bail_not_Next
      opt [symmetric] dest: complete_next partial_next split: if_splits)

lemma frames_return:
  assumes "frame_chain (content pb) (dataSize pb) p" and "p = unat pos"
    and "round_ok UNIV cap d0 (Next d pos fl)"
    and pb: "buffer_ok cap pb" "cap < 65536" "codec_bounded lib cap"
  shows "safe (insert Would_block (overrun cap pb)) (round_ok UNIV cap d0) (decoder_frames lib pb (Next d pos fl))"
  using assms(1-3)
proof (induction arbitrary: pos d fl rule: frame_chain.induct)
  case (chain_end p)
  then show ?case by (simp add: decoder_frames_def decoder_more_def Buffer_getDataSize_def)
next
  case (chain_cut p)
  show ?case
  proof (cases "decoder_more pb (Next d pos fl)")
    case True
    have "decoder_round lib pb (Next d pos fl) = Inl Out_of_bounds"
      using chain_cut by (simp add: decoder_round_def Buffer_read_def sizeof_PacketHeaderOption_def)
    moreover have "\<not> dataSize pb + 7 \<le> cap"
      using True chain_cut pb(1) by (simp add: decoder_more_def Buffer_getDataSize_def buffer_ok_def)
    ultimately show ?thesis using True by (simp add: decoder_frames_def rwhile_step)
  qed (use chain_cut in \<open>simp add: decoder_frames_def\<close>)
next
  case (chain_frame p q)
  let ?opt = "PacketHeaderOption_at (slice p 8 (content pb))"
  have more: "decoder_more pb (Next d pos fl)"
    using chain_frame by (simp add: decoder_more_def Buffer_getDataSize_def)
  note round = safe_round [OF chain_frame.prems(2) more pb UNIV_I]
  show ?case
  proof (cases "decoder_round lib pb (Next d pos fl)")
    case (Inr r)
    then have r: "round_ok UNIV cap d0 r" using round by simp
    show ?thesis
    proof (cases r)
      case (Next d1 pos1 fl1)
      have "pos1 = pos + 8 + be_to_cpu_16 (po_payload_length ?opt)"
        using Inr chain_frame by (intro round_next [of lib pb d pos fl d1 pos1 fl1]) (simp_all add: Next)
      then have "unat pos1 = q"
        using chain_frame by (simp add: unat_word_ariths)
      from chain_frame.IH [OF this [symmetric]] r Inr more show ?thesis
        by (simp add: decoder_frames_def rwhile_step Next)
    next
      case (Returned d1)
      then have "\<not> decoder_more pb r" by (simp add: decoder_more_def)
      with r Inr more show ?thesis by (simp add: decoder_frames_def rwhile_step)
    qed
  qed (use round more in \<open>simp add: decoder_frames_def rwhile_step\<close>)
qed

text \<open>Only the loop over the frames can fail to end.\<close>

lemma decode_divergesE:
  assumes mem: "dec_mem cap d" and idle: "dec_idle d" and pb: "buffer_ok cap pb"
    and cap: "cap < 65536"
    and div: "decoder_decode lib pb d = Inl Diverges"
  obtains d1 found where "let n = unat (ph_opt_len (PacketHeader_at (slice 0 8 (content pb))))
      in decoder_options pb n n (of_nat sizeof_PacketHeader) 0 = Inr found"
    and "decoder_payload lib pb found d1 = Inl Diverges" and "keeps UNIV cap d 0 d1 \<and> dec_idle d1"
proof -
  note k = keeps_refl [OF mem]
  have push: "BufferPool_push pb (dec_available_buffer_pool d) \<noteq> Inl Diverges"
    by (simp add: BufferPool_push_def)
  have big: "sizeof_PacketHeader \<le> dataSize pb"
  proof (rule ccontr)
    assume "\<not> sizeof_PacketHeader \<le> dataSize pb"
    with div push show False
      by (cases "BufferPool_push pb (dec_available_buffer_pool d)")
        (simp_all add: decoder_decode_def Buffer_getDataSize_def)
  qed
  then obtain bs where read: "Buffer_read 0 sizeof_PacketHeader pb = Inr bs"
    using Buffer_read_data [OF pb, of 0 8] by (simp add: sizeof_PacketHeader_def)
  let ?h = "PacketHeader_at bs" let ?n = "unat (ph_opt_len ?h)"
  have "\<not> packet_header_bad ?h"
    using div big clear_flush_eq [OF mem pb] by (auto simp: decoder_decode_def read Buffer_getDataSize_def Let_def)
  then have run: "rbind (decoder_sequence lib (be_to_cpu_32 (ph_sequence ?h)) d) (\<lambda>d1.
      rbind (decoder_options pb ?n ?n (of_nat sizeof_PacketHeader) 0) (\<lambda>found.
      decoder_payload lib pb found d1)) = Inl Diverges"
    using div big by (simp add: decoder_decode_def read Buffer_getDataSize_def Let_def)
  obtain d1 where d1: "decoder_sequence lib (be_to_cpu_32 (ph_sequence ?h)) d = Inr d1"
    "keeps UNIV cap d 0 d1 \<and> dec_idle d1"
    using safe_sequence [OF k idle, where lib = lib and seq = "be_to_cpu_32 (ph_sequence ?h)"]
    by (cases "decoder_sequence lib (be_to_cpu_32 (ph_sequence ?h)) d") auto
  have "unat (of_nat sizeof_PacketHeader :: u16) \<le> dataSize pb"
    using big by (simp add: sizeof_PacketHeader_def)
  from safe_options [OF pb cap this, of ?n ?n 0] obtain found where
    "decoder_options pb ?n ?n (of_nat sizeof_PacketHeader) 0 = Inr found"
    by (cases "decoder_options pb ?n ?n (of_nat sizeof_PacketHeader) 0") auto
  moreover have "bs = slice 0 8 (content pb)"
    using read by (simp add: Buffer_read_def sizeof_PacketHeader_def split: if_splits)
  ultimately show thesis using that [of found d1] d1 run by (simp add: Let_def)
qed

end
