(* ===== verification/Std_Map.thy ===== *)
theory Std_Map
  imports Prelude "HOL-Library.List_Lexorder"
begin

text \<open>
  \<open>std::map\<close> as the program uses it, an association list in the order of its keys: \<open>find\<close>, the
  assignment through \<open>operator[]\<close>, and the loop that erases while it iterates. The locale
  \<open>finite_map\<close> is what the forwarding database, the table of remote nodes and the buckets of
  received packets rely on.
\<close>

section \<open>The operations\<close>

type_synonym ('k, 'v) std_map = "('k \<times> 'v) list"

fun map_find :: "'k \<Rightarrow> ('k, 'v) std_map \<Rightarrow> 'v option" where
  "map_find k [] = None"
| "map_find k ((k', v) # xs) = (if k = k' then Some v else map_find k xs)"

fun map_assign :: "'k::linorder \<Rightarrow> 'v \<Rightarrow> ('k, 'v) std_map \<Rightarrow> ('k, 'v) std_map" where
  "map_assign k v [] = [(k, v)]"
| "map_assign k v ((k', v') # xs) =
     (if k < k' then (k, v) # (k', v') # xs
      else if k = k' then (k, v) # xs
      else (k', v') # map_assign k v xs)"

text \<open>\<open>for (it = begin; it != end;) if (p) it = erase(it); else ++it;\<close>\<close>

fun map_erase_if :: "('v \<Rightarrow> bool) \<Rightarrow> ('k, 'v) std_map \<Rightarrow> ('k, 'v) std_map" where
  "map_erase_if p [] = []"
| "map_erase_if p ((k, v) # xs) = (if p v then map_erase_if p xs else (k, v) # map_erase_if p xs)"

definition map_ok :: "('k::linorder, 'v) std_map \<Rightarrow> bool" where
  "map_ok m \<longleftrightarrow> sorted_wrt (<) (map fst m)"

section \<open>What they do\<close>

lemma map_ok_Cons: "map_ok ((k, v) # m) \<longleftrightarrow> (\<forall>k' \<in> fst ` set m. k < k') \<and> map_ok m"
  by (auto simp: map_ok_def)

lemma map_ok_Nil [simp]: "map_ok []"
  by (simp add: map_ok_def)

lemma map_find_in: "map_find k m = Some v \<Longrightarrow> (k, v) \<in> set m"
  by (induction k m rule: map_find.induct) (auto split: if_splits)

lemma map_find_None: "map_find k m = None \<longleftrightarrow> k \<notin> fst ` set m"
  by (induction k m rule: map_find.induct) auto

lemma map_find_iff: "map_ok m \<Longrightarrow> map_find k m = Some v \<longleftrightarrow> (k, v) \<in> set m"
proof (induction m)
  case (Cons x m)
  obtain k' v' where x: "x = (k', v')" by (cases x)
  have "\<forall>j \<in> fst ` set m. k' < j" using Cons.prems by (simp add: x map_ok_Cons)
  then have "(k', v) \<notin> set m" by force
  with Cons show ?case by (auto simp: x map_ok_Cons)
qed simp

lemma length_map_ok: "map_ok m \<Longrightarrow> length m = card (fst ` set m)"
  by (induction m) (force simp: map_ok_Cons card_insert_if)+

lemma map_find_assign:
  "map_ok m \<Longrightarrow> map_find k' (map_assign k v m) = (if k' = k then Some v else map_find k' m)"
proof (induction k v m rule: map_assign.induct)
  case (2 k v k0 v0 xs)
  then show ?case by (auto simp: map_ok_Cons)
qed simp

lemma keys_assign: "fst ` set (map_assign k v m) = insert k (fst ` set m)"
  by (induction k v m rule: map_assign.induct) auto

lemma map_ok_assign: "map_ok m \<Longrightarrow> map_ok (map_assign k v m)"
proof (induction k v m rule: map_assign.induct)
  case (2 k v k0 v0 xs)
  then show ?case by (auto simp: map_ok_Cons keys_assign)
qed (simp add: map_ok_def)

lemma keys_erase: "fst ` set (map_erase_if p m) \<subseteq> fst ` set m"
  by (induction p m rule: map_erase_if.induct) auto

lemma map_ok_erase: "map_ok m \<Longrightarrow> map_ok (map_erase_if p m)"
proof (induction p m rule: map_erase_if.induct)
  case (2 p k v xs)
  then show ?case using keys_erase [of p xs] by (fastforce simp: map_ok_Cons)
qed simp

lemma map_find_erase:
  "map_ok m \<Longrightarrow> map_find k (map_erase_if p m) =
    (case map_find k m of None \<Rightarrow> None | Some v \<Rightarrow> if p v then None else Some v)"
proof (induction p m rule: map_erase_if.induct)
  case (2 p k0 v xs)
  have "map_find k0 xs = None" using 2(3) by (auto simp: map_ok_Cons map_find_None)
  with 2 show ?case by (auto simp: map_ok_Cons)
qed simp

text \<open>All values changed by a function, and a number counted for every entry.\<close>

definition map_values :: "('v \<Rightarrow> 'w) \<Rightarrow> ('k, 'v) std_map \<Rightarrow> ('k, 'w) std_map" where
  "map_values f m = map (\<lambda>(k, v). (k, f v)) m"

definition map_total :: "('k \<Rightarrow> 'v \<Rightarrow> nat) \<Rightarrow> ('k, 'v) std_map \<Rightarrow> nat" where
  "map_total f m = (\<Sum>(k, v) \<leftarrow> m. f k v)"

lemma map_values_simps [simp]:
  "map_values f [] = []" "map_values f ((k, v) # m) = (k, f v) # map_values f m"
  by (simp_all add: map_values_def)

lemma map_total_simps [simp]:
  "map_total f [] = 0" "map_total f ((k, v) # m) = f k v + map_total f m"
  by (simp_all add: map_total_def)

lemma map_find_values: "map_find k (map_values f m) = map_option f (map_find k m)"
  by (induction k m rule: map_find.induct) auto

lemma map_values_values: "map_values g (map_values f m) = map_values (g \<circ> f) m"
  by (simp add: map_values_def case_prod_unfold)

lemma fst_map_values [simp]: "map fst (map_values f m) = map fst m"
  by (simp add: map_values_def case_prod_unfold)

lemma map_values_assign:
  "map_find k m = Some v \<Longrightarrow> f v' = f v \<Longrightarrow> map_ok m \<Longrightarrow> map_values f (map_assign k v' m) = map_values f m"
proof (induction k v' m rule: map_assign.induct)
  case (2 k v' k0 v0 m)
  have "k \<noteq> k0 \<Longrightarrow> k0 < k"
    using "2.prems"(1,3) by (auto simp: map_ok_Cons dest!: map_find_in split: if_splits)
  with 2 show ?case by (auto simp: map_ok_Cons split: if_splits)
qed simp

lemma map_total_cong: "(\<And>j w. j \<in> fst ` set m \<Longrightarrow> f' j w = f j w) \<Longrightarrow> map_total f' m = map_total f m"
  by (induction m) fastforce+

text \<open>An assignment to a key that is there changes the total by what it changes for the key.\<close>

lemma map_total_assign:
  assumes "map_ok m" and "map_find k m = Some v" and "\<And>j w. j \<noteq> k \<Longrightarrow> f' j w = f j w"
  shows "map_total f' (map_assign k v' m) + f k v = map_total f m + f' k v'"
  using assms
proof (induction k v' m rule: map_assign.induct)
  case (2 k v' k0 v0 m)
  show ?case
  proof (cases "k = k0")
    case True
    have "k \<notin> fst ` set m" using "2.prems"(1) by (auto simp: map_ok_Cons True)
    then have "map_total f' m = map_total f m"
      using "2.prems"(3) by (intro map_total_cong) (metis (no_types))
    with True "2.prems"(2) show ?thesis by simp
  next
    case False
    then have "k0 < k" using "2.prems"(1,2) by (auto simp: map_ok_Cons dest!: map_find_in)
    with False 2 show ?thesis by (auto simp: map_ok_Cons)
  qed
qed simp

lemma map_total_new:
  "map_find k m = None \<Longrightarrow> map_total f (map_assign k v m) = map_total f m + f k v"
  by (induction k v m rule: map_assign.induct) (auto split: if_splits)

section \<open>The interface\<close>

locale finite_map =
  fixes find :: "'k \<Rightarrow> 'm \<Rightarrow> 'v option"
    and assign :: "'k \<Rightarrow> 'v \<Rightarrow> 'm \<Rightarrow> 'm"
    and erase_if :: "('v \<Rightarrow> bool) \<Rightarrow> 'm \<Rightarrow> 'm"
    and inv :: "'m \<Rightarrow> bool"
  assumes find_assign: "inv m \<Longrightarrow> find k' (assign k v m) = (if k' = k then Some v else find k' m)"
    and find_erase: "inv m \<Longrightarrow> find k (erase_if p m) =
      (case find k m of None \<Rightarrow> None | Some v \<Rightarrow> if p v then None else Some v)"
    and inv_assign: "inv m \<Longrightarrow> inv (assign k v m)"
    and inv_erase: "inv m \<Longrightarrow> inv (erase_if p m)"
begin

lemma assign_twice: "inv m \<Longrightarrow> find j (assign k v (assign k w m)) = find j (assign k v m)"
  by (simp add: find_assign inv_assign)

lemma find_assign_all:
  assumes "inv m" and "distinct (map fst kvs)" and "(k, v) \<in> set kvs"
  shows "find k (fold (\<lambda>(k, v). assign k v) kvs m) = Some v"
proof -
  have other: "find k (fold (\<lambda>(k, v). assign k v) kvs m) = find k m"
    if "inv m" "k \<notin> fst ` set kvs" for k kvs m
    using that
  proof (induction kvs arbitrary: m)
    case (Cons x kvs)
    obtain j w where x: "x = (j, w)" by (cases x)
    from Cons have "find k (fold (\<lambda>(k, v). assign k v) kvs (assign j w m)) = find k (assign j w m)"
      by (intro Cons.IH) (auto simp: x inv_assign)
    with Cons.prems show ?case by (auto simp: x find_assign)
  qed simp
  show ?thesis using assms
  proof (induction kvs arbitrary: m)
    case (Cons x kvs)
    obtain j w where x: "x = (j, w)" by (cases x)
    show ?case
    proof (cases "(k, v) = x")
      case True
      then have "k \<notin> fst ` set kvs" using Cons.prems(2) by (auto simp: x)
      with other [of "assign j w m" k kvs] True Cons.prems(1) show ?thesis
        by (simp add: x inv_assign find_assign)
    next
      case False
      then show ?thesis using Cons by (auto simp: x inv_assign)
    qed
  qed simp
qed

lemma erased: "inv m \<Longrightarrow> find k (erase_if p m) = Some v \<longleftrightarrow> find k m = Some v \<and> \<not> p v"
  by (auto simp: find_erase split: option.splits)

end

interpretation stdmap: finite_map map_find map_assign map_erase_if map_ok
  by unfold_locales (simp_all add: map_find_assign map_find_erase map_ok_assign map_ok_erase)

end
