(* ===== verification/Fdb.thy ===== *)
theory Fdb
  imports Std_Map "HOL-Library.Signed_Division"
begin

text \<open>
  The forwarding database (\<open>class FDB\<close>, \<open>src/fdb.cpp\<close>, and \<open>class FDBEntry\<close>, \<open>src/fdb_entry.hpp\<close>):
  which Ethernet address has been seen behind which remote node. A remote node is known by its
  key; no key is the local end. The clock (nanoseconds of \<open>steady_clock\<close>) is an argument.
\<close>

section \<open>Entries\<close>

type_synonym mac = "u8 list"
type_synonym node_key = "u8 list"

record fdb_entry =
  fe_key :: mac
  fe_dest :: "node_key option"
  fe_last_seen :: int

definition FDBEntry :: "int \<Rightarrow> mac \<Rightarrow> node_key option \<Rightarrow> fdb_entry" where
  "FDBEntry now mac dest = \<lparr>fe_key = mac, fe_dest = dest, fe_last_seen = now\<rparr>"

definition FDBEntry_isLocal :: "fdb_entry \<Rightarrow> bool" where
  "FDBEntry_isLocal e \<longleftrightarrow> fe_dest e = None"

definition FDBEntry_updateLastSeen :: "int \<Rightarrow> fdb_entry \<Rightarrow> fdb_entry" where
  "FDBEntry_updateLastSeen now e = e\<lparr>fe_last_seen := now\<rparr>"

section \<open>The database\<close>

type_synonym fdb = "(mac, fdb_entry) std_map"

definition FDB_add :: "int \<Rightarrow> mac \<Rightarrow> node_key option \<Rightarrow> fdb \<Rightarrow> fdb_entry \<times> fdb" where
  "FDB_add now mac dest fdb =
     (case map_find mac fdb of
        Some e \<Rightarrow> (e, fdb)
      | None \<Rightarrow> (let e = FDBEntry now mac dest in (e, map_assign mac e fdb)))"

definition FDB_get :: "mac \<Rightarrow> fdb \<Rightarrow> fdb_entry option" where
  "FDB_get mac fdb = map_find mac fdb"

definition FDB_getRemoteNode :: "mac \<Rightarrow> fdb \<Rightarrow> fdb_entry option" where
  "FDB_getRemoteNode mac fdb = map_find mac fdb"

text \<open>The age of an entry in seconds: \<open>duration_cast\<close> truncates.\<close>

definition entry_age :: "int \<Rightarrow> fdb_entry \<Rightarrow> int" where
  "entry_age now e = (now - fe_last_seen e) sdiv 1000000000"

definition FDB_expireEntries :: "int \<Rightarrow> int \<Rightarrow> fdb \<Rightarrow> fdb" where
  "FDB_expireEntries now expire_time fdb = map_erase_if (\<lambda>e. entry_age now e > expire_time) fdb"

text \<open>
  What both readers do with the source address of a frame: refresh the entry, or add one. The
  entry the database holds is the object that \<open>get\<close> returns, so the refresh changes it there.
\<close>

definition FDB_learn :: "int \<Rightarrow> mac \<Rightarrow> node_key option \<Rightarrow> fdb \<Rightarrow> fdb" where
  "FDB_learn now mac dest fdb =
     (case FDB_get mac fdb of
        Some e \<Rightarrow> map_assign mac (FDBEntry_updateLastSeen now e) fdb
      | None \<Rightarrow> snd (FDB_add now mac dest fdb))"

section \<open>The invariant\<close>

definition fdb_ok :: "fdb \<Rightarrow> bool" where
  "fdb_ok fdb \<longleftrightarrow> map_ok fdb \<and> (\<forall>mac e. map_find mac fdb = Some e \<longrightarrow> fe_key e = mac)"

lemma fdb_ok_Nil [simp]: "fdb_ok []"
  by (simp add: fdb_ok_def)

lemma fdb_ok_add: "fdb_ok fdb \<Longrightarrow> fdb_ok (snd (FDB_add now mac dest fdb))"
  by (auto simp: fdb_ok_def FDB_add_def Let_def FDBEntry_def stdmap.find_assign stdmap.inv_assign
      split: option.splits if_splits)

lemma fdb_ok_expire: "fdb_ok fdb \<Longrightarrow> fdb_ok (FDB_expireEntries now t fdb)"
  by (auto simp: fdb_ok_def FDB_expireEntries_def stdmap.erased stdmap.inv_erase)

lemma fdb_ok_learn: "fdb_ok fdb \<Longrightarrow> fdb_ok (FDB_learn now mac dest fdb)"
  using fdb_ok_add [of fdb now mac dest]
  by (auto simp: fdb_ok_def FDB_learn_def FDB_get_def FDBEntry_updateLastSeen_def
      stdmap.find_assign stdmap.inv_assign split: option.splits if_splits)

section \<open>What the operations do\<close>

lemma FDB_get_learn:
  assumes "fdb_ok fdb"
  shows "FDB_get m (FDB_learn now mac dest fdb) =
    (if m = mac then
       (case FDB_get mac fdb of
          None \<Rightarrow> Some (FDBEntry now mac dest)
        | Some e \<Rightarrow> Some (e\<lparr>fe_last_seen := now\<rparr>))
     else FDB_get m fdb)"
  using assms
  by (auto simp: FDB_get_def FDB_learn_def FDB_add_def Let_def fdb_ok_def FDBEntry_updateLastSeen_def
      stdmap.find_assign split: option.splits)

text \<open>A sequence of frames: the destination is the first that was learned, the time the last.\<close>

lemma FDB_get_learns:
  "fdb_ok fdb \<Longrightarrow> own = filter (\<lambda>(_, mac, _). mac = m) ls \<Longrightarrow>
   FDB_get m (fold (\<lambda>(now, mac, dest). FDB_learn now mac dest) ls fdb) =
    (case FDB_get m fdb of
       Some e \<Rightarrow> Some (e\<lparr>fe_last_seen := last (fe_last_seen e # map fst own)\<rparr>)
     | None \<Rightarrow> (case own of [] \<Rightarrow> None
         | (now, _, dest) # rest \<Rightarrow> Some (FDBEntry (last (now # map fst rest)) m dest)))"
proof (induction ls arbitrary: fdb own)
  case (Cons l ls)
  obtain now mac dest where l: "l = (now, mac, dest)" by (cases l)
  show ?case
    using Cons.IH [OF fdb_ok_learn [OF Cons.prems(1)] refl, of now mac dest] Cons.prems
      FDB_get_learn [OF Cons.prems(1), of m now mac dest]
    by (cases "FDB_get m fdb") (auto simp: l FDBEntry_def)
qed (simp split: option.split)

lemma FDB_get_expire:
  "fdb_ok fdb \<Longrightarrow> FDB_get m (FDB_expireEntries now t fdb) = Some e \<longleftrightarrow>
    FDB_get m fdb = Some e \<and> entry_age now e \<le> t"
  by (auto simp: FDB_get_def FDB_expireEntries_def fdb_ok_def stdmap.erased)

lemma entry_age_nonneg: "fe_last_seen e \<le> now \<Longrightarrow> entry_age now e = (now - fe_last_seen e) div 1000000000"
  by (cases "fe_last_seen e = now") (simp_all add: entry_age_def signed_divide_int_def)

end
