(* ===== verification/Packet_Switch.thy ===== *)
theory Packet_Switch
  imports Remote_Node Fdb
begin

unbundle bit_operations_syntax

text \<open>
  The packet switch (\<open>class PacketSwitch\<close>, \<open>src/packet_switch.cpp\<close>): its construction from the
  configuration, and the bodies of its threads' loops. The TAP device reads frames and takes
  frames, the socket gives messages with their source; the remote nodes are in a map by their key,
  in which a null pointer is \<^const>\<open>None\<close>.
\<close>

section \<open>The object\<close>

definition SETH_BUFFER_COUNT :: nat where "SETH_BUFFER_COUNT = 5000"
definition SETH_MAX_RECVMM_MESSAGES :: nat where "SETH_MAX_RECVMM_MESSAGES = 256"
definition SETH_MIN_TXSIZE :: int where "SETH_MIN_TXSIZE = 1200"
definition SETH_MAX_TXSIZE :: int where "SETH_MAX_TXSIZE = 9218"
definition SETH_MIN_MTU_SIZE :: int where "SETH_MIN_MTU_SIZE = 1200"
definition SETH_MAX_MTU_SIZE :: int where "SETH_MAX_MTU_SIZE = 9218"

type_synonym node_map = "(node_key, remote_node option) std_map"

record packet_switch =
  sw_mtu :: int
  sw_tx_size :: int
  sw_l2mtu :: u16
  sw_packet_format :: u8
  sw_src_addr :: sockaddr
  sw_port :: int
  sw_fdb :: fdb
  sw_fdb_expire_time :: int
  sw_remote_nodes :: node_map
  sw_available_rx_buffer_pool :: packet_pool
  sw_available_tx_buffer_pool :: packet_pool
  sw_tap_write_pool :: packet_pool

definition get_l2mtu_from_mtu :: "u16 \<Rightarrow> u16" where
  "get_l2mtu_from_mtu mtu = mtu + (14 + 8)"

text \<open>The checks of the constructor, and the sizes it derives.\<close>

definition PacketSwitch_check :: "int \<Rightarrow> int \<Rightarrow> unit result" where
  "PacketSwitch_check mtu tx_size =
     (if mtu > SETH_MAX_MTU_SIZE then
        Inl (Config_error (''Maximum MTU is '' @ to_string SETH_MAX_MTU_SIZE @ ''!''))
      else if mtu < SETH_MIN_MTU_SIZE then
        Inl (Config_error (''Minimum MTU is '' @ to_string SETH_MIN_MTU_SIZE @ ''!''))
      else if tx_size > SETH_MAX_TXSIZE then
        Inl (Config_error (''Maximum TX_SIZE is '' @ to_string SETH_MAX_TXSIZE @ ''!''))
      else if tx_size < SETH_MIN_TXSIZE then
        Inl (Config_error (''Minimum TX_SIZE is '' @ to_string SETH_MIN_TXSIZE @ ''!''))
      else if tx_size > mtu then
        Inl (Config_error (''TX_SIZE '' @ to_string tx_size @ '' cannot be greater than MTU is ''
               @ to_string mtu @ ''!''))
      else Inr ())"

definition sw_buffer_size :: "u16 \<Rightarrow> int" where
  "sw_buffer_size l2mtu = uint l2mtu + uint l2mtu div 10"

text \<open>
  \<open>int mtu_mutiplier = mtu / tx_size > 0\<close>: the comparison binds tighter than the assignment, so
  the multiplier is 1 when the condition holds.
\<close>

definition sw_buffer_count :: "int \<Rightarrow> int \<Rightarrow> nat \<Rightarrow> nat" where
  "sw_buffer_count mtu tx_size nodes =
     (let buffer_count = SETH_BUFFER_COUNT * nodes;
          mtu_mutiplier = (if mtu div tx_size > 0 then 1 else 0)
      in if mtu_mutiplier \<noteq> 0 then buffer_count * mtu_mutiplier else buffer_count)"

definition PacketSwitch ::
    "sockaddr \<Rightarrow> u8 list \<Rightarrow> int \<Rightarrow> int \<Rightarrow> int \<Rightarrow> u8 \<Rightarrow> sockaddr \<Rightarrow> sockaddr list \<Rightarrow> int \<Rightarrow> packet_switch result"
where
  "PacketSwitch garbage garbage_key udp_socket mtu tx_size packet_format src_addr dst_addrs port =
     rbind (PacketSwitch_check mtu tx_size) (\<lambda>_.
     let l2mtu = get_l2mtu_from_mtu (word_of_int mtu);
         bsize = sw_buffer_size l2mtu;
         bcount = sw_buffer_count mtu tx_size (length dst_addrs);
         filled = BufferPool_filled (PacketBuffer garbage) (nat bsize) bcount;
         node = RemoteNode garbage_key udp_socket
     in Inr \<lparr>sw_mtu = mtu, sw_tx_size = tx_size, sw_l2mtu = l2mtu, sw_packet_format = packet_format,
             sw_src_addr = src_addr, sw_port = port, sw_fdb = [], sw_fdb_expire_time = 300,
             sw_remote_nodes = fold (\<lambda>addr nodes.
               let rn = node addr tx_size (uint l2mtu) bsize packet_format
               in map_assign (rn_node_key rn) (Some rn) nodes) dst_addrs [],
             sw_available_rx_buffer_pool = filled, sw_available_tx_buffer_pool = filled,
             sw_tap_write_pool = BufferPool (nat bsize)\<rparr>)"

section \<open>Frames from the TAP device\<close>

definition mac_is_group :: "mac \<Rightarrow> bool" where
  "mac_is_group m \<longleftrightarrow> m ! 0 AND 1 \<noteq> 0"

definition frame_dst_mac :: "packet_buffer \<Rightarrow> mac result" where
  "frame_dst_mac b = Buffer_read 0 6 b"

definition frame_src_mac :: "packet_buffer \<Rightarrow> mac result" where
  "frame_src_mac b = Buffer_read 6 6 b"

text \<open>Push a buffer to the encoder pool of a node; a null pointer is not checked for.\<close>

definition push_to_encoder :: "packet_buffer \<Rightarrow> remote_node option \<Rightarrow> remote_node option result" where
  "push_to_encoder b node =
     (case node of
        None \<Rightarrow> Inl Null_pointer
      | Some n \<Rightarrow> rbind (BufferPool_push b (rn_encoder_pool n)) (\<lambda>p.
                  Inr (Some (n\<lparr>rn_encoder_pool := p\<rparr>))))"

text \<open>A frame for everybody: a copy for every node but the last, which gets the buffer itself.\<close>

fun broadcast :: "packet_buffer \<Rightarrow> node_map \<Rightarrow> packet_pool \<Rightarrow> (node_map \<times> packet_pool) result" where
  "broadcast b [] avail = Inr ([], avail)"
| "broadcast b [(k, n)] avail = rbind (push_to_encoder b n) (\<lambda>n'. Inr ([(k, n')], avail))"
| "broadcast b ((k, n) # x # xs) avail =
     rbind (BufferPool_pop_wait avail) (\<lambda>(c, avail1).
     rbind (push_to_encoder (PacketBuffer_assign b c) n) (\<lambda>n'.
     rbind (broadcast b (x # xs) avail1) (\<lambda>(rest, avail2).
     Inr ((k, n') # rest, avail2))))"

text \<open>
  One read from the device into the buffer \<open>b\<close>. The thread goes on with the same buffer
  (\<open>Restart\<close>) when the frame is dropped, otherwise it takes a new one. A read that fails or that
  returns nothing ends the program with exit code 1; \<open>frame = []\<close> stands for both.
\<close>

datatype tap_read_end = Restart packet_buffer packet_switch | Handled packet_switch

definition tap_read_frame ::
    "int \<Rightarrow> u8 list \<Rightarrow> packet_buffer \<Rightarrow> packet_switch \<Rightarrow> tap_read_end result"
where
  "tap_read_frame now frame b sw =
     (if frame = [] then Inl (Process_exit 1) else
     rbind (Buffer_write 0 frame b) (\<lambda>b1.
     rbind (Buffer_setDataSize (length frame) b1) (\<lambda>b2.
     rbind (frame_src_mac b2) (\<lambda>src.
     rbind (frame_dst_mac b2) (\<lambda>dst.
     if mac_is_group src then Inr (Restart b2 sw)
     else
       let sw1 = sw\<lparr>sw_fdb := FDB_learn now src None (sw_fdb sw)\<rparr> in
       if mac_is_group dst then
         rbind (broadcast b2 (sw_remote_nodes sw1) (sw_available_rx_buffer_pool sw1)) (\<lambda>(nodes, avail).
         Inr (Handled (sw1\<lparr>sw_remote_nodes := nodes, sw_available_rx_buffer_pool := avail\<rparr>)))
       else
         (case FDB_getRemoteNode dst (sw_fdb sw1) of
            None \<Rightarrow> Inr (Restart b2 sw1)
          | Some e \<Rightarrow>
              (case fe_dest e of
                 None \<Rightarrow> Inl Null_pointer
               | Some k \<Rightarrow>
                   rbind (push_to_encoder b2 (case map_find k (sw_remote_nodes sw1) of
                            None \<Rightarrow> None | Some n \<Rightarrow> n)) (\<lambda>n.
                   Inr (Handled (sw1\<lparr>sw_remote_nodes := map_assign k n (sw_remote_nodes sw1)\<rparr>))))))))))"

definition tap_read_round :: "int \<Rightarrow> u8 list \<Rightarrow> packet_switch \<Rightarrow> tap_read_end result" where
  "tap_read_round now frame sw =
     rbind (BufferPool_pop_wait (sw_available_rx_buffer_pool sw)) (\<lambda>(b, avail).
     tap_read_frame now frame b (sw\<lparr>sw_available_rx_buffer_pool := avail\<rparr>))"

section \<open>Messages from the socket\<close>

text \<open>
  What becomes of the buffer a message was received into: its node's key when the message is
  accepted, or nothing when it is dropped, and the buffer then stays where it is.
\<close>

definition socket_accept ::
    "u8 list \<Rightarrow> node_map \<Rightarrow> nat \<Rightarrow> packet_buffer \<Rightarrow> (packet_buffer \<times> node_key option) result"
where
  "socket_accept garbage nodes msg_len b =
     (case packet_source b of
        Sockaddr_other f \<Rightarrow> Inr (b, None)
      | _ \<Rightarrow>
        (let key = get_key_from_sockaddr garbage (packet_source b) in
         case map_find key nodes of
           None \<Rightarrow> Inr (b, None)
         | Some _ \<Rightarrow>
             rbind (Buffer_setDataSize msg_len b) (\<lambda>b1.
             if Buffer_getDataSize b1 < sizeof_PacketHeader + sizeof_PacketHeaderOption
             then Inr (b1, None)
             else rbind (Buffer_read 0 sizeof_PacketHeader b1) (\<lambda>bs.
               let h = PacketHeader_at bs
               in if packet_header_bad h then Inr (b1, None)
                  else Inr (PacketBuffer_setPacketSequenceKey (be_to_cpu_32 (ph_sequence h)) b1,
                            Some key)))))"

text \<open>\<open>recvmmsg\<close> has written the message and its source into the buffer.\<close>

definition socket_receive :: "sockaddr \<times> u8 list \<Rightarrow> packet_buffer \<Rightarrow> packet_buffer result" where
  "socket_receive = (\<lambda>(addr, bytes) b.
     rbind (Buffer_write 0 bytes b) (\<lambda>b1. Inr (PacketBuffer_setPacketSource addr b1)))"

type_synonym received = "(node_key, packet_buffer list) std_map"

definition received_add :: "node_key \<Rightarrow> packet_buffer \<Rightarrow> received \<Rightarrow> received" where
  "received_add k b r =
     map_assign k ((case map_find k r of None \<Rightarrow> [] | Some bs \<Rightarrow> bs) @ [b]) r"

fun socket_messages ::
    "u8 list \<Rightarrow> node_map \<Rightarrow> (sockaddr \<times> u8 list) list \<Rightarrow> packet_buffer list \<Rightarrow> received \<Rightarrow> packet_pool \<Rightarrow>
       (packet_buffer list \<times> received \<times> packet_pool) result"
where
  "socket_messages g nodes (m # ms) (slot # slots) r avail =
     rbind (socket_receive m slot) (\<lambda>b.
     rbind (socket_accept g nodes (length (snd m)) b) (\<lambda>(b1, key).
     rbind (case key of
              None \<Rightarrow> Inr (b1, r, avail)
            | Some k \<Rightarrow> rbind (BufferPool_pop_wait avail) (\<lambda>(fresh, avail').
                        Inr (fresh, received_add k b1 r, avail'))) (\<lambda>(slot', r', avail').
     rbind (socket_messages g nodes ms slots r' avail') (\<lambda>(slots', r'', avail'').
     Inr (slot' # slots', r'', avail'')))))"
| "socket_messages g nodes [] slots r avail = Inr (slots, r, avail)"
| "socket_messages g nodes (m # ms) [] r avail = Inr ([], r, avail)"

text \<open>Hand the received buffers to the nodes' decoders; the lists stay in the map, empty.\<close>

fun socket_hand_over :: "received \<Rightarrow> node_map \<Rightarrow> (received \<times> node_map) result" where
  "socket_hand_over [] nodes = Inr ([], nodes)"
| "socket_hand_over ((k, bs) # r) nodes =
     (case map_find k nodes of
        Some (Some n) \<Rightarrow>
          rbind (BufferPool_push_list bs (rn_decoder_pool n)) (\<lambda>(p, bs').
          rbind (socket_hand_over r (map_assign k (Some (n\<lparr>rn_decoder_pool := p\<rparr>)) nodes))
            (\<lambda>(r', nodes'). Inr ((k, bs') # r', nodes')))
      | _ \<Rightarrow> Inl Null_pointer)"

definition socket_read_round ::
    "u8 list \<Rightarrow> (sockaddr \<times> u8 list) list \<Rightarrow> packet_buffer list \<times> received \<times> packet_switch \<Rightarrow>
       (packet_buffer list \<times> received \<times> packet_switch) result"
where
  "socket_read_round g ms = (\<lambda>(slots, r, sw).
     rbind (socket_messages g (sw_remote_nodes sw) ms slots r (sw_available_tx_buffer_pool sw))
       (\<lambda>(slots', r', avail).
     rbind (socket_hand_over r' (sw_remote_nodes sw)) (\<lambda>(r'', nodes).
     Inr (slots', r'', sw\<lparr>sw_remote_nodes := nodes, sw_available_tx_buffer_pool := avail\<rparr>))))"

section \<open>Frames to the TAP device\<close>

text \<open>
  One frame that a decoder has handed over: what is written to the device, if anything. The
  lookup \<open>remote_nodes[node_key]\<close> inserts a null pointer for a key that is not there. \<open>write_ok\<close>:
  does the write succeed?
\<close>

definition tap_write_frame ::
    "u8 list \<Rightarrow> int \<Rightarrow> bool \<Rightarrow> bool \<Rightarrow> packet_buffer \<Rightarrow> packet_switch \<Rightarrow>
       (u8 list option \<times> packet_switch) result"
where
  "tap_write_frame g now online write_ok b sw =
     rbind (frame_src_mac b) (\<lambda>src.
     if mac_is_group src then Inr (None, sw)
     else
       let sw1 = (case FDB_get src (sw_fdb sw) of
                    Some e \<Rightarrow> sw\<lparr>sw_fdb := FDB_learn now src None (sw_fdb sw)\<rparr>
                  | None \<Rightarrow>
                      (let key = get_key_from_sockaddr g (packet_source b);
                           nodes = (case map_find key (sw_remote_nodes sw) of
                                      None \<Rightarrow> map_assign key None (sw_remote_nodes sw)
                                    | Some _ \<Rightarrow> sw_remote_nodes sw);
                           dest = (case map_find key nodes of Some (Some n) \<Rightarrow> Some key | _ \<Rightarrow> None)
                       in sw\<lparr>sw_remote_nodes := nodes, sw_fdb := FDB_learn now src dest (sw_fdb sw)\<rparr>))
       in if \<not> online then Inr (None, sw1)
          else rbind (Buffer_read 0 (Buffer_getDataSize b) b) (\<lambda>frame.
            if \<not> write_ok then Inl (Runtime_error ''Error writing TAP device'')
            else Inr (Some frame, sw1)))"

text \<open>
  All frames of a round. The clock, the flag and the outcome of the write are taken anew for every
  frame: \<open>at i\<close> are those of the frame \<open>i\<close>.
\<close>

fun tap_write_frames ::
    "u8 list \<Rightarrow> (nat \<Rightarrow> int \<times> bool \<times> bool) \<Rightarrow> packet_buffer list \<Rightarrow> packet_switch \<Rightarrow>
       (u8 list list \<times> packet_switch) result"
where
  "tap_write_frames g at [] sw = Inr ([], sw)"
| "tap_write_frames g at (b # bs) sw =
     rbind (let (now, online, write_ok) = at 0 in tap_write_frame g now online write_ok b sw) (\<lambda>(out, sw1).
     rbind (tap_write_frames g (\<lambda>i. at (Suc i)) bs sw1) (\<lambda>(outs, sw2).
     Inr ((case out of None \<Rightarrow> outs | Some f \<Rightarrow> f # outs), sw2)))"

definition tap_write_round ::
    "u8 list \<Rightarrow> (nat \<Rightarrow> int \<times> bool \<times> bool) \<Rightarrow> packet_pool option \<Rightarrow> packet_switch \<Rightarrow>
       (u8 list list \<times> packet_switch) result"
where
  "tap_write_round g at woken sw =
     rbind (BufferPool_wait woken [] (sw_tap_write_pool sw)) (\<lambda>(buffers, p).
     rbind (tap_write_frames g at buffers (sw\<lparr>sw_tap_write_pool := p\<rparr>))
       (\<lambda>(outs, sw1).
     rbind (BufferPool_push_list buffers (sw_available_tx_buffer_pool sw1)) (\<lambda>(avail, _).
     Inr (outs, sw1\<lparr>sw_available_tx_buffer_pool := avail\<rparr>))))"

section \<open>Maintenance\<close>

definition fdb_round :: "int \<Rightarrow> packet_switch \<Rightarrow> packet_switch" where
  "fdb_round now sw = sw\<lparr>sw_fdb := FDB_expireEntries now 300 (sw_fdb sw)\<rparr>"

end
