(* ===== verification/Switch_Correct.thy ===== *)
theory Switch_Correct
  imports Packet_Switch
begin

unbundle bit_operations_syntax

text \<open>
  What the packet switch does: which configurations its constructor accepts and the sizes that
  follow, an invariant of its state that the threads' rounds keep, where frames go, and what is
  learned from them.
\<close>

section \<open>The configuration\<close>

lemma switch_limits:
  "SETH_MIN_MTU_SIZE = 1200" "SETH_MAX_MTU_SIZE = 9218" "SETH_MIN_TXSIZE = 1200" "SETH_MAX_TXSIZE = 9218"
  by (simp_all add: SETH_MIN_MTU_SIZE_def SETH_MAX_MTU_SIZE_def SETH_MIN_TXSIZE_def SETH_MAX_TXSIZE_def)

lemma PacketSwitch_check_iff:
  "PacketSwitch_check mtu tx_size = Inr () \<longleftrightarrow>
     1200 \<le> mtu \<and> mtu \<le> 9218 \<and> 1200 \<le> tx_size \<and> tx_size \<le> mtu"
  by (auto simp: PacketSwitch_check_def switch_limits)

lemma PacketSwitch_check_error:
  "PacketSwitch_check mtu tx_size = Inl e \<Longrightarrow> \<exists>msg. e = Config_error msg"
  by (auto simp: PacketSwitch_check_def split: if_splits)

lemma l2_value_of:
  assumes "1200 \<le> mtu" and "mtu \<le> 9218"
  shows "unat (get_l2mtu_from_mtu (word_of_int mtu)) = nat mtu + 22"
proof -
  obtain n where n: "mtu = int n" "n \<le> 9218" using assms by (intro that [of "nat mtu"]) auto
  have "(of_nat n + 22 :: u16) = of_nat (n + 22)" by simp
  moreover have "unat (of_nat (n + 22) :: u16) = n + 22" using n(2) by (intro unat_of_nat_u16) simp
  ultimately show ?thesis using n(1) by (simp add: get_l2mtu_from_mtu_def)
qed

lemma sw_buffer_size_value: "nat (sw_buffer_size l2mtu) = unat l2mtu + unat l2mtu div 10"
proof -
  have u: "uint l2mtu = int (unat l2mtu)" by simp
  have "int (unat l2mtu) + int (unat l2mtu) div 10 = int (unat l2mtu + unat l2mtu div 10)"
    by (simp only: of_nat_add zdiv_int of_nat_numeral)
  then show ?thesis unfolding sw_buffer_size_def u by (simp only: nat_int)
qed

lemma PacketSwitch_cap:
  assumes "PacketSwitch g gk s mtu tx fmt src dsts port = Inr sw"
  shows "1342 \<le> nat (sw_buffer_size (sw_l2mtu sw))" and "nat (sw_buffer_size (sw_l2mtu sw)) \<le> 10164"
    and "unat (sw_l2mtu sw) = nat mtu + 22"
proof -
  have "PacketSwitch_check mtu tx = Inr ()" and l2: "sw_l2mtu sw = get_l2mtu_from_mtu (word_of_int mtu)"
    using assms by (auto simp: PacketSwitch_def Let_def rbind_Inr_conv)
  then have mtu: "1200 \<le> mtu" "mtu \<le> 9218" by (simp_all add: PacketSwitch_check_iff)
  show m: "unat (sw_l2mtu sw) = nat mtu + 22" using l2_value_of [OF mtu] by (simp add: l2)
  have n: "1200 \<le> nat mtu" "nat mtu \<le> 9218" using mtu by simp_all
  show "1342 \<le> nat (sw_buffer_size (sw_l2mtu sw))" "nat (sw_buffer_size (sw_l2mtu sw)) \<le> 10164"
    unfolding sw_buffer_size_value m using n by linarith+
qed

text \<open>The nodes of a new switch are those of the configured addresses.\<close>

lemma fold_assign_nodes:
  fixes f :: "'a \<Rightarrow> remote_node"
  assumes "map_ok m" and "\<And>k x. map_find k m = Some x \<Longrightarrow> P k x"
    and "\<And>a. a \<in> set as \<Longrightarrow> P (rn_node_key (f a)) (Some (f a))"
  shows "map_ok (fold (\<lambda>a. map_assign (rn_node_key (f a)) (Some (f a))) as m) \<and>
    (\<forall>k x. map_find k (fold (\<lambda>a. map_assign (rn_node_key (f a)) (Some (f a))) as m) = Some x \<longrightarrow> P k x)"
  using assms
proof (induction as arbitrary: m)
  case (Cons a as)
  have "map_ok (map_assign (rn_node_key (f a)) (Some (f a)) m)"
    using Cons.prems(1) by (rule map_ok_assign)
  moreover have "P k x" if "map_find k (map_assign (rn_node_key (f a)) (Some (f a)) m) = Some x" for k x
    using that Cons.prems by (auto simp: map_find_assign split: if_splits)
  ultimately show ?case using Cons.IH Cons.prems(3) by simp
qed simp

section \<open>The invariant\<close>

text \<open>A packet that waits for its decoder: it is from that node.\<close>

definition packet_ok :: "u8 list \<Rightarrow> nat \<Rightarrow> node_key \<Rightarrow> packet_buffer \<Rightarrow> bool" where
  "packet_ok g cap k b \<longleftrightarrow>
     buffer_ok cap b \<and> get_key_from_sockaddr g (packet_source b) = k"

definition node_ok :: "u8 list \<Rightarrow> nat \<Rightarrow> node_key \<Rightarrow> remote_node option \<Rightarrow> bool" where
  "node_ok g cap k n \<longleftrightarrow>
     (\<exists>rn. n = Some rn \<and> rn_node_key rn = k \<and> pool_ok cap (rn_encoder_pool rn) \<and>
        pool_ok cap (rn_decoder_pool rn) \<and> pool_ok cap (rn_socket_write_pool rn) \<and>
        (\<forall>b \<in> set (pool (rn_decoder_pool rn)). packet_ok g cap k b))"

definition nodes_ok :: "u8 list \<Rightarrow> nat \<Rightarrow> node_map \<Rightarrow> bool" where
  "nodes_ok g cap nodes \<longleftrightarrow> map_ok nodes \<and> (\<forall>k n. map_find k nodes = Some n \<longrightarrow> node_ok g cap k n)"

definition sw_ok :: "u8 list \<Rightarrow> nat \<Rightarrow> packet_switch \<Rightarrow> bool" where
  "sw_ok g cap sw \<longleftrightarrow>
     nodes_ok g cap (sw_remote_nodes sw) \<and> fdb_ok (sw_fdb sw) \<and>
     (\<forall>m e k. FDB_get m (sw_fdb sw) = Some e \<and> fe_dest e = Some k \<longrightarrow>
        map_find k (sw_remote_nodes sw) \<noteq> None) \<and>
     pool_ok cap (sw_available_rx_buffer_pool sw) \<and> pool_ok cap (sw_available_tx_buffer_pool sw) \<and>
     pool_ok cap (sw_tap_write_pool sw) \<and>
     (\<forall>b \<in> set (pool (sw_tap_write_pool sw)).
        map_find (get_key_from_sockaddr g (packet_source b)) (sw_remote_nodes sw) \<noteq> None)"

lemma nodes_ok_assign: "nodes_ok g cap nodes \<Longrightarrow> node_ok g cap k n \<Longrightarrow> nodes_ok g cap (map_assign k n nodes)"
  by (auto simp: nodes_ok_def map_ok_assign map_find_assign split: if_splits)

lemma RemoteNode_ok:
  "node_ok h (nat bsize) (rn_node_key (RemoteNode g s a tx l2 bsize fmt)) (Some (RemoteNode g s a tx l2 bsize fmt))"
  by (simp add: node_ok_def RemoteNode_def Let_def pool_ok_def)

lemma PacketSwitch_nodes:
  assumes "PacketSwitch g gk s mtu tx fmt src dsts port = Inr sw"
    and "map_find k (sw_remote_nodes sw) = Some n"
  shows "\<exists>a \<in> set dsts. n = Some (RemoteNode gk s a tx (uint (sw_l2mtu sw))
      (sw_buffer_size (sw_l2mtu sw)) fmt) \<and> k = get_key_from_sockaddr gk a"
proof -
  let ?l2 = "get_l2mtu_from_mtu (word_of_int mtu)"
  let ?f = "\<lambda>a. RemoteNode gk s a tx (uint ?l2) (sw_buffer_size ?l2) fmt"
  let ?P = "\<lambda>k n. \<exists>a \<in> set dsts. n = Some (?f a) \<and> k = get_key_from_sockaddr gk a"
  have sw: "sw_remote_nodes sw = fold (\<lambda>a. map_assign (rn_node_key (?f a)) (Some (?f a))) dsts []"
    "sw_l2mtu sw = ?l2"
    using assms(1) by (auto simp: PacketSwitch_def Let_def rbind_Inr_conv)
  have "?P (rn_node_key (?f a)) (Some (?f a))" if "a \<in> set dsts" for a
    using that by (auto simp: RemoteNode_def Let_def)
  from fold_assign_nodes [where f = ?f and P = ?P, OF map_ok_Nil _ this] assms(2)
  show ?thesis unfolding sw by auto
qed

lemma fold_assign_keys:
  "map_ok m \<Longrightarrow> map_find k (fold (\<lambda>a. map_assign (key a) (x a)) as m) = None \<longleftrightarrow>
     map_find k m = None \<and> k \<notin> key ` set as"
  by (induction as arbitrary: m) (auto simp: map_ok_assign map_find_assign)

lemma PacketSwitch_keys:
  assumes "PacketSwitch g gk s mtu tx fmt src dsts port = Inr sw"
  shows "map_find k (sw_remote_nodes sw) \<noteq> None \<longleftrightarrow> k \<in> get_key_from_sockaddr gk ` set dsts"
proof -
  let ?l2 = "get_l2mtu_from_mtu (word_of_int mtu)"
  let ?f = "\<lambda>a. RemoteNode gk s a tx (uint ?l2) (sw_buffer_size ?l2) fmt"
  have sw: "sw_remote_nodes sw = fold (\<lambda>a. map_assign (rn_node_key (?f a)) (Some (?f a))) dsts []"
    using assms by (auto simp: PacketSwitch_def Let_def rbind_Inr_conv)
  have key: "(\<lambda>a. rn_node_key (?f a)) = get_key_from_sockaddr gk"
    by (simp add: RemoteNode_def Let_def fun_eq_iff)
  show ?thesis
    unfolding sw fold_assign_keys [of "[]" k "\<lambda>a. rn_node_key (?f a)", OF map_ok_Nil] unfolding key by simp
qed

lemma PacketSwitch_ok:
  assumes "PacketSwitch g gk s mtu tx fmt src dsts port = Inr sw"
  shows "sw_ok h (nat (sw_buffer_size (sw_l2mtu sw))) sw"
proof -
  let ?l2 = "get_l2mtu_from_mtu (word_of_int mtu)"
  let ?f = "\<lambda>a. RemoteNode gk s a tx (uint ?l2) (sw_buffer_size ?l2) fmt"
  have sw: "sw_remote_nodes sw = fold (\<lambda>a. map_assign (rn_node_key (?f a)) (Some (?f a))) dsts []"
    "sw_l2mtu sw = ?l2" "sw_fdb sw = []"
    "pool_ok (nat (sw_buffer_size ?l2)) (sw_available_rx_buffer_pool sw)"
    "pool_ok (nat (sw_buffer_size ?l2)) (sw_available_tx_buffer_pool sw)"
    "pool_ok (nat (sw_buffer_size ?l2)) (sw_tap_write_pool sw)" "pool (sw_tap_write_pool sw) = []"
    using assms by (auto simp: PacketSwitch_def Let_def rbind_Inr_conv pool_ok_filled pool_ok_def)
  from fold_assign_nodes [where f = ?f and P = "node_ok h (nat (sw_buffer_size ?l2))", OF map_ok_Nil _ RemoteNode_ok]
  have "nodes_ok h (nat (sw_buffer_size ?l2)) (sw_remote_nodes sw)"
    unfolding nodes_ok_def sw(1) by auto
  then show ?thesis using sw(2-) by (simp add: sw_ok_def FDB_get_def)
qed

section \<open>Frames from the TAP device\<close>

text \<open>\<open>given b n n'\<close>: the node \<open>n\<close> has been given a buffer with the data of \<open>b\<close> to encode.\<close>

definition given :: "nat \<Rightarrow> packet_buffer \<Rightarrow> remote_node option \<Rightarrow> remote_node option \<Rightarrow> bool" where
  "given cap b n n' \<longleftrightarrow>
     (\<exists>rn c. n = Some rn \<and> buffer_ok cap c \<and> buffer_data c = buffer_data b \<and>
        n' = Some (rn\<lparr>rn_encoder_pool := (rn_encoder_pool rn)\<lparr>pool := pool (rn_encoder_pool rn) @ [c]\<rparr>\<rparr>))"

lemma given_ok: "given cap b n n' \<Longrightarrow> node_ok g cap k n \<Longrightarrow> node_ok g cap k n'"
  by (auto simp: given_def node_ok_def pool_ok_def)

lemma push_to_encoder_given:
  assumes "node_ok g cap k n" and "buffer_ok cap c" and "buffer_data c = buffer_data b"
  shows "\<exists>n'. push_to_encoder c n = Inr n' \<and> given cap b n n'"
proof -
  obtain rn where rn: "n = Some rn" "pool_ok cap (rn_encoder_pool rn)"
    using assms(1) by (auto simp: node_ok_def)
  have "BufferPool_push c (rn_encoder_pool rn) =
      Inr ((rn_encoder_pool rn)\<lparr>pool := pool (rn_encoder_pool rn) @ [c]\<rparr>)"
    using rn(2) assms(2) by (intro BufferPool_push_ok [of _ cap]) (simp_all add: pool_ok_def)
  then show ?thesis using rn assms by (auto simp: push_to_encoder_def given_def)
qed

definition all_given :: "nat \<Rightarrow> packet_buffer \<Rightarrow> node_map \<Rightarrow> node_map \<Rightarrow> bool" where
  "all_given cap b nodes nodes' \<longleftrightarrow>
     list_all2 (\<lambda>(k, n) (k', n'). k' = k \<and> given cap b n n') nodes nodes'"

text \<open>
  A broadcast gives every node the frame and takes one buffer from the pool for every node but
  one; it waits when there are not that many.
\<close>

lemma broadcast_all:
  assumes "\<forall>(k, n) \<in> set nodes. node_ok g cap k n" and "buffer_ok cap b" and "pool_ok cap avail"
  shows "if length nodes \<le> Suc (length (pool avail))
    then \<exists>nodes' avail'. broadcast b nodes avail = Inr (nodes', avail') \<and> all_given cap b nodes nodes' \<and>
      pool_ok cap avail' \<and> length (pool avail') = length (pool avail) - (length nodes - 1)
    else broadcast b nodes avail = Inl Would_block"
  using assms
proof (induction b nodes avail rule: broadcast.induct)
  case (2 b k n avail)
  then show ?case
    using push_to_encoder_given [of g cap k n b b] by (auto simp: all_given_def)
next
  case (3 b k n x xs avail)
  show ?case
  proof (cases "pool avail")
    case Nil
    then show ?thesis by (simp add: BufferPool_pop_wait_simps)
  next
    case (Cons c cs)
    let ?av = "avail\<lparr>pool := cs\<rparr>"
    have av: "pool_ok cap ?av" using "3.prems"(3) Cons by (simp add: pool_ok_def)
    obtain n' where n': "push_to_encoder (PacketBuffer_assign b c) n = Inr n'" "given cap b n n'"
      using push_to_encoder_given [of g cap k n "PacketBuffer_assign b c" b] "3.prems"
      by (auto simp: PacketBuffer_assign_eq)
    note pop = BufferPool_pop_wait_simps(2) [OF Cons]
    have IH: "if length (x # xs) \<le> Suc (length (pool ?av))
      then \<exists>nodes' avail'. broadcast b (x # xs) ?av = Inr (nodes', avail') \<and>
        all_given cap b (x # xs) nodes' \<and> pool_ok cap avail' \<and>
        length (pool avail') = length (pool ?av) - (length (x # xs) - 1)
      else broadcast b (x # xs) ?av = Inl Would_block"
      by (rule "3.IH" [OF pop refl n'(1) _ "3.prems"(2) av]) (use "3.prems"(1) in auto)
    show ?thesis
    proof (cases "length (x # xs) \<le> Suc (length cs)")
      case True
      with IH obtain nodes' avail' where "broadcast b (x # xs) ?av = Inr (nodes', avail')"
        "all_given cap b (x # xs) nodes'" "pool_ok cap avail'"
        "length (pool avail') = length cs - length xs" by auto
      with True n' pop Cons show ?thesis by (auto simp: all_given_def)
    next
      case False
      with IH n' pop Cons show ?thesis by auto
    qed
  qed
qed (simp add: all_given_def)

lemma all_given_find:
  assumes "all_given cap b nodes nodes'"
  shows "map fst nodes' = map fst nodes \<and>
    (case map_find k nodes of None \<Rightarrow> map_find k nodes' = None
     | Some n \<Rightarrow> \<exists>n'. map_find k nodes' = Some n' \<and> given cap b n n')"
  using assms unfolding all_given_def
proof (induction rule: list_all2_induct)
  case (Cons x xs y ys)
  obtain j n j' n' where xy: "x = (j, n)" "y = (j', n')" by (cases x; cases y)
  with Cons show ?case by (auto split: option.splits)
qed simp

lemma nodes_ok_given:
  assumes "nodes_ok g cap nodes" and "all_given cap b nodes nodes'"
  shows "nodes_ok g cap nodes'"
  unfolding nodes_ok_def
proof (intro conjI allI impI)
  show "map_ok nodes'"
    using assms all_given_find [OF assms(2)] by (simp add: nodes_ok_def map_ok_def)
  fix k n' assume n': "map_find k nodes' = Some n'"
  then obtain n where n: "map_find k nodes = Some n" "given cap b n n'"
    using all_given_find [OF assms(2), of k] by (auto split: option.splits)
  then show "node_ok g cap k n'" using assms(1) given_ok by (auto simp: nodes_ok_def)
qed

lemma nodes_ok_elem: "nodes_ok g cap nodes \<Longrightarrow> \<forall>(k, n) \<in> set nodes. node_ok g cap k n"
  by (auto simp: nodes_ok_def map_find_iff)

text \<open>What a read of at least 14 bytes leaves in the buffer.\<close>

lemma tap_read_buffer:
  assumes "buffer_ok cap b" and "length frame \<le> cap" and "12 \<le> cap"
  obtains b1 b2 where "Buffer_write 0 frame b = Inr b1" and "Buffer_setDataSize (length frame) b1 = Inr b2"
    and "buffer_ok cap b2" and "buffer_data b2 = frame"
    and "frame_src_mac b2 = Inr (slice 6 6 (content b2))"
    and "frame_dst_mac b2 = Inr (slice 0 6 (content b2))"
    and "12 \<le> length frame \<Longrightarrow> slice 6 6 (content b2) = slice 6 6 frame"
    and "12 \<le> length frame \<Longrightarrow> slice 0 6 (content b2) = slice 0 6 frame"
proof -
  obtain b1 b2 where b: "Buffer_write 0 frame b = Inr b1" "Buffer_setDataSize (length frame) b1 = Inr b2"
    "buffer_ok cap b2" "buffer_data b2 = frame" "dataSize b2 = length frame"
    by (rule Buffer_replace [OF assms(1,2)])
  have read: "Buffer_read p 6 b2 = Inr (slice p 6 (content b2))" if "p + 6 \<le> 12" for p
    using b(3) assms(3) that by (simp add: Buffer_read_def buffer_ok_def)
  have same: "slice p 6 (content b2) = slice p 6 frame" if "12 \<le> length frame" "p + 6 \<le> 12" for p
  proof -
    have "slice p 6 (take (dataSize b2) (content b2)) = slice p 6 (content b2)"
      using that b(5) by (intro slice_take) simp
    with b(4) show ?thesis by (simp add: buffer_data_def)
  qed
  show thesis
    by (rule that [OF b(1-4)]) (use read same in \<open>simp_all add: frame_src_mac_def frame_dst_mac_def\<close>)
qed

lemma sw_ok_learn:
  assumes "sw_ok g cap sw" and "\<And>k. dest = Some k \<Longrightarrow> map_find k (sw_remote_nodes sw) \<noteq> None"
  shows "sw_ok g cap (sw\<lparr>sw_fdb := FDB_learn now src dest (sw_fdb sw)\<rparr>)"
  using assms fdb_ok_learn [of "sw_fdb sw" now src dest]
  by (auto simp: sw_ok_def FDB_get_learn FDBEntry_def split: if_splits option.splits)

lemma sw_ok_nodes:
  assumes "sw_ok g cap sw" and "nodes_ok g cap nodes"
    and "\<And>k. map_find k (sw_remote_nodes sw) \<noteq> None \<Longrightarrow> map_find k nodes \<noteq> None"
    and "pool_ok cap avail"
  shows "sw_ok g cap (sw\<lparr>sw_remote_nodes := nodes, sw_available_rx_buffer_pool := avail\<rparr>)"
  using assms by (auto simp: sw_ok_def)

definition tap_end_ok :: "u8 list \<Rightarrow> nat \<Rightarrow> tap_read_end \<Rightarrow> bool" where
  "tap_end_ok g cap r \<longleftrightarrow>
     (case r of Restart b sw \<Rightarrow> buffer_ok cap b \<and> sw_ok g cap sw | Handled sw \<Rightarrow> sw_ok g cap sw)"

text \<open>
  A frame from the device: the state stays well formed, and nothing can go wrong but the wait for
  buffers and the null pointer of a frame for a local address. A read that returns nothing ends the
  program.
\<close>

abbreviation tap_read_failures :: "u8 list \<Rightarrow> cpp_error set" where
  "tap_read_failures frame \<equiv> {Would_block, if frame = [] then Process_exit 1 else Null_pointer}"

lemma tap_read_safe:
  assumes sw: "sw_ok g cap sw" and b: "buffer_ok cap b" and "length frame \<le> cap" and "12 \<le> cap"
  shows "safe (tap_read_failures frame) (tap_end_ok g cap) (tap_read_frame now frame b sw)"
proof (cases "frame = []")
  case True
  then show ?thesis by (simp add: tap_read_frame_def)
next
  case False
  obtain b1 b2 where r: "Buffer_write 0 frame b = Inr b1" "Buffer_setDataSize (length frame) b1 = Inr b2"
    "buffer_ok cap b2" "frame_src_mac b2 = Inr (slice 6 6 (content b2))"
    "frame_dst_mac b2 = Inr (slice 0 6 (content b2))"
    by (rule tap_read_buffer [OF b assms(3,4)])
  let ?src = "slice 6 6 (content b2)" and ?dst = "slice 0 6 (content b2)"
  let ?sw = "sw\<lparr>sw_fdb := FDB_learn now ?src None (sw_fdb sw)\<rparr>"
  have sw1: "sw_ok g cap ?sw" by (rule sw_ok_learn [OF sw]) simp
  have nodes: "nodes_ok g cap (sw_remote_nodes ?sw)" "pool_ok cap (sw_available_rx_buffer_pool ?sw)"
    using sw1 by (simp_all only: sw_ok_def)
  have bc: "safe {Would_block, Null_pointer} (tap_end_ok g cap)
      (rbind (broadcast b2 (sw_remote_nodes ?sw) (sw_available_rx_buffer_pool ?sw)) (\<lambda>(nodes, avail).
         Inr (Handled (?sw\<lparr>sw_remote_nodes := nodes, sw_available_rx_buffer_pool := avail\<rparr>))))"
  proof (cases "length (sw_remote_nodes ?sw) \<le> Suc (length (pool (sw_available_rx_buffer_pool ?sw)))")
    case True
    with broadcast_all [OF nodes_ok_elem [OF nodes(1)] r(3) nodes(2)]
    obtain nodes' avail' where bb: "broadcast b2 (sw_remote_nodes ?sw) (sw_available_rx_buffer_pool ?sw)
        = Inr (nodes', avail')" "all_given cap b2 (sw_remote_nodes ?sw) nodes'" "pool_ok cap avail'"
      by auto
    have "map_find k nodes' \<noteq> None" if "map_find k (sw_remote_nodes ?sw) \<noteq> None" for k
      using all_given_find [OF bb(2), of k] that by (auto split: option.splits)
    from sw_ok_nodes [OF sw1 nodes_ok_given [OF nodes(1) bb(2)] this bb(3)]
    show ?thesis unfolding bb(1) by (simp add: tap_end_ok_def)
  next
    case False
    with broadcast_all [OF nodes_ok_elem [OF nodes(1)] r(3) nodes(2)] show ?thesis by simp
  qed
  have uc: "safe {Would_block, Null_pointer} (tap_end_ok g cap)
      (rbind (push_to_encoder b2 (case map_find k (sw_remote_nodes ?sw) of None \<Rightarrow> None | Some n \<Rightarrow> n))
         (\<lambda>n. Inr (Handled (?sw\<lparr>sw_remote_nodes := map_assign k n (sw_remote_nodes ?sw)\<rparr>))))" for k
  proof (cases "map_find k (sw_remote_nodes ?sw)")
    case (Some n)
    then have n: "node_ok g cap k n" using nodes(1) by (simp add: nodes_ok_def)
    obtain n' where n': "push_to_encoder b2 n = Inr n'" "given cap b2 n n'"
      using push_to_encoder_given [OF n r(3) refl] by blast
    have "nodes_ok g cap (map_assign k n' (sw_remote_nodes ?sw))"
      by (rule nodes_ok_assign [OF nodes(1) given_ok [OF n'(2) n]])
    moreover have "map_ok (sw_remote_nodes sw)" using nodes(1) by (simp add: nodes_ok_def)
    ultimately have "sw_ok g cap (?sw\<lparr>sw_remote_nodes := map_assign k n' (sw_remote_nodes ?sw)\<rparr>)"
      using sw1 by (auto simp: sw_ok_def map_find_assign)
    with Some n'(1) show ?thesis by (simp add: tap_end_ok_def)
  qed (simp add: push_to_encoder_def)
  have "safe {Would_block, Null_pointer} (tap_end_ok g cap) (tap_read_frame now frame b sw)"
    unfolding tap_read_frame_def if_not_P [OF False] r(1,2,4,5) rbind_simps Let_def
  proof (intro safe_if bc)
    show "safe {Would_block, Null_pointer} (tap_end_ok g cap) (Inr (Restart b2 sw))"
      using r(3) sw by (simp add: tap_end_ok_def)
    show "safe {Would_block, Null_pointer} (tap_end_ok g cap)
      (case FDB_getRemoteNode ?dst (sw_fdb ?sw) of None \<Rightarrow> Inr (Restart b2 ?sw)
       | Some e \<Rightarrow> case fe_dest e of None \<Rightarrow> Inl Null_pointer
         | Some k \<Rightarrow> rbind (push_to_encoder b2 (case map_find k (sw_remote_nodes ?sw) of
                        None \<Rightarrow> None | Some n \<Rightarrow> n))
              (\<lambda>n. Inr (Handled (?sw\<lparr>sw_remote_nodes := map_assign k n (sw_remote_nodes ?sw)\<rparr>))))"
      using uc r(3) sw1 by (auto simp: tap_end_ok_def split: option.splits)
  qed
  then show ?thesis by (rule safe_mono) (use False in auto)
qed

text \<open>The four ways of a frame that has an Ethernet header.\<close>

lemma tap_read_cases:
  fixes now :: int
  assumes sw: "sw_ok g cap sw" and b: "buffer_ok cap b" and "length frame \<le> cap" and "12 \<le> length frame"
  defines "src \<equiv> slice 6 6 frame" and "dst \<equiv> slice 0 6 frame"
  defines "sw1 \<equiv> sw\<lparr>sw_fdb := FDB_learn now src None (sw_fdb sw)\<rparr>"
  shows "\<exists>b2. buffer_ok cap b2 \<and> buffer_data b2 = frame \<and>
    tap_read_frame now frame b sw =
      (if mac_is_group src then Inr (Restart b2 sw)
       else if mac_is_group dst then
         rbind (broadcast b2 (sw_remote_nodes sw) (sw_available_rx_buffer_pool sw)) (\<lambda>(nodes, avail).
           Inr (Handled (sw1\<lparr>sw_remote_nodes := nodes, sw_available_rx_buffer_pool := avail\<rparr>)))
       else
         (case FDB_get dst (sw_fdb sw1) of
            None \<Rightarrow> Inr (Restart b2 sw1)
          | Some e \<Rightarrow>
              (case fe_dest e of
                 None \<Rightarrow> Inl Null_pointer
               | Some k \<Rightarrow>
                   rbind (push_to_encoder b2 (case map_find k (sw_remote_nodes sw) of
                            None \<Rightarrow> None | Some n \<Rightarrow> n)) (\<lambda>n.
                   Inr (Handled (sw1\<lparr>sw_remote_nodes := map_assign k n (sw_remote_nodes sw)\<rparr>))))))"
proof -
  have cap: "12 \<le> cap" using assms(3,4) by simp
  obtain b1 b2 where r: "Buffer_write 0 frame b = Inr b1" "Buffer_setDataSize (length frame) b1 = Inr b2"
    "buffer_ok cap b2" "buffer_data b2 = frame" "frame_src_mac b2 = Inr (slice 6 6 (content b2))"
    "frame_dst_mac b2 = Inr (slice 0 6 (content b2))"
    "slice 6 6 (content b2) = src" "slice 0 6 (content b2) = dst"
    unfolding src_def dst_def using tap_read_buffer [OF b assms(3) cap] assms(4) by metis
  have mac: "frame_src_mac b2 = Inr src" "frame_dst_mac b2 = Inr dst"
    using r(5-8) by simp_all
  have "frame \<noteq> []" using assms(4) by auto
  show ?thesis
    by (intro exI [of _ b2] conjI r(3,4))
      (simp add: tap_read_frame_def \<open>frame \<noteq> []\<close> r(1,2) mac Let_def sw1_def FDB_getRemoteNode_def FDB_get_def
        cong: if_cong option.case_cong)
qed

section \<open>Frames to the TAP device\<close>

text \<open>The state after a frame has been learned from, for a frame from a node that is known.\<close>

lemma tap_write_frame_known:
  assumes sw: "sw_ok g cap sw" and b: "buffer_ok cap b" and "12 \<le> cap"
    and src: "frame_src_mac b = Inr src" and "\<not> mac_is_group src"
    and node: "map_find (get_key_from_sockaddr g (packet_source b)) (sw_remote_nodes sw) \<noteq> None"
  shows "tap_write_frame g now online write_ok b sw =
    (let sw1 = sw\<lparr>sw_fdb := FDB_learn now src (Some (get_key_from_sockaddr g (packet_source b)))
                             (sw_fdb sw)\<rparr>
     in if \<not> online then Inr (None, sw1)
        else if \<not> write_ok then Inl (Runtime_error ''Error writing TAP device'')
        else Inr (Some (buffer_data b), sw1))"
proof -
  let ?k = "get_key_from_sockaddr g (packet_source b)"
  obtain rn where rn: "map_find ?k (sw_remote_nodes sw) = Some (Some rn)"
    using node sw by (fastforce simp: sw_ok_def nodes_ok_def node_ok_def)
  have read: "Buffer_read 0 (Buffer_getDataSize b) b = Inr (buffer_data b)"
    using b by (simp add: Buffer_read_def Buffer_getDataSize_def buffer_ok_def slice_def buffer_data_def)
  show ?thesis
  proof (cases "FDB_get src (sw_fdb sw)")
    case None
    then show ?thesis
      using assms(5) by (simp add: tap_write_frame_def src rn read Let_def)
  next
    case (Some e)
    then have "FDB_learn now src None (sw_fdb sw) = FDB_learn now src (Some ?k) (sw_fdb sw)"
      by (simp add: FDB_learn_def)
    with Some show ?thesis
      using assms(5) by (simp add: tap_write_frame_def src rn read Let_def)
  qed
qed

lemma frame_src_mac_total: "buffer_ok cap b \<Longrightarrow> 12 \<le> cap \<Longrightarrow> \<exists>src. frame_src_mac b = Inr src"
  by (simp add: frame_src_mac_def Buffer_read_def buffer_ok_def)

lemma same_switch: "\<exists>f. sw = sw\<lparr>sw_fdb := f\<rparr>" for sw :: packet_switch
  by (rule exI [of _ "sw_fdb sw"]) simp

lemma tap_write_frame_safe:
  assumes sw: "sw_ok g cap sw" and b: "buffer_ok cap b" and "12 \<le> cap"
    and node: "map_find (get_key_from_sockaddr g (packet_source b)) (sw_remote_nodes sw) \<noteq> None"
  shows "safe {Runtime_error ''Error writing TAP device''}
    (\<lambda>(out, sw'). sw_ok g cap sw' \<and> (\<exists>f. sw' = sw\<lparr>sw_fdb := f\<rparr>))
    (tap_write_frame g now online write_ok b sw)"
proof -
  obtain src where src: "frame_src_mac b = Inr src" using frame_src_mac_total [OF b assms(3)] by blast
  show ?thesis
  proof (cases "mac_is_group src")
    case True
    then show ?thesis using sw by (simp add: tap_write_frame_def src same_switch)
  next
    case False
    have "sw_ok g cap (sw\<lparr>sw_fdb := FDB_learn now src (Some (get_key_from_sockaddr g (packet_source b)))
        (sw_fdb sw)\<rparr>)"
      by (rule sw_ok_learn [OF sw]) (use node in auto)
    then show ?thesis
      using tap_write_frame_known [OF sw b assms(3) src False node, of now online write_ok]
      by (auto simp: Let_def)
  qed
qed

lemma tap_write_frames_safe:
  assumes "sw_ok g cap sw" and "12 \<le> cap"
    and "\<forall>b \<in> set bs. buffer_ok cap b \<and>
      map_find (get_key_from_sockaddr g (packet_source b)) (sw_remote_nodes sw) \<noteq> None"
  shows "safe {Runtime_error ''Error writing TAP device''}
    (\<lambda>(outs, sw'). sw_ok g cap sw' \<and> (\<exists>f. sw' = sw\<lparr>sw_fdb := f\<rparr>))
    (tap_write_frames g at bs sw)"
  using assms(1,3)
proof (induction bs arbitrary: sw at)
  case (Cons b bs)
  have b: "buffer_ok cap b"
    "map_find (get_key_from_sockaddr g (packet_source b)) (sw_remote_nodes sw) \<noteq> None"
    using Cons.prems(2) by simp_all
  obtain now online write_ok where at: "at 0 = (now, online, write_ok)" by (cases "at 0")
  show ?case unfolding tap_write_frames.simps at Let_def prod.case
  proof (rule safe_rbind [OF tap_write_frame_safe [OF Cons.prems(1) b(1) assms(2) b(2)]], clarify)
    fix out f
    let ?sw1 = "sw\<lparr>sw_fdb := f\<rparr>"
    assume 1: "sw_ok g cap ?sw1"
    have "\<forall>b \<in> set bs. buffer_ok cap b \<and>
        map_find (get_key_from_sockaddr g (packet_source b)) (sw_remote_nodes ?sw1) \<noteq> None"
      using Cons.prems(2) by simp
    from Cons.IH [OF 1 this, of "\<lambda>i. at (Suc i)"]
    show "safe {Runtime_error ''Error writing TAP device''}
        (\<lambda>(outs, sw'). sw_ok g cap sw' \<and> (\<exists>f. sw' = sw\<lparr>sw_fdb := f\<rparr>))
        (rbind (tap_write_frames g (\<lambda>i. at (Suc i)) bs ?sw1) (\<lambda>(outs, sw2).
           Inr ((case out of None \<Rightarrow> outs | Some f \<Rightarrow> f # outs), sw2)))"
      by (cases "tap_write_frames g (\<lambda>i. at (Suc i)) bs ?sw1") auto
  qed
qed (simp add: same_switch)

section \<open>Messages from the socket\<close>

text \<open>Which messages the switch accepts, and the key of the node they come from.\<close>

definition message_key :: "u8 list \<Rightarrow> sockaddr \<times> u8 list \<Rightarrow> node_key" where
  "message_key g m = get_key_from_sockaddr g (fst m)"

definition message_accepted :: "u8 list \<Rightarrow> node_map \<Rightarrow> sockaddr \<times> u8 list \<Rightarrow> bool" where
  "message_accepted g nodes m \<longleftrightarrow>
     (\<forall>f. fst m \<noteq> Sockaddr_other f) \<and> map_find (message_key g m) nodes \<noteq> None \<and>
     16 \<le> length (snd m) \<and> \<not> packet_header_bad (PacketHeader_at (take 8 (snd m)))"

lemma socket_receive_ok:
  assumes "buffer_ok cap slot" and "length (snd m) \<le> cap"
  obtains b where "socket_receive m slot = Inr b" and "buffer_ok cap b" and "packet_source b = fst m"
    and "content b = overwrite 0 (snd m) (content slot)"
proof -
  let ?b = "PacketBuffer_setPacketSource (fst m) (slot\<lparr>content := overwrite 0 (snd m) (content slot)\<rparr>)"
  show thesis
  proof (rule that [of ?b])
    show "socket_receive m slot = Inr ?b"
      using assms by (simp add: socket_receive_def case_prod_unfold Buffer_write_def buffer_ok_def)
    show "buffer_ok cap ?b" using assms by (simp add: buffer_ok_def)
  qed (simp_all add: PacketBuffer_setPacketSource_def)
qed

lemma socket_accept_ok:
  assumes "buffer_ok cap b" and "length (snd m) \<le> cap" and src: "packet_source b = fst m"
    and con: "content b = overwrite 0 (snd m) (content slot)"
  shows "\<exists>b1. socket_accept g nodes (length (snd m)) b =
      Inr (b1, if message_accepted g nodes m then Some (message_key g m) else None) \<and>
    buffer_ok cap b1 \<and>
    (message_accepted g nodes m \<longrightarrow> buffer_data b1 = snd m \<and> packet_source b1 = fst m)"
proof -
  let ?b1 = "b\<lparr>dataSize := length (snd m)\<rparr>" and ?h = "PacketHeader_at (take 8 (snd m))"
  let ?b2 = "PacketBuffer_setPacketSequenceKey (be_to_cpu_32 (ph_sequence ?h)) ?b1"
  have len: "Buffer_setDataSize (length (snd m)) b = Inr ?b1"
    using assms(1,2) by (simp add: Buffer_setDataSize_def buffer_ok_def)
  have ok: "buffer_ok cap ?b1" using assms(1,2) by (simp add: buffer_ok_def)
  have data: "buffer_data ?b1 = snd m" by (simp add: buffer_data_def con overwrite_def)
  have read: "Buffer_read 0 8 ?b1 = Inr (take 8 (snd m))" if "16 \<le> length (snd m)"
    using Buffer_read_data [OF ok, of 0 8] that data by (simp add: slice_def)
  show ?thesis
  proof (cases "(\<forall>f. fst m \<noteq> Sockaddr_other f) \<and> map_find (message_key g m) nodes \<noteq> None")
    case False
    then have "socket_accept g nodes (length (snd m)) b = Inr (b, None)"
      by (auto simp: socket_accept_def src message_key_def Let_def split: sockaddr.splits)
    with False assms(1) show ?thesis by (auto simp: message_accepted_def)
  next
    case True
    then obtain n where known: "map_find (message_key g m) nodes = Some n" by blast
    have family: "(case fst m of Sockaddr_other f \<Rightarrow> A f | _ \<Rightarrow> B) = B"
      for A :: "u16 \<Rightarrow> 'z" and B
      using True by (cases "fst m") simp_all
    have run: "socket_accept g nodes (length (snd m)) b =
        (if length (snd m) < 16 then Inr (?b1, None)
         else rbind (Buffer_read 0 8 ?b1) (\<lambda>bs. let h = PacketHeader_at bs
           in if packet_header_bad h then Inr (?b1, None)
              else Inr (PacketBuffer_setPacketSequenceKey (be_to_cpu_32 (ph_sequence h)) ?b1,
                        Some (message_key g m))))"
      by (simp add: socket_accept_def src Let_def len Buffer_getDataSize_def known family
          sizeof_PacketHeader_def sizeof_PacketHeaderOption_def flip: message_key_def)
    show ?thesis
    proof (cases "16 \<le> length (snd m) \<and> \<not> packet_header_bad ?h")
      case acc: True
      then have "socket_accept g nodes (length (snd m)) b = Inr (?b2, Some (message_key g m))"
        by (simp add: run read Let_def)
      moreover have "buffer_ok cap ?b2" "buffer_data ?b2 = snd m" "packet_source ?b2 = fst m"
        using ok data src by (simp_all add: PacketBuffer_setPacketSequenceKey_def buffer_ok_def buffer_data_def)
      ultimately show ?thesis using True acc by (auto simp: message_accepted_def)
    next
      case rej: False
      then have "socket_accept g nodes (length (snd m)) b = Inr (?b1, None)"
        by (auto simp: run read Let_def)
      with rej ok show ?thesis by (auto simp: message_accepted_def)
    qed
  qed
qed

text \<open>The buffers that have been received for a node and not yet handed to its decoder.\<close>

definition bucket :: "node_key \<Rightarrow> received \<Rightarrow> packet_buffer list" where
  "bucket k r = (case map_find k r of None \<Rightarrow> [] | Some bs \<Rightarrow> bs)"

definition received_ok :: "u8 list \<Rightarrow> nat \<Rightarrow> node_map \<Rightarrow> received \<Rightarrow> bool" where
  "received_ok g cap nodes r \<longleftrightarrow> map_ok r \<and>
     (\<forall>k bs. map_find k r = Some bs \<longrightarrow> map_find k nodes \<noteq> None \<and>
        (\<forall>b \<in> set bs. packet_ok g cap k b))"

lemma bucket_add:
  "map_ok r \<Longrightarrow> bucket j (received_add k b r) = bucket j r @ (if j = k then [b] else [])"
  by (simp add: bucket_def received_add_def map_find_assign)

lemma received_ok_add:
  "received_ok g cap nodes r \<Longrightarrow> packet_ok g cap k b \<Longrightarrow>
    map_find k nodes \<noteq> None \<Longrightarrow> received_ok g cap nodes (received_add k b r)"
  by (cases "map_find k r")
    (auto simp: received_ok_def received_add_def map_ok_assign map_find_assign split: if_splits)

definition accepted_from :: "u8 list \<Rightarrow> node_map \<Rightarrow> node_key \<Rightarrow> (sockaddr \<times> u8 list) list \<Rightarrow> u8 list list" where
  "accepted_from g nodes k ms =
     map snd (filter (\<lambda>m. message_accepted g nodes m \<and> message_key g m = k) ms)"

lemma socket_messages_safe:
  assumes "\<forall>s \<in> set slots. buffer_ok cap s" and "pool_ok cap avail" and "received_ok g cap nodes r"
    and "\<forall>m \<in> set ms. length (snd m) \<le> cap" and "length ms \<le> length slots"
  shows "safe {Would_block} (\<lambda>(slots', r', avail').
      (\<forall>s \<in> set slots'. buffer_ok cap s) \<and> length slots' = length slots \<and> pool_ok cap avail' \<and>
      received_ok g cap nodes r' \<and>
      (\<forall>k. map buffer_data (bucket k r') = map buffer_data (bucket k r) @ accepted_from g nodes k ms))
    (socket_messages g nodes ms slots r avail)"
  using assms
proof (induction ms arbitrary: slots r avail)
  case (Cons m ms)
  then obtain slot slots0 where slots: "slots = slot # slots0" by (cases slots) auto
  have slot: "buffer_ok cap slot" "length (snd m) \<le> cap" using Cons.prems slots by simp_all
  obtain b where b: "socket_receive m slot = Inr b" "buffer_ok cap b" "packet_source b = fst m"
    "content b = overwrite 0 (snd m) (content slot)"
    by (rule socket_receive_ok [OF slot])
  obtain b1 where b1: "socket_accept g nodes (length (snd m)) b =
      Inr (b1, if message_accepted g nodes m then Some (message_key g m) else None)" "buffer_ok cap b1"
    "message_accepted g nodes m \<longrightarrow> buffer_data b1 = snd m \<and> packet_source b1 = fst m"
    using socket_accept_ok [OF b(2) slot(2) b(3,4)] by blast
  let ?Q = "\<lambda>(slot', r', avail'). buffer_ok cap slot' \<and> pool_ok cap avail' \<and> received_ok g cap nodes r' \<and>
      (\<forall>k. map buffer_data (bucket k r') = map buffer_data (bucket k r) @ accepted_from g nodes k [m])"
  have step: "safe {Would_block} ?Q
      (case if message_accepted g nodes m then Some (message_key g m) else None of
         None \<Rightarrow> Inr (b1, r, avail)
       | Some k \<Rightarrow> rbind (BufferPool_pop_wait avail) (\<lambda>(fresh, avail').
                   Inr (fresh, received_add k b1 r, avail')))"
  proof (cases "message_accepted g nodes m")
    case True
    then have known: "map_find (message_key g m) nodes \<noteq> None" by (simp add: message_accepted_def)
    have "dataSize b1 = length (snd m)" using True b1(2,3) length_buffer_data [OF b1(2)] by simp
    then have src: "packet_ok g cap (message_key g m) b1"
      using True b1(2,3) Cons.prems(4) by (simp add: message_key_def packet_ok_def)
    show ?thesis
    proof (cases "pool avail")
      case (Cons c cs)
      have "map_ok r" using Cons.prems(3) by (simp add: received_ok_def)
      with True b1 Cons Cons.prems(2) received_ok_add [OF Cons.prems(3) src known] show ?thesis
        by (simp add: BufferPool_pop_wait_simps(2) [OF Cons] pool_ok_def bucket_add accepted_from_def)
    qed (simp add: True BufferPool_pop_wait_simps)
  next
    case False
    then show ?thesis using Cons.prems(2,3) b1(2) by (simp add: accepted_from_def)
  qed
  show ?case unfolding slots socket_messages.simps b(1) rbind_simps b1(1) prod.case
  proof (rule safe_rbind [OF step], clarify)
    fix slot' :: packet_buffer and r' :: received and avail' :: packet_pool
    assume q: "buffer_ok cap slot'" "pool_ok cap avail'" "received_ok g cap nodes r'"
      "\<forall>k. map buffer_data (bucket k r') = map buffer_data (bucket k r) @ accepted_from g nodes k [m]"
    have "\<forall>s \<in> set slots0. buffer_ok cap s" "\<forall>m \<in> set ms. length (snd m) \<le> cap"
      "length ms \<le> length slots0" using Cons.prems slots by simp_all
    note IH = Cons.IH [OF this(1) q(2,3) this(2,3)]
    show "safe {Would_block} (\<lambda>(slots', r', avail').
        (\<forall>s \<in> set slots'. buffer_ok cap s) \<and> length slots' = length (slot # slots0) \<and> pool_ok cap avail' \<and>
        received_ok g cap nodes r' \<and> (\<forall>k. map buffer_data (bucket k r') =
          map buffer_data (bucket k r) @ accepted_from g nodes k (m # ms)))
      (rbind (socket_messages g nodes ms slots0 r' avail') (\<lambda>(slots', r'', avail'').
         Inr (slot' # slots', r'', avail'')))"
      by (rule safe_rbind [OF IH]) (use q in \<open>auto simp: accepted_from_def\<close>)
  qed
qed (simp_all add: accepted_from_def)

text \<open>\<open>fed bs n n'\<close>: the node \<open>n\<close> has been given the buffers \<open>bs\<close> to decode.\<close>

definition fed :: "packet_buffer list \<Rightarrow> remote_node option \<Rightarrow> remote_node option \<Rightarrow> bool" where
  "fed bs n n' \<longleftrightarrow>
     (\<exists>rn. n = Some rn \<and>
        n' = Some (rn\<lparr>rn_decoder_pool := (rn_decoder_pool rn)\<lparr>pool := pool (rn_decoder_pool rn) @ bs\<rparr>\<rparr>))"

lemma fed_ok: "fed bs n n' \<Longrightarrow> node_ok g cap k n \<Longrightarrow>
    \<forall>b \<in> set bs. packet_ok g cap k b \<Longrightarrow> node_ok g cap k n'"
  by (auto simp: fed_def node_ok_def pool_ok_def packet_ok_def)

lemma fed_Nil: "node_ok g cap k n \<Longrightarrow> fed [] n n"
  by (auto simp: node_ok_def fed_def)

lemma received_ok_Cons:
  assumes "received_ok g cap nodes ((k, bs) # r)"
  shows "received_ok g cap nodes r" and "map_find k nodes \<noteq> None" and "\<forall>b \<in> set bs. packet_ok g cap k b"
    and "map_find k r = None"
proof -
  have "map_ok r" and k: "k \<notin> fst ` set r" using assms by (auto simp: received_ok_def map_ok_Cons)
  show none: "map_find k r = None" using k by (simp add: map_find_None)
  have all: "map_find j nodes \<noteq> None \<and> (\<forall>b \<in> set cs. packet_ok g cap j b)"
    if "(if j = k then Some bs else map_find j r) = Some cs" for j cs
    using assms that by (auto simp: received_ok_def split: if_splits)
  from all [of k bs] show "map_find k nodes \<noteq> None" "\<forall>b \<in> set bs. packet_ok g cap k b" by simp_all
  show "received_ok g cap nodes r" unfolding received_ok_def
  proof (intro conjI allI impI \<open>map_ok r\<close>)
    fix j cs assume "map_find j r = Some cs"
    with none have "(if j = k then Some bs else map_find j r) = Some cs" by auto
    from all [OF this] show "map_find j nodes \<noteq> None" "\<forall>b \<in> set cs. packet_ok g cap j b" by simp_all
  qed
qed

text \<open>
  Every node is fed the buffers of its bucket, in their order; no other node changes, and the
  buckets are empty afterwards.
\<close>

lemma socket_hand_over_ok:
  assumes "received_ok g cap nodes r" and "nodes_ok g cap nodes"
  shows "\<exists>r' nodes'. socket_hand_over r nodes = Inr (r', nodes') \<and> nodes_ok g cap nodes' \<and>
    map fst r' = map fst r \<and> (\<forall>(k, bs) \<in> set r'. bs = []) \<and>
    (\<forall>k. case map_find k nodes of None \<Rightarrow> map_find k nodes' = None
        | Some n \<Rightarrow> \<exists>n'. map_find k nodes' = Some n' \<and> fed (bucket k r) n n')"
  using assms
proof (induction r arbitrary: nodes)
  case Nil
  have "fed [] n n" if "map_find k nodes = Some n" for k n
    using that Nil.prems(2) fed_Nil [of g cap k n] by (simp add: nodes_ok_def)
  with Nil show ?case by (auto simp: bucket_def split: option.splits)
next
  case (Cons x r)
  obtain k bs where x: "x = (k, bs)" by (cases x)
  note r = received_ok_Cons [OF Cons.prems(1) [unfolded x]]
  obtain rn where rn: "map_find k nodes = Some (Some rn)" "node_ok g cap k (Some rn)"
    using r Cons.prems(2) by (fastforce simp: nodes_ok_def node_ok_def)
  let ?rn = "rn\<lparr>rn_decoder_pool := (rn_decoder_pool rn)\<lparr>pool := pool (rn_decoder_pool rn) @ bs\<rparr>\<rparr>"
  let ?nodes = "map_assign k (Some ?rn) nodes"
  have "BufferPool_push_list bs (rn_decoder_pool rn) =
      Inr ((rn_decoder_pool rn)\<lparr>pool := pool (rn_decoder_pool rn) @ bs\<rparr>, [])"
    using rn(2) r(3) by (intro BufferPool_push_list_ok [of _ cap]) (simp_all add: node_ok_def pool_ok_def packet_ok_def)
  then have push: "BufferPool_push_list bs (rn_decoder_pool rn) = Inr (rn_decoder_pool ?rn, [])" by simp
  have fed: "fed bs (Some rn) (Some ?rn)" by (simp add: fed_def)
  have nodes: "nodes_ok g cap ?nodes"
    by (rule nodes_ok_assign [OF Cons.prems(2) fed_ok [OF fed rn(2) r(3)]])
  have mok: "map_ok nodes" using Cons.prems(2) by (simp add: nodes_ok_def)
  have find: "map_find j ?nodes = (if j = k then Some (Some ?rn) else map_find j nodes)" for j
    by (rule map_find_assign [OF mok])
  have "received_ok g cap ?nodes r"
    using r(1) by (auto simp: received_ok_def find)
  from Cons.IH [OF this nodes] obtain r' nodes' where IH: "socket_hand_over r ?nodes = Inr (r', nodes')"
    "nodes_ok g cap nodes'" "map fst r' = map fst r" "\<forall>(k, bs) \<in> set r'. bs = []"
    "\<And>j. case map_find j ?nodes of None \<Rightarrow> map_find j nodes' = None
        | Some n \<Rightarrow> \<exists>n'. map_find j nodes' = Some n' \<and> fed (bucket j r) n n'" by blast
  have "case map_find j nodes of None \<Rightarrow> map_find j nodes' = None
      | Some n \<Rightarrow> \<exists>n'. map_find j nodes' = Some n' \<and> fed (bucket j (x # r)) n n'" for j
  proof (cases "j = k")
    case True
    have "bucket k r = []" using r by (simp add: bucket_def)
    with IH(5) [of k] obtain n' where "map_find k nodes' = Some n'" "fed [] (Some ?rn) n'"
      by (auto simp: find)
    then show ?thesis using True rn(1) by (simp add: x bucket_def fed_def)
  next
    case False
    then have "bucket j (x # r) = bucket j r" by (simp add: bucket_def x)
    with IH(5) [of j] False show ?thesis by (cases "map_find j nodes") (simp_all add: find)
  qed
  moreover have "socket_hand_over (x # r) nodes = Inr ((k, []) # r', nodes')"
    by (simp add: x rn(1) push IH(1) [simplified])
  ultimately show ?case using IH(2-4) by (auto simp: x)
qed

text \<open>The socket thread sleeps only when the pool holds fewer buffers than there are messages.\<close>

lemma socket_receive_never_waits: "socket_receive m b \<noteq> Inl Would_block"
  by (simp add: socket_receive_def case_prod_unfold Buffer_write_def)

lemma socket_accept_never_waits: "socket_accept g nodes n b \<noteq> Inl Would_block"
  by (simp add: socket_accept_def Let_def Buffer_setDataSize_def Buffer_read_def
      split: sockaddr.split option.split)

lemma socket_messages_wait:
  "socket_messages g nodes ms slots r avail = Inl Would_block \<Longrightarrow> length (pool avail) < length ms"
proof (induction g nodes ms slots r avail rule: socket_messages.induct)
  case (1 g nodes m ms slot slots r avail)
  obtain b b1 key where acc: "socket_receive m slot = Inr b" "socket_accept g nodes (length (snd m)) b = Inr (b1, key)"
    using "1.prems" socket_receive_never_waits [of m slot] socket_accept_never_waits [of g nodes "length (snd m)"]
    by (cases "socket_receive m slot") (auto simp: rbind_Inl_conv)
  show ?case
  proof (cases key)
    case None
    from "1.prems" have "socket_messages g nodes ms slots r avail = Inl Would_block"
      by (auto simp: acc None rbind_Inl_conv)
    with "1.IH" [OF acc] None show ?thesis by fastforce
  next
    case (Some k)
    show ?thesis
    proof (cases "pool avail")
      case (Cons c cs)
      from "1.prems" have "socket_messages g nodes ms slots (received_add k b1 r) (avail\<lparr>pool := cs\<rparr>) = Inl Would_block"
        by (auto simp: acc Some BufferPool_pop_wait_simps(2) [OF Cons] rbind_Inl_conv)
      with "1.IH" [OF acc] Some Cons show ?thesis by (fastforce simp: BufferPool_pop_wait_simps(2) [OF Cons])
    qed simp
  qed
qed simp_all

lemma socket_hand_over_never_waits: "socket_hand_over r nodes \<noteq> Inl Would_block"
  by (induction r nodes rule: socket_hand_over.induct)
    (auto simp: rbind_Inl_conv BufferPool_push_list_def split: option.splits if_splits)

section \<open>Whole rounds\<close>

lemma tap_read_round_safe:
  assumes "sw_ok g cap sw" and "length frame \<le> cap" and "12 \<le> cap"
  shows "safe (tap_read_failures frame) (tap_end_ok g cap) (tap_read_round now frame sw)"
proof (cases "pool (sw_available_rx_buffer_pool sw)")
  case Nil
  then show ?thesis by (simp add: tap_read_round_def BufferPool_pop_wait_simps)
next
  case (Cons b bs)
  let ?av = "(sw_available_rx_buffer_pool sw)\<lparr>pool := bs\<rparr>"
  have "buffer_ok cap b" "sw_ok g cap (sw\<lparr>sw_available_rx_buffer_pool := ?av\<rparr>)"
    using assms(1) Cons by (auto simp: sw_ok_def pool_ok_def)
  from tap_read_safe [OF this(2,1) assms(2,3)] show ?thesis
    by (simp add: tap_read_round_def BufferPool_pop_wait_simps(2) [OF Cons])
qed

text \<open>
  A round of the socket thread: what is accepted reaches its node's decoder pool, in order, nothing
  else does, and the state stays well formed.
\<close>

definition delivered ::
    "u8 list \<Rightarrow> (sockaddr \<times> u8 list) list \<Rightarrow> received \<Rightarrow> node_map \<Rightarrow> node_map \<Rightarrow> bool"
where
  "delivered g ms r nodes nodes' \<longleftrightarrow>
     (\<forall>k. case map_find k nodes of None \<Rightarrow> map_find k nodes' = None
        | Some n \<Rightarrow> \<exists>n' bs. map_find k nodes' = Some n' \<and> fed bs n n' \<and>
            map buffer_data bs = map buffer_data (bucket k r) @ accepted_from g nodes k ms)"

lemma bucket_empty: "\<forall>(k, bs) \<in> set r. bs = [] \<Longrightarrow> bucket k r = []"
  by (auto simp: bucket_def split: option.splits dest: map_find_in)

lemma received_ok_empty:
  assumes "map_ok r" and "\<forall>(k, bs) \<in> set r. bs = []" and "\<forall>k \<in> fst ` set r. map_find k nodes \<noteq> None"
  shows "received_ok g cap nodes r"
  using assms unfolding received_ok_def by (auto dest!: map_find_in) fastforce

lemma socket_read_round_safe:
  assumes sw: "sw_ok g cap sw" and slots: "\<forall>s \<in> set slots. buffer_ok cap s"
    and r: "received_ok g cap (sw_remote_nodes sw) r"
    and ms: "\<forall>m \<in> set ms. length (snd m) \<le> cap" and "length ms \<le> length slots"
  shows "safe {Would_block} (\<lambda>(slots', r', sw'). sw_ok g cap sw' \<and>
      (\<forall>s \<in> set slots'. buffer_ok cap s) \<and> length slots' = length slots \<and>
      received_ok g cap (sw_remote_nodes sw') r' \<and> (\<forall>(k, bs) \<in> set r'. bs = []) \<and>
      delivered g ms r (sw_remote_nodes sw) (sw_remote_nodes sw') \<and> sw_fdb sw' = sw_fdb sw)
    (socket_read_round g ms (slots, r, sw))"
proof -
  let ?nodes = "sw_remote_nodes sw"
  have nodes: "nodes_ok g cap ?nodes" and tx: "pool_ok cap (sw_available_tx_buffer_pool sw)"
    using sw by (simp_all add: sw_ok_def)
  show ?thesis unfolding socket_read_round_def prod.case
  proof (rule safe_rbind [OF socket_messages_safe [OF slots tx r ms assms(5)]], clarify)
    fix slots' :: "packet_buffer list" and r' :: received and avail' :: packet_pool
    assume 1: "\<forall>s \<in> set slots'. buffer_ok cap s" "length slots' = length slots" "pool_ok cap avail'"
      "received_ok g cap ?nodes r'" "\<forall>k. map buffer_data (bucket k r') =
         map buffer_data (bucket k r) @ accepted_from g ?nodes k ms"
    obtain r'' nodes' where 2: "socket_hand_over r' ?nodes = Inr (r'', nodes')" "nodes_ok g cap nodes'"
      "map fst r'' = map fst r'" "\<forall>(k, bs) \<in> set r''. bs = []"
      "\<And>k. case map_find k ?nodes of None \<Rightarrow> map_find k nodes' = None
        | Some n \<Rightarrow> \<exists>n'. map_find k nodes' = Some n' \<and> fed (bucket k r') n n'"
      using socket_hand_over_ok [OF 1(4) nodes] by blast
    let ?sw = "sw\<lparr>sw_remote_nodes := nodes', sw_available_tx_buffer_pool := avail'\<rparr>"
    have known: "map_find k nodes' \<noteq> None" if "map_find k ?nodes \<noteq> None" for k
      using 2(5) [of k] that by (auto split: option.splits)
    have "sw_ok g cap ?sw" using sw 1(3) 2(2) known unfolding sw_ok_def by simp
    moreover have "received_ok g cap nodes' r''"
    proof (rule received_ok_empty [OF _ 2(4)])
      show "map_ok r''" using 1(4) 2(3) by (simp add: received_ok_def map_ok_def)
      have "fst ` set r'' = fst ` set r'" using 2(3) by (metis list.set_map)
      moreover have "map_find k ?nodes \<noteq> None" if "k \<in> fst ` set r'" for k
      proof -
        have "map_find k r' \<noteq> None" using that by (simp add: map_find_None)
        then show ?thesis using 1(4) by (auto simp: received_ok_def)
      qed
      ultimately show "\<forall>k \<in> fst ` set r''. map_find k nodes' \<noteq> None" using known by blast
    qed
    moreover have "delivered g ms r ?nodes nodes'"
      unfolding delivered_def
    proof
      fix k
      show "case map_find k ?nodes of None \<Rightarrow> map_find k nodes' = None
        | Some n \<Rightarrow> \<exists>n' bs. map_find k nodes' = Some n' \<and> fed bs n n' \<and>
            map buffer_data bs = map buffer_data (bucket k r) @ accepted_from g ?nodes k ms"
        using 2(5) [of k] 1(5) by (cases "map_find k ?nodes") auto
    qed
    ultimately show "safe {Would_block} (\<lambda>(slots'', r', sw'). sw_ok g cap sw' \<and>
        (\<forall>s \<in> set slots''. buffer_ok cap s) \<and> length slots'' = length slots \<and>
        received_ok g cap (sw_remote_nodes sw') r' \<and> (\<forall>(k, bs) \<in> set r'. bs = []) \<and>
        delivered g ms r ?nodes (sw_remote_nodes sw') \<and> sw_fdb sw' = sw_fdb sw)
      (rbind (socket_hand_over r' ?nodes) (\<lambda>(r'', nodes).
         Inr (slots', r'', sw\<lparr>sw_remote_nodes := nodes, sw_available_tx_buffer_pool := avail'\<rparr>)))"
      using 1(1,2) 2(1,4) by simp
  qed
qed

lemma socket_read_round_enough:
  assumes sw: "sw_ok g cap sw" and slots: "\<forall>s \<in> set slots. buffer_ok cap s"
    and r: "received_ok g cap (sw_remote_nodes sw) r"
    and ms: "\<forall>m \<in> set ms. length (snd m) \<le> cap" "length ms \<le> length slots"
    and enough: "length ms \<le> length (pool (sw_available_tx_buffer_pool sw))"
  shows "\<exists>slots' r' sw'. socket_read_round g ms (slots, r, sw) = Inr (slots', r', sw') \<and>
    sw_ok g cap sw' \<and> length slots' = length slots \<and> (\<forall>(k, bs) \<in> set r'. bs = []) \<and> sw_fdb sw' = sw_fdb sw \<and>
    delivered g ms r (sw_remote_nodes sw) (sw_remote_nodes sw')"
proof -
  let ?res = "socket_read_round g ms (slots, r, sw)"
  note safe = socket_read_round_safe [OF sw slots r ms]
  have "?res \<noteq> Inl Would_block"
    using socket_messages_wait [of g "sw_remote_nodes sw" ms slots r "sw_available_tx_buffer_pool sw"]
      socket_hand_over_never_waits enough
    by (auto simp: socket_read_round_def rbind_Inl_conv)
  with safe show ?thesis by (cases ?res) auto
qed

lemma tap_write_round_safe:
  assumes sw: "sw_ok g cap sw" and "12 \<le> cap"
  shows "safe {Would_block, Runtime_error ''Error writing TAP device''}
    (\<lambda>(outs, sw'). sw_ok g cap sw' \<and> sw_remote_nodes sw' = sw_remote_nodes sw \<and>
      sw_available_rx_buffer_pool sw' = sw_available_rx_buffer_pool sw \<and> pool (sw_tap_write_pool sw') = [] \<and>
      pool (sw_available_tx_buffer_pool sw') = pool (sw_available_tx_buffer_pool sw) @ pool (sw_tap_write_pool sw))
    (tap_write_round g at None sw)"
proof (cases "pool (sw_tap_write_pool sw) = []")
  case True
  then show ?thesis by (simp add: tap_write_round_def BufferPool_wait_def after_wait_def)
next
  case False
  let ?bs = "pool (sw_tap_write_pool sw)"
  let ?sw = "sw\<lparr>sw_tap_write_pool := (sw_tap_write_pool sw)\<lparr>pool := []\<rparr>\<rparr>"
  have wait: "BufferPool_wait None [] (sw_tap_write_pool sw) = Inr (?bs, (sw_tap_write_pool sw)\<lparr>pool := []\<rparr>)"
    using False by (simp add: BufferPool_wait_def after_wait_def BufferPool_pop_into_all)
  have 1: "sw_ok g cap ?sw" "\<forall>b \<in> set ?bs. buffer_ok cap b \<and>
      map_find (get_key_from_sockaddr g (packet_source b)) (sw_remote_nodes ?sw) \<noteq> None"
    using sw by (auto simp: sw_ok_def pool_ok_def)
  let ?E = "{Would_block, Runtime_error ''Error writing TAP device''}"
  note run = safe_mono [OF tap_write_frames_safe [OF 1(1) assms(2) 1(2), of at], where E' = ?E]
  show ?thesis unfolding tap_write_round_def wait rbind_simps prod.case
  proof (rule safe_rbind [OF run])
    fix x :: "u8 list list \<times> packet_switch"
    assume "case x of (outs, sw') \<Rightarrow> sw_ok g cap sw' \<and> (\<exists>f. sw' = ?sw\<lparr>sw_fdb := f\<rparr>)"
    then obtain outs sw' f where x: "x = (outs, sw')" "sw_ok g cap sw'" "sw' = ?sw\<lparr>sw_fdb := f\<rparr>"
      by (cases x) auto
    have avail: "pool_ok cap (sw_available_tx_buffer_pool sw')" using x(2) by (simp add: sw_ok_def)
    have "BufferPool_push_list ?bs (sw_available_tx_buffer_pool sw') = Inr
        ((sw_available_tx_buffer_pool sw')\<lparr>pool := pool (sw_available_tx_buffer_pool sw') @ ?bs\<rparr>, [])"
      using avail 1(2) by (intro BufferPool_push_list_ok [of _ cap]) (simp_all add: pool_ok_def)
    moreover have "pool_ok cap ((sw_available_tx_buffer_pool sw')
        \<lparr>pool := pool (sw_available_tx_buffer_pool sw') @ ?bs\<rparr>)"
      using avail 1(2) by (auto simp: pool_ok_def)
    ultimately show "safe ?E (\<lambda>(outs, sw'). sw_ok g cap sw' \<and> sw_remote_nodes sw' = sw_remote_nodes sw \<and>
      sw_available_rx_buffer_pool sw' = sw_available_rx_buffer_pool sw \<and> pool (sw_tap_write_pool sw') = [] \<and>
      pool (sw_available_tx_buffer_pool sw') = pool (sw_available_tx_buffer_pool sw) @ ?bs)
        (case x of (outs, sw1) \<Rightarrow> rbind (BufferPool_push_list ?bs (sw_available_tx_buffer_pool sw1))
           (\<lambda>(avail, _). Inr (outs, sw1\<lparr>sw_available_tx_buffer_pool := avail\<rparr>)))"
      using x by (simp add: sw_ok_def)
  qed auto
qed

lemma fdb_round_ok: "sw_ok g cap sw \<Longrightarrow> sw_ok g cap (fdb_round now sw)"
  using fdb_ok_expire [of "sw_fdb sw" now 300] FDB_get_expire [of "sw_fdb sw"]
  unfolding sw_ok_def fdb_round_def by auto

end
