(* ===== verification/Switch_Steps.thy ===== *)
theory Switch_Steps
  imports Packet_Switch
begin

unbundle bit_operations_syntax

text \<open>
  The threads of one end of the tunnel together: the reader of the TAP device, the encoder, the
  sender and the decoder of every remote node, the reader of the socket, the writer of the TAP
  device and the expiry of the forwarding database. A step is one round of one thread, on the
  pools as it finds them; a thread whose round would sleep has no step, nor has one whose round fails
  (for a read behind the memory of a buffer, C++ says nothing of what follows). The device and
  \<open>recvmmsg\<close> give at most as many bytes as the buffer holds. The rounds are atomic here.
\<close>

section \<open>The state\<close>

text \<open>
  Besides the switch: what the threads hold between two rounds, the codec of every node (the
  encoder with the length of its next wait), and the datagrams that have been sent.
\<close>

record ('s, 'f) system =
  sy_switch :: packet_switch
  sy_tap_buffer :: "packet_buffer option"
  sy_slots :: "packet_buffer list"
  sy_received :: received
  sy_decoders :: "(node_key, 's decoder) map"
  sy_encoders :: "(node_key, nat \<times> ('s, 'f) encoder) map"
  sy_network :: "datagram list"

text \<open>The buffers the socket thread takes before its loop, and the codecs of the nodes.\<close>

fun start_decoders ::
    "'s codec_lib \<Rightarrow> u32 \<Rightarrow> u16 \<Rightarrow> packet_pool \<Rightarrow> node_key list \<Rightarrow>
       (node_key, 's decoder) map \<times> packet_pool \<Rightarrow> ((node_key, 's decoder) map \<times> packet_pool) result"
where
  "start_decoders lib garbage l2mtu tap [] s = Inr s"
| "start_decoders lib garbage l2mtu tap (k # ks) (decs, avail) =
     rbind (PacketDecoder garbage lib l2mtu tap avail) (\<lambda>d.
     start_decoders lib garbage l2mtu tap ks (decs(k \<mapsto> d), dec_available_buffer_pool d))"

fun start_encoders ::
    "'s codec_lib \<Rightarrow> node_map \<Rightarrow> (node_key, nat \<times> ('s, 'f) encoder) map \<times> packet_pool \<Rightarrow>
       ((node_key, nat \<times> ('s, 'f) encoder) map \<times> packet_pool) result"
where
  "start_encoders lib [] s = Inr s"
| "start_encoders lib ((k, None) # ns) s = Inl Null_pointer"
| "start_encoders lib ((k, Some rn) # ns) (encs, avail) =
     rbind (encoder_setup lib rn avail) (\<lambda>e.
     start_encoders lib ns (encs(k \<mapsto> (1, e)), enc_available_buffer_pool e))"

definition system_start :: "'s codec_lib \<Rightarrow> u32 \<Rightarrow> packet_switch \<Rightarrow> ('s, 'f) system result" where
  "system_start lib garbage sw =
     rbind (pop_many BufferPool_pop_wait SETH_MAX_RECVMM_MESSAGES (sw_available_tx_buffer_pool sw))
       (\<lambda>(slots, avail).
     rbind (start_decoders lib garbage (sw_l2mtu sw) (sw_tap_write_pool sw)
              (map fst (sw_remote_nodes sw)) (Map.empty, avail)) (\<lambda>(decs, avail').
     rbind (start_encoders lib (sw_remote_nodes sw) (Map.empty, sw_available_rx_buffer_pool sw))
       (\<lambda>(encs, rx).
     Inr \<lparr>sy_switch = sw\<lparr>sw_available_rx_buffer_pool := rx, sw_available_tx_buffer_pool := avail'\<rparr>,
          sy_tap_buffer = None, sy_slots = slots, sy_received = [], sy_decoders = decs,
          sy_encoders = encs, sy_network = []\<rparr>)))"

definition after_tap_read :: "tap_read_end \<Rightarrow> ('s, 'f) system \<Rightarrow> ('s, 'f) system" where
  "after_tap_read r s =
     (case r of
        Restart b sw \<Rightarrow> s\<lparr>sy_switch := sw, sy_tap_buffer := Some b\<rparr>
      | Handled sw \<Rightarrow> s\<lparr>sy_switch := sw, sy_tap_buffer := None\<rparr>)"

text \<open>The threads of a node work on the pools the switch and the other nodes share.\<close>

definition decoder_of_switch :: "packet_switch \<Rightarrow> 's decoder \<Rightarrow> 's decoder" where
  "decoder_of_switch sw d =
     d\<lparr>dec_tx_buffer_pool := sw_tap_write_pool sw,
       dec_available_buffer_pool := sw_available_tx_buffer_pool sw\<rparr>"

definition encoder_of_switch :: "packet_switch \<Rightarrow> remote_node \<Rightarrow> ('s, 'f) encoder \<Rightarrow> ('s, 'f) encoder" where
  "encoder_of_switch sw rn e =
     e\<lparr>enc_tx_buffer_pool := rn_socket_write_pool rn,
       enc_available_buffer_pool := sw_available_rx_buffer_pool sw\<rparr>"

definition after_decode ::
    "node_key \<Rightarrow> remote_node \<Rightarrow> packet_pool \<Rightarrow> 's decoder \<Rightarrow> ('s, 'f) system \<Rightarrow> ('s, 'f) system"
where
  "after_decode k rn p d s =
     s\<lparr>sy_switch := (sy_switch s)
         \<lparr>sw_remote_nodes := map_assign k (Some (rn\<lparr>rn_decoder_pool := p\<rparr>)) (sw_remote_nodes (sy_switch s)),
          sw_tap_write_pool := dec_tx_buffer_pool d,
          sw_available_tx_buffer_pool := dec_available_buffer_pool d\<rparr>,
       sy_decoders := (sy_decoders s)(k \<mapsto> d)\<rparr>"

definition after_encode ::
    "node_key \<Rightarrow> remote_node \<Rightarrow> nat \<Rightarrow> packet_pool \<Rightarrow> ('s, 'f) encoder \<Rightarrow> ('s, 'f) system \<Rightarrow> ('s, 'f) system"
where
  "after_encode k rn t p e s =
     s\<lparr>sy_switch := (sy_switch s)
         \<lparr>sw_remote_nodes := map_assign k
            (Some (rn\<lparr>rn_encoder_pool := p, rn_socket_write_pool := enc_tx_buffer_pool e\<rparr>))
            (sw_remote_nodes (sy_switch s)),
          sw_available_rx_buffer_pool := enc_available_buffer_pool e\<rparr>,
       sy_encoders := (sy_encoders s)(k \<mapsto> (t, e))\<rparr>"

definition after_send ::
    "node_key \<Rightarrow> remote_node \<Rightarrow> datagram list \<Rightarrow> packet_pool \<Rightarrow> packet_pool \<Rightarrow> ('s, 'f) system \<Rightarrow> ('s, 'f) system"
where
  "after_send k rn sent p avail s =
     s\<lparr>sy_switch := (sy_switch s)
         \<lparr>sw_remote_nodes := map_assign k (Some (rn\<lparr>rn_socket_write_pool := p\<rparr>))
            (sw_remote_nodes (sy_switch s)),
          sw_available_rx_buffer_pool := avail\<rparr>,
       sy_network := sy_network s @ sent\<rparr>"

section \<open>The steps\<close>

inductive system_step ::
    "(int \<Rightarrow> u16 \<Rightarrow> 'f) \<Rightarrow> 's codec_lib \<Rightarrow> u8 list \<Rightarrow> nat \<Rightarrow> ('s, 'f) system \<Rightarrow> ('s, 'f) system \<Rightarrow> bool"
  for ratio lib g cap where
  read_frame: "sy_tap_buffer s = None \<Longrightarrow> length frame \<le> cap \<Longrightarrow>
     tap_read_round now frame (sy_switch s) = Inr r \<Longrightarrow>
     system_step ratio lib g cap s (after_tap_read r s)"
| read_again: "sy_tap_buffer s = Some b \<Longrightarrow> length frame \<le> cap \<Longrightarrow>
     tap_read_frame now frame b (sy_switch s) = Inr r \<Longrightarrow>
     system_step ratio lib g cap s (after_tap_read r s)"
| encode: "map_find k (sw_remote_nodes (sy_switch s)) = Some (Some rn) \<Longrightarrow>
     sy_encoders s k = Some (t, e) \<Longrightarrow> woken = None \<or> woken = Some (rn_encoder_pool rn) \<Longrightarrow>
     encoder_handler_round ratio lib status woken
       (t, rn_encoder_pool rn, encoder_of_switch (sy_switch s) rn e) = Inr (t', p, e') \<Longrightarrow>
     system_step ratio lib g cap s (after_encode k rn t' p e' s)"
| send: "map_find k (sw_remote_nodes (sy_switch s)) = Some (Some rn) \<Longrightarrow>
     socket_write_round rn None (rn_socket_write_pool rn, sw_available_rx_buffer_pool (sy_switch s)) =
       Inr (sent, p, avail) \<Longrightarrow>
     system_step ratio lib g cap s (after_send k rn sent p avail s)"
| receive: "length ms \<le> length (sy_slots s) \<Longrightarrow> \<forall>m \<in> set ms. length (snd m) \<le> cap \<Longrightarrow>
     socket_read_round g ms (sy_slots s, sy_received s, sy_switch s) = Inr (slots, r, sw) \<Longrightarrow>
     system_step ratio lib g cap s (s\<lparr>sy_slots := slots, sy_received := r, sy_switch := sw\<rparr>)"
| decode: "map_find k (sw_remote_nodes (sy_switch s)) = Some (Some rn) \<Longrightarrow>
     sy_decoders s k = Some d \<Longrightarrow>
     decoder_handler_round lib None (rn_decoder_pool rn, decoder_of_switch (sy_switch s) d) = Inr (p, d') \<Longrightarrow>
     system_step ratio lib g cap s (after_decode k rn p d' s)"
| write_frames: "tap_write_round g at None (sy_switch s) = Inr (outs, sw) \<Longrightarrow>
     system_step ratio lib g cap s (s\<lparr>sy_switch := sw\<rparr>)"
| expire: "system_step ratio lib g cap s (s\<lparr>sy_switch := fdb_round now (sy_switch s)\<rparr>)"

inductive_cases system_stepE [consumes 1,
    case_names read_frame read_again encode send receive decode write_frames expire]:
  "system_step ratio lib g cap s s'"

text \<open>The states that can be reached from the start.\<close>

inductive reachable ::
    "(int \<Rightarrow> u16 \<Rightarrow> 'f) \<Rightarrow> 's codec_lib \<Rightarrow> u8 list \<Rightarrow> nat \<Rightarrow> ('s, 'f) system \<Rightarrow> ('s, 'f) system \<Rightarrow> bool"
  for ratio lib g cap s0 where
  start: "reachable ratio lib g cap s0 s0"
| step: "reachable ratio lib g cap s0 s \<Longrightarrow> system_step ratio lib g cap s s' \<Longrightarrow> reachable ratio lib g cap s0 s'"

end
