(* ===== verification/Switch_Nodes.thy ===== *)
theory Switch_Nodes
  imports Switch_Correct
begin

text \<open>
  What the rounds of the switch's threads leave alone and what they only move: the nodes with
  their addresses and sizes never change, the packets that wait to be sent are touched by no thread
  but the node's own, and every buffer that leaves one pool arrives in another.
\<close>

section \<open>The nodes\<close>

text \<open>
  A node without the two pools that other threads fill, and without its packets as well: its
  configuration.
\<close>

definition outgoing :: "remote_node \<Rightarrow> remote_node" where
  "outgoing rn = rn\<lparr>rn_decoder_pool := BufferPool 0, rn_encoder_pool := BufferPool 0\<rparr>"

definition configured :: "remote_node \<Rightarrow> remote_node" where
  "configured rn = (outgoing rn)\<lparr>rn_socket_write_pool := BufferPool 0\<rparr>"

abbreviation nodes_out :: "node_map \<Rightarrow> node_map" where
  "nodes_out \<equiv> map_values (map_option outgoing)"

abbreviation nodes_conf :: "node_map \<Rightarrow> node_map" where
  "nodes_conf \<equiv> map_values (map_option configured)"

lemma outgoing_simps [simp]:
  "outgoing (rn\<lparr>rn_decoder_pool := p\<rparr>) = outgoing rn"
  "outgoing (rn\<lparr>rn_encoder_pool := p\<rparr>) = outgoing rn"
  "rn_socket_write_pool (outgoing rn) = rn_socket_write_pool rn"
  "rn_l4mtu (outgoing rn) = rn_l4mtu rn" "rn_node_addr (outgoing rn) = rn_node_addr rn"
  by (simp_all add: outgoing_def)

lemma configured_simps [simp]:
  "configured (rn\<lparr>rn_decoder_pool := p\<rparr>) = configured rn"
  "configured (rn\<lparr>rn_encoder_pool := p\<rparr>) = configured rn"
  "configured (rn\<lparr>rn_socket_write_pool := p\<rparr>) = configured rn"
  "rn_l4mtu (configured rn) = rn_l4mtu rn" "rn_node_addr (configured rn) = rn_node_addr rn"
  by (simp_all add: configured_def outgoing_def)

lemma outgoing_eqD:
  "outgoing rn' = outgoing rn \<Longrightarrow> rn_l4mtu rn' = rn_l4mtu rn \<and>
     rn_socket_write_pool rn' = rn_socket_write_pool rn"
  by (metis outgoing_simps(3,4))

lemma configured_eqD:
  "configured rn' = configured rn \<Longrightarrow> rn_l4mtu rn' = rn_l4mtu rn \<and> rn_node_addr rn' = rn_node_addr rn"
  by (metis configured_simps(4,5))

lemma nodes_out_conf: "nodes_out nodes' = nodes_out nodes \<Longrightarrow> nodes_conf nodes' = nodes_conf nodes"
proof -
  have "nodes_conf m = map_values (map_option (\<lambda>rn. rn\<lparr>rn_socket_write_pool := BufferPool 0\<rparr>)) (nodes_out m)" for m
    by (simp add: map_values_values option.map_comp comp_def configured_def [abs_def])
  then show "nodes_out nodes' = nodes_out nodes \<Longrightarrow> nodes_conf nodes' = nodes_conf nodes" by simp
qed

lemma nodes_conf_find:
  assumes "nodes_conf nodes' = nodes_conf nodes"
  shows "map_find k nodes' = Some (Some rn') \<Longrightarrow>
      \<exists>rn. map_find k nodes = Some (Some rn) \<and> configured rn = configured rn'"
    and "map_find k nodes' = None \<longleftrightarrow> map_find k nodes = None"
proof -
  have "map_option (map_option configured) (map_find k nodes') = map_option (map_option configured) (map_find k nodes)"
    unfolding map_find_values [symmetric] assms ..
  then show "map_find k nodes' = Some (Some rn') \<Longrightarrow>
      \<exists>rn. map_find k nodes = Some (Some rn) \<and> configured rn = configured rn'"
    and "map_find k nodes' = None \<longleftrightarrow> map_find k nodes = None"
    by (auto simp: map_option_case split: option.splits)
qed

lemma nodes_out_find:
  assumes "nodes_out nodes' = nodes_out nodes" and "map_find k nodes' = Some (Some rn')"
  shows "\<exists>rn. map_find k nodes = Some (Some rn) \<and> outgoing rn = outgoing rn'"
proof -
  have "map_option (map_option outgoing) (map_find k nodes') = map_option (map_option outgoing) (map_find k nodes)"
    unfolding map_find_values [symmetric] assms(1) ..
  with assms(2) show ?thesis by (auto simp: map_option_case split: option.splits)
qed

section \<open>The buffers\<close>

text \<open>
  How many buffers of the two families a node has in its pools. \<open>p\<close> counts those that the node's
  own threads hold.
\<close>

fun node_rx :: "remote_node option \<Rightarrow> nat" where
  "node_rx None = 0"
| "node_rx (Some rn) = length (pool (rn_encoder_pool rn)) + length (pool (rn_socket_write_pool rn))"

fun node_tx :: "remote_node option \<Rightarrow> nat" where
  "node_tx None = 0"
| "node_tx (Some rn) = length (pool (rn_decoder_pool rn))"

definition rx_buffers :: "(node_key \<Rightarrow> nat) \<Rightarrow> packet_switch \<Rightarrow> nat" where
  "rx_buffers p sw = length (pool (sw_available_rx_buffer_pool sw)) +
     map_total (\<lambda>k n. node_rx n + p k) (sw_remote_nodes sw)"

definition tx_buffers :: "(node_key \<Rightarrow> nat) \<Rightarrow> packet_switch \<Rightarrow> nat" where
  "tx_buffers p sw = length (pool (sw_available_tx_buffer_pool sw)) + length (pool (sw_tap_write_pool sw)) +
     map_total (\<lambda>k n. node_tx n + p k) (sw_remote_nodes sw)"

section \<open>Frames from the TAP device\<close>

lemma BufferPool_push_length: "BufferPool_push b p = Inr q \<Longrightarrow> length (pool q) = Suc (length (pool p))"
  by (auto simp: BufferPool_push_def split: if_splits)

lemma push_to_encoder_moves:
  assumes "push_to_encoder b n = Inr n'"
  shows "node_rx n' = Suc (node_rx n)" and "node_tx n' = node_tx n"
    and "map_option outgoing n' = map_option outgoing n" and "n \<noteq> None"
  using assms
  by (auto simp: push_to_encoder_def rbind_Inr_conv dest!: BufferPool_push_length split: option.splits)

lemma broadcast_moves:
  assumes "broadcast b nodes avail = Inr (nodes', avail')"
  shows "map_total (\<lambda>k n. node_rx n + p k) nodes' + length (pool avail') =
      map_total (\<lambda>k n. node_rx n + p k) nodes + length (pool avail) + of_bool (nodes \<noteq> [])"
    and "map_total (\<lambda>k n. node_tx n + q k) nodes' = map_total (\<lambda>k n. node_tx n + q k) nodes"
    and "nodes_out nodes' = nodes_out nodes"
  using assms
proof (induction b nodes avail arbitrary: nodes' avail' rule: broadcast.induct)
  case (2 b k n avail)
  { case 1 then show ?case by (auto simp: rbind_Inr_conv push_to_encoder_moves) }
  { case 2 then show ?case by (auto simp: rbind_Inr_conv push_to_encoder_moves) }
  { case 3 then show ?case by (auto simp: rbind_Inr_conv push_to_encoder_moves) }
next
  case (3 b k n x xs avail)
  have step: "\<exists>c avail1 n' rest. BufferPool_pop_wait avail = Inr (c, avail1) \<and>
      length (pool avail) = Suc (length (pool avail1)) \<and>
      push_to_encoder (PacketBuffer_assign b c) n = Inr n' \<and>
      broadcast b (x # xs) avail1 = Inr (rest, avail') \<and> nodes' = (k, n') # rest"
    if "broadcast b ((k, n) # x # xs) avail = Inr (nodes', avail')" for nodes' avail'
    using that by (fastforce simp: rbind_Inr_conv BufferPool_pop_wait_Inr)
  { case 1 from step [OF this] show ?case using "3.IH"(1) by (auto simp: push_to_encoder_moves) }
  { case 2 from step [OF this] show ?case using "3.IH"(2) by (auto simp: push_to_encoder_moves) }
  { case 3 from step [OF this] show ?case using "3.IH"(3) by (auto simp: push_to_encoder_moves) }
qed (auto)

text \<open>The ways in which a read from the device can end.\<close>

lemma tap_read_frame_ends:
  assumes run: "tap_read_frame now frame b sw = Inr r"
  obtains (kept) b' f where "r = Restart b' (sw\<lparr>sw_fdb := f\<rparr>)"
    | (all) b' f nodes avail where
      "broadcast b' (sw_remote_nodes sw) (sw_available_rx_buffer_pool sw) = Inr (nodes, avail)"
      "r = Handled (sw\<lparr>sw_fdb := f, sw_remote_nodes := nodes, sw_available_rx_buffer_pool := avail\<rparr>)"
    | (one) b' f k n n' where "map_find k (sw_remote_nodes sw) = Some n" "push_to_encoder b' n = Inr n'"
      "r = Handled (sw\<lparr>sw_fdb := f, sw_remote_nodes := map_assign k n' (sw_remote_nodes sw)\<rparr>)"
proof -
  have some: "frame \<noteq> []" using run by (auto simp: tap_read_frame_def)
  obtain b1 b2 src dst where in_buffer: "Buffer_write 0 frame b = Inr b1" "Buffer_setDataSize (length frame) b1 = Inr b2"
    "frame_src_mac b2 = Inr src" "frame_dst_mac b2 = Inr dst"
    using run by (auto simp: tap_read_frame_def rbind_Inr_conv split: if_splits)
  show thesis
  proof (cases "mac_is_group src")
    case True
    then show thesis using run kept [of b2 "sw_fdb sw"] by (simp add: tap_read_frame_def some in_buffer)
  next
    case src: False
    let ?sw = "sw\<lparr>sw_fdb := FDB_learn now src None (sw_fdb sw)\<rparr>"
    show thesis
    proof (cases "mac_is_group dst")
      case True
      then show thesis using run src all by (auto simp: tap_read_frame_def some in_buffer rbind_Inr_conv)
    next
      case False
      show thesis
      proof (cases "FDB_getRemoteNode dst (sw_fdb ?sw)")
        case None
        then show thesis
          using run src False kept [of b2 "FDB_learn now src None (sw_fdb sw)"]
          by (simp add: tap_read_frame_def some in_buffer)
      next
        case (Some e)
        with run src False obtain k where "fe_dest e = Some k"
          by (cases "fe_dest e") (simp_all add: tap_read_frame_def some in_buffer Let_def)
        with run src False Some obtain n' where k: "push_to_encoder b2 (case map_find k (sw_remote_nodes sw) of
            None \<Rightarrow> None | Some n \<Rightarrow> n) = Inr n'"
          "r = Handled (?sw\<lparr>sw_remote_nodes := map_assign k n' (sw_remote_nodes sw)\<rparr>)"
          by (auto simp: tap_read_frame_def some in_buffer Let_def rbind_Inr_conv)
        then have "map_find k (sw_remote_nodes sw) \<noteq> None"
          by (auto simp: push_to_encoder_def split: option.splits)
        with k one show thesis by auto
      qed
    qed
  qed
qed

text \<open>A frame from the device: its buffer is kept, or goes to a node.\<close>

abbreviation tap_end_switch :: "tap_read_end \<Rightarrow> packet_switch" where
  "tap_end_switch r \<equiv> (case r of Restart b sw \<Rightarrow> sw | Handled sw \<Rightarrow> sw)"

abbreviation tap_end_held :: "tap_read_end \<Rightarrow> nat" where
  "tap_end_held r \<equiv> (case r of Restart b sw \<Rightarrow> 1 | Handled sw \<Rightarrow> 0)"

lemma tap_read_frame_moves:
  assumes "tap_read_frame now frame b sw = Inr r" and "map_ok (sw_remote_nodes sw)"
    and "sw_remote_nodes sw \<noteq> []"
  shows "rx_buffers p (tap_end_switch r) + tap_end_held r = rx_buffers p sw + 1 \<and>
    tx_buffers q (tap_end_switch r) = tx_buffers q sw \<and>
    nodes_out (sw_remote_nodes (tap_end_switch r)) = nodes_out (sw_remote_nodes sw)"
  using assms(1)
proof (cases rule: tap_read_frame_ends)
  case kept
  then show ?thesis by (simp add: rx_buffers_def tx_buffers_def)
next
  case all
  with broadcast_moves(1) [OF all(1), of p] broadcast_moves(2) [OF all(1), of q]
    broadcast_moves(3) [OF all(1)] assms(3)
  show ?thesis by (simp add: rx_buffers_def tx_buffers_def)
next
  case (one b' f k n n')
  have "map_total (\<lambda>k n. h n + u k) (map_assign k n' (sw_remote_nodes sw)) + (h n + u k) =
      map_total (\<lambda>k n. h n + u k) (sw_remote_nodes sw) + (h n' + u k)" for h :: "remote_node option \<Rightarrow> nat" and u
    by (rule map_total_assign [OF assms(2) one(1)]) simp
  from this [of node_rx p] this [of node_tx q] push_to_encoder_moves [OF one(2)] show ?thesis
    unfolding one(3) by (simp add: rx_buffers_def tx_buffers_def map_values_assign [OF one(1) _ assms(2)])
qed

lemma tap_read_round_moves:
  assumes "tap_read_round now frame sw = Inr r" and "map_ok (sw_remote_nodes sw)"
    and "sw_remote_nodes sw \<noteq> []"
  shows "rx_buffers p (tap_end_switch r) + tap_end_held r = rx_buffers p sw \<and>
    tx_buffers q (tap_end_switch r) = tx_buffers q sw \<and>
    nodes_out (sw_remote_nodes (tap_end_switch r)) = nodes_out (sw_remote_nodes sw)"
proof -
  obtain b avail where b: "BufferPool_pop_wait (sw_available_rx_buffer_pool sw) = Inr (b, avail)"
    "tap_read_frame now frame b (sw\<lparr>sw_available_rx_buffer_pool := avail\<rparr>) = Inr r"
    using assms(1) by (auto simp: tap_read_round_def rbind_Inr_conv)
  have "rx_buffers p sw = rx_buffers p (sw\<lparr>sw_available_rx_buffer_pool := avail\<rparr>) + 1"
    using b(1) by (auto simp: rx_buffers_def BufferPool_pop_wait_Inr)
  with tap_read_frame_moves [OF b(2), of p q] assms(2,3) show ?thesis by (simp add: tx_buffers_def)
qed

section \<open>Messages from the socket\<close>

abbreviation received_count :: "received \<Rightarrow> nat" where
  "received_count r \<equiv> map_total (\<lambda>k bs. length bs) r"

lemma received_count_add:
  assumes "map_ok r"
  shows "received_count (received_add k b r) = Suc (received_count r)"
proof (cases "map_find k r")
  case None
  then show ?thesis by (simp add: received_add_def map_total_new)
next
  case (Some bs)
  have "received_count (map_assign k (bs @ [b]) r) + length bs = received_count r + length (bs @ [b])"
    by (rule map_total_assign [OF assms Some]) simp
  then show ?thesis by (simp add: received_add_def Some)
qed

lemma socket_messages_moves:
  assumes "socket_messages g nodes ms slots r avail = Inr (slots', r', avail')" and "map_ok r"
  shows "length slots' = length slots \<and> map_ok r' \<and>
    received_count r' + length (pool avail') = received_count r + length (pool avail)"
  using assms
proof (induction g nodes ms slots r avail arbitrary: slots' r' avail' rule: socket_messages.induct)
  case (1 g nodes m ms slot slots r avail)
  obtain b b1 key slot1 r1 avail1 slots2 where step: "socket_receive m slot = Inr b"
    "socket_accept g nodes (length (snd m)) b = Inr (b1, key)"
    "(case key of None \<Rightarrow> Inr (b1, r, avail)
      | Some k \<Rightarrow> rbind (BufferPool_pop_wait avail) (\<lambda>(fresh, avail'). Inr (fresh, received_add k b1 r, avail'))) =
      Inr (slot1, r1, avail1)"
    "socket_messages g nodes ms slots r1 avail1 = Inr (slots2, r', avail')" "slots' = slot1 # slots2"
    using "1.prems"(1) by (auto simp: rbind_Inr_conv)
  have "map_ok r1 \<and> received_count r1 + length (pool avail1) = received_count r + length (pool avail)"
    using step(3) "1.prems"(2)
    by (auto simp: rbind_Inr_conv BufferPool_pop_wait_Inr received_count_add split: option.splits)
      (simp add: received_add_def map_ok_assign)
  with "1.IH" [OF step(1,2) refl step(3) refl refl step(4)] step(5) show ?case by simp
qed auto

lemma socket_hand_over_moves:
  assumes "socket_hand_over r nodes = Inr (r', nodes')" and "map_ok nodes"
  shows "received_count r' + map_total (\<lambda>k n. node_tx n + q k) nodes' =
      received_count r + map_total (\<lambda>k n. node_tx n + q k) nodes \<and>
    map_total (\<lambda>k n. node_rx n + p k) nodes' = map_total (\<lambda>k n. node_rx n + p k) nodes \<and>
    nodes_out nodes' = nodes_out nodes"
  using assms
proof (induction r nodes arbitrary: r' nodes' rule: socket_hand_over.induct)
  case (2 k bs r nodes)
  obtain rn pl bs1 r1 where step: "map_find k nodes = Some (Some rn)"
    "BufferPool_push_list bs (rn_decoder_pool rn) = Inr (pl, bs1)"
    "socket_hand_over r (map_assign k (Some (rn\<lparr>rn_decoder_pool := pl\<rparr>)) nodes) = Inr (r1, nodes')"
    "r' = (k, bs1) # r1"
    using "2.prems"(1) by (auto simp: rbind_Inr_conv split: option.splits)
  have pl: "length (pool pl) = length (pool (rn_decoder_pool rn)) + length bs" "bs1 = []"
    using step(2) by (auto simp: BufferPool_push_list_def split: if_splits)
  let ?n = "Some (rn\<lparr>rn_decoder_pool := pl\<rparr>)"
  have sum: "map_total (\<lambda>k n. h n + u k) (map_assign k ?n nodes) + (h (Some rn) + u k) =
      map_total (\<lambda>k n. h n + u k) nodes + (h ?n + u k)" for h :: "remote_node option \<Rightarrow> nat" and u
    by (rule map_total_assign [OF "2.prems"(2) step(1)]) simp
  have out: "nodes_out (map_assign k ?n nodes) = nodes_out nodes"
    by (rule map_values_assign [OF step(1) _ "2.prems"(2)]) simp
  from "2.IH" [OF step(1) refl step(2) refl step(3) map_ok_assign [OF "2.prems"(2)]]
    sum [of node_tx q] sum [of node_rx p] pl out
  show ?case by (simp add: step(4))
qed simp

lemma socket_read_round_moves:
  assumes "socket_read_round g ms (slots, r, sw) = Inr (slots', r', sw')" and "map_ok (sw_remote_nodes sw)"
    and "map_ok r"
  shows "rx_buffers p sw' = rx_buffers p sw \<and>
    tx_buffers q sw' + received_count r' + length slots' = tx_buffers q sw + received_count r + length slots \<and>
    nodes_out (sw_remote_nodes sw') = nodes_out (sw_remote_nodes sw)"
proof -
  obtain r1 avail nodes where
    1: "socket_messages g (sw_remote_nodes sw) ms slots r (sw_available_tx_buffer_pool sw) = Inr (slots', r1, avail)" and
    2: "socket_hand_over r1 (sw_remote_nodes sw) = Inr (r', nodes)" and
    sw': "sw' = sw\<lparr>sw_remote_nodes := nodes, sw_available_tx_buffer_pool := avail\<rparr>"
    using assms(1) by (auto simp: socket_read_round_def rbind_Inr_conv)
  from socket_messages_moves [OF 1 assms(3)] socket_hand_over_moves [OF 2 assms(2), of q p] show ?thesis
    by (simp add: sw' rx_buffers_def tx_buffers_def)
qed

end
