(* ===== verification/Encoder_Safe.thy ===== *)
theory Encoder_Safe
  imports Tunnel
begin

unbundle bit_operations_syntax

text \<open>
  What the encoder does with any frames and any compression library: it always returns unless it
  has to wait for a buffer or the library reports a nonsensical size, it writes inside its buffers,
  it loses none of them, and every packet it hands over has a header that the decoder accepts and
  fits into a datagram. The theory is the counterpart of \<open>Decoder_Safe\<close>.
\<close>

section \<open>The invariant\<close>

text \<open>A packet that is ready to be sent, of at most \<open>m\<close> bytes.\<close>

definition sendable :: "nat \<Rightarrow> nat \<Rightarrow> packet_buffer \<Rightarrow> bool" where
  "sendable cap m b \<longleftrightarrow>
     buffer_ok cap b \<and> 16 \<le> dataSize b \<and> dataSize b \<le> m \<and>
     (\<exists>seq. take 8 (buffer_data b) = PacketHeader_bytes (packet_header_of seq))"

lemma packet_header_of_accepted: "\<not> packet_header_bad (packet_header_of seq)"
  by (simp add: packet_header_bad_def packet_header_of_def SETH_PACKET_HEADER_VERSION_V1_def)

text \<open>
  The packet under construction: only the header, nothing counted, or at least one option header,
  and then one of them is announced.
\<close>

definition enc_current :: "nat \<Rightarrow> ('s, 'f) encoder \<Rightarrow> bool" where
  "enc_current cap e \<longleftrightarrow>
     buffer_ok cap (enc_tx_buffer e) \<and> dataSize (enc_tx_buffer e) \<le> unat (enc_l4mtu e) \<and>
     8 + 8 * unat (enc_packet_count e) \<le> dataSize (enc_tx_buffer e) \<and>
     (if enc_packet_count e = 0 then dataSize (enc_tx_buffer e) = 8 \<and> enc_opt_len e = 0
      else enc_opt_len e = 1)"

definition enc_mem :: "nat \<Rightarrow> ('s, 'f) encoder \<Rightarrow> bool" where
  "enc_mem cap e \<longleftrightarrow>
     enc_current cap e \<and> 104 \<le> unat (enc_l4mtu e) \<and> unat (enc_l4mtu e) \<le> cap \<and>
     pool_ok cap (enc_available_buffer_pool e) \<and> pool_ok cap (enc_tx_buffer_pool e) \<and>
     (\<forall>b \<in> set (enc_inflight_buffers e). buffer_ok cap b) \<and>
     (\<forall>b. enc_comp_buffer e = Some b \<longrightarrow> buffer_ok cap b) \<and>
     (enc_packet_format e \<noteq> 0 \<longrightarrow> enc_compressor e \<noteq> None) \<and>
     statistic_ok (enc_statCompressionRatio e)"

text \<open>Between two calls there is a compression buffer, and room for ten option headers.\<close>

definition enc_idle :: "('s, 'f) encoder \<Rightarrow> bool" where
  "enc_idle e \<longleftrightarrow> enc_comp_buffer e \<noteq> None \<and> dataSize (enc_tx_buffer e) + 96 \<le> unat (enc_l4mtu e)"

definition enc_count :: "('s, 'f) encoder \<Rightarrow> nat" where
  "enc_count e = length (pool (enc_available_buffer_pool e)) + length (enc_inflight_buffers e)
     + length (pool (enc_tx_buffer_pool e)) + of_bool (enc_comp_buffer e \<noteq> None)"

text \<open>
  \<open>ekeeps cap e0 n e\<close>: \<open>e\<close> has come from \<open>e0\<close>, with \<open>n\<close> buffers more in its hands, and the packets
  it has handed over since can be sent.
\<close>

definition ekeeps :: "nat \<Rightarrow> ('s, 'f) encoder \<Rightarrow> nat \<Rightarrow> ('s, 'f) encoder \<Rightarrow> bool" where
  "ekeeps cap e0 n e \<longleftrightarrow>
     enc_mem cap e \<and> enc_l2mtu e = enc_l2mtu e0 \<and> enc_l4mtu e = enc_l4mtu e0 \<and>
     enc_packet_format e = enc_packet_format e0 \<and> enc_count e = enc_count e0 + n \<and>
     (\<exists>fs. pool (enc_tx_buffer_pool e) = pool (enc_tx_buffer_pool e0) @ fs \<and>
       (\<forall>b \<in> set fs. sendable cap (unat (enc_l4mtu e0)) b))"

lemma ekeeps_refl: "enc_mem cap e \<Longrightarrow> ekeeps cap e 0 e"
  by (simp add: ekeeps_def)

lemma ekeeps_mem: "ekeeps cap e0 n e \<Longrightarrow> enc_mem cap e \<and> enc_l4mtu e = enc_l4mtu e0"
  by (simp add: ekeeps_def)

lemma ekeeps_trans: "ekeeps cap e0 m e1 \<Longrightarrow> ekeeps cap e1 n e2 \<Longrightarrow> ekeeps cap e0 (m + n) e2"
  by (auto simp: ekeeps_def)

lemma ekeeps_current:
  "ekeeps cap e0 n e \<Longrightarrow>
    enc_current cap (e\<lparr>enc_tx_buffer := b, enc_opt_len := l, enc_packet_count := c\<rparr>) \<Longrightarrow>
    ekeeps cap e0 n (e\<lparr>enc_tx_buffer := b, enc_opt_len := l, enc_packet_count := c\<rparr>)"
  by (auto simp: ekeeps_def enc_mem_def enc_count_def)

section \<open>The internal operations\<close>

lemma header_written:
  assumes "buffer_ok cap b" and "16 \<le> dataSize b" and "dataSize b \<le> m"
  shows "\<exists>b'. Buffer_write 0 (PacketHeader_bytes (packet_header_of seq)) b = Inr b' \<and> sendable cap m b'"
proof -
  let ?h = "PacketHeader_bytes (packet_header_of seq)"
  let ?b = "b\<lparr>content := overwrite 0 ?h (content b)\<rparr>"
  have len: "16 \<le> length (content b)" using assms by (simp add: buffer_ok_def)
  have "take 8 (buffer_data ?b) = ?h"
    using assms(2) by (simp add: buffer_data_def overwrite_def min_def)
  moreover have "Buffer_write 0 ?h b = Inr ?b" using len by (simp add: Buffer_write_def)
  moreover have "buffer_ok cap ?b" using assms(1) len by (simp add: buffer_ok_def)
  ultimately show ?thesis using assms(2,3) by (auto simp: sendable_def)
qed

lemma safe_flush_buffer:
  assumes k: "ekeeps cap e0 n e"
  shows "safe {Would_block} (\<lambda>e'. ekeeps cap e0 n e' \<and> enc_comp_buffer e' = enc_comp_buffer e \<and>
    dataSize (enc_tx_buffer e') = 8) (encoder_flush_buffer e)"
proof (cases "enc_packet_count e = 0")
  case True
  then have "dataSize (enc_tx_buffer e) = 8" using k by (simp add: ekeeps_def enc_mem_def enc_current_def)
  with k show ?thesis by (simp add: encoder_flush_buffer_def Buffer_getDataSize_def sizeof_PacketHeader_def)
next
  case False
  have m: "enc_mem cap e" "enc_l4mtu e = enc_l4mtu e0" using ekeeps_mem [OF k] by simp_all
  have "unat (enc_packet_count e) \<noteq> 0" using False by (simp add: unat_eq_0)
  with m False have cur: "buffer_ok cap (enc_tx_buffer e)" "16 \<le> dataSize (enc_tx_buffer e)"
    "dataSize (enc_tx_buffer e) \<le> unat (enc_l4mtu e0)" "enc_opt_len e = 1"
    by (auto simp: enc_mem_def enc_current_def)
  have pools: "pool_ok cap (enc_available_buffer_pool e)" "pool_ok cap (enc_tx_buffer_pool e)" "8 \<le> cap"
    using m(1) by (simp_all add: enc_mem_def)
  define seq where "seq = (if enc_sequence e = UINT32_MAX then 1 else enc_sequence e)"
  obtain b where b: "Buffer_write 0 (PacketHeader_bytes (packet_header_of seq)) (enc_tx_buffer e) = Inr b"
    "sendable cap (unat (enc_l4mtu e0)) b" using header_written [OF cur(1-3)] by blast
  have bok: "buffer_ok cap b" using b(2) by (simp add: sendable_def)
  have hdr: "\<lparr>ph_ver = ucast SETH_PACKET_HEADER_VERSION_V1, ph_opt_len = ucast (enc_opt_len e),
      ph_oam = 0, ph_critical = 0, ph_reserved = 0, ph_format = PacketHeaderFormat_value ENCAPSULATED,
      ph_channel = 0, ph_sequence = cpu_to_be_32 seq\<rparr> = packet_header_of seq"
    using cur(4) by (simp add: packet_header_of_def SETH_PACKET_HEADER_VERSION_V1_def)
  let ?txp = "(enc_tx_buffer_pool e)\<lparr>pool := pool (enc_tx_buffer_pool e) @ [b]\<rparr>"
  have push: "BufferPool_push b (enc_tx_buffer_pool e) = Inr ?txp"
    using pools bok by (intro BufferPool_push_ok [of _ cap]) (simp_all add: pool_ok_def)
  let ?e1 = "e\<lparr>enc_sequence := seq + 1, enc_tx_buffer_pool := ?txp\<rparr>"
  have run: "encoder_flush_buffer e = encoder_getTxBuffer ?e1"
    unfolding encoder_flush_buffer_def seq_def [symmetric] Let_def hdr
    using b(1) push cur(2) by (simp add: Buffer_getDataSize_def sizeof_PacketHeader_def)
  show ?thesis
  proof (cases "pool (enc_available_buffer_pool e) = []")
    case True
    then show ?thesis unfolding run
      by (simp add: encoder_getTxBuffer_def encoder_take_buffer_def BufferPool_pop_wait_simps)
  next
    case avail: False
    obtain t q where t: "encoder_take_buffer (enc_available_buffer_pool e) = Inr (t, q)"
      "buffer_ok cap t" "dataSize t = 8" "pool_ok cap q"
      "length (pool (enc_available_buffer_pool e)) = Suc (length (pool q))"
      using take_buffer [OF pools(1) avail pools(3)] by metis
    have "pool_ok cap ?txp" using pools(2) bok by (simp add: pool_ok_def)
    with k t b(2) show ?thesis unfolding run
      by (auto simp: encoder_getTxBuffer_def ekeeps_def enc_mem_def enc_current_def enc_count_def)
  qed
qed

lemma safe_enc_flushInflight:
  assumes "ekeeps cap e0 n e"
  shows "safe {} (\<lambda>e'. ekeeps cap e0 n e' \<and> enc_comp_buffer e' = enc_comp_buffer e \<and>
    enc_tx_buffer e' = enc_tx_buffer e) (encoder_flushInflight lib e)"
proof (cases "enc_inflight_buffers e = []")
  case True
  with assms show ?thesis by (simp add: encoder_flushInflight_def)
next
  case False
  have "BufferPool_push_list (enc_inflight_buffers e) (enc_available_buffer_pool e) =
    Inr ((enc_available_buffer_pool e)\<lparr>pool := pool (enc_available_buffer_pool e)
           @ enc_inflight_buffers e\<rparr>, [])"
    using assms by (intro BufferPool_push_list_ok [of _ cap]) (simp_all add: ekeeps_def enc_mem_def pool_ok_def)
  with False assms show ?thesis
    by (auto simp: encoder_flushInflight_def ekeeps_def enc_mem_def enc_current_def enc_count_def pool_ok_def)
qed

lemma safe_add_payload:
  assumes k: "ekeeps cap e0 n e" and fits: "dataSize (enc_tx_buffer e) + 8 + length payload \<le> unat (enc_l4mtu e)"
  shows "\<exists>e'. encoder_add_payload opt payload e = Inr e' \<and> ekeeps cap e0 n e' \<and>
    enc_comp_buffer e' = enc_comp_buffer e \<and>
    dataSize (enc_tx_buffer e') = dataSize (enc_tx_buffer e) + 8 + length payload"
proof -
  let ?b = "enc_tx_buffer e"
  have m: "enc_mem cap e" using ekeeps_mem [OF k] by simp
  then have b: "buffer_ok cap ?b" and cur: "enc_current cap e" and "unat (enc_l4mtu e) \<le> cap"
    by (simp_all add: enc_mem_def enc_current_def)
  then have fit: "dataSize ?b + length (PacketHeaderOption_bytes opt) + length payload \<le> cap"
    using fits by simp
  obtain b1 b2 b3 where w: "Buffer_write (dataSize ?b) (PacketHeaderOption_bytes opt) ?b = Inr b1"
    "Buffer_setDataSize (dataSize ?b + length (PacketHeaderOption_bytes opt)) b1 = Inr b2"
    "Buffer_append payload b2 = Inr b3" "buffer_ok cap b3"
    "dataSize b3 = dataSize ?b + length (PacketHeaderOption_bytes opt) + length payload"
    by (rule Buffer_extend [OF b fit]) blast
  let ?e = "e\<lparr>enc_tx_buffer := b3,
      enc_opt_len := (if enc_packet_count e = 0 then enc_opt_len e + 1 else enc_opt_len e),
      enc_packet_count := enc_packet_count e + 1\<rparr>"
  have run: "encoder_add_payload opt payload e = Inr ?e"
    using w(1-3) by (simp add: encoder_add_payload_def Buffer_getDataSize_def
        sizeof_PacketHeaderOption_def)
  have "8 * unat (enc_packet_count e) < 65536"
    using cur fits unat_u16_bound [of "enc_l4mtu e"] unfolding enc_current_def by linarith
  then have inc: "unat (enc_packet_count e + 1) = unat (enc_packet_count e) + 1"
    by (simp add: unat_word_ariths)
  then have "enc_packet_count e + 1 \<noteq> 0" by auto
  then have "enc_current cap ?e" using cur w(4,5) fits inc by (auto simp: enc_current_def)
  from ekeeps_current [OF k this] have "ekeeps cap e0 n ?e" .
  with run w(5) show ?thesis by simp
qed

section \<open>Splitting a frame\<close>

lemma ekeeps_tx:
  "ekeeps cap e0 n e \<Longrightarrow> buffer_ok cap b \<Longrightarrow> dataSize b = dataSize (enc_tx_buffer e) \<Longrightarrow>
    ekeeps cap e0 n (e\<lparr>enc_tx_buffer := b\<rparr>)"
  by (auto simp: ekeeps_def enc_mem_def enc_count_def enc_current_def)

lemma write_byte:
  "buffer_ok cap b \<Longrightarrow> p + 1 \<le> cap \<Longrightarrow>
    \<exists>b'. Buffer_write p [x] b = Inr b' \<and> buffer_ok cap b' \<and> dataSize b' = dataSize b"
  by (simp add: Buffer_write_def buffer_ok_def)

text \<open>
  The state of the loop: as long as something of the frame is left there is room for a part of it,
  so that every round makes progress.
\<close>

definition parts_ok ::
    "nat \<Rightarrow> ('s, 'f) encoder \<Rightarrow> nat \<Rightarrow> packet_buffer option \<Rightarrow> packet_buffer \<Rightarrow> ('s, 'f) parts_state \<Rightarrow> bool"
where
  "parts_ok cap e0 n cb packet = (\<lambda>(e, pos, part).
     ekeeps cap e0 n e \<and> enc_comp_buffer e = cb \<and> unat pos \<le> dataSize packet \<and>
     (unat pos < dataSize packet \<longrightarrow> dataSize (enc_tx_buffer e) + 8 < unat (enc_l4mtu e0)))"

lemma safe_part:
  assumes ok: "parts_ok cap e0 n cb packet (e, pos, part)" and left: "unat pos < dataSize packet"
    and packet: "buffer_ok cap packet" and cap: "cap < 65536"
  shows "safe {Would_block} (\<lambda>(e', pos', part'). parts_ok cap e0 n cb packet (e', pos', part') \<and>
    unat pos < unat pos') (encoder_part orig fmt packet (e, pos, part))"
proof -
  let ?b = "enc_tx_buffer e"
  have k: "ekeeps cap e0 n e" "enc_comp_buffer e = cb" and room: "dataSize ?b + 8 < unat (enc_l4mtu e0)"
    using ok left by (simp_all add: parts_ok_def)
  have l4: "enc_l4mtu e = enc_l4mtu e0" and b: "buffer_ok cap ?b" "8 \<le> dataSize ?b" "unat (enc_l4mtu e) \<le> cap"
    using ekeeps_mem [OF k(1)] by (auto simp: enc_mem_def enc_current_def)
  have ds: "dataSize packet < 65536" using packet cap by (simp add: buffer_ok_def)
  define m where "m = unat (enc_l4mtu e0) - 8 - dataSize ?b"
  define k0 where "k0 = min (dataSize packet - unat pos) m"
  have k0: "0 < k0" "k0 < 65536" "unat pos + k0 \<le> dataSize packet" "k0 \<le> m"
    using left room ds by (auto simp: k0_def m_def)
  define lf where "lf = (of_nat (dataSize packet - unat pos) :: u16)"
  have lf: "unat lf = dataSize packet - unat pos" using ds by (simp add: lf_def)
  have max: "unat (encoder_getMaxPayloadSize lf e) = m"
    using max_payload_room [of e lf] b(2) by (simp add: m_def l4)
  have size: "(if lf > encoder_getMaxPayloadSize lf e
      then encoder_getMaxPayloadSize lf e else lf) = of_nat k0" (is "?size = _")
  proof -
    have "unat ?size = k0" using lf max by (simp add: k0_def word_less_nat_alt min_def)
    then show ?thesis using k0(2) by (simp add: word_unat_eq_iff)
  qed
  have usz: "unat (of_nat k0 :: u16) = k0" using k0(2) by simp
  define payload where "payload = slice (unat pos) k0 (buffer_data packet)"
  have read: "Buffer_read (unat pos) k0 packet = Inr payload"
    using Buffer_read_data [OF packet k0(3)] by (simp add: payload_def)
  have len: "length payload = k0" using k0(3) by (simp add: payload_def length_buffer_data [OF packet])
  define opt where "opt = \<lparr>po_type = PacketHeaderOptionType_value PARTIAL_PACKET,
      po_packet_size = cpu_to_be_16 orig, po_format = fmt,
      po_payload_length = cpu_to_be_16 (of_nat k0), po_part = part, po_reserved = 0\<rparr>"
  have fits: "dataSize ?b + 8 + length payload \<le> unat (enc_l4mtu e)"
    using k0(4) room by (simp add: len m_def l4)
  obtain e1 where e1: "encoder_add_payload opt payload e = Inr e1" "ekeeps cap e0 n e1"
    "enc_comp_buffer e1 = cb" "dataSize (enc_tx_buffer e1) = dataSize ?b + 8 + k0"
    using safe_add_payload [OF k(1) fits, of opt] k(2) len by auto
  have t: "buffer_ok cap (enc_tx_buffer e1)" "enc_l4mtu e1 = enc_l4mtu e0"
    using ekeeps_mem [OF e1(2)] by (simp_all add: enc_mem_def enc_current_def)
  have "dataSize ?b + 1 \<le> cap" using fits b(3) by simp
  from write_byte [OF t(1) this] obtain w where
    w: "Buffer_write (dataSize ?b) [po_type opt OR PacketHeaderOptionType_value COMPLETE_PACKET]
        (enc_tx_buffer e1) = Inr w" "buffer_ok cap w" "dataSize w = dataSize ?b + 8 + k0"
    using e1(4) by metis
  obtain t' where t': "(if lf - of_nat k0 = 0
        then Buffer_write (dataSize ?b) [po_type opt OR PacketHeaderOptionType_value COMPLETE_PACKET]
               (enc_tx_buffer e1)
        else Inr (enc_tx_buffer e1)) = Inr t'" "buffer_ok cap t'" "dataSize t' = dataSize ?b + 8 + k0"
    using w t(1) e1(4) by (cases "lf - of_nat k0 = 0") auto
  let ?e2 = "e1\<lparr>enc_tx_buffer := t'\<rparr>"
  have k2: "ekeeps cap e0 n ?e2" by (rule ekeeps_tx [OF e1(2) t'(2)]) (simp add: t'(3) e1(4))
  have pos': "unat (pos + of_nat k0) = unat pos + k0"
    using k0(2,3) ds by (simp add: unat_word_ariths)
  have run: "encoder_part orig fmt packet (e, pos, part) =
      rbind (if dataSize t' = unat (enc_l4mtu ?e2) then encoder_flush_buffer ?e2 else Inr ?e2)
        (\<lambda>e3. Inr (e3, pos + of_nat k0, part + 1))"
    unfolding encoder_part_def prod.case Buffer_getDataSize_def lf_def [symmetric] Let_def size
      opt_def [symmetric] usz read rbind_simps e1(1) t'(1) ..
  have "safe {Would_block} (\<lambda>e3. ekeeps cap e0 n e3 \<and> enc_comp_buffer e3 = cb \<and>
      (unat pos + k0 < dataSize packet \<longrightarrow> dataSize (enc_tx_buffer e3) + 8 < unat (enc_l4mtu e0)))
    (if dataSize t' = unat (enc_l4mtu ?e2) then encoder_flush_buffer ?e2 else Inr ?e2)"
  proof (intro safe_if safe_mono [OF safe_flush_buffer [OF k2]], goal_cases)
    case (2 e3)
    have "104 \<le> unat (enc_l4mtu e0)" using ekeeps_mem [OF k(1)] by (auto simp: enc_mem_def)
    then show ?case using 2 e1(3) by simp
  next
    case 3
    have "dataSize packet - unat pos \<le> m" using 3 t'(3) t(2) room by (simp add: k0_def m_def min_def split: if_splits)
    then show ?case using k2 e1(3) left by (simp add: k0_def)
  qed simp
  then show ?thesis unfolding run
    by (rule safe_rbind) (use k0(1,3) pos' in \<open>auto simp: parts_ok_def\<close>)
qed

lemma safe_parts:
  assumes ok: "parts_ok cap e0 n cb packet (e, 0, part)"
    and packet: "buffer_ok cap packet" and cap: "cap < 65536"
  shows "safe {Would_block} (\<lambda>(e', pos', part'). ekeeps cap e0 n e' \<and> enc_comp_buffer e' = cb)
    (encoder_parts orig fmt packet (e, 0, part))"
proof -
  let ?more = "\<lambda>(e :: ('a, 'b) encoder, pos :: u16, part :: u8). unat pos < Buffer_getDataSize packet"
  have "case encoder_parts orig fmt packet (e, 0, part) of Inl x \<Rightarrow> x \<in> {Would_block}
      | Inr s \<Rightarrow> parts_ok cap e0 n cb packet s \<and> \<not> ?more s"
    unfolding encoder_parts_def
  proof (rule rwhile_rule [where m = "\<lambda>(e, pos, part). dataSize packet - unat pos"])
    fix s :: "('a, 'b) parts_state"
    assume s: "parts_ok cap e0 n cb packet s" "?more s"
    obtain e pos part where e: "s = (e, pos, part)" by (cases s)
    with s have "parts_ok cap e0 n cb packet (e, pos, part)" "unat pos < dataSize packet"
      by (simp_all add: Buffer_getDataSize_def)
    from safe_part [OF this packet cap, of orig fmt] this(2)
    show "case encoder_part orig fmt packet s of Inl x \<Rightarrow> x \<in> {Would_block}
      | Inr t \<Rightarrow> parts_ok cap e0 n cb packet t \<and>
          (case t of (e, pos, part) \<Rightarrow> dataSize packet - unat pos) <
          (case s of (e, pos, part) \<Rightarrow> dataSize packet - unat pos)"
      unfolding e safe_def by (auto split: sum.splits)
  qed (rule ok)
  then show ?thesis unfolding safe_def parts_ok_def by (auto split: sum.splits)
qed

section \<open>Compression\<close>

text \<open>A compressor that reports what it has written.\<close>

definition compressor_bounded :: "'s codec_lib \<Rightarrow> nat \<Rightarrow> bool" where
  "compressor_bounded lib cap \<longleftrightarrow>
     (\<forall>input sc n out sc'. sc_compress lib input cap sc = (n, out, sc') \<longrightarrow> 0 \<le> n \<and> n \<le> int cap)"

text \<open>
  \<open>E\<close> has the exception for a size that does not fit, unless the library never reports one.
\<close>

definition size_failures :: "cpp_error set \<Rightarrow> 's codec_lib \<Rightarrow> nat \<Rightarrow> bool" where
  "size_failures E lib cap \<longleftrightarrow> Out_of_range \<in> E \<or> compressor_bounded lib cap"

lemma ekeeps_stat:
  "ekeeps cap e0 n e \<Longrightarrow> statistic_ok st \<Longrightarrow> ekeeps cap e0 n (e\<lparr>enc_statCompressionRatio := st\<rparr>)"
  by (auto simp: ekeeps_def enc_mem_def enc_count_def enc_current_def)

lemma safe_set_size:
  assumes "buffer_ok cap b" and "Out_of_range \<in> E \<or> 0 \<le> n \<and> n \<le> int cap" and "cap < 65536"
  shows "safe E (buffer_ok cap) (Buffer_setDataSize (size_of_int n) b)"
proof (cases "size_of_int n \<le> cap")
  case True
  then show ?thesis using assms(1) by (simp add: Buffer_setDataSize_def buffer_ok_def)
next
  case False
  then have "\<not> (0 \<le> n \<and> n \<le> int cap)" using assms(3) by (auto simp: size_of_int_small)
  with assms(2) have "Out_of_range \<in> E" by blast
  then show ?thesis using False assms(1) by (simp add: Buffer_setDataSize_def buffer_ok_def)
qed

definition compressed_ok ::
    "nat \<Rightarrow> ('s, 'f) encoder \<Rightarrow> packet_buffer \<times> u8 \<times> ('s, 'f) encoder \<Rightarrow> bool"
where
  "compressed_ok cap e0 = (\<lambda>(packet, format, e).
     ekeeps cap e0 0 e \<and> buffer_ok cap packet \<and> enc_tx_buffer e = enc_tx_buffer e0 \<and>
     (enc_comp_buffer e = None \<longrightarrow> enc_packet_format e \<noteq> 0))"

lemma safe_compress:
  assumes m: "enc_mem cap e" and idle: "enc_idle e" and raw: "buffer_ok cap raw" and cap: "cap < 65536"
    and lib: "size_failures E lib cap"
  shows "safe E (compressed_ok cap e) (encoder_compress ratio lib raw e)"
proof (cases "enc_packet_format e = 0")
  case True
  with assms show ?thesis
    by (simp add: encoder_compress_def Let_def compressed_ok_def ekeeps_refl enc_idle_def)
next
  case False
  obtain cb where cb: "enc_comp_buffer e = Some cb" "buffer_ok cap cb"
    using m idle unfolding enc_mem_def enc_idle_def by blast
  obtain sc where sc: "enc_compressor e = Some sc" using m False unfolding enc_mem_def by blast
  note c = cb(1) sc cb(2)
  have ds: "dataSize raw < 65536" using raw cap by (simp add: buffer_ok_def)
  have read: "Buffer_read 0 (dataSize raw) raw = Inr (slice 0 (dataSize raw) (buffer_data raw))"
    using Buffer_read_data [OF raw, of 0 "dataSize raw"] by simp
  have size: "Buffer_getBufferSize cb = cap" using c(3) by (simp add: Buffer_getBufferSize_def buffer_ok_def)
  obtain n out sc' where run: "sc_compress lib (slice 0 (dataSize raw) (buffer_data raw)) cap sc = (n, out, sc')"
    by (cases "sc_compress lib (slice 0 (dataSize raw) (buffer_data raw)) cap sc")
  obtain cb1 where cb1: "Buffer_write 0 out cb = Inr cb1" "buffer_ok cap cb1"
    using c(3) length_sc_compress [OF run] by (auto simp: Buffer_write_def buffer_ok_def)
  have n: "Out_of_range \<in> E \<or> 0 \<le> n \<and> n \<le> int cap"
    using lib run unfolding size_failures_def compressor_bounded_def by blast
  let ?e0 = "e\<lparr>enc_compressor := Some sc', enc_comp_buffer := Some cb1\<rparr>"
  let ?e1 = "encoder_pushInflight raw (e\<lparr>enc_compressor := Some sc', enc_comp_buffer := None\<rparr>)"
  have packed: "safe E (compressed_ok cap e)
      (if n \<noteq> 0 then rbind (Buffer_setDataSize (size_of_int n) cb1) (\<lambda>cb2. Inr (cb2, enc_packet_format e, ?e1))
       else Inr (raw, PacketHeaderOptionFormatType_value FORMAT_NONE, ?e0))"
  proof (intro safe_if safe_rbind [OF safe_set_size [OF cb1(2) n cap]], goal_cases)
    case (1 cb2)
    then show ?case using m raw c False
      by (auto simp: compressed_ok_def ekeeps_def enc_mem_def enc_current_def enc_count_def encoder_pushInflight_def)
  next
    case 2
    then show ?case using m raw c cb1(2) False
      by (auto simp: compressed_ok_def ekeeps_def enc_mem_def enc_current_def enc_count_def)
  qed
  have stat: "safe E (compressed_ok cap e) (rbind (Statistic_add v (enc_statCompressionRatio e1))
      (\<lambda>stat. Inr (packet, format, e1\<lparr>enc_statCompressionRatio := stat\<rparr>)))"
    if ok: "compressed_ok cap e (packet, format, e1)" for packet format v and e1 :: "('a, 'b) encoder"
  proof -
    have "statistic_ok (enc_statCompressionRatio e1)" using ok by (simp add: compressed_ok_def ekeeps_def enc_mem_def)
    then obtain st where "Statistic_add v (enc_statCompressionRatio e1) = Inr st" "statistic_ok st"
      by (rule Statistic_add_ok)
    moreover from ok calculation(2) have "compressed_ok cap e (packet, format, e1\<lparr>enc_statCompressionRatio := st\<rparr>)"
      by (simp add: compressed_ok_def ekeeps_stat)
    ultimately show ?thesis by simp
  qed
  have "encoder_compress ratio lib raw e =
      rbind (if n \<noteq> 0 then rbind (Buffer_setDataSize (size_of_int n) cb1) (\<lambda>cb2. Inr (cb2, enc_packet_format e, ?e1))
        else Inr (raw, PacketHeaderOptionFormatType_value FORMAT_NONE, ?e0))
      (\<lambda>(packet, format, e1). rbind (Statistic_add (ratio n (of_nat (dataSize raw))) (enc_statCompressionRatio e1))
        (\<lambda>stat. Inr (packet, format, e1\<lparr>enc_statCompressionRatio := stat\<rparr>)))"
    unfolding encoder_compress_def Let_def Buffer_getDataSize_def c(1,2) option.case prod.case
      unat_of_nat_u16 [OF ds] read rbind_simps size run cb1(1) using False by simp
  then show ?thesis by (simp only:) (rule safe_rbind [OF packed], clarify, rule stat)
qed

section \<open>A frame\<close>

lemma safe_enc_complete:
  assumes k: "ekeeps cap e0 0 e" and packet: "buffer_ok cap packet"
    and fits: "dataSize (enc_tx_buffer e) + 8 + dataSize packet \<le> unat (enc_l4mtu e)"
  shows "safe {} (\<lambda>e'. ekeeps cap e0 0 e' \<and> enc_comp_buffer e' = enc_comp_buffer e)
    (encoder_complete orig fmt packet e)"
proof -
  have "Buffer_read 0 (dataSize packet) packet = Inr (buffer_data packet)"
    using Buffer_read_data [OF packet, of 0 "dataSize packet"]
    by (simp add: slice_def length_buffer_data [OF packet])
  moreover have "safe {} (\<lambda>e'. ekeeps cap e0 0 e' \<and> enc_comp_buffer e' = enc_comp_buffer e)
      (encoder_add_payload opt (buffer_data packet) e)" for opt
    using safe_add_payload [OF k, of "buffer_data packet" opt] fits
    by (auto simp: length_buffer_data [OF packet])
  ultimately show ?thesis by (simp add: encoder_complete_def Let_def Buffer_getDataSize_def)
qed

text \<open>The end of \<open>encode\<close>: the buffer of the frame goes back, or replaces the compression buffer.\<close>

lemma give_back:
  assumes k: "ekeeps cap e0 0 e" and packet: "buffer_ok cap packet"
    and room: "dataSize (enc_tx_buffer e) + 96 \<le> unat (enc_l4mtu e)"
    and comp: "enc_comp_buffer e = None \<longrightarrow> enc_packet_format e \<noteq> 0"
  shows "safe E (\<lambda>e'. ekeeps cap e0 1 e' \<and> enc_idle e')
     (if enc_packet_format e \<noteq> PacketHeaderOptionFormatType_value FORMAT_NONE \<and> enc_comp_buffer e = None
      then Inr (e\<lparr>enc_comp_buffer := Some packet\<rparr>)
      else rbind (BufferPool_push packet (enc_available_buffer_pool e)) (\<lambda>avail.
           Inr (e\<lparr>enc_available_buffer_pool := avail\<rparr>)))"
proof (rule safe_if, goal_cases)
  case 1
  with k packet room show ?case
    by (auto simp: ekeeps_def enc_mem_def enc_current_def enc_count_def enc_idle_def)
next
  case 2
  have "BufferPool_push packet (enc_available_buffer_pool e) =
      Inr ((enc_available_buffer_pool e)\<lparr>pool := pool (enc_available_buffer_pool e) @ [packet]\<rparr>)"
    using k packet by (intro BufferPool_push_ok [of _ cap]) (simp_all add: ekeeps_def enc_mem_def pool_ok_def)
  with 2 k packet room comp show ?case
    by (auto simp: ekeeps_def enc_mem_def enc_current_def enc_count_def enc_idle_def pool_ok_def)
qed

text \<open>The frame goes into the packet under construction, whole or in parts.\<close>

lemma safe_place:
  assumes ok: "compressed_ok cap e (packet, fmt, e1)" and idle: "enc_idle e" and cap: "cap < 65536"
    and E: "Would_block \<in> E"
  shows "safe E (\<lambda>e2. ekeeps cap e 0 e2 \<and> enc_comp_buffer e2 = enc_comp_buffer e1)
    (if Buffer_getDataSize packet > unat (encoder_getMaxPayloadSize (of_nat (Buffer_getDataSize packet)) e1)
     then rbind (encoder_parts orig fmt packet (e1, 0, 1)) (\<lambda>(e2, _, _). encoder_flushInflight lib e2)
     else encoder_complete orig fmt packet e1)"
proof -
  have k: "ekeeps cap e 0 e1" and p: "buffer_ok cap packet"
    and t: "enc_tx_buffer e1 = enc_tx_buffer e" using ok by (simp_all add: compressed_ok_def)
  have l4: "enc_l4mtu e1 = enc_l4mtu e" and "8 \<le> dataSize (enc_tx_buffer e1)"
    using ekeeps_mem [OF k] by (auto simp: enc_mem_def enc_current_def)
  then have max: "unat (encoder_getMaxPayloadSize sz e1) = unat (enc_l4mtu e1) - 8 - dataSize (enc_tx_buffer e1)"
    for sz by (intro max_payload_room) simp
  have room: "dataSize (enc_tx_buffer e1) + 96 \<le> unat (enc_l4mtu e1)"
    using idle t l4 by (simp add: enc_idle_def)
  then have start: "parts_ok cap e 0 (enc_comp_buffer e1) packet (e1, 0, 1)"
    using k l4 by (simp add: parts_ok_def)
  show ?thesis
  proof (rule safe_if)
    show "safe E (\<lambda>e2. ekeeps cap e 0 e2 \<and> enc_comp_buffer e2 = enc_comp_buffer e1)
        (rbind (encoder_parts orig fmt packet (e1, 0, 1)) (\<lambda>(e2, _, _). encoder_flushInflight lib e2))"
    proof (rule safe_rbind [OF safe_mono [OF safe_parts [OF start p cap]]])
      fix s :: "('a, 'b) parts_state"
      assume "case s of (e', pos', part') \<Rightarrow> ekeeps cap e 0 e' \<and> enc_comp_buffer e' = enc_comp_buffer e1"
      then show "safe E (\<lambda>e2. ekeeps cap e 0 e2 \<and> enc_comp_buffer e2 = enc_comp_buffer e1)
          (case s of (e2, _, _) \<Rightarrow> encoder_flushInflight lib e2)"
        by (cases s) (auto intro: safe_mono [OF safe_enc_flushInflight])
    qed (use E in auto)
  next
    assume "\<not> Buffer_getDataSize packet > unat (encoder_getMaxPayloadSize (of_nat (Buffer_getDataSize packet)) e1)"
    then have "dataSize (enc_tx_buffer e1) + 8 + dataSize packet \<le> unat (enc_l4mtu e1)"
      using room unfolding max Buffer_getDataSize_def by linarith
    from safe_enc_complete [OF k p this] show "safe E (\<lambda>e2. ekeeps cap e 0 e2 \<and>
        enc_comp_buffer e2 = enc_comp_buffer e1) (encoder_complete orig fmt packet e1)"
      by (rule safe_mono) auto
  qed
qed

text \<open>A packet in which there is too little room for the next frame is sent.\<close>

lemma safe_make_room:
  assumes k: "ekeeps cap e 0 e3" and E: "Would_block \<in> E"
  shows "safe E (\<lambda>e4. ekeeps cap e 0 e4 \<and> enc_comp_buffer e4 = enc_comp_buffer e3 \<and>
      dataSize (enc_tx_buffer e4) + 96 \<le> unat (enc_l4mtu e4))
    (if unat (encoder_getMaxPayloadSize SETH_PACKET_MAX_SIZE e3)
          < sizeof_PacketHeader + sizeof_PacketHeaderOption * 10
     then rbind (encoder_flush_buffer e3) (encoder_flushInflight lib) else Inr e3)"
proof (rule safe_if)
  have "104 \<le> unat (enc_l4mtu e5)" if "ekeeps cap e 0 e5" for e5
    using ekeeps_mem [OF that] by (auto simp: enc_mem_def)
  then have "safe E (\<lambda>e5. ekeeps cap e 0 e5 \<and> enc_comp_buffer e5 = enc_comp_buffer e3 \<and>
      dataSize (enc_tx_buffer e5) + 96 \<le> unat (enc_l4mtu e5)) (encoder_flushInflight lib e4)"
    if "ekeeps cap e 0 e4" "enc_comp_buffer e4 = enc_comp_buffer e3" "dataSize (enc_tx_buffer e4) = 8" for e4
    using that by (intro safe_mono [OF safe_enc_flushInflight [OF that(1)]]) auto
  then show "safe E (\<lambda>e4. ekeeps cap e 0 e4 \<and> enc_comp_buffer e4 = enc_comp_buffer e3 \<and>
      dataSize (enc_tx_buffer e4) + 96 \<le> unat (enc_l4mtu e4))
    (rbind (encoder_flush_buffer e3) (encoder_flushInflight lib))"
    using E by (intro safe_rbind [OF safe_mono [OF safe_flush_buffer [OF k], of E]]) auto
next
  assume big: "\<not> unat (encoder_getMaxPayloadSize SETH_PACKET_MAX_SIZE e3)
      < sizeof_PacketHeader + sizeof_PacketHeaderOption * 10"
  have "8 \<le> dataSize (enc_tx_buffer e3)"
    using ekeeps_mem [OF k] by (auto simp: enc_mem_def enc_current_def)
  with big max_payload_room [of e3 SETH_PACKET_MAX_SIZE]
  have "dataSize (enc_tx_buffer e3) + 96 \<le> unat (enc_l4mtu e3)"
    by (simp add: sizeof_PacketHeader_def sizeof_PacketHeaderOption_def)
  with k show "safe E (\<lambda>e4. ekeeps cap e 0 e4 \<and> enc_comp_buffer e4 = enc_comp_buffer e3 \<and>
      dataSize (enc_tx_buffer e4) + 96 \<le> unat (enc_l4mtu e4)) (Inr e3)" by simp
qed

lemma safe_encode:
  assumes m: "enc_mem cap e" and idle: "enc_idle e" and raw: "buffer_ok cap raw" and cap: "cap < 65536"
    and lib: "size_failures E lib cap" and E: "Would_block \<in> E"
  shows "safe E (\<lambda>e'. ekeeps cap e 1 e' \<and> enc_idle e') (encoder_encode ratio lib raw e)"
proof (cases "(of_nat (Buffer_getDataSize raw) :: u16) > enc_l2mtu e")
  case True
  have "BufferPool_push raw (enc_available_buffer_pool e) =
      Inr ((enc_available_buffer_pool e)\<lparr>pool := pool (enc_available_buffer_pool e) @ [raw]\<rparr>)"
    using m raw by (intro BufferPool_push_ok [of _ cap]) (simp_all add: enc_mem_def pool_ok_def)
  with True m raw idle show ?thesis
    by (simp add: encoder_encode_def ekeeps_def enc_mem_def enc_current_def enc_count_def enc_idle_def pool_ok_def)
next
  case False
  have finish: "safe E (\<lambda>e'. ekeeps cap e 1 e' \<and> enc_idle e')
     (if enc_packet_format e4 \<noteq> PacketHeaderOptionFormatType_value FORMAT_NONE \<and> enc_comp_buffer e4 = None
      then Inr (e4\<lparr>enc_comp_buffer := Some packet\<rparr>)
      else rbind (BufferPool_push packet (enc_available_buffer_pool e4)) (\<lambda>avail.
           Inr (e4\<lparr>enc_available_buffer_pool := avail\<rparr>)))"
    if "compressed_ok cap e (packet, fmt, e1)" and "ekeeps cap e 0 e4 \<and> enc_comp_buffer e4 = enc_comp_buffer e3 \<and>
        dataSize (enc_tx_buffer e4) + 96 \<le> unat (enc_l4mtu e4)" and "enc_comp_buffer e3 = enc_comp_buffer e1"
    for packet fmt e1 e3 e4
    using that by (intro give_back) (auto simp: compressed_ok_def ekeeps_def)
  show ?thesis
    unfolding encoder_encode_def Let_def if_not_P [OF False]
  proof (rule safe_rbind [OF safe_compress [OF m idle raw cap lib]], unfold split_paired_all prod.case)
    fix packet fmt e1
    assume ok: "compressed_ok cap e (packet, fmt, e1)"
    show "safe E (\<lambda>e'. ekeeps cap e 1 e' \<and> enc_idle e')
      (rbind (if Buffer_getDataSize packet > unat (encoder_getMaxPayloadSize (of_nat (Buffer_getDataSize packet)) e1)
         then rbind (encoder_parts (of_nat (Buffer_getDataSize raw)) fmt packet (e1, 0, 1))
                (\<lambda>(e2, _, _). encoder_flushInflight lib e2)
         else encoder_complete (of_nat (Buffer_getDataSize raw)) fmt packet e1)
        (\<lambda>e3. rbind (if unat (encoder_getMaxPayloadSize SETH_PACKET_MAX_SIZE e3)
            < sizeof_PacketHeader + sizeof_PacketHeaderOption * 10
          then rbind (encoder_flush_buffer e3) (encoder_flushInflight lib) else Inr e3)
         (\<lambda>e4. if enc_packet_format e4 \<noteq> PacketHeaderOptionFormatType_value FORMAT_NONE \<and> enc_comp_buffer e4 = None
            then Inr (e4\<lparr>enc_comp_buffer := Some packet\<rparr>)
            else rbind (BufferPool_push packet (enc_available_buffer_pool e4)) (\<lambda>avail.
                 Inr (e4\<lparr>enc_available_buffer_pool := avail\<rparr>)))))"
      by (rule safe_rbind [OF safe_place [OF ok idle cap E]],
          rule safe_rbind [OF safe_make_room [OF conjunct1 E]], assumption,
          rule finish [OF ok], assumption, rule conjunct2)
  qed
qed

section \<open>The thread\<close>

lemma safe_encode_all:
  assumes "enc_mem cap e" and "enc_idle e" and "cap < 65536" and "size_failures E lib cap"
    and "Would_block \<in> E" and "\<forall>b \<in> set bs. buffer_ok cap b"
  shows "safe E (\<lambda>e'. ekeeps cap e (length bs) e' \<and> enc_idle e') (encoder_encode_all ratio lib bs e)"
  using assms(1,2,6) unfolding encoder_encode_all_def
proof (induction bs arbitrary: e)
  case (Cons b bs)
  have b: "buffer_ok cap b" using Cons.prems(3) by simp
  show ?case unfolding rfold.simps
  proof (rule safe_rbind [OF safe_encode [OF Cons.prems(1,2) b assms(3-5)]])
    fix e1 assume e1: "ekeeps cap e 1 e1 \<and> enc_idle e1"
    then have "enc_mem cap e1" by (simp add: ekeeps_def)
    from Cons.IH [OF this] e1 Cons.prems(3)
    have "safe E (\<lambda>e'. ekeeps cap e1 (length bs) e' \<and> enc_idle e') (rfold (encoder_encode ratio lib) bs e1)"
      by simp
    then show "safe E (\<lambda>e'. ekeeps cap e (length (b # bs)) e' \<and> enc_idle e')
        (rfold (encoder_encode ratio lib) bs e1)"
      by (rule safe_mono) (use e1 ekeeps_trans [of cap e 1 e1] in auto)
  qed
qed (simp add: ekeeps_refl)

lemma safe_enc_flush:
  assumes m: "enc_mem cap e" and idle: "enc_idle e" and E: "Would_block \<in> E"
  shows "safe E (\<lambda>e'. ekeeps cap e 0 e' \<and> enc_idle e') (encoder_flush lib e)"
  unfolding encoder_flush_def
proof (rule safe_rbind [OF safe_mono [OF safe_flush_buffer [OF ekeeps_refl [OF m]]]])
  fix e1 assume e1: "ekeeps cap e 0 e1 \<and> enc_comp_buffer e1 = enc_comp_buffer e \<and> dataSize (enc_tx_buffer e1) = 8"
  show "safe E (\<lambda>e'. ekeeps cap e 0 e' \<and> enc_idle e') (encoder_flushInflight lib e1)"
  proof (rule safe_mono [OF safe_enc_flushInflight [OF conjunct1 [OF e1]]])
    fix e2 assume e2: "ekeeps cap e 0 e2 \<and> enc_comp_buffer e2 = enc_comp_buffer e1 \<and>
        enc_tx_buffer e2 = enc_tx_buffer e1"
    then have "104 \<le> unat (enc_l4mtu e2)" using ekeeps_mem [of cap e 0 e2] by (auto simp: enc_mem_def)
    with e1 e2 idle show "ekeeps cap e 0 e2 \<and> enc_idle e2" by (simp add: enc_idle_def)
  qed simp
qed (use E in auto)

lemma safe_handle:
  assumes "enc_mem cap e" and "enc_idle e" and "cap < 65536" and "size_failures E lib cap"
    and "Would_block \<in> E" and "fst ev \<longrightarrow> (\<forall>b \<in> set (snd ev). buffer_ok cap b)"
  shows "safe E (\<lambda>e'. ekeeps cap e (length (frames_of [ev])) e' \<and> enc_idle e') (encoder_handle ratio lib ev e)"
  using safe_encode_all [OF assms(1-5), of "snd ev" ratio] safe_enc_flush [OF assms(1,2,5), of lib] assms(6)
  by (cases ev) (simp add: encoder_handle_def frames_of_def)

lemma frames_of_split: "length (frames_of (ev # evs)) = length (frames_of [ev]) + length (frames_of evs)"
  by (simp add: frames_of_def)

lemma safe_handle_all:
  assumes "enc_mem cap e" and "enc_idle e" and "cap < 65536" and "size_failures E lib cap"
    and "Would_block \<in> E" and "\<forall>b \<in> set (frames_of evs). buffer_ok cap b"
  shows "safe E (\<lambda>e'. ekeeps cap e (length (frames_of evs)) e' \<and> enc_idle e') (rfold (encoder_handle ratio lib) evs e)"
  using assms(1,2,6)
proof (induction evs arbitrary: e)
  case Nil
  then show ?case by (simp add: frames_of_def ekeeps_refl)
next
  case (Cons ev evs)
  have ev: "fst ev \<longrightarrow> (\<forall>b \<in> set (snd ev). buffer_ok cap b)" and evs: "\<forall>b \<in> set (frames_of evs). buffer_ok cap b"
    using Cons.prems(3) by (auto simp: frames_of_Cons)
  show ?case unfolding rfold.simps
  proof (rule safe_rbind [OF safe_handle [OF Cons.prems(1,2) assms(3-5) ev]])
    fix e1 assume e1: "ekeeps cap e (length (frames_of [ev])) e1 \<and> enc_idle e1"
    then have "enc_mem cap e1" by (simp add: ekeeps_def)
    from Cons.IH [OF this conjunct2 [OF e1] evs]
    show "safe E (\<lambda>e'. ekeeps cap e (length (frames_of (ev # evs))) e' \<and> enc_idle e')
        (rfold (encoder_handle ratio lib) evs e1)"
      unfolding frames_of_split [of ev evs] by (rule safe_mono) (blast intro: ekeeps_trans [OF conjunct1 [OF e1]])+
  qed
qed

text \<open>
  A round of the thread: it takes all that waits in its pool, and its buffers are then those it had
  and these.
\<close>

lemma encoder_round_safe:
  assumes m: "enc_mem cap e" and idle: "enc_idle e" and p: "pool_ok cap p" and cap: "cap < 65536"
    and lib: "size_failures E lib cap" and E: "Would_block \<in> E" and woken: "woken \<in> {None, Some p}"
  shows "safe E (\<lambda>(t', p', e'). p' = p\<lparr>pool := []\<rparr> \<and> ekeeps cap e (length (pool p)) e' \<and> enc_idle e')
    (encoder_handler_round ratio lib status woken (t, p, e))"
proof -
  have bs: "\<forall>b \<in> set (pool p). buffer_ok cap b" using p by (simp add: pool_ok_def)
  have got: "safe E (\<lambda>(t', p', e'). p' = p\<lparr>pool := []\<rparr> \<and> ekeeps cap e (length (pool p)) e' \<and> enc_idle e')
      (rbind (encoder_handle ratio lib (True, pool p) e) (\<lambda>e'. Inr (t, p\<lparr>pool := []\<rparr>, e')))" for t :: nat
    unfolding encoder_handle_def by (simp add: safe_rbind [OF safe_encode_all [OF m idle cap lib E bs]])
  show ?thesis
  proof (cases "pool p = []")
    case True
    then have same: "p\<lparr>pool := []\<rparr> = p" by (metis (full_types) buffer_pool.surjective buffer_pool.update_convs(1))
    have none: "safe E (\<lambda>(t', p', e'). p' = p\<lparr>pool := []\<rparr> \<and> ekeeps cap e (length (pool p)) e' \<and> enc_idle e')
        (rbind (encoder_handle ratio lib (False, []) e) (\<lambda>e'. Inr (0, p, e')))"
      unfolding encoder_handle_def using True same by (simp add: safe_rbind [OF safe_enc_flush [OF m idle E]])
    from True got none E woken show ?thesis
      by (cases status) (auto simp: encoder_handler_round_def BufferPool_wait_for_def after_wait_def
          BufferPool_pop_into_all)
  qed (simp add: encoder_handler_round_simps(1) got)
qed

text \<open>The set-up of the thread takes two buffers.\<close>

lemma setPacketFormat_Inr:
  assumes "encoder_setPacketFormat lib fmt e = Inr e'"
  shows "e' = e\<lparr>enc_packet_format := fmt, enc_compressor := enc_compressor e'\<rparr> \<and>
    (fmt \<noteq> 0 \<longrightarrow> enc_compressor e' \<noteq> None)"
  using assms by (auto simp: encoder_setPacketFormat_def Let_def rbind_Inr_conv split: if_splits)

lemma encoder_setup_ok:
  fixes e :: "('s, 'f) encoder"
  assumes new_encoder: "encoder_setup lib rn avail = Inr e" and avail: "pool_ok cap avail"
    and "pool_ok cap (rn_socket_write_pool rn)" and "104 \<le> unat (rn_l4mtu rn)" and "unat (rn_l4mtu rn) \<le> cap"
  shows "enc_mem cap e \<and> enc_idle e \<and> enc_l4mtu e = rn_l4mtu rn \<and>
    enc_tx_buffer_pool e = rn_socket_write_pool rn \<and> enc_inflight_buffers e = [] \<and>
    length (pool avail) = length (pool (enc_available_buffer_pool e)) + 2 \<and> enc_l2mtu e = rn_l2mtu rn \<and>
    enc_packet_format e = rn_packet_format rn \<and> dataSize (enc_tx_buffer e) = 8"
proof -
  obtain e0 :: "('s, 'f) encoder" where e0: "PacketEncoder (rn_l2mtu rn) (rn_l4mtu rn) (rn_socket_write_pool rn) avail = Inr e0"
    "encoder_setPacketFormat lib (rn_packet_format rn) e0 = Inr e"
    using new_encoder by (auto simp: encoder_setup_def rbind_Inr_conv)
  note fmt = setPacketFormat_Inr [OF e0(2)]
  obtain c a1 t a2 where new: "BufferPool_pop_wait avail = Inr (c, a1)" "encoder_take_buffer a1 = Inr (t, a2)"
    "e0 = \<lparr>enc_l2mtu = rn_l2mtu rn, enc_l4mtu = rn_l4mtu rn, enc_sequence = 1, enc_tx_buffer = t,
          enc_inflight_buffers = [], enc_packet_format = 0, enc_compressor = None,
          enc_comp_buffer = Some c, enc_opt_len = 0, enc_packet_count = 0,
          enc_available_buffer_pool = a2, enc_tx_buffer_pool = rn_socket_write_pool rn,
          enc_statCompressionRatio = Statistic 1000\<rparr>"
    using e0(1) by (auto simp: PacketEncoder_def rbind_Inr_conv)
  have a1: "pool_ok cap a1" "buffer_ok cap c" "length (pool avail) = length (pool a1) + 1"
    using new(1) avail by (auto simp: BufferPool_pop_wait_Inr pool_ok_def)
  have "pool a1 \<noteq> []" using new(2) by (auto simp: encoder_take_buffer_def BufferPool_pop_wait_Inr rbind_Inr_conv)
  then obtain t' a2' where t: "encoder_take_buffer a1 = Inr (t', a2')" "buffer_ok cap t'" "dataSize t' = 8"
    "pool_ok cap a2'" "length (pool a1) = Suc (length (pool a2'))"
    using take_buffer [OF a1(1)] assms(4,5) by (metis order_trans numeral_le_iff semiring_norm(68,71,76,78))
  have "t' = t" "a2' = a2" using t(1) new(2) by simp_all
  define sc where "sc = enc_compressor e"
  have e: "e = e0\<lparr>enc_packet_format := rn_packet_format rn, enc_compressor := sc\<rparr>"
    and sc: "rn_packet_format rn \<noteq> 0 \<longrightarrow> sc \<noteq> None" using fmt by (simp_all add: sc_def)
  show ?thesis unfolding e new(3)
    using sc t(2-5) \<open>t' = t\<close> \<open>a2' = a2\<close> a1 assms(3-5)
    by (auto simp: enc_mem_def enc_current_def enc_idle_def)
qed

end
