(* ===== verification/Switch_Invariant.thy ===== *)
theory Switch_Invariant
  imports Switch_Steps Switch_Nodes Decoder_Safe Encoder_Safe
begin

unbundle bit_operations_syntax

text \<open>
  The invariant of the steps of \<open>Switch_Steps\<close>, what no step changes (the nodes, and how many buffers
  there are of the two families), and the rounds of the codecs' and senders' threads on the pools
  of the switch.
\<close>

section \<open>The invariant\<close>

text \<open>What holds of the codecs apart from the pools they share.\<close>

definition decoder_private :: "nat \<Rightarrow> 's decoder \<Rightarrow> bool" where
  "decoder_private cap d \<longleftrightarrow>
     buffer_ok cap (dec_tx_buffer d) \<and> buffer_ok cap (dec_dcomp_buffer d) \<and>
     (\<forall>b \<in> set (dec_inflight_buffers d). buffer_ok cap b) \<and> dec_idle d"

definition encoder_private :: "nat \<Rightarrow> ('s, 'f) encoder \<Rightarrow> bool" where
  "encoder_private cap e \<longleftrightarrow>
     enc_mem cap (e\<lparr>enc_available_buffer_pool := BufferPool cap, enc_tx_buffer_pool := BufferPool cap\<rparr>) \<and>
     enc_idle e"

definition encoders_ok :: "nat \<Rightarrow> node_map \<Rightarrow> (node_key, nat \<times> ('s, 'f) encoder) map \<Rightarrow> bool" where
  "encoders_ok cap nodes encs \<longleftrightarrow>
     (\<forall>k t e. encs k = Some (t, e) \<longrightarrow> encoder_private cap e \<and>
        (\<exists>rn. map_find k nodes = Some (Some rn) \<and> enc_l4mtu e = rn_l4mtu rn))"

text \<open>The packets that wait to be sent, and the datagrams that have been.\<close>

definition outgoing_ok :: "nat \<Rightarrow> node_map \<Rightarrow> bool" where
  "outgoing_ok cap nodes \<longleftrightarrow>
     (\<forall>k rn. map_find k nodes = Some (Some rn) \<longrightarrow>
        (\<forall>b \<in> set (pool (rn_socket_write_pool rn)). sendable cap (unat (rn_l4mtu rn)) b))"

definition datagram_ok :: "node_map \<Rightarrow> datagram \<Rightarrow> bool" where
  "datagram_ok nodes = (\<lambda>(addr, len, bytes).
     \<exists>k rn seq. map_find k nodes = Some (Some rn) \<and> addr = rn_node_addr rn \<and>
       16 \<le> length bytes \<and> length bytes \<le> unat (rn_l4mtu rn) \<and>
       take 8 bytes = PacketHeader_bytes (packet_header_of seq))"

definition system_ok :: "u8 list \<Rightarrow> nat \<Rightarrow> ('s, 'f) system \<Rightarrow> bool" where
  "system_ok g cap s \<longleftrightarrow>
     sw_ok g cap (sy_switch s) \<and> (\<forall>b. sy_tap_buffer s = Some b \<longrightarrow> buffer_ok cap b) \<and>
     (\<forall>b \<in> set (sy_slots s). buffer_ok cap b) \<and>
     received_ok g cap (sw_remote_nodes (sy_switch s)) (sy_received s) \<and>
     (\<forall>k d. sy_decoders s k = Some d \<longrightarrow> decoder_private cap d) \<and>
     encoders_ok cap (sw_remote_nodes (sy_switch s)) (sy_encoders s) \<and>
     outgoing_ok cap (sw_remote_nodes (sy_switch s)) \<and>
     (\<forall>m \<in> set (sy_network s). datagram_ok (sw_remote_nodes (sy_switch s)) m)"

text \<open>
  The buffers of a running end: those in pools, those the codecs hold, and those the readers hold.
\<close>

definition dec_held :: "'s decoder \<Rightarrow> nat" where
  "dec_held d = 2 + length (dec_inflight_buffers d)"

definition enc_held :: "('s, 'f) encoder \<Rightarrow> nat" where
  "enc_held e = 1 + of_bool (enc_comp_buffer e \<noteq> None) + length (enc_inflight_buffers e)"

definition held_by_encoders :: "('s, 'f) system \<Rightarrow> node_key \<Rightarrow> nat" where
  "held_by_encoders s k = (case sy_encoders s k of None \<Rightarrow> 0 | Some (t, e) \<Rightarrow> enc_held e)"

definition held_by_decoders :: "('s, 'f) system \<Rightarrow> node_key \<Rightarrow> nat" where
  "held_by_decoders s k = (case sy_decoders s k of None \<Rightarrow> 0 | Some d \<Rightarrow> dec_held d)"

definition rx_total :: "('s, 'f) system \<Rightarrow> nat" where
  "rx_total s = rx_buffers (held_by_encoders s) (sy_switch s) + of_bool (sy_tap_buffer s \<noteq> None)"

definition tx_total :: "('s, 'f) system \<Rightarrow> nat" where
  "tx_total s = tx_buffers (held_by_decoders s) (sy_switch s) + length (sy_slots s) + received_count (sy_received s)"

text \<open>
  \<open>conserved s s'\<close>: from \<open>s\<close> to \<open>s'\<close> the nodes are the same ones and no buffer has been lost or
  has come up.
\<close>

definition conserved :: "('s, 'f) system \<Rightarrow> ('s, 'f) system \<Rightarrow> bool" where
  "conserved s s' \<longleftrightarrow>
     nodes_conf (sw_remote_nodes (sy_switch s')) = nodes_conf (sw_remote_nodes (sy_switch s)) \<and>
     rx_total s' = rx_total s \<and> tx_total s' = tx_total s"

lemma conserved_trans: "conserved s s1 \<Longrightarrow> conserved s1 s2 \<Longrightarrow> conserved s s2"
  by (simp add: conserved_def)

lemma decoder_of_switch_mem:
  assumes "sw_ok g cap sw" and "decoder_private cap d"
  shows "dec_mem cap (decoder_of_switch sw d)" and "dec_idle (decoder_of_switch sw d)"
  using assms by (simp_all add: sw_ok_def decoder_private_def dec_mem_def dec_idle_def decoder_of_switch_def)

lemma encoder_of_switch_mem:
  assumes "sw_ok g cap sw" and "pool_ok cap (rn_socket_write_pool rn)" and "encoder_private cap e"
  shows "enc_mem cap (encoder_of_switch sw rn e)" and "enc_idle (encoder_of_switch sw rn e)"
  using assms
  by (simp_all add: sw_ok_def encoder_private_def enc_mem_def enc_current_def enc_idle_def encoder_of_switch_def
      cong: if_cong)

text \<open>What depends on the nodes' configuration, or on their packets, only.\<close>

lemma same_configuration:
  assumes "nodes_conf nodes' = nodes_conf nodes"
  shows "received_ok g cap nodes r \<Longrightarrow> received_ok g cap nodes' r"
    and "encoders_ok cap nodes encs \<Longrightarrow> encoders_ok cap nodes' encs"
    and "datagram_ok nodes m \<Longrightarrow> datagram_ok nodes' m"
proof -
  have found: "\<exists>rn'. map_find k nodes' = Some (Some rn') \<and> rn_l4mtu rn' = rn_l4mtu rn \<and> rn_node_addr rn' = rn_node_addr rn"
    if "map_find k nodes = Some (Some rn)" for k rn
    using nodes_conf_find(1) [OF assms [symmetric] that] configured_eqD by metis
  show "received_ok g cap nodes r \<Longrightarrow> received_ok g cap nodes' r"
    unfolding received_ok_def by (simp add: nodes_conf_find(2) [OF assms] del: not_None_eq)
  show "encoders_ok cap nodes encs \<Longrightarrow> encoders_ok cap nodes' encs"
    unfolding encoders_ok_def using found by metis
  show "datagram_ok nodes m \<Longrightarrow> datagram_ok nodes' m"
    unfolding datagram_ok_def using found by (auto split: prod.splits) metis
qed

lemma same_outgoing:
  assumes "nodes_out nodes' = nodes_out nodes" and "outgoing_ok cap nodes"
  shows "outgoing_ok cap nodes'"
  unfolding outgoing_ok_def
proof (intro allI impI)
  fix k rn' assume "map_find k nodes' = Some (Some rn')"
  from nodes_out_find [OF assms(1) this] obtain rn where "map_find k nodes = Some (Some rn)"
    "outgoing rn = outgoing rn'" by blast
  with assms(2) outgoing_eqD [of rn rn']
  show "\<forall>b \<in> set (pool (rn_socket_write_pool rn')). sendable cap (unat (rn_l4mtu rn')) b"
    unfolding outgoing_ok_def by metis
qed

text \<open>A step that moves buffers in the switch only.\<close>

lemma switch_moves_ok:
  assumes s: "system_ok g cap s" and sw: "sw_ok g cap sw"
    and out: "nodes_out (sw_remote_nodes sw) = nodes_out (sw_remote_nodes (sy_switch s))"
  shows "system_ok g cap (s\<lparr>sy_switch := sw\<rparr>)"
proof -
  note conf = nodes_out_conf [OF out]
  from s sw same_configuration [OF conf] same_outgoing [OF out] show ?thesis
    unfolding system_ok_def by simp blast
qed

section \<open>The reader of the device\<close>

lemma nodes_not_empty:
  "nodes_conf nodes' = nodes_conf nodes \<Longrightarrow> nodes \<noteq> [] \<Longrightarrow> nodes' \<noteq> []"
  by (auto simp: map_values_def)

text \<open>\<open>kept g cap s s'\<close>: from \<open>s\<close> to \<open>s'\<close> the invariant holds and nothing is lost.\<close>

definition kept :: "u8 list \<Rightarrow> nat \<Rightarrow> ('s, 'f) system \<Rightarrow> ('s, 'f) system \<Rightarrow> bool" where
  "kept g cap s s' \<longleftrightarrow> system_ok g cap s' \<and> conserved s s'"

lemma after_tap_read_kept:
  assumes s: "system_ok g cap s" and r: "tap_end_ok g cap r"
    and moves: "\<And>p q. rx_buffers p (tap_end_switch r) + tap_end_held r =
        rx_buffers p (sy_switch s) + of_bool (sy_tap_buffer s \<noteq> None) \<and>
      tx_buffers q (tap_end_switch r) = tx_buffers q (sy_switch s) \<and>
      nodes_out (sw_remote_nodes (tap_end_switch r)) = nodes_out (sw_remote_nodes (sy_switch s))"
  shows "kept g cap s (after_tap_read r s)"
proof -
  let ?p = "held_by_encoders s" and ?q = "held_by_decoders s"
  have sw: "sw_ok g cap (tap_end_switch r)" using r by (cases r) (simp_all add: tap_end_ok_def)
  have ok: "system_ok g cap (s\<lparr>sy_switch := tap_end_switch r\<rparr>)"
    by (rule switch_moves_ok [OF s sw]) (simp add: moves)
  then have "system_ok g cap (after_tap_read r s)"
    using r by (cases r) (simp_all add: system_ok_def after_tap_read_def tap_end_ok_def)
  moreover have "held_by_encoders (after_tap_read r s) = ?p" "held_by_decoders (after_tap_read r s) = ?q"
    by (simp_all add: after_tap_read_def held_by_encoders_def held_by_decoders_def fun_eq_iff split: tap_read_end.split)
  ultimately show ?thesis
    using moves [of ?p ?q] nodes_out_conf [OF conjunct2 [OF conjunct2 [OF moves [of ?p ?q]]]]
    by (cases r) (simp_all add: kept_def conserved_def rx_total_def tx_total_def after_tap_read_def)
qed

section \<open>The codecs\<close>

lemma node_total_assign:
  assumes "map_ok nodes" and "map_find k nodes = Some n" and "\<And>j. j \<noteq> k \<Longrightarrow> p' j = p j"
  shows "map_total (\<lambda>k n. h n + p' k) (map_assign k n' nodes) + (h n + p k :: nat) =
    map_total (\<lambda>k n. h n + p k) nodes + (h n' + p' k)"
  by (rule map_total_assign [OF assms(1,2)]) (simp add: assms(3))

text \<open>A round of a decoder thread on what its node has been sent.\<close>

lemma decode_round_safe:
  assumes sw: "sw_ok g cap sw" and rn: "map_find k (sw_remote_nodes sw) = Some (Some rn)"
    and d: "decoder_private cap d" and "cap < 65536" and "codec_bounded lib cap"
  shows "safe ({Would_block, Diverges} \<union> (\<Union>pb \<in> set (pool (rn_decoder_pool rn)). overrun cap pb)) (\<lambda>(p, d'). p = (rn_decoder_pool rn)\<lparr>pool := []\<rparr> \<and>
      dec_mem cap d' \<and> dec_idle d' \<and>
      dec_count d' = dec_count (decoder_of_switch sw d) + length (pool (rn_decoder_pool rn)) \<and>
      (\<exists>fs. pool (dec_tx_buffer_pool d') = pool (sw_tap_write_pool sw) @ fs \<and>
        (\<forall>b \<in> set fs. get_key_from_sockaddr g (packet_source b) = k)))
    (decoder_handler_round lib None (rn_decoder_pool rn, decoder_of_switch sw d))"
proof (cases "pool (rn_decoder_pool rn) = []")
  case True
  then show ?thesis by (simp add: decoder_handler_round_def BufferPool_wait_def after_wait_def)
next
  case False
  let ?d = "decoder_of_switch sw d" and ?pbs = "pool (rn_decoder_pool rn)"
  let ?S = "{a. get_key_from_sockaddr g a = k}"
  have "node_ok g cap k (Some rn)" using sw rn by (simp add: sw_ok_def nodes_ok_def)
  then have "\<forall>pb \<in> set ?pbs. buffer_ok cap pb \<and> packet_source pb \<in> ?S"
    by (simp add: node_ok_def packet_ok_def)
  moreover have "\<forall>pb \<in> set ?pbs. overrun cap pb \<subseteq> (\<Union>pb \<in> set ?pbs. overrun cap pb)" by blast
  ultimately have run: "safe ({Would_block, Diverges} \<union> (\<Union>pb \<in> set ?pbs. overrun cap pb))
      (\<lambda>d'. keeps ?S cap ?d (length ?pbs) d' \<and> dec_idle d') (decoder_decode_all lib ?pbs ?d)"
    by (rule safe_decode_all [OF decoder_of_switch_mem [OF sw d] assms(4,5)])
  show ?thesis
    unfolding decoder_handler_round_simps(1) [OF False] decoder_handle_def
    by (rule safe_rbind [OF run]) (auto simp: keeps_def decoder_of_switch_def dec_count_def)
qed

lemma after_decode_kept:
  assumes s: "system_ok g cap s" and rn: "map_find k (sw_remote_nodes (sy_switch s)) = Some (Some rn)"
    and d0: "sy_decoders s k = Some d0"
    and p: "p = (rn_decoder_pool rn)\<lparr>pool := []\<rparr>" and d: "dec_mem cap d" "dec_idle d"
    and count: "dec_count d = dec_count (decoder_of_switch (sy_switch s) d0) + length (pool (rn_decoder_pool rn))"
    and out: "pool (dec_tx_buffer_pool d) = pool (sw_tap_write_pool (sy_switch s)) @ fs"
      "\<forall>b \<in> set fs. get_key_from_sockaddr g (packet_source b) = k"
  shows "kept g cap s (after_decode k rn p d s)"
proof -
  let ?sw = "sy_switch s" and ?n = "Some (rn\<lparr>rn_decoder_pool := p\<rparr>)"
  let ?nodes = "map_assign k ?n (sw_remote_nodes ?sw)"
  have sw: "sw_ok g cap ?sw" using s by (simp add: system_ok_def)
  then have nodes: "nodes_ok g cap (sw_remote_nodes ?sw)" by (simp add: sw_ok_def)
  then have node: "node_ok g cap k (Some rn)" and mok: "map_ok (sw_remote_nodes ?sw)"
    using rn by (simp_all add: nodes_ok_def)
  then have "node_ok g cap k ?n" by (simp add: node_ok_def p pool_ok_def)
  then have nodes': "nodes_ok g cap ?nodes" by (rule nodes_ok_assign [OF nodes])
  have same: "nodes_out ?nodes = nodes_out (sw_remote_nodes ?sw)"
    by (rule map_values_assign [OF rn _ mok]) simp
  note conf = nodes_out_conf [OF same]
  have "\<forall>b \<in> set (pool (dec_tx_buffer_pool d)).
      map_find (get_key_from_sockaddr g (packet_source b)) (sw_remote_nodes ?sw) \<noteq> None"
    using sw out rn by (auto simp: sw_ok_def)
  then have "sw_ok g cap (sy_switch (after_decode k rn p d s))"
    using sw nodes' d nodes_conf_find(2) [OF conf]
    unfolding sw_ok_def after_decode_def dec_mem_def by (simp del: not_None_eq)
  from switch_moves_ok [OF s this] same
  have "system_ok g cap (s\<lparr>sy_switch := sy_switch (after_decode k rn p d s)\<rparr>)"
    by (simp add: after_decode_def)
  moreover have "decoder_private cap d" using d by (simp add: decoder_private_def dec_mem_def)
  ultimately have "system_ok g cap (after_decode k rn p d s)" by (simp add: system_ok_def after_decode_def)
  moreover have "conserved s (after_decode k rn p d s)"
  proof -
    let ?s = "after_decode k rn p d s"
    have "held_by_encoders ?s = held_by_encoders s" by (simp add: after_decode_def held_by_encoders_def fun_eq_iff)
    moreover have "map_total (\<lambda>k n. node_rx n + held_by_encoders s k) ?nodes + (node_rx (Some rn) + held_by_encoders s k) =
        map_total (\<lambda>k n. node_rx n + held_by_encoders s k) (sw_remote_nodes ?sw) + (node_rx ?n + held_by_encoders s k)"
      by (rule node_total_assign [OF mok rn]) simp
    moreover have "map_total (\<lambda>k n. node_tx n + held_by_decoders ?s k) ?nodes + (node_tx (Some rn) + held_by_decoders s k) =
        map_total (\<lambda>k n. node_tx n + held_by_decoders s k) (sw_remote_nodes ?sw) + (node_tx ?n + held_by_decoders ?s k)"
      by (rule node_total_assign [OF mok rn]) (simp add: held_by_decoders_def after_decode_def)
    moreover have "held_by_decoders ?s k = dec_held d" "held_by_decoders s k = dec_held d0"
      by (simp_all add: held_by_decoders_def after_decode_def d0)
    ultimately show ?thesis
      using count conf
      by (simp add: conserved_def rx_total_def tx_total_def rx_buffers_def tx_buffers_def p after_decode_def
          dec_held_def dec_count_def decoder_of_switch_def)
  qed
  ultimately show ?thesis by (simp add: kept_def)
qed

lemma encoders_ok_update:
  "encoders_ok cap nodes encs \<Longrightarrow> encoder_private cap e \<Longrightarrow> map_find k nodes = Some (Some rn) \<Longrightarrow>
    enc_l4mtu e = rn_l4mtu rn \<Longrightarrow> encoders_ok cap nodes (encs(k \<mapsto> (t, e)))"
  by (auto simp: encoders_ok_def)

text \<open>A round of an encoder thread on the frames its node has been given.\<close>

lemma after_encode_kept:
  assumes s: "system_ok g cap s" and rn: "map_find k (sw_remote_nodes (sy_switch s)) = Some (Some rn)"
    and e0: "sy_encoders s k = Some (t0, e0)" and p: "p = (rn_encoder_pool rn)\<lparr>pool := []\<rparr>"
    and k: "ekeeps cap (encoder_of_switch (sy_switch s) rn e0) (length (pool (rn_encoder_pool rn))) e"
    and idle: "enc_idle e"
  shows "kept g cap s (after_encode k rn t p e s)"
proof -
  let ?sw = "sy_switch s" and ?s = "after_encode k rn t p e s"
  let ?n = "Some (rn\<lparr>rn_encoder_pool := p, rn_socket_write_pool := enc_tx_buffer_pool e\<rparr>)"
  let ?nodes = "map_assign k ?n (sw_remote_nodes ?sw)"
  have sw: "sw_ok g cap ?sw" and encs: "encoders_ok cap (sw_remote_nodes ?sw) (sy_encoders s)"
    and out: "outgoing_ok cap (sw_remote_nodes ?sw)" using s by (simp_all add: system_ok_def)
  then have nodes: "nodes_ok g cap (sw_remote_nodes ?sw)" by (simp add: sw_ok_def)
  then have node: "node_ok g cap k (Some rn)" and mok: "map_ok (sw_remote_nodes ?sw)"
    using rn by (simp_all add: nodes_ok_def)
  have e0_ok: "encoder_private cap e0" "enc_l4mtu e0 = rn_l4mtu rn"
    using encs e0 rn unfolding encoders_ok_def by fastforce+
  have m: "enc_mem cap e" and l4: "enc_l4mtu e = rn_l4mtu rn"
    and count: "enc_count e = enc_count (encoder_of_switch ?sw rn e0) + length (pool (rn_encoder_pool rn))"
    using k e0_ok(2) by (simp_all add: ekeeps_def encoder_of_switch_def)
  obtain fs where fs: "pool (enc_tx_buffer_pool e) = pool (rn_socket_write_pool rn) @ fs"
    "\<forall>b \<in> set fs. sendable cap (unat (rn_l4mtu rn)) b"
    using k e0_ok(2) by (auto simp: ekeeps_def encoder_of_switch_def)
  have "node_ok g cap k ?n" using node m by (simp add: node_ok_def p pool_ok_def enc_mem_def)
  then have nodes': "nodes_ok g cap ?nodes" by (rule nodes_ok_assign [OF nodes])
  have conf: "nodes_conf ?nodes = nodes_conf (sw_remote_nodes ?sw)"
    by (rule map_values_assign [OF rn _ mok]) simp
  have find: "map_find j ?nodes = (if j = k then Some ?n else map_find j (sw_remote_nodes ?sw))" for j
    by (rule map_find_assign [OF mok])
  have "sw_ok g cap (sy_switch ?s)"
    using sw nodes' m nodes_conf_find(2) [OF conf]
    unfolding sw_ok_def after_encode_def enc_mem_def by (simp del: not_None_eq)
  moreover have "encoder_private cap e"
    using m idle by (simp add: encoder_private_def enc_mem_def enc_current_def enc_idle_def pool_ok_def cong: if_cong)
  then have "encoders_ok cap ?nodes (sy_encoders ?s)"
    using encoders_ok_update [OF same_configuration(2) [OF conf encs]] l4 by (simp add: after_encode_def find)
  moreover have "outgoing_ok cap ?nodes"
    using out rn fs unfolding outgoing_ok_def find by auto
  ultimately have "system_ok g cap ?s"
    using s same_configuration(1,3) [OF conf] unfolding system_ok_def by (simp add: after_encode_def)
  moreover have "conserved s ?s"
  proof -
    have "held_by_decoders ?s = held_by_decoders s" by (simp add: after_encode_def held_by_decoders_def fun_eq_iff)
    moreover have "map_total (\<lambda>k n. node_tx n + held_by_decoders s k) ?nodes + (node_tx (Some rn) + held_by_decoders s k) =
        map_total (\<lambda>k n. node_tx n + held_by_decoders s k) (sw_remote_nodes ?sw) + (node_tx ?n + held_by_decoders s k)"
      by (rule node_total_assign [OF mok rn]) simp
    moreover have "map_total (\<lambda>k n. node_rx n + held_by_encoders ?s k) ?nodes + (node_rx (Some rn) + held_by_encoders s k) =
        map_total (\<lambda>k n. node_rx n + held_by_encoders s k) (sw_remote_nodes ?sw) + (node_rx ?n + held_by_encoders ?s k)"
      by (rule node_total_assign [OF mok rn]) (simp add: held_by_encoders_def after_encode_def)
    moreover have "held_by_encoders ?s k = enc_held e" "held_by_encoders s k = enc_held e0"
      by (simp_all add: held_by_encoders_def after_encode_def e0)
    ultimately show ?thesis
      using count conf
      by (simp add: conserved_def rx_total_def tx_total_def rx_buffers_def tx_buffers_def p after_encode_def
          enc_held_def enc_count_def encoder_of_switch_def)
  qed
  ultimately show ?thesis by (simp add: kept_def)
qed

text \<open>The round of an encoder thread in a state that satisfies the invariant.\<close>

lemma encoder_round_kept:
  assumes s: "system_ok g cap s" and rn: "map_find k (sw_remote_nodes (sy_switch s)) = Some (Some rn)"
    and e: "sy_encoders s k = Some (t, e)" and cap: "cap < 65536"
    and lib: "size_failures E lib cap" and E: "Would_block \<in> E" and woken: "woken \<in> {None, Some (rn_encoder_pool rn)}"
  shows "safe E (\<lambda>(t', p, e'). p = (rn_encoder_pool rn)\<lparr>pool := []\<rparr> \<and> enc_idle e' \<and>
      ekeeps cap (encoder_of_switch (sy_switch s) rn e) (length (pool (rn_encoder_pool rn))) e')
    (encoder_handler_round ratio lib status woken (t, rn_encoder_pool rn, encoder_of_switch (sy_switch s) rn e))"
proof -
  have sw: "sw_ok g cap (sy_switch s)" using s by (simp add: system_ok_def)
  then have pools: "pool_ok cap (rn_encoder_pool rn)" "pool_ok cap (rn_socket_write_pool rn)"
    using rn by (auto simp: sw_ok_def nodes_ok_def node_ok_def)
  have "encoder_private cap e" using s e by (auto simp: system_ok_def encoders_ok_def)
  from encoder_round_safe [OF encoder_of_switch_mem [OF sw pools(2) this] pools(1) cap lib E woken]
  show ?thesis by (rule safe_mono) auto
qed

lemma encoder_round_never_fails:
  assumes "system_ok g cap s" and "map_find k (sw_remote_nodes (sy_switch s)) = Some (Some rn)"
    and "sy_encoders s k = Some (t, e)" and "cap < 65536"
  shows "safe (if compressor_bounded lib cap then {Would_block} else {Would_block, Out_of_range}) (\<lambda>_. True)
    (encoder_handler_round ratio lib status (Some (rn_encoder_pool rn))
      (t, rn_encoder_pool rn, encoder_of_switch (sy_switch s) rn e))"
  by (rule safe_mono [OF encoder_round_kept [OF assms,
        where E = "if compressor_bounded lib cap then {Would_block} else {Would_block, Out_of_range}"]])
    (auto simp: size_failures_def)

text \<open>The sender of a node: what it sends are the packets that wait, and their buffers are free again.\<close>

lemma send_round_runs:
  assumes sw: "sw_ok g cap sw" and rn: "map_find k (sw_remote_nodes sw) = Some (Some rn)"
    and some: "pool (rn_socket_write_pool rn) \<noteq> []"
  shows "socket_write_round rn None (rn_socket_write_pool rn, sw_available_rx_buffer_pool sw) =
    Inr (map (\<lambda>b. (rn_node_addr rn, sizeof_sockaddr_in6, buffer_data b)) (pool (rn_socket_write_pool rn)),
      (rn_socket_write_pool rn)\<lparr>pool := []\<rparr>,
      (sw_available_rx_buffer_pool sw)\<lparr>pool := pool (sw_available_rx_buffer_pool sw) @
        pool (rn_socket_write_pool rn)\<rparr>)"
proof -
  have "node_ok g cap k (Some rn)" using sw rn by (simp add: sw_ok_def nodes_ok_def)
  then have bs: "\<forall>b \<in> set (pool (rn_socket_write_pool rn)). buffer_ok cap b"
    by (simp add: node_ok_def pool_ok_def)
  have "BufferPool_push_list (pool (rn_socket_write_pool rn)) (sw_available_rx_buffer_pool sw) =
      Inr ((sw_available_rx_buffer_pool sw)\<lparr>pool := pool (sw_available_rx_buffer_pool sw) @
        pool (rn_socket_write_pool rn)\<rparr>, [])"
    using sw bs by (intro BufferPool_push_list_ok [of _ cap]) (simp_all add: sw_ok_def pool_ok_def)
  with some socket_send_all_ok [OF bs, of rn] show ?thesis
    by (simp add: socket_write_round_def BufferPool_wait_def after_wait_def BufferPool_pop_into_all)
qed

lemma send_round_safe:
  assumes sw: "sw_ok g cap sw" and rn: "map_find k (sw_remote_nodes sw) = Some (Some rn)"
  shows "safe {Would_block} (\<lambda>(sent, p, avail).
      sent = map (\<lambda>b. (rn_node_addr rn, sizeof_sockaddr_in6, buffer_data b)) (pool (rn_socket_write_pool rn)) \<and>
      p = (rn_socket_write_pool rn)\<lparr>pool := []\<rparr> \<and>
      avail = (sw_available_rx_buffer_pool sw)\<lparr>pool := pool (sw_available_rx_buffer_pool sw) @
        pool (rn_socket_write_pool rn)\<rparr>)
    (socket_write_round rn None (rn_socket_write_pool rn, sw_available_rx_buffer_pool sw))"
proof (cases "pool (rn_socket_write_pool rn) = []")
  case True
  then show ?thesis by (simp add: socket_write_round_def BufferPool_wait_def after_wait_def)
qed (simp add: send_round_runs [OF sw rn])

lemma after_send_kept:
  assumes s: "system_ok g cap s" and rn: "map_find k (sw_remote_nodes (sy_switch s)) = Some (Some rn)"
    and sent: "sent = map (\<lambda>b. (rn_node_addr rn, sizeof_sockaddr_in6, buffer_data b)) (pool (rn_socket_write_pool rn))"
    and p: "p = (rn_socket_write_pool rn)\<lparr>pool := []\<rparr>"
    and avail: "avail = (sw_available_rx_buffer_pool (sy_switch s))\<lparr>pool :=
      pool (sw_available_rx_buffer_pool (sy_switch s)) @ pool (rn_socket_write_pool rn)\<rparr>"
  shows "kept g cap s (after_send k rn sent p avail s)"
proof -
  let ?sw = "sy_switch s" and ?s = "after_send k rn sent p avail s"
  let ?n = "Some (rn\<lparr>rn_socket_write_pool := p\<rparr>)"
  let ?nodes = "map_assign k ?n (sw_remote_nodes ?sw)"
  have sw: "sw_ok g cap ?sw" and out: "outgoing_ok cap (sw_remote_nodes ?sw)"
    using s by (simp_all add: system_ok_def)
  then have nodes: "nodes_ok g cap (sw_remote_nodes ?sw)" by (simp add: sw_ok_def)
  then have node: "node_ok g cap k (Some rn)" and mok: "map_ok (sw_remote_nodes ?sw)"
    using rn by (simp_all add: nodes_ok_def)
  then have "node_ok g cap k ?n" by (simp add: node_ok_def p pool_ok_def)
  then have nodes': "nodes_ok g cap ?nodes" by (rule nodes_ok_assign [OF nodes])
  have conf: "nodes_conf ?nodes = nodes_conf (sw_remote_nodes ?sw)"
    by (rule map_values_assign [OF rn _ mok]) simp
  have find: "map_find j ?nodes = (if j = k then Some ?n else map_find j (sw_remote_nodes ?sw))" for j
    by (rule map_find_assign [OF mok])
  have "pool_ok cap avail" using sw node by (auto simp: avail sw_ok_def node_ok_def pool_ok_def)
  then have "sw_ok g cap (sy_switch ?s)"
    using sw nodes' nodes_conf_find(2) [OF conf]
    unfolding sw_ok_def after_send_def by (simp del: not_None_eq)
  moreover have "outgoing_ok cap ?nodes"
    using out unfolding outgoing_ok_def find by (auto simp: p)
  moreover have "datagram_ok (sw_remote_nodes ?sw) m" if "m \<in> set sent" for m
  proof -
    obtain b where b: "b \<in> set (pool (rn_socket_write_pool rn))"
      "m = (rn_node_addr rn, sizeof_sockaddr_in6, buffer_data b)" using \<open>m \<in> set sent\<close> by (auto simp: sent)
    then have send: "sendable cap (unat (rn_l4mtu rn)) b" using out rn by (auto simp: outgoing_ok_def)
    then have "length (buffer_data b) = dataSize b" by (auto simp: sendable_def length_buffer_data)
    with send rn show ?thesis unfolding b(2) sendable_def datagram_ok_def prod.case by metis
  qed
  ultimately have "system_ok g cap ?s"
    using s same_configuration [OF conf] unfolding system_ok_def by (auto simp: after_send_def)
  moreover have "conserved s ?s"
  proof -
    have held: "held_by_decoders ?s = held_by_decoders s" "held_by_encoders ?s = held_by_encoders s"
      by (simp_all add: after_send_def held_by_decoders_def held_by_encoders_def fun_eq_iff)
    have sum: "map_total (\<lambda>k n. h n + u k) ?nodes + (h (Some rn) + u k) =
        map_total (\<lambda>k n. h n + u k) (sw_remote_nodes ?sw) + (h ?n + u k)" for h :: "remote_node option \<Rightarrow> nat" and u
      by (rule node_total_assign [OF mok rn]) simp
    show ?thesis
      using held sum [of node_tx "held_by_decoders s"] sum [of node_rx "held_by_encoders s"] conf
      by (simp add: conserved_def rx_total_def tx_total_def rx_buffers_def tx_buffers_def p avail after_send_def)
  qed
  ultimately show ?thesis by (simp add: kept_def)
qed

section \<open>Every step\<close>

lemma after_receive_kept:
  assumes s: "system_ok g cap s" and ms: "length ms \<le> length (sy_slots s)"
    "\<forall>m \<in> set ms. length (snd m) \<le> cap"
    and run: "socket_read_round g ms (sy_slots s, sy_received s, sy_switch s) = Inr (slots, r, sw)"
  shows "kept g cap s (s\<lparr>sy_slots := slots, sy_received := r, sy_switch := sw\<rparr>)"
proof -
  have s': "sw_ok g cap (sy_switch s)" "\<forall>b \<in> set (sy_slots s). buffer_ok cap b"
    "received_ok g cap (sw_remote_nodes (sy_switch s)) (sy_received s)"
    using s by (simp_all add: system_ok_def)
  from safeD [OF socket_read_round_safe [OF s' ms(2,1)] run]
  have ok: "sw_ok g cap sw" "\<forall>b \<in> set slots. buffer_ok cap b" "received_ok g cap (sw_remote_nodes sw) r"
    by simp_all
  have maps: "map_ok (sw_remote_nodes (sy_switch s))" "map_ok (sy_received s)"
    using s' by (simp_all add: sw_ok_def nodes_ok_def received_ok_def)
  let ?s = "s\<lparr>sy_slots := slots, sy_received := r, sy_switch := sw\<rparr>"
  note moves = socket_read_round_moves [OF run maps, of "held_by_encoders s" "held_by_decoders s"]
  then have out: "nodes_out (sw_remote_nodes sw) = nodes_out (sw_remote_nodes (sy_switch s))" by simp
  from switch_moves_ok [OF s ok(1) out] ok have "system_ok g cap ?s" by (simp add: system_ok_def)
  moreover have "held_by_decoders ?s = held_by_decoders s" "held_by_encoders ?s = held_by_encoders s"
    by (simp_all add: held_by_decoders_def held_by_encoders_def fun_eq_iff)
  ultimately show ?thesis using moves nodes_out_conf [OF out]
    by (simp add: kept_def conserved_def rx_total_def tx_total_def)
qed

lemma system_step_kept:
  assumes "system_step ratio lib g cap s s'" and s: "system_ok g cap s" and "12 \<le> cap" and "cap < 65536"
    and "codec_bounded lib cap" and some: "sw_remote_nodes (sy_switch s) \<noteq> []"
  shows "kept g cap s s'"
  using assms(1)
proof (cases rule: system_stepE)
  have sw: "sw_ok g cap (sy_switch s)" using s by (simp add: system_ok_def)
  then have mok: "map_ok (sw_remote_nodes (sy_switch s))" by (simp add: sw_ok_def nodes_ok_def)
  {
    case (read_frame frame now r)
    have "tap_end_ok g cap r"
      by (rule safeD [OF tap_read_round_safe [OF sw read_frame(3) assms(3)] read_frame(4)])
    then show ?thesis unfolding read_frame(1)
      by (rule after_tap_read_kept [OF s]) (use tap_read_round_moves [OF read_frame(4) mok some] read_frame(2) in simp)
  next
    case (read_again b frame now r)
    have "buffer_ok cap b" using s read_again(2) by (simp add: system_ok_def)
    then have "tap_end_ok g cap r"
      by (rule safeD [OF tap_read_safe [OF sw _ read_again(3) assms(3)] read_again(4)])
    then show ?thesis unfolding read_again(1)
      by (rule after_tap_read_kept [OF s]) (use tap_read_frame_moves [OF read_again(4) mok some] read_again(2) in simp)
  next
    case (encode k rn t e woken status t' p e')
    have lib: "size_failures {Would_block, Out_of_range} lib cap" by (simp add: size_failures_def)
    have woken: "woken \<in> {None, Some (rn_encoder_pool rn)}" using encode(4) by simp
    from safeD [OF encoder_round_kept [OF s encode(2,3) assms(4) lib _ woken] encode(5)]
    show ?thesis unfolding encode(1) by (intro after_encode_kept [OF s encode(2,3)]) auto
  next
    case (send k rn sent p avail)
    from safeD [OF send_round_safe [OF sw send(2)] send(3)]
    show ?thesis unfolding send(1) by (intro after_send_kept [OF s send(2)]) auto
  next
    case (receive ms slots r sw')
    show ?thesis unfolding receive(1) by (rule after_receive_kept [OF s receive(2-4)])
  next
    case (decode k rn d p d')
    have d: "decoder_private cap d" using s decode(3) by (simp add: system_ok_def)
    from safeD [OF decode_round_safe [OF sw decode(2) d assms(4,5)] decode(4)]
    obtain fs where "p = (rn_decoder_pool rn)\<lparr>pool := []\<rparr>" "dec_mem cap d'" "dec_idle d'"
      "dec_count d' = dec_count (decoder_of_switch (sy_switch s) d) + length (pool (rn_decoder_pool rn))"
      "pool (dec_tx_buffer_pool d') = pool (sw_tap_write_pool (sy_switch s)) @ fs"
      "\<forall>b \<in> set fs. get_key_from_sockaddr g (packet_source b) = k" by auto
    from after_decode_kept [OF s decode(2,3) this] show ?thesis unfolding decode(1) .
  next
    case (write_frames at outs sw')
    let ?s = "s\<lparr>sy_switch := sw'\<rparr>"
    from safeD [OF tap_write_round_safe [OF sw assms(3)] write_frames(2)]
    have w: "sw_ok g cap sw'" "sw_remote_nodes sw' = sw_remote_nodes (sy_switch s)"
      "sw_available_rx_buffer_pool sw' = sw_available_rx_buffer_pool (sy_switch s)"
      "pool (sw_tap_write_pool sw') = []" "pool (sw_available_tx_buffer_pool sw') =
        pool (sw_available_tx_buffer_pool (sy_switch s)) @ pool (sw_tap_write_pool (sy_switch s))" by simp_all
    have "held_by_decoders ?s = held_by_decoders s" "held_by_encoders ?s = held_by_encoders s"
      by (simp_all add: held_by_decoders_def held_by_encoders_def fun_eq_iff)
    with w switch_moves_ok [OF s w(1)] show ?thesis unfolding write_frames(1)
      by (simp add: kept_def conserved_def rx_total_def tx_total_def rx_buffers_def tx_buffers_def)
  next
    case (expire now)
    let ?s = "s\<lparr>sy_switch := fdb_round now (sy_switch s)\<rparr>"
    have "held_by_decoders ?s = held_by_decoders s" "held_by_encoders ?s = held_by_encoders s"
      by (simp_all add: held_by_decoders_def held_by_encoders_def fun_eq_iff)
    moreover have "system_ok g cap ?s" by (rule switch_moves_ok [OF s fdb_round_ok [OF sw]]) (simp add: fdb_round_def)
    ultimately show ?thesis unfolding expire
      by (simp add: kept_def conserved_def rx_total_def tx_total_def rx_buffers_def tx_buffers_def fdb_round_def)
  }
qed

text \<open>And in every state that is reached.\<close>

lemma reachable_kept:
  assumes "reachable ratio lib g cap s0 s" and "system_ok g cap s0" and "12 \<le> cap" and "cap < 65536"
    and "codec_bounded lib cap" and some: "sw_remote_nodes (sy_switch s0) \<noteq> []"
  shows "kept g cap s0 s"
  using assms(1)
proof (induction rule: reachable.induct)
  case start
  show ?case using assms(2) by (simp add: kept_def conserved_def)
next
  case (step s s')
  then have "system_ok g cap s" and c: "conserved s0 s" by (simp_all add: kept_def)
  moreover have "sw_remote_nodes (sy_switch s) \<noteq> []"
    using nodes_not_empty [OF _ some] c by (simp add: conserved_def)
  ultimately have "kept g cap s s'" by (intro system_step_kept [OF step.hyps(2) _ assms(3-5)])
  with c show ?case using conserved_trans [of s0 s s'] by (simp add: kept_def)
qed

end
