(* ===== verification/Switch_Start.thy ===== *)
theory Switch_Start
  imports Switch_Invariant
begin

unbundle bit_operations_syntax

text \<open>
  The start of the threads: it takes its buffers from the switch's pools, it establishes the
  invariant, and it succeeds when there are enough buffers.
\<close>

section \<open>The invariant at the start\<close>

lemma pop_many_pool:
  "pop_many BufferPool_pop_wait n p = Inr (bs, q) \<Longrightarrow> pool_ok cap p \<Longrightarrow>
    (\<forall>b \<in> set bs. buffer_ok cap b) \<and> pool_ok cap q \<and> length (pool p) = length bs + length (pool q)"
proof (induction n arbitrary: p bs)
  case (Suc n)
  from Suc.prems(1) obtain b p1 bs1 where "BufferPool_pop_wait p = Inr (b, p1)"
    "pop_many BufferPool_pop_wait n p1 = Inr (bs1, q)" "bs = b # bs1"
    by (auto simp: rbind_Inr_conv)
  moreover from this(1) Suc.prems(2) have "pool_ok cap p1" "buffer_ok cap b" "length (pool p) = Suc (length (pool p1))"
    by (auto simp: BufferPool_pop_wait_Inr pool_ok_def)
  ultimately show ?case using Suc.IH by auto
qed simp

lemma PacketDecoder_pops:
  assumes "PacketDecoder garbage lib l2mtu tap avail = Inr d"
  shows "length (pool avail) = 2 + length (pool (dec_available_buffer_pool d)) \<and> dec_held d = 2"
  using assms
  by (auto simp: PacketDecoder_def BufferPool_pop_wait_Inr decoder_clearState_def dec_held_def elim!: rbind_InrE)

text \<open>Every codec takes two buffers.\<close>

lemma start_decoders_ok:
  "start_decoders lib garbage l2mtu tap ks (decs, avail) = Inr (decs', avail') \<Longrightarrow>
    pool_ok cap tap \<Longrightarrow> pool_ok cap avail \<Longrightarrow> distinct ks \<Longrightarrow>
    (\<forall>k \<in> set ks. \<exists>d. decs' k = Some d \<and> decoder_private cap d \<and> dec_held d = 2) \<and> pool_ok cap avail' \<and>
    length (pool avail) = length (pool avail') + 2 * length ks \<and> (\<forall>k. k \<notin> set ks \<longrightarrow> decs' k = decs k)"
proof (induction ks arbitrary: decs avail)
  case (Cons k ks)
  from Cons.prems(1) obtain d where d: "PacketDecoder garbage lib l2mtu tap avail = Inr d"
    "start_decoders lib garbage l2mtu tap ks (decs(k \<mapsto> d), dec_available_buffer_pool d) = Inr (decs', avail')"
    by (auto simp: rbind_Inr_conv)
  have mem: "dec_mem cap d" "dec_idle d" using PacketDecoder_mem [OF d(1) Cons.prems(2,3)] by simp_all
  then have new: "decoder_private cap d" "pool_ok cap (dec_available_buffer_pool d)"
    by (simp_all add: decoder_private_def dec_mem_def)
  have ks: "distinct ks" "k \<notin> set ks" using Cons.prems(4) by simp_all
  note IH = Cons.IH [OF d(2) Cons.prems(2) new(2) ks(1)]
  then have "decs' k = Some d" using ks(2) by simp
  with IH new(1) PacketDecoder_pops [OF d(1)] show ?case by auto
qed simp

lemma start_encoders_ok:
  "start_encoders lib ns (encs, avail) = Inr (encs', avail') \<Longrightarrow> pool_ok cap avail \<Longrightarrow> distinct (map fst ns) \<Longrightarrow>
    (\<forall>(k, n) \<in> set ns. \<exists>rn. n = Some rn \<and> pool_ok cap (rn_socket_write_pool rn) \<and>
       104 \<le> unat (rn_l4mtu rn) \<and> unat (rn_l4mtu rn) \<le> cap) \<Longrightarrow>
    (\<forall>(k, n) \<in> set ns. \<exists>rn t e. n = Some rn \<and> encs' k = Some (t, e) \<and> enc_held e = 2 \<and>
       encoder_private cap e \<and> enc_l4mtu e = rn_l4mtu rn) \<and> pool_ok cap avail' \<and>
    length (pool avail) = length (pool avail') + 2 * length ns \<and> (\<forall>k. k \<notin> fst ` set ns \<longrightarrow> encs' k = encs k)"
proof (induction ns arbitrary: encs avail)
  case (Cons x ns)
  from Cons.prems(4) obtain k rn where x: "x = (k, Some rn)" and
    rn: "pool_ok cap (rn_socket_write_pool rn)" "104 \<le> unat (rn_l4mtu rn)" "unat (rn_l4mtu rn) \<le> cap"
    by (cases x) auto
  from Cons.prems(1) x obtain e where e: "encoder_setup lib rn avail = Inr e"
    "start_encoders lib ns (encs(k \<mapsto> (1, e)), enc_available_buffer_pool e) = Inr (encs', avail')"
    by (auto simp: rbind_Inr_conv)
  note new = encoder_setup_ok [OF e(1) Cons.prems(2) rn]
  have ns: "distinct (map fst ns)" "k \<notin> fst ` set ns" using Cons.prems(3) x by simp_all
  have "pool_ok cap (enc_available_buffer_pool e)" using new by (simp add: enc_mem_def)
  from Cons.IH [OF e(2) this ns(1)] Cons.prems(4)
  have IH: "\<forall>(k, n) \<in> set ns. \<exists>rn t e. n = Some rn \<and> encs' k = Some (t, e) \<and> enc_held e = 2 \<and>
       encoder_private cap e \<and> enc_l4mtu e = rn_l4mtu rn" "pool_ok cap avail'"
    "length (pool (enc_available_buffer_pool e)) = length (pool avail') + 2 * length ns"
    "\<forall>j. j \<notin> fst ` set ns \<longrightarrow> encs' j = (encs(k \<mapsto> (1, e))) j" by auto
  have "encs' k = Some (1, e)" using IH(4) ns(2) by simp
  moreover have "encoder_private cap e" "enc_held e = 2"
    using new by (auto simp: encoder_private_def enc_mem_def enc_current_def enc_idle_def enc_held_def pool_ok_def
        cong: if_cong)
  ultimately show ?case using IH new by (auto simp: x)
qed simp

lemma map_total_held:
  "\<forall>k \<in> fst ` set m. p k = c \<Longrightarrow> map_total (\<lambda>k n. h n + p k) m = map_total (\<lambda>k n. h n + 0) m + c * length m"
  by (induction m) auto

text \<open>The nodes of a new switch: room for a packet and nothing to send.\<close>

definition nodes_ready :: "nat \<Rightarrow> node_map \<Rightarrow> bool" where
  "nodes_ready cap nodes \<longleftrightarrow>
     (\<forall>k rn. map_find k nodes = Some (Some rn) \<longrightarrow>
        104 \<le> unat (rn_l4mtu rn) \<and> unat (rn_l4mtu rn) \<le> cap \<and> pool (rn_socket_write_pool rn) = [])"

lemma system_start_ok:
  fixes s :: "('s, 'f) system"
  assumes sw: "sw_ok g cap sw" and ready: "nodes_ready cap (sw_remote_nodes sw)"
    and start: "system_start lib garbage sw = Inr s"
  shows "system_ok g cap s" and "rx_total s = rx_buffers (\<lambda>k. 0) sw" and "tx_total s = tx_buffers (\<lambda>k. 0) sw"
    and "sw_remote_nodes (sy_switch s) = sw_remote_nodes sw"
proof -
  let ?nodes = "sw_remote_nodes sw"
  obtain slots avail decs avail' and encs :: "(node_key, nat \<times> ('s, 'f) encoder) map" and rx where
    1: "pop_many BufferPool_pop_wait SETH_MAX_RECVMM_MESSAGES (sw_available_tx_buffer_pool sw) = Inr (slots, avail)" and
    2: "start_decoders lib garbage (sw_l2mtu sw) (sw_tap_write_pool sw) (map fst ?nodes)
      (Map.empty, avail) = Inr (decs, avail')" and
    3: "start_encoders lib ?nodes (Map.empty, sw_available_rx_buffer_pool sw) = Inr (encs, rx)" and
    s: "s = \<lparr>sy_switch = sw\<lparr>sw_available_rx_buffer_pool := rx, sw_available_tx_buffer_pool := avail'\<rparr>,
          sy_tap_buffer = None, sy_slots = slots, sy_received = [], sy_decoders = decs,
          sy_encoders = encs, sy_network = []\<rparr>"
    using start unfolding system_start_def by (auto simp only: rbind_Inr_conv prod.case split_paired_Ex sum.inject)
  have pools: "pool_ok cap (sw_available_tx_buffer_pool sw)" "pool_ok cap (sw_tap_write_pool sw)"
    "pool_ok cap (sw_available_rx_buffer_pool sw)" and nodes: "nodes_ok g cap ?nodes"
    using sw by (simp_all add: sw_ok_def)
  have mok: "map_ok ?nodes" using nodes by (simp add: nodes_ok_def)
  then have dist: "distinct (map fst ?nodes)" by (simp add: map_ok_def strict_sorted_iff)
  have each: "\<forall>(k, n) \<in> set ?nodes. \<exists>rn. n = Some rn \<and> pool_ok cap (rn_socket_write_pool rn) \<and>
      104 \<le> unat (rn_l4mtu rn) \<and> unat (rn_l4mtu rn) \<le> cap"
  proof clarify
    fix k n assume "(k, n) \<in> set ?nodes"
    then have n: "map_find k ?nodes = Some n" using mok by (simp add: map_find_iff)
    then obtain rn where "n = Some rn" "pool_ok cap (rn_socket_write_pool rn)"
      using nodes unfolding nodes_ok_def node_ok_def by blast
    with n ready show "\<exists>rn. n = Some rn \<and> pool_ok cap (rn_socket_write_pool rn) \<and>
      104 \<le> unat (rn_l4mtu rn) \<and> unat (rn_l4mtu rn) \<le> cap" by (auto simp: nodes_ready_def)
  qed
  note p = pop_many_pool [OF 1 pools(1)]
  note d = start_decoders_ok [OF 2 pools(2) conjunct1 [OF conjunct2 [OF p]] dist]
  note e = start_encoders_ok [OF 3 pools(3) dist each]
  have encs: "encoders_ok cap ?nodes encs"
    unfolding encoders_ok_def
  proof (intro allI impI)
    fix k t en assume en: "encs k = Some (t, en)"
    then have "k \<in> fst ` set ?nodes" using e by (metis option.distinct(1))
    then obtain n where "(k, n) \<in> set ?nodes" by auto
    with e en mok show "encoder_private cap en \<and>
        (\<exists>rn. map_find k ?nodes = Some (Some rn) \<and> enc_l4mtu en = rn_l4mtu rn)"
      by (fastforce simp: map_find_iff)
  qed
  have "outgoing_ok cap ?nodes" using ready by (simp add: outgoing_ok_def nodes_ready_def)
  moreover have "sw_ok g cap (sy_switch s)" using sw d e unfolding sw_ok_def s by simp
  moreover have "\<forall>k x. decs k = Some x \<longrightarrow> decoder_private cap x"
    using d by (metis option.distinct(1) option.inject)
  ultimately show "system_ok g cap s"
    using p encs unfolding system_ok_def by (simp add: s received_ok_def)
  have "\<forall>k \<in> fst ` set ?nodes. held_by_encoders s k = 2"
    using e by (fastforce simp: s held_by_encoders_def)
  from map_total_held [OF this, of node_rx] e show "rx_total s = rx_buffers (\<lambda>k. 0) sw"
    by (simp add: s rx_total_def rx_buffers_def)
  have "\<forall>k \<in> fst ` set ?nodes. held_by_decoders s k = 2"
    using d by (fastforce simp: s held_by_decoders_def)
  from map_total_held [OF this, of node_tx] d p show "tx_total s = tx_buffers (\<lambda>k. 0) sw"
    by (simp add: s tx_total_def tx_buffers_def)
  show "sw_remote_nodes (sy_switch s) = ?nodes" by (simp add: s)
qed

text \<open>The start succeeds when there are buffers for the socket thread and two for every decoder.\<close>

lemma start_decoders_exist:
  assumes "StreamCompressorLZ4 lib = Inr lz4" and "StreamCompressorZSTD lib = Inr zstd"
  shows "2 * length ks \<le> length (pool avail) \<Longrightarrow>
    \<exists>r. start_decoders lib garbage l2mtu tap ks (decs, avail) = Inr r"
proof (induction ks arbitrary: decs avail)
  case (Cons k ks)
  then obtain b c bs where p: "pool avail = b # c # bs" and "2 * length ks \<le> length bs"
    by (cases "pool avail"; cases "tl (pool avail)") auto
  define d where "d = decoder_clearState
       \<lparr>dec_l2mtu = l2mtu, dec_first_packet = True, dec_last_sequence = garbage,
        dec_last_part = 0, dec_last_format = 0, dec_last_orig_packet_size = 0,
        dec_tx_buffer = c, dec_inflight_buffers = [], dec_compressorLZ4 = lz4,
        dec_compressorZSTD = zstd, dec_dcomp_buffer = b, dec_tx_buffer_pool = tap,
        dec_available_buffer_pool = avail\<lparr>pool := bs\<rparr>\<rparr>"
  have d: "PacketDecoder garbage lib l2mtu tap avail = Inr d"
    by (simp add: PacketDecoder_def assms p BufferPool_pop_wait_simps d_def)
  have "pool (dec_available_buffer_pool d) = bs" by (simp add: d_def decoder_clearState_def)
  with \<open>2 * length ks \<le> length bs\<close> have "2 * length ks \<le> length (pool (dec_available_buffer_pool d))"
    by simp
  then have "\<exists>r. start_decoders lib garbage l2mtu tap ks (decs(k \<mapsto> d), dec_available_buffer_pool d) = Inr r"
    by (rule Cons.IH)
  then show ?case by (simp only: start_decoders.simps d rbind_simps)
qed simp

lemma encoder_setup_exists:
  fixes lib :: "'s codec_lib"
  assumes "StreamCompressorLZ4 lib = Inr lz4" and "StreamCompressorZSTD lib = Inr zstd"
    and "rn_packet_format rn \<in> {0, 1, 2}" and avail: "pool_ok cap avail" "8 \<le> cap" "2 \<le> length (pool avail)"
  shows "\<exists>e :: ('s, 'f) encoder. encoder_setup lib rn avail = Inr e \<and> pool_ok cap (enc_available_buffer_pool e) \<and>
    length (pool avail) = 2 + length (pool (enc_available_buffer_pool e))"
proof -
  obtain b bs where p: "pool avail = b # bs" "bs \<noteq> []"
    using avail(3) by (cases "pool avail"; cases "tl (pool avail)") auto
  have a1: "pool_ok cap (avail\<lparr>pool := bs\<rparr>)" using avail(1) p by (simp add: pool_ok_def)
  obtain t q where t: "encoder_take_buffer (avail\<lparr>pool := bs\<rparr>) = Inr (t, q)" "pool_ok cap q"
    "length (pool (avail\<lparr>pool := bs\<rparr>)) = Suc (length (pool q))"
    by (rule take_buffer [OF a1 _ avail(2)]) (use p in simp_all)
  have "\<exists>e0 :: ('s, 'f) encoder. PacketEncoder (rn_l2mtu rn) (rn_l4mtu rn) (rn_socket_write_pool rn) avail = Inr e0 \<and>
      enc_available_buffer_pool e0 = q"
    by (simp add: PacketEncoder_def BufferPool_pop_wait_simps(2) [OF p(1)] t(1))
  then obtain e0 :: "('s, 'f) encoder" where
    e0: "PacketEncoder (rn_l2mtu rn) (rn_l4mtu rn) (rn_socket_write_pool rn) avail = Inr e0"
    "enc_available_buffer_pool e0 = q" by blast
  have "\<exists>e. encoder_setPacketFormat lib (rn_packet_format rn) e0 = Inr e \<and> enc_available_buffer_pool e = q"
    using assms(1-3) e0(2) by (auto simp: encoder_setPacketFormat_def Let_def)
  with e0(1) t p show ?thesis by (auto simp: encoder_setup_def)
qed

lemma start_encoders_exist:
  fixes lib :: "'s codec_lib" and encs :: "(node_key, nat \<times> ('s, 'f) encoder) map"
  assumes "StreamCompressorLZ4 lib = Inr lz4" and "StreamCompressorZSTD lib = Inr zstd" and "8 \<le> cap"
  shows "\<forall>(k, n) \<in> set ns. \<exists>rn. n = Some rn \<and> rn_packet_format rn \<in> {0, 1, 2} \<Longrightarrow> pool_ok cap avail \<Longrightarrow>
    2 * length ns \<le> length (pool avail) \<Longrightarrow> \<exists>r. start_encoders lib ns (encs, avail) = Inr r"
proof (induction ns arbitrary: encs avail)
  case (Cons x ns)
  from Cons.prems(1) obtain k rn where x: "x = (k, Some rn)" "rn_packet_format rn \<in> {0, 1, 2}"
    by (cases x) auto
  have "2 \<le> length (pool avail)" using Cons.prems(3) by simp
  from encoder_setup_exists [OF assms(1,2) x(2) Cons.prems(2) assms(3) this] obtain e :: "('s, 'f) encoder" where
    e: "encoder_setup lib rn avail = Inr e" "pool_ok cap (enc_available_buffer_pool e)"
    "length (pool avail) = 2 + length (pool (enc_available_buffer_pool e))" by blast
  have "\<exists>r. start_encoders lib ns (encs(k \<mapsto> (1, e)), enc_available_buffer_pool e) = Inr r"
    by (rule Cons.IH [OF _ e(2)]) (use Cons.prems(1,3) e(3) in auto)
  then show ?case by (simp only: x(1) start_encoders.simps e(1) rbind_simps)
qed simp

lemma system_start_exists:
  fixes lib :: "'s codec_lib"
  assumes "StreamCompressorLZ4 lib = Inr lz4" and "StreamCompressorZSTD lib = Inr zstd"
    and "256 + 2 * length (sw_remote_nodes sw) \<le> length (pool (sw_available_tx_buffer_pool sw))"
    and "2 * length (sw_remote_nodes sw) \<le> length (pool (sw_available_rx_buffer_pool sw))"
    and "\<forall>(k, n) \<in> set (sw_remote_nodes sw). \<exists>rn. n = Some rn \<and> rn_packet_format rn \<in> {0, 1, 2}"
    and "sw_ok g cap sw" and "8 \<le> cap"
  shows "\<exists>s :: ('s, 'f) system. system_start lib garbage sw = Inr s"
proof -
  let ?p = "sw_available_tx_buffer_pool sw" and ?n = SETH_MAX_RECVMM_MESSAGES
  have n: "?n = 256" by (simp add: SETH_MAX_RECVMM_MESSAGES_def)
  have "pool ?p = take ?n (pool ?p) @ drop ?n (pool ?p)" by simp
  moreover have "length (take ?n (pool ?p)) = ?n" using assms(3) n by simp
  ultimately obtain q where
    q: "pop_many BufferPool_pop_wait ?n ?p = Inr (take ?n (pool ?p), q)" "pool q = drop ?n (pool ?p)"
    using bpw.pop_all [of ?p "take ?n (pool ?p)" "drop ?n (pool ?p)"] by auto
  have "2 * length (map fst (sw_remote_nodes sw)) \<le> length (pool q)" using assms(3) n q(2) by simp
  from start_decoders_exist [OF assms(1,2) this] obtain decs avail' where
    d: "start_decoders lib garbage (sw_l2mtu sw) (sw_tap_write_pool sw) (map fst (sw_remote_nodes sw))
       (Map.empty, q) = Inr (decs, avail')" by (metis surj_pair)
  have "pool_ok cap (sw_available_rx_buffer_pool sw)" using assms(6) by (simp add: sw_ok_def)
  from start_encoders_exist [OF assms(1,2,7,5) this assms(4)]
  obtain encs :: "(node_key, nat \<times> ('s, 'f) encoder) map" and rx where
    "start_encoders lib (sw_remote_nodes sw) (Map.empty, sw_available_rx_buffer_pool sw) = Inr (encs, rx)"
    by fastforce
  then show ?thesis unfolding system_start_def q(1) d rbind_simps prod.case by (simp only: rbind_simps prod.case) blast
qed

section \<open>A new switch\<close>

lemma PacketSwitch_some: "PacketSwitch g gk s mtu tx fmt src dsts port = Inr sw \<Longrightarrow> dsts \<noteq> [] \<Longrightarrow> sw_remote_nodes sw \<noteq> []"
  using PacketSwitch_keys [of g gk s mtu tx fmt src dsts port sw "get_key_from_sockaddr gk (hd dsts)"] by auto

lemma PacketSwitch_ready:
  assumes new: "PacketSwitch g gk s mtu tx fmt src dsts port = Inr sw"
  shows "nodes_ready (nat (sw_buffer_size (sw_l2mtu sw))) (sw_remote_nodes sw)"
  unfolding nodes_ready_def
proof (intro allI impI)
  fix k rn assume "map_find k (sw_remote_nodes sw) = Some (Some rn)"
  from PacketSwitch_nodes [OF new this] obtain a where
    rn: "rn = RemoteNode gk s a tx (uint (sw_l2mtu sw)) (sw_buffer_size (sw_l2mtu sw)) fmt" by auto
  have "PacketSwitch_check mtu tx = Inr ()" using new by (auto simp: PacketSwitch_def rbind_Inr_conv)
  then have size: "1200 \<le> tx" "tx \<le> 9218" "tx \<le> mtu" "1200 \<le> mtu" by (simp_all add: PacketSwitch_check_iff)
  have l4: "unat (rn_l4mtu rn) = nat tx - (if is_ipv4 a then 28 else 48)"
    unfolding rn by (rule rn_l4mtu_value [OF size(1,2)])
  have "nat (sw_buffer_size (sw_l2mtu sw)) \<ge> nat mtu + 22"
    unfolding sw_buffer_size_value PacketSwitch_cap(3) [OF new] by simp
  with l4 size show "104 \<le> unat (rn_l4mtu rn) \<and> unat (rn_l4mtu rn) \<le> nat (sw_buffer_size (sw_l2mtu sw)) \<and>
      pool (rn_socket_write_pool rn) = []"
    by (auto simp: rn RemoteNode_def Let_def)
qed

lemma map_total_zero: "\<forall>(k, v) \<in> set m. f k v = 0 \<Longrightarrow> map_total f m = 0"
  by (induction m) auto

text \<open>5000 buffers of each family for every configured destination.\<close>

lemma PacketSwitch_buffers:
  assumes new: "PacketSwitch g gk s mtu tx fmt src dsts port = Inr sw"
  shows "rx_buffers (\<lambda>k. 0) sw = SETH_BUFFER_COUNT * length dsts"
    and "tx_buffers (\<lambda>k. 0) sw = SETH_BUFFER_COUNT * length dsts"
proof -
  have "map_ok (sw_remote_nodes sw)" using PacketSwitch_ok [OF new] by (simp add: sw_ok_def nodes_ok_def)
  then have "\<forall>(k, n) \<in> set (sw_remote_nodes sw). node_rx n + 0 = 0 \<and> node_tx n + 0 = 0"
    using PacketSwitch_nodes [OF new] by (fastforce simp: map_find_iff RemoteNode_def Let_def)
  then have "map_total (\<lambda>k n. node_rx n + 0) (sw_remote_nodes sw) = 0"
    "map_total (\<lambda>k n. node_tx n + 0) (sw_remote_nodes sw) = 0" by (auto intro!: map_total_zero)
  moreover have "length (pool (sw_available_rx_buffer_pool sw)) = SETH_BUFFER_COUNT * length dsts"
    "length (pool (sw_available_tx_buffer_pool sw)) = SETH_BUFFER_COUNT * length dsts" "pool (sw_tap_write_pool sw) = []"
    using new by (auto simp: PacketSwitch_def Let_def rbind_Inr_conv sw_buffer_count_def)
  ultimately show "rx_buffers (\<lambda>k. 0) sw = SETH_BUFFER_COUNT * length dsts"
    and "tx_buffers (\<lambda>k. 0) sw = SETH_BUFFER_COUNT * length dsts"
    by (simp_all add: rx_buffers_def tx_buffers_def)
qed

text \<open>The threads of every new switch can start.\<close>

lemma PacketSwitch_few:
  assumes new: "PacketSwitch g gk s mtu tx fmt src dsts port = Inr sw"
  shows "length (sw_remote_nodes sw) \<le> length dsts"
proof -
  have "fst ` set (sw_remote_nodes sw) = get_key_from_sockaddr gk ` set dsts"
    using PacketSwitch_keys [OF new] by (auto simp: map_find_None)
  moreover have "map_ok (sw_remote_nodes sw)" using PacketSwitch_ok [OF new] by (simp add: sw_ok_def nodes_ok_def)
  ultimately have "length (sw_remote_nodes sw) = card (get_key_from_sockaddr gk ` set dsts)"
    by (simp add: length_map_ok)
  also have "\<dots> \<le> length dsts" using card_image_le [of "set dsts"] card_length [of dsts] le_trans by blast
  finally show ?thesis .
qed

lemma new_switch_starts:
  fixes lib :: "'s codec_lib"
  assumes new: "PacketSwitch g gk s mtu tx fmt src dsts port = Inr sw" and dsts: "dsts \<noteq> []"
    and fmt: "fmt \<in> {0, 1, 2}" and lib: "lib_ready lib"
  shows "\<exists>s0 :: ('s, 'f) system. system_start lib garbage sw = Inr s0"
proof -
  let ?cap = "nat (sw_buffer_size (sw_l2mtu sw))"
  obtain lz4 zstd where c: "StreamCompressorLZ4 lib = Inr lz4" "StreamCompressorZSTD lib = Inr zstd"
    using lib by (auto simp: lib_ready_def)
  have len: "length (pool (sw_available_rx_buffer_pool sw)) = 5000 * length dsts"
    "length (pool (sw_available_tx_buffer_pool sw)) = 5000 * length dsts"
    using new by (auto simp: PacketSwitch_def Let_def rbind_Inr_conv sw_buffer_count_def SETH_BUFFER_COUNT_def)
  have "1 \<le> length dsts" using dsts by (simp add: Suc_leI)
  then have room: "256 + 2 * length (sw_remote_nodes sw) \<le> length (pool (sw_available_tx_buffer_pool sw))"
    "2 * length (sw_remote_nodes sw) \<le> length (pool (sw_available_rx_buffer_pool sw))"
    using PacketSwitch_few [OF new] unfolding len by linarith+
  have ok: "sw_ok gk ?cap sw" by (rule PacketSwitch_ok [OF new])
  have map: "map_ok (sw_remote_nodes sw)" using ok by (simp add: sw_ok_def nodes_ok_def)
  have nodes: "\<forall>(k, n) \<in> set (sw_remote_nodes sw). \<exists>rn. n = Some rn \<and> rn_packet_format rn \<in> {0, 1, 2}"
  proof clarify
    fix k n assume "(k, n) \<in> set (sw_remote_nodes sw)"
    then have "map_find k (sw_remote_nodes sw) = Some n" using map by (simp add: map_find_iff)
    from PacketSwitch_nodes [OF new this] obtain a where
      "n = Some (RemoteNode gk s a tx (uint (sw_l2mtu sw)) (sw_buffer_size (sw_l2mtu sw)) fmt)" by auto
    then show "\<exists>rn. n = Some rn \<and> rn_packet_format rn \<in> {0, 1, 2}" using fmt by (simp add: RemoteNode_def Let_def)
  qed
  have "8 \<le> ?cap" using PacketSwitch_cap(1) [OF new] by simp
  with system_start_exists [OF c room nodes ok] show ?thesis by blast
qed

text \<open>A run of the threads of a new switch.\<close>

lemma new_switch_runs:
  assumes new: "PacketSwitch garbage gk s mtu tx fmt src dsts port = Inr sw" and dsts: "dsts \<noteq> []"
    and start: "system_start lib garbage' sw = Inr s0"
    and cap: "cap = nat (sw_buffer_size (sw_l2mtu sw))" and lib: "codec_bounded lib cap"
    and run: "reachable ratio lib g cap s0 st"
  shows "system_ok g cap st" and "conserved s0 st" and "12 \<le> cap" and "cap < 65536"
    and "rx_total s0 = SETH_BUFFER_COUNT * length dsts" and "tx_total s0 = SETH_BUFFER_COUNT * length dsts"
    and "sw_remote_nodes (sy_switch s0) = sw_remote_nodes sw"
proof -
  show size: "12 \<le> cap" "cap < 65536" using PacketSwitch_cap [OF new] cap by simp_all
  note s0 = system_start_ok [OF PacketSwitch_ok [OF new, folded cap] PacketSwitch_ready [OF new, folded cap] start]
  show "rx_total s0 = SETH_BUFFER_COUNT * length dsts" "tx_total s0 = SETH_BUFFER_COUNT * length dsts"
    "sw_remote_nodes (sy_switch s0) = sw_remote_nodes sw"
    using s0(2-4) PacketSwitch_buffers [OF new] by simp_all
  have "sw_remote_nodes (sy_switch s0) \<noteq> []" using PacketSwitch_some [OF new dsts] s0(4) by simp
  from reachable_kept [OF run s0(1) size lib this] show "system_ok g cap st" "conserved s0 st"
    by (simp_all add: kept_def)
qed

lemma PacketSwitch_l2mtu:
  "PacketSwitch g gk s mtu tx fmt src dsts port = Inr sw \<Longrightarrow> sw_l2mtu sw = get_l2mtu_from_mtu (word_of_int mtu)"
  by (auto simp: PacketSwitch_def Let_def rbind_Inr_conv)

text \<open>What a run of the threads of a new switch has sent.\<close>

lemma new_switch_datagram:
  assumes new: "PacketSwitch garbage gk s mtu tx fmt src dsts port = Inr sw" and dsts: "dsts \<noteq> []"
    and start: "system_start lib garbage' sw = Inr s0"
    and cap: "cap = nat (sw_buffer_size (sw_l2mtu sw))" and lib: "codec_bounded lib cap"
    and run: "reachable ratio lib g cap s0 st" and sent: "(addr, addr_len, bytes) \<in> set (sy_network st)"
  obtains a seq where "a \<in> set dsts" and "addr = to_sockaddr_storage_ipv6 a"
    and "int (length bytes) + (if is_ipv4 a then 20 else 40) + 8 \<le> tx" and "16 \<le> length bytes"
    and "take 8 bytes = PacketHeader_bytes (packet_header_of seq)"
proof -
  note facts = new_switch_runs [OF new dsts start cap lib run]
  have "datagram_ok (sw_remote_nodes (sy_switch st)) (addr, addr_len, bytes)"
    using facts(1) sent by (auto simp: system_ok_def)
  moreover have "nodes_conf (sw_remote_nodes sw) = nodes_conf (sw_remote_nodes (sy_switch st))"
    using facts(2,7) by (simp add: conserved_def)
  ultimately have "datagram_ok (sw_remote_nodes sw) (addr, addr_len, bytes)" by (blast intro: same_configuration(3))
  then obtain k rn seq where m: "map_find k (sw_remote_nodes sw) = Some (Some rn)" "addr = rn_node_addr rn"
    "16 \<le> length bytes" "length bytes \<le> unat (rn_l4mtu rn)"
    "take 8 bytes = PacketHeader_bytes (packet_header_of seq)" by (auto simp: datagram_ok_def)
  from PacketSwitch_nodes [OF new m(1)] obtain a where a: "a \<in> set dsts"
    "rn = RemoteNode gk s a tx (uint (sw_l2mtu sw)) (sw_buffer_size (sw_l2mtu sw)) fmt" by auto
  have "PacketSwitch_check mtu tx = Inr ()" using new by (auto simp: PacketSwitch_def rbind_Inr_conv)
  then have size: "1200 \<le> tx" "tx \<le> 9218" by (simp_all add: PacketSwitch_check_iff)
  have "addr = to_sockaddr_storage_ipv6 a" using m(2) by (simp add: a(2) RemoteNode_def Let_def)
  moreover have "int (length bytes) + (if is_ipv4 a then 20 else 40) + 8 \<le> tx"
    using m(4) size unfolding a(2) rn_l4mtu_value [OF size] by (simp split: if_splits)
  ultimately show thesis using that a(1) m(3,5) by blast
qed

end
