(* ===== verification/Logger.thy ===== *)
theory Logger
  imports Std_Map "HOL-Library.Char_ord"
begin

text \<open>
  The logger (\<open>class accl::Logger\<close>, \<open>src/libaccl/logger.cpp\<close>): its levels and their names, the
  choice of the level from a text, and the line that is written for a message. What the program
  writes to \<open>std::cerr\<close> is the result; the text of the clock (\<open>std::put_time\<close>), the environment
  variable and the build option are arguments.
\<close>

section \<open>Levels\<close>

datatype LogLevel = DEBUGGING | INFO | NOTICE | WARNING | ERROR

fun LogLevel_value :: "LogLevel \<Rightarrow> nat" where
  "LogLevel_value DEBUGGING = 1"
| "LogLevel_value INFO = 2"
| "LogLevel_value NOTICE = 3"
| "LogLevel_value WARNING = 4"
| "LogLevel_value ERROR = 5"

lemma LogLevel_value_inject: "LogLevel_value a = LogLevel_value b \<longleftrightarrow> a = b"
  by (cases a; cases b) simp_all

instantiation LogLevel :: linorder
begin

definition less_eq_LogLevel :: "LogLevel \<Rightarrow> LogLevel \<Rightarrow> bool" where
  "less_eq_LogLevel a b \<longleftrightarrow> LogLevel_value a \<le> LogLevel_value b"

definition less_LogLevel :: "LogLevel \<Rightarrow> LogLevel \<Rightarrow> bool" where
  "less_LogLevel a b \<longleftrightarrow> LogLevel_value a < LogLevel_value b"

instance
  by standard (auto simp: less_eq_LogLevel_def less_LogLevel_def LogLevel_value_inject)

end

lemma LogLevel_bounds: "DEBUGGING \<le> l" "l \<le> ERROR" for l :: LogLevel
  by (cases l; simp add: less_eq_LogLevel_def)+

section \<open>The object\<close>

record logger =
  lg_log_level :: LogLevel
  lg_log_level_default :: LogLevel
  lg_log_time :: bool

definition Logger :: "bool \<Rightarrow> string option \<Rightarrow> logger" where
  "Logger debug_build invocation_id =
     (let default = (if debug_build then DEBUGGING else NOTICE)
      in \<lparr>lg_log_level = default, lg_log_level_default = default,
          lg_log_time = (invocation_id = None)\<rparr>)"

definition tolower :: "char \<Rightarrow> char" where
  "tolower c = (if 65 \<le> (of_char c :: nat) \<and> (of_char c :: nat) \<le> 90
                then char_of (of_char c + 32 :: nat) else c)"

fun Logger_logLevelToString :: "LogLevel \<Rightarrow> string" where
  "Logger_logLevelToString DEBUGGING = ''DEBUG''"
| "Logger_logLevelToString INFO = ''INFO''"
| "Logger_logLevelToString NOTICE = ''NOTICE''"
| "Logger_logLevelToString WARNING = ''WARNING''"
| "Logger_logLevelToString ERROR = ''ERROR''"

definition Logger_getLogLevelString_of :: "LogLevel \<Rightarrow> string" where
  "Logger_getLogLevelString_of level = map tolower (Logger_logLevelToString level)"

definition Logger_getLogLevelString :: "logger \<Rightarrow> string" where
  "Logger_getLogLevelString lg = Logger_getLogLevelString_of (lg_log_level lg)"

definition Logger_getLogLevelDefaultString :: "logger \<Rightarrow> string" where
  "Logger_getLogLevelDefaultString lg = Logger_getLogLevelString_of (lg_log_level_default lg)"

definition logLevelMap :: "(string, LogLevel) std_map" where
  "logLevelMap = [(''debug'', DEBUGGING), (''error'', ERROR), (''info'', INFO), (''notice'', NOTICE),
     (''warning'', WARNING)]"

text \<open>The level from its name in any case; the result is what the caller is told.\<close>

definition Logger_setLogLevel :: "string \<Rightarrow> logger \<Rightarrow> bool \<times> logger" where
  "Logger_setLogLevel level lg =
     (case map_find (map tolower level) logLevelMap of
        Some l \<Rightarrow> (True, lg\<lparr>lg_log_level := l\<rparr>)
      | None \<Rightarrow> (False, lg))"

section \<open>Messages\<close>

definition newline :: string where "newline = [CHR 0x0A]"

definition Logger_log_line ::
    "string \<Rightarrow> LogLevel \<Rightarrow> string \<Rightarrow> string \<Rightarrow> nat \<Rightarrow> string \<Rightarrow> logger \<Rightarrow> string option"
where
  "Logger_log_line time level file func line logline lg =
     (if lg_log_level lg \<le> level then
        (let levelStr = Logger_logLevelToString level
         in Some ((if lg_log_time lg then time else [])
              @ ''['' @ levelStr @ replicate (7 - length levelStr) (CHR '' '') @ ''] ''
              @ (if lg_log_level lg = DEBUGGING
                 then ''('' @ func @ '':'' @ file @ '':'' @ nat_to_string line @ '') '' else [])
              @ logline @ newline))
      else None)"

text \<open>The template \<open>log\<close> streams its arguments one after the other.\<close>

definition Logger_log ::
    "string \<Rightarrow> LogLevel \<Rightarrow> string \<Rightarrow> string \<Rightarrow> nat \<Rightarrow> string list \<Rightarrow> logger \<Rightarrow> string option"
where
  "Logger_log time level file func line args lg =
     (if lg_log_level lg \<le> level then Logger_log_line time level file func line (concat args) lg
      else None)"

section \<open>Lemmas\<close>

lemma logLevelMap_ok: "map_ok logLevelMap"
  by (simp add: map_ok_def logLevelMap_def list_less_def lexord_cons_cons less_char_def)

lemma level_names [simp]:
  "Logger_getLogLevelString_of DEBUGGING = ''debug''"
  "Logger_getLogLevelString_of INFO = ''info''"
  "Logger_getLogLevelString_of NOTICE = ''notice''"
  "Logger_getLogLevelString_of WARNING = ''warning''"
  "Logger_getLogLevelString_of ERROR = ''error''"
  by code_simp+

lemma logLevelMap_only:
  "map_find s logLevelMap = Some l \<longleftrightarrow> s = Logger_getLogLevelString_of l"
proof
  assume "map_find s logLevelMap = Some l"
  then show "s = Logger_getLogLevelString_of l"
    by (auto simp: logLevelMap_def simp del: list.inject split: if_splits)
next
  assume "s = Logger_getLogLevelString_of l"
  then show "map_find s logLevelMap = Some l" by (cases l) (simp_all add: logLevelMap_def)
qed

lemma tolower_idem [simp]: "tolower (tolower c) = tolower c"
proof (cases "65 \<le> (of_char c :: nat) \<and> (of_char c :: nat) \<le> 90")
  case True
  then have "of_char (char_of (of_char c + 32 :: nat)) = (of_char c + 32 :: nat)"
    by simp
  with True show ?thesis by (simp add: tolower_def)
next
  case False
  then have "tolower c = c" unfolding tolower_def by (rule if_not_P)
  then show ?thesis by simp
qed

lemma level_string_lower: "map tolower (Logger_getLogLevelString_of l) = Logger_getLogLevelString_of l"
  by (simp add: Logger_getLogLevelString_of_def)

text \<open>Setting a level by name succeeds exactly for the names of the levels, in any case.\<close>

lemma setLogLevel_Some:
  "map tolower s = Logger_getLogLevelString_of l \<Longrightarrow>
    Logger_setLogLevel s lg = (True, lg\<lparr>lg_log_level := l\<rparr>)"
  by (simp only: Logger_setLogLevel_def logLevelMap_only [THEN iffD2] option.case)

lemma setLogLevel_None:
  "\<forall>l. map tolower s \<noteq> Logger_getLogLevelString_of l \<Longrightarrow> Logger_setLogLevel s lg = (False, lg)"
  by (cases "map_find (map tolower s) logLevelMap")
    (simp_all add: Logger_setLogLevel_def logLevelMap_only)

lemma setLogLevel_result:
  "Logger_setLogLevel s lg = (ok, lg') \<Longrightarrow> \<not> ok \<Longrightarrow> lg' = lg"
  by (auto simp: Logger_setLogLevel_def split: option.splits)

end
