(* ===== verification/Settings.thy ===== *)
theory Settings
  imports Logger Codec Packet_Switch
begin

text \<open>
  The configuration of the program (\<open>main\<close> in \<open>src/main.cpp\<close>): the loop over the command line,
  the configuration file, the choice between them and the defaults, the checks, and the conversion
  of the addresses. The result is what \<open>start_seth\<close> is called with, or how the program ends
  before. What \<open>getopt_long\<close>, the ini parser, the file system and the conversion of addresses
  answer is in the environment, the texts of the generated \<open>config.hpp\<close> too.
\<close>

section \<open>The environment\<close>

text \<open>A value read from the configuration file: \<open>pt.get\<close> throws for a missing or malformed one.\<close>

datatype 'a conf_value = Got 'a | Bad_path | Bad_data

record conf_tree =
  pt_get_string :: "string \<Rightarrow> string conf_value"
  pt_get_int :: "string \<Rightarrow> int conf_value"

record environment =
  env_version :: string
  env_config_file :: string
  env_exists :: "string \<Rightarrow> bool"
  env_read_ini :: "string \<Rightarrow> string + conf_tree"
  env_pton6 :: "string \<Rightarrow> u8 list option"
  env_pton4 :: "string \<Rightarrow> u8 list option"
  env_ntop6 :: "u8 list \<Rightarrow> string option"
  env_ntop4 :: "u8 list \<Rightarrow> string option"
  env_garbage :: u16

text \<open>The program ends with a status and a text, by \<open>abort\<close>, or by an exception nobody catches.\<close>

datatype main_exit = Exit int string | Aborts | Terminates

definition EXIT_FAILURE :: int where "EXIT_FAILURE = 1"
definition IFNAMSIZ :: nat where "IFNAMSIZ = 16"
definition SETH_DEFAULT_TUNNEL_NAME :: string where "SETH_DEFAULT_TUNNEL_NAME = ''seth0''"
definition SETH_DEFAULT_PORT :: int where "SETH_DEFAULT_PORT = 58023"

section \<open>The command line\<close>

definition isspace :: "char \<Rightarrow> bool" where
  "isspace c \<longleftrightarrow> (of_char c :: nat) = 32 \<or> (9 \<le> (of_char c :: nat) \<and> (of_char c :: nat) \<le> 13)"

definition isdigit :: "char \<Rightarrow> bool" where
  "isdigit c \<longleftrightarrow> 48 \<le> (of_char c :: nat) \<and> (of_char c :: nat) \<le> 57"

definition decimal :: "string \<Rightarrow> int" where
  "decimal ds = foldl (\<lambda>n c. 10 * n + (int (of_char c) - 48)) 0 ds"

text \<open>\<open>atoi\<close>: \<open>strtol\<close> saturates at the range of \<open>long\<close>, and the result is cut to 32 bits.\<close>

definition atoi :: "string \<Rightarrow> int" where
  "atoi s =
     (let s1 = dropWhile isspace s;
          neg = (s1 \<noteq> [] \<and> hd s1 = CHR ''-'');
          s2 = (if s1 \<noteq> [] \<and> (hd s1 = CHR ''-'' \<or> hd s1 = CHR ''+'') then tl s1 else s1);
          v = decimal (takeWhile isdigit s2);
          l = (if neg then max (- v) (- (2 ^ 63)) else min v (2 ^ 63 - 1))
      in sint (word_of_int l :: 32 word))"

definition long_options :: "(string \<times> bool \<times> char) list" where
  "long_options =
     [(''version'', False, CHR ''v''), (''help'', False, CHR ''h''), (''config-file'', True, CHR ''c''),
      (''log-level'', True, CHR ''l''), (''ifname'', True, CHR ''i''), (''src'', True, CHR ''s''),
      (''dst'', True, CHR ''d''), (''port'', True, CHR ''p''), (''mtu'', True, CHR ''m''),
      (''tsize'', True, CHR ''t''), (''compression'', True, CHR ''a'')]"

definition short_options :: string where "short_options = ''vhc:l:m:t:s:r:d:p:i:a:''"

definition quoted :: "string \<Rightarrow> string" where "quoted s = CHR 0x22 # s @ [CHR 0x22]"

definition print_help :: "environment \<Rightarrow> logger \<Rightarrow> string list" where
  "print_help env lg =
     [''Usage:'',
      ''    -v,    Print version information'',
      ''    -h, --help                    Print this help'',
      ''    -c, --config-file             Specify the configuration file to use'',
      ''                                  (default is '' @ quoted (env_config_file env) @ '')'',
      ''    -l, --log-level=<LOG_LEVEL>   Logging level, valid values: error, warning,'',
      ''                                  notice, info, debug (default is ''
        @ quoted (Logger_getLogLevelDefaultString lg) @ '')'',
      ''    -m, --mtu=<MTU>               Specify the interface MTU of between ''
        @ to_string SETH_MIN_MTU_SIZE @ '' and'',
      ''                                  '' @ to_string SETH_MAX_MTU_SIZE @ '' (default is 1500)'',
      ''    -t, --txsize=<TSIZE>          Specify the maximum transmissions packet size,'',
      ''                                  this must be the same on all nodes and'',
      ''                                  between '' @ to_string SETH_MIN_TXSIZE @ '' and ''
        @ to_string SETH_MAX_TXSIZE @ '' (default is 1500)'',
      ''    -s, --src=<SOURCE>            Specify the source IPv4/IPv6 address.'',
      ''    -d, --dst=<DESTINATION>       Specify the destination IPv4/IPv6 address.'',
      ''                                  Multiple values can be specified using a'',
      ''                                  comma, semicolon, space or using this option'',
      ''                                  multiple times. (mandatory)'',
      ''    -p, --port=<PORT>             Specify the UDP port, between 1 and 65535'',
      ''                                  (default is '' @ to_string SETH_DEFAULT_PORT @ '')'',
      ''    -i, --ifname=<IFNAME>         Specify interface name to use up to '' @ to_string (int IFNAMSIZ),
      ''                                  characters (default is '' @ quoted SETH_DEFAULT_TUNNEL_NAME @ '')'',
      ''    -a, --compression=<COMPR>     Specify compression algorithm to use, valid'',
      ''                                  values: none, lz4, zstd (default: ''
        @ quoted (PacketHeaderOptionFormatTypeToString (PacketHeaderOptionFormatType_value SETH_DEFAULT_PACKET_FORMAT)) @ '')'',
      '''']"

record options =
  opt_config_file :: string
  opt_log_level :: string
  opt_mtu :: int
  opt_txsize :: int
  opt_src :: string
  opt_dst :: "string list"
  opt_port :: int
  opt_ifname :: string
  opt_packet_format :: string

definition no_options :: options where
  "no_options = \<lparr>opt_config_file = [], opt_log_level = [], opt_mtu = 0, opt_txsize = 0, opt_src = [],
     opt_dst = [], opt_port = 0, opt_ifname = [], opt_packet_format = []\<rparr>"

definition address_delimiters :: string where "address_delimiters = '',; ''"

text \<open>One round of the loop: the option \<open>getopt_long\<close> returned, with its argument.\<close>

definition option_step :: "environment \<Rightarrow> logger \<Rightarrow> char \<times> string \<Rightarrow> options \<Rightarrow> main_exit + options" where
  "option_step env lg = (\<lambda>(c, arg) opts.
     if c = CHR ''v'' then Inl (Exit 0 (''Version: '' @ env_version env @ newline))
     else if c = CHR ''h'' then Inl (Exit 0 (concat (map (\<lambda>l. l @ newline) ([] # print_help env lg))))
     else if c = CHR ''c'' then
       (if \<not> env_exists env arg
        then Inl (Exit 1 (''ERROR: Configuration file '' @ [CHR 0x27] @ arg @ [CHR 0x27] @ '' does not exist.''))
        else Inr (opts\<lparr>opt_config_file := arg\<rparr>))
     else if c = CHR ''l'' then Inr (opts\<lparr>opt_log_level := arg\<rparr>)
     else if c = CHR ''m'' then Inr (opts\<lparr>opt_mtu := atoi arg\<rparr>)
     else if c = CHR ''t'' then Inr (opts\<lparr>opt_txsize := atoi arg\<rparr>)
     else if c = CHR ''s'' then Inr (opts\<lparr>opt_src := arg\<rparr>)
     else if c = CHR ''d'' then Inr (opts\<lparr>opt_dst := opt_dst opts @ splitByDelimiters arg address_delimiters\<rparr>)
     else if c = CHR ''p'' then Inr (opts\<lparr>opt_port := atoi arg\<rparr>)
     else if c = CHR ''i'' then Inr (opts\<lparr>opt_ifname := arg\<rparr>)
     else if c = CHR ''a'' then Inr (opts\<lparr>opt_packet_format := arg\<rparr>)
     else if c = CHR ''?'' then Inl (Exit 1 [])
     else Inl Aborts)"

definition parse_command_line ::
    "environment \<Rightarrow> logger \<Rightarrow> (char \<times> string) list \<Rightarrow> main_exit + options" where
  "parse_command_line env lg args = rfold (option_step env lg) args no_options"

section \<open>The configuration file\<close>

definition c_str :: "string \<Rightarrow> string" where "c_str s = takeWhile (\<lambda>c. c \<noteq> CHR 0x00) s"

text \<open>A missing value is ignored; no handler catches the exception for a malformed one.\<close>

definition conf_string :: "conf_tree \<Rightarrow> string \<Rightarrow> main_exit + string" where
  "conf_string pt key =
     (case pt_get_string pt key of Got s \<Rightarrow> Inr (c_str s) | Bad_path \<Rightarrow> Inr [] | Bad_data \<Rightarrow> Inl Terminates)"

definition conf_int :: "conf_tree \<Rightarrow> string \<Rightarrow> main_exit + int" where
  "conf_int pt key =
     (case pt_get_int pt key of Got i \<Rightarrow> Inr i | Bad_path \<Rightarrow> Inr 0 | Bad_data \<Rightarrow> Inl Terminates)"

definition conf_options :: "conf_tree \<Rightarrow> main_exit + options" where
  "conf_options pt =
     rbind (conf_string pt ''loglevel'') (\<lambda>log_level.
     rbind (conf_int pt ''mtu'') (\<lambda>mtu.
     rbind (conf_int pt ''txsize'') (\<lambda>txsize.
     rbind (conf_string pt ''source'') (\<lambda>src.
     rbind (conf_string pt ''destination'') (\<lambda>dst.
     rbind (conf_int pt ''port'') (\<lambda>port.
     rbind (conf_string pt ''interface'') (\<lambda>ifname.
     rbind (conf_string pt ''compression'') (\<lambda>packet_format.
     Inr (no_options\<lparr>opt_log_level := log_level, opt_mtu := mtu, opt_txsize := txsize, opt_src := src,
            opt_dst := splitByDelimiters dst address_delimiters, opt_port := port,
            opt_ifname := ifname, opt_packet_format := packet_format\<rparr>)))))))))"

definition load_config_file :: "environment \<Rightarrow> options \<Rightarrow> main_exit + options" where
  "load_config_file env cmdline =
     rbind (if opt_config_file cmdline = [] then Inr (env_config_file env)
            else if \<not> env_exists env (opt_config_file cmdline)
            then Inl (Exit 1 (''ERROR: Configuration file '' @ [CHR 0x27] @ opt_config_file cmdline
                               @ [CHR 0x27] @ '' does not exist.''))
            else Inr (opt_config_file cmdline)) (\<lambda>file.
     if \<not> env_exists env file then Inr no_options
     else (case env_read_ini env file of
             Inl what \<Rightarrow> Inl (Exit 1 (''ERROR: Failed to parse configuration file '' @ [CHR 0x27] @ file
                                      @ [CHR 0x27] @ '': '' @ what))
           | Inr pt \<Rightarrow> conf_options pt))"

section \<open>The choice and its checks\<close>

record settings =
  cfg_mtu :: int
  cfg_txsize :: int
  cfg_tunnel_port :: int
  cfg_tunnel_src :: string
  cfg_tunnel_dst :: "string list"
  cfg_ifname :: string
  cfg_packet_format :: PacketHeaderOptionFormatType

definition pick_int :: "int \<Rightarrow> int \<Rightarrow> int \<Rightarrow> int" where
  "pick_int cmdline conffile dflt =
     (if cmdline > 0 then cmdline else if conffile > 0 then conffile else dflt)"

definition pick_list :: "'a list \<Rightarrow> 'a list \<Rightarrow> 'a list \<Rightarrow> 'a list" where
  "pick_list cmdline conffile dflt =
     (if length cmdline > 0 then cmdline else if length conffile > 0 then conffile else dflt)"

definition set_log_level :: "options \<Rightarrow> options \<Rightarrow> logger \<Rightarrow> main_exit + logger" where
  "set_log_level cmdline conffile lg =
     (let cfg_log_level = (if length (opt_log_level cmdline) > 0 then opt_log_level cmdline
                           else opt_log_level conffile)
      in if length cfg_log_level > 0 then
           (let (ok, lg') = Logger_setLogLevel cfg_log_level lg
            in if \<not> ok
               then Inl (Exit 1 (''ERROR: Invalid log level '' @ [CHR 0x27] @ cfg_log_level @ [CHR 0x27] @ ''.''))
               else Inr lg')
         else Inr lg)"

definition parse_packet_format :: "string \<Rightarrow> main_exit + PacketHeaderOptionFormatType" where
  "parse_packet_format s =
     (if s = ''none'' then Inr FORMAT_NONE
      else if s = ''lz4'' then Inr COMPRESSED_LZ4
      else if s = ''zstd'' then Inr COMPRESSED_ZSTD
      else Inl (Exit 1 (''ERROR: Invalid compression algorithm '' @ [CHR 0x27] @ s @ [CHR 0x27] @ ''.'')))"

text \<open>\<open>std::sort\<close>, \<open>std::unique\<close> and \<open>erase\<close> on the destinations.\<close>

definition unique_destinations :: "string list \<Rightarrow> string list" where
  "unique_destinations dst = remdups_adj (sort dst)"

definition resolve_settings :: "options \<Rightarrow> options \<Rightarrow> logger \<Rightarrow> main_exit + settings \<times> logger" where
  "resolve_settings cmdline conffile lg =
     rbind (set_log_level cmdline conffile lg) (\<lambda>lg'.
     let mtu = pick_int (opt_mtu cmdline) (opt_mtu conffile) 1500;
         txsize = pick_int (opt_txsize cmdline) (opt_txsize conffile) 1500;
         src = pick_list (opt_src cmdline) (opt_src conffile) ''::'';
         dst = pick_list (opt_dst cmdline) (opt_dst conffile) [];
         port = pick_int (opt_port cmdline) (opt_port conffile) SETH_DEFAULT_PORT;
         ifname = pick_list (opt_ifname cmdline) (opt_ifname conffile) SETH_DEFAULT_TUNNEL_NAME
     in if mtu < SETH_MIN_MTU_SIZE \<or> mtu > SETH_MAX_MTU_SIZE then
          Inl (Exit 1 (''ERROR: Invalid MTU value. It should be between '' @ to_string SETH_MIN_MTU_SIZE
                 @ '' and '' @ to_string SETH_MAX_MTU_SIZE @ ''.''))
        else if txsize < SETH_MIN_TXSIZE \<or> txsize > SETH_MAX_TXSIZE then
          Inl (Exit 1 (''ERROR: Invalid TX_SIZE value. It should be between '' @ to_string SETH_MIN_TXSIZE
                 @ '' and '' @ to_string SETH_MAX_TXSIZE @ ''.''))
        else if length dst = 0 then
          Inl (Exit 1 (''ERROR: Tunnel destination(s) are mandatory and must be present in'' @ newline
                 @ ''       either the config file or on the command line.''))
        else if port < 1 \<or> port > 65535 then
          Inl (Exit 1 (''ERROR: Invalid tunnel port value '' @ [CHR 0x27] @ to_string port @ [CHR 0x27]
                 @ ''. It should be between 1 and 65535.''))
        else if length ifname \<ge> IFNAMSIZ then
          Inl (Exit 1 (''ERROR: Invalid interface name. It should be less than ''
                 @ to_string (int IFNAMSIZ) @ '' characters.''))
        else rbind (parse_packet_format
                      (pick_list (opt_packet_format cmdline) (opt_packet_format conffile) ''lz4''))
          (\<lambda>format. Inr (\<lparr>cfg_mtu = mtu, cfg_txsize = txsize, cfg_tunnel_port = port,
             cfg_tunnel_src = src, cfg_tunnel_dst = unique_destinations dst, cfg_ifname = ifname,
             cfg_packet_format = format\<rparr>, lg')))"

section \<open>Addresses\<close>

text \<open>The text of an address; the conversion back fails by an exception nobody catches here.\<close>

definition get_ipv4_str :: "environment \<Rightarrow> u8 list \<Rightarrow> main_exit + string" where
  "get_ipv4_str env a = (case env_ntop4 env a of None \<Rightarrow> Inl Terminates | Some s \<Rightarrow> Inr s)"

definition get_ipv6_str :: "environment \<Rightarrow> u8 list \<Rightarrow> main_exit + string" where
  "get_ipv6_str env a = (case env_ntop6 env a of None \<Rightarrow> Inl Terminates | Some s \<Rightarrow> Inr s)"

fun get_ipstr :: "environment \<Rightarrow> sockaddr \<Rightarrow> main_exit + string" where
  "get_ipstr env (Sockaddr_in p a) = get_ipv4_str env a"
| "get_ipstr env (Sockaddr_in6 p f a s) = get_ipv6_str env a"
| "get_ipstr env (Sockaddr_other f) = Inr ''Unknown''"

definition convert_address :: "environment \<Rightarrow> string \<Rightarrow> string \<Rightarrow> int \<Rightarrow> main_exit + sockaddr \<times> string" where
  "convert_address env which str port =
     (case to_sockaddr_storage (env_pton6 env) (env_pton4 env) (env_garbage env) str (word_of_int port) of
        Inl (Config_error what) \<Rightarrow>
          Inl (Exit EXIT_FAILURE (''ERROR: Failed to convert '' @ which @ '' address '' @ [CHR 0x27] @ str
                 @ [CHR 0x27] @ '': '' @ what))
      | Inl _ \<Rightarrow> Inl Terminates
      | Inr a \<Rightarrow> rbind (get_ipstr env a) (\<lambda>s. Inr (a, s)))"

fun convert_addresses ::
    "environment \<Rightarrow> string list \<Rightarrow> int \<Rightarrow> main_exit + (sockaddr \<times> string) list" where
  "convert_addresses env [] port = Inr []"
| "convert_addresses env (dst # dsts) port =
     rbind (convert_address env ''destination'' dst port) (\<lambda>a.
     rbind (convert_addresses env dsts port) (\<lambda>as. Inr (a # as)))"

text \<open>What \<open>start_seth\<close> is called with.\<close>

record start_arguments =
  start_settings :: settings
  start_src_addr :: sockaddr
  start_dst_addrs :: "sockaddr list"
  start_logger :: logger

definition configure :: "environment \<Rightarrow> logger \<Rightarrow> (char \<times> string) list \<Rightarrow> main_exit + start_arguments" where
  "configure env lg args =
     rbind (parse_command_line env lg args) (\<lambda>cmdline.
     rbind (load_config_file env cmdline) (\<lambda>conffile.
     rbind (resolve_settings cmdline conffile lg) (\<lambda>(cfg, lg').
     rbind (convert_address env ''source'' (cfg_tunnel_src cfg) (cfg_tunnel_port cfg)) (\<lambda>(src, _).
     rbind (convert_addresses env (cfg_tunnel_dst cfg) (cfg_tunnel_port cfg)) (\<lambda>dsts.
     Inr \<lparr>start_settings = cfg, start_src_addr = src, start_dst_addrs = map fst dsts,
          start_logger = lg'\<rparr>)))))"

section \<open>Lemmas\<close>

lemma distinct_remdups_adj_sorted: "sorted xs \<Longrightarrow> distinct (remdups_adj xs)"
proof (induction xs rule: remdups_adj.induct)
  case (3 x y xs)
  then show ?case by (cases "x = y") auto
qed simp_all

lemma unique_destinations_ok:
  "sorted (unique_destinations ds)" "distinct (unique_destinations ds)"
  "set (unique_destinations ds) = set ds" "unique_destinations ds = [] \<longleftrightarrow> ds = []"
proof -
  have s: "sorted (sort ds)" by simp
  show "sorted (unique_destinations ds)" by (simp add: unique_destinations_def)
  show "distinct (unique_destinations ds)"
    unfolding unique_destinations_def by (rule distinct_remdups_adj_sorted [OF s])
  show set: "set (unique_destinations ds) = set ds" by (simp add: unique_destinations_def)
  show "unique_destinations ds = [] \<longleftrightarrow> ds = []" by (metis set set_empty)
qed

text \<open>What the checks of the program leave.\<close>

lemma resolve_settings_ok:
  assumes "resolve_settings cmdline conffile lg = Inr (cfg, lg')"
  shows "1200 \<le> cfg_mtu cfg" "cfg_mtu cfg \<le> 9218" "1200 \<le> cfg_txsize cfg" "cfg_txsize cfg \<le> 9218"
    "1 \<le> cfg_tunnel_port cfg" "cfg_tunnel_port cfg \<le> 65535" "length (cfg_ifname cfg) < 16"
    "cfg_tunnel_dst cfg \<noteq> []" "distinct (cfg_tunnel_dst cfg)"
    "set (cfg_tunnel_dst cfg) =
      set (if opt_dst cmdline \<noteq> [] then opt_dst cmdline else opt_dst conffile)"
proof -
  note ends = assms [unfolded resolve_settings_def rbind_Inr_conv Let_def]
  show "1200 \<le> cfg_mtu cfg" "cfg_mtu cfg \<le> 9218" "1200 \<le> cfg_txsize cfg" "cfg_txsize cfg \<le> 9218"
    "1 \<le> cfg_tunnel_port cfg" "cfg_tunnel_port cfg \<le> 65535" "length (cfg_ifname cfg) < 16"
    using ends by (auto simp: IFNAMSIZ_def SETH_MIN_MTU_SIZE_def SETH_MAX_MTU_SIZE_def
        SETH_MIN_TXSIZE_def SETH_MAX_TXSIZE_def rbind_Inr_conv split: if_splits)
  obtain ds where ds: "cfg_tunnel_dst cfg = unique_destinations ds" "ds \<noteq> []"
    "ds = pick_list (opt_dst cmdline) (opt_dst conffile) []"
    using ends by (auto simp: rbind_Inr_conv split: if_splits)
  show "cfg_tunnel_dst cfg \<noteq> []" "distinct (cfg_tunnel_dst cfg)"
    using ds by (simp_all add: unique_destinations_ok)
  show "set (cfg_tunnel_dst cfg) =
      set (if opt_dst cmdline \<noteq> [] then opt_dst cmdline else opt_dst conffile)"
    using ds by (auto simp: unique_destinations_ok pick_list_def)
qed

lemma port_nonzero: "1 \<le> port \<Longrightarrow> port \<le> 65535 \<Longrightarrow> (word_of_int port :: u16) \<noteq> 0"
proof
  assume p: "1 \<le> port" "port \<le> 65535" and "(word_of_int port :: u16) = 0"
  then have "uint (word_of_int port :: u16) = 0" by simp
  with p show False by (simp add: uint_word_of_int)
qed

text \<open>The port of a socket address, as it is on the wire.\<close>

fun sockaddr_port :: "sockaddr \<Rightarrow> u16 option" where
  "sockaddr_port (Sockaddr_in p a) = Some p"
| "sockaddr_port (Sockaddr_in6 p f a s) = Some p"
| "sockaddr_port (Sockaddr_other f) = None"

lemma convert_address_ok:
  assumes "convert_address env which str port = Inr (a, s)" and "1 \<le> port" and "port \<le> 65535"
  shows "sockaddr_port a = Some (cpu_to_be_16 (word_of_int port))"
  using assms port_nonzero [OF assms(2,3)]
  by (auto simp: convert_address_def to_sockaddr_storage_def rbind_Inr_conv
      split: sum.splits cpp_error.splits option.splits if_splits)

lemma convert_addresses_ok:
  "convert_addresses env dsts port = Inr as \<Longrightarrow> 1 \<le> port \<Longrightarrow> port \<le> 65535 \<Longrightarrow>
    length as = length dsts \<and>
    (\<forall>a \<in> set (map fst as). sockaddr_port a = Some (cpu_to_be_16 (word_of_int port)))"
proof (induction dsts arbitrary: as)
  case (Cons d dsts)
  from Cons.prems(1) obtain a s bs where "convert_address env ''destination'' d port = Inr (a, s)"
    "convert_addresses env dsts port = Inr bs" "as = (a, s) # bs"
    by (auto simp: rbind_Inr_conv)
  with Cons.IH Cons.prems(2,3) convert_address_ok [of env "''destination''" d port a s]
  show ?case by auto
qed simp

lemma configure_ok:
  assumes "configure env lg args = Inr a"
  obtains cmdline conffile lg' where "parse_command_line env lg args = Inr cmdline"
    and "load_config_file env cmdline = Inr conffile"
    and "resolve_settings cmdline conffile lg = Inr (start_settings a, lg')"
    and "sockaddr_port (start_src_addr a) = Some (cpu_to_be_16 (word_of_int (cfg_tunnel_port (start_settings a))))"
    and "length (start_dst_addrs a) = length (cfg_tunnel_dst (start_settings a))"
    and "\<forall>d \<in> set (start_dst_addrs a).
      sockaddr_port d = Some (cpu_to_be_16 (word_of_int (cfg_tunnel_port (start_settings a))))"
proof -
  obtain cmdline conffile cfg lg' src s dsts where
    1: "parse_command_line env lg args = Inr cmdline" "load_config_file env cmdline = Inr conffile"
      "resolve_settings cmdline conffile lg = Inr (cfg, lg')" and
    2: "convert_address env ''source'' (cfg_tunnel_src cfg) (cfg_tunnel_port cfg) = Inr (src, s)"
      "convert_addresses env (cfg_tunnel_dst cfg) (cfg_tunnel_port cfg) = Inr dsts" and
    a: "a = \<lparr>start_settings = cfg, start_src_addr = src, start_dst_addrs = map fst dsts, start_logger = lg'\<rparr>"
    using assms by (auto simp: configure_def rbind_Inr_conv)
  note port = resolve_settings_ok(5,6) [OF 1(3)]
  from that 1 convert_address_ok [OF 2(1) port] convert_addresses_ok [OF 2(2) port]
  show thesis by (simp add: a)
qed

text \<open>The letters on which the loop over the options ends the program by \<open>abort\<close>.\<close>

lemma option_step_aborts:
  "option_step env lg (c, arg) opts = Inl Aborts \<longleftrightarrow> c \<notin> set ''vhclmtsdpia?''"
  by (auto simp: option_step_def)

lemma option_step_config_exists:
  "option_step env lg (CHR ''c'', arg) opts = Inr opts' \<Longrightarrow> env_exists env (opt_config_file opts')"
  by (auto simp: option_step_def split: if_splits)

end
