(* ===== verification/Checksum.thy ===== *)
theory Checksum
  imports Endian
begin

unbundle bit_operations_syntax

text \<open>
  The Internet checksum (\<open>src/libsethnetkit/checksum.cpp\<close>): the partial sum over a range of bytes,
  the folding of the carries, and what the two compute. The range is the list of its bytes.
\<close>

section \<open>The routines\<close>

text \<open>
  The loop takes two bytes at a time as a big-endian number; a last single byte is added as it
  is. The sum is kept in 32 bits.
\<close>

fun compute_checksum_partial :: "u8 list \<Rightarrow> u32 \<Rightarrow> u32" where
  "compute_checksum_partial (a # b # rest) s =
     compute_checksum_partial rest (s + ucast (be_to_cpu_16 (load16 [a, b])))"
| "compute_checksum_partial [a] s = s + ucast a"
| "compute_checksum_partial [] s = s"

definition fold_carries :: "u32 \<Rightarrow> u32" where
  "fold_carries s = (s AND 0xFFFF) + drop_bit 16 s"

lemma unat_fold_carries: "unat (fold_carries s) = unat s mod 65536 + unat s div 65536"
proof -
  have lo: "unat (s AND 0xFFFF) = unat s mod 65536"
  proof -
    have "s AND 0xFFFF = take_bit 16 s" by (simp add: take_bit_eq_mask mask_eq_exp_minus_1)
    then show ?thesis by (simp add: unat_mod_distrib take_bit_eq_mod)
  qed
  have hi: "unat (drop_bit 16 s) = unat s div 65536"
    by (simp add: unat_div_distrib drop_bit_eq_div)
  have "unat s div 65536 < 65536" using unat_u32_bound [of s] by (simp add: less_mult_imp_div_less)
  moreover have "unat s mod 65536 < 65536" by simp
  ultimately have "unat (s AND 0xFFFF) + unat (drop_bit 16 s) < 2 ^ 32" unfolding lo hi by simp
  then show ?thesis
    unfolding fold_carries_def by (simp add: unat_plus_simple [THEN iffD1] word_le_nat_alt unat_word_ariths lo hi)
qed

lemma drop_16_zero: "drop_bit 16 (s :: u32) = 0 \<longleftrightarrow> unat s < 65536"
proof -
  have "unat (drop_bit 16 s) = unat s div 65536"
    by (simp add: unat_div_distrib drop_bit_eq_div)
  then have "drop_bit 16 s = 0 \<longleftrightarrow> unat s div 65536 = 0"
    by (metis unat_0 word_unat_eq_iff)
  then show ?thesis by (simp add: div_eq_0_iff)
qed

function compute_checksum_finalize :: "u32 \<Rightarrow> u16" where
  "compute_checksum_finalize s =
     (if drop_bit 16 s \<noteq> 0 then compute_checksum_finalize (fold_carries s) else ucast (NOT s))"
  by pat_completeness auto
termination
proof (relation "measure unat")
  fix s :: u32
  assume "drop_bit 16 s \<noteq> 0"
  then have "65536 \<le> unat s" by (simp add: drop_16_zero)
  then have "0 < unat s div 65536" by (simp add: div_greater_zero_iff)
  moreover have "unat s = unat s div 65536 * 65536 + unat s mod 65536" by simp
  ultimately show "(fold_carries s, s) \<in> measure unat"
    unfolding in_measure unat_fold_carries by linarith
qed simp

declare compute_checksum_finalize.simps [simp del]

definition compute_checksum :: "u8 list \<Rightarrow> u16" where
  "compute_checksum bs = compute_checksum_finalize (compute_checksum_partial bs 0)"


section \<open>What they compute\<close>

text \<open>The sum as a number, and the one's complement sum it stands for: 1 to 65535, or 0 for 0.\<close>

fun be_sum :: "u8 list \<Rightarrow> nat" where
  "be_sum (a # b # rest) = 256 * unat a + unat b + be_sum rest"
| "be_sum [a] = unat a"
| "be_sum [] = 0"

definition ones_sum :: "nat \<Rightarrow> nat" where
  "ones_sum n = (if n = 0 then 0 else (n - 1) mod 65535 + 1)"

lemma be_to_cpu_16_load [simp]: "be_to_cpu_16 (load16 [a, b]) = load16 [b, a]"
  by (simp add: be_to_cpu_16_def bswap16_def store16_load16)

lemma u8_less: "unat (a :: u8) < 256"
  by simp

lemma unat_ucast_u8 [simp]: "unat (ucast (a :: u8) :: u16) = unat a" "unat (ucast (a :: u8) :: u32) = unat a"
  "unat (ucast (x :: u16) :: u32) = unat x"
proof -
  have 16: "(ucast a :: u16) = of_nat (unat a)" and 32: "(ucast a :: u32) = of_nat (unat a)"
    and x: "(ucast x :: u32) = of_nat (unat x)" by simp_all
  have "unat a < 65536" "unat a < 4294967296" "unat x < 4294967296"
    using u8_less [of a] unat_u16_bound [of x] by linarith+
  then show "unat (ucast a :: u16) = unat a" "unat (ucast a :: u32) = unat a"
    "unat (ucast x :: u32) = unat x"
    unfolding 16 32 x by (simp_all only: unat_of_nat_u16 unat_of_nat_u32)
qed

lemma unat_load16: "unat (load16 [a, b]) = unat a + 256 * unat b"
proof -
  have "load16 [a, b] = ucast a + push_bit 8 (ucast b)"
    unfolding load16_def nth_Cons_0 nth_Cons_Suc One_nat_def
    by (rule sym, rule disjunctive_add) (auto simp: bit_simps bit_u8_beyond)
  also have "push_bit 8 (ucast b) = (256 :: u16) * ucast b" by (simp add: push_bit_eq_mult)
  also have "ucast a + 256 * ucast b = (of_nat (unat a + 256 * unat b) :: u16)" by simp
  finally have "load16 [a, b] = of_nat (unat a + 256 * unat b)" .
  moreover have "unat a + 256 * unat b < 65536"
    using u8_less [of a] u8_less [of b] by linarith
  ultimately show ?thesis by (simp only: unat_of_nat_u16)
qed

lemma be_sum_bound: "be_sum bs \<le> 65535 * ((length bs + 1) div 2)"
proof (induction bs rule: be_sum.induct)
  case (1 a b rest)
  have "256 * unat a + unat b \<le> 65535"
    using u8_less [of a] u8_less [of b] by linarith
  with 1 show ?case by simp
next
  case (2 a)
  have "unat a \<le> 65535" using u8_less [of a] by linarith
  then show ?case by simp
qed simp

lemma be_sum_append: "even (length xs) \<Longrightarrow> be_sum (xs @ ys) = be_sum xs + be_sum ys"
  by (induction xs rule: be_sum.induct) simp_all

lemma compute_checksum_partial_append:
  "even (length xs) \<Longrightarrow>
    compute_checksum_partial (xs @ ys) s = compute_checksum_partial ys (compute_checksum_partial xs s)"
  by (induction xs s rule: compute_checksum_partial.induct) simp_all

lemma unat_compute_checksum_partial:
  "unat s + be_sum bs < 4294967296 \<Longrightarrow> unat (compute_checksum_partial bs s) = unat s + be_sum bs"
proof (induction bs s rule: compute_checksum_partial.induct)
  case (1 a b rest s)
  have "unat (s + ucast (load16 [b, a])) = unat s + (256 * unat a + unat b)"
    using 1(2) by (subst unat_add_lem [THEN iffD1]) (simp_all add: unat_load16)
  with 1 show ?case by simp
next
  case (2 a s)
  then show ?case by (subst compute_checksum_partial.simps, subst unat_add_lem [THEN iffD1]) simp_all
qed simp

lemma ones_sum_small: "n < 65536 \<Longrightarrow> ones_sum n = n"
  by (simp add: ones_sum_def)

lemma ones_sum_le: "ones_sum n \<le> 65535"
proof -
  have "(n - 1) mod 65535 < 65535" by simp
  then show ?thesis by (auto simp: ones_sum_def)
qed

lemma ones_sum_carry: "ones_sum (n mod 65536 + n div 65536) = ones_sum n"
proof (cases "n = 0")
  case False
  let ?q = "n div 65536" and ?r = "n mod 65536"
  have n: "n = ?r + ?q + 65535 * ?q" using div_mult_mod_eq [of n 65536] by linarith
  then have "0 < ?r + ?q" using False by linarith
  then have "n - 1 = (?r + ?q - 1) + 65535 * ?q" using n by linarith
  then have "(n - 1) mod 65535 = (?r + ?q - 1) mod 65535" by (metis mod_mult_self2)
  with False \<open>0 < ?r + ?q\<close> show ?thesis by (simp add: ones_sum_def)
qed (simp add: ones_sum_def)

lemma unat_finalize: "unat (compute_checksum_finalize s) = 65535 - ones_sum (unat s)"
proof (induction s rule: compute_checksum_finalize.induct)
  case (1 s)
  show ?case
  proof (cases "drop_bit 16 s = 0")
    case True
    then have small: "unat s < 65536" by (simp add: drop_16_zero)
    have "(ucast (NOT s) :: u16) = NOT (ucast s)" by (rule bit_word_eqI) (simp add: bit_simps)
    moreover have "unat (NOT x) = 65535 - unat x" for x :: u16
    proof -
      have "NOT x = - 1 - x" by (simp add: not_eq_complement)
      then show ?thesis by (simp add: unat_sub unsigned_minus_1_eq_mask mask_eq_exp_minus_1)
    qed
    moreover have "unat (ucast s :: u16) = unat s"
      using small by (simp add: unsigned_ucast_eq take_bit_nat_eq_self)
    ultimately show ?thesis
      using True small by (subst compute_checksum_finalize.simps) (simp add: ones_sum_small)
  next
    case False
    then show ?thesis using 1 [OF False]
      by (subst compute_checksum_finalize.simps) (simp add: unat_fold_carries ones_sum_carry)
  qed
qed

lemma ones_sum_complement: "ones_sum (n + (65535 - ones_sum n)) = 65535"
proof (cases "n = 0")
  case False
  let ?q = "(n - 1) div 65535" and ?r = "(n - 1) mod 65535"
  have r: "?r < 65535" by simp
  have "n = 65535 * ?q + ?r + 1" using False mult_div_mod_eq [of 65535 "n - 1"] by linarith
  then have "n + (65535 - (?r + 1)) - 1 = 65534 + 65535 * ?q" using r by linarith
  then have "(n + (65535 - (?r + 1)) - 1) mod 65535 = 65534" by simp
  with False show ?thesis by (simp add: ones_sum_def)
qed (simp add: ones_sum_def)

text \<open>The checksum of bytes that carry their checksum is 0.\<close>

lemma checksum_verifies:
  assumes c: "c = compute_checksum_finalize (compute_checksum_partial bs s)"
    and "unat s + be_sum bs + 65535 < 4294967296" and "be_sum bs' = be_sum bs + unat c"
  shows "compute_checksum_finalize (compute_checksum_partial bs' s) = 0"
proof -
  let ?n = "unat s + be_sum bs"
  have c': "unat c = 65535 - ones_sum ?n"
    using assms(2) by (simp add: c unat_finalize unat_compute_checksum_partial)
  have "unat s + be_sum bs' = ?n + (65535 - ones_sum ?n)" using assms(3) c' by simp
  moreover have "unat s + be_sum bs' < 4294967296" using assms(2,3) c' by linarith
  ultimately have "unat (compute_checksum_finalize (compute_checksum_partial bs' s)) = 0"
    using ones_sum_complement [of ?n]
    by (simp only: unat_finalize unat_compute_checksum_partial diff_self_eq_0)
  then show ?thesis by (simp add: unat_eq_0)
qed

text \<open>The reference: RFC 1071 pads a range of odd length with a zero byte at the end.\<close>

definition rfc1071 :: "u8 list \<Rightarrow> nat" where
  "rfc1071 bs = 65535 - ones_sum (be_sum (if even (length bs) then bs else bs @ [0]))"

lemma be_sum_small: "length bs \<le> 131070 \<Longrightarrow> be_sum bs < 4294967296"
  using be_sum_bound [of bs] by (simp add: le_less_trans div_le_mono)

end
