(* ===== verification/Net_Packet.thy ===== *)
theory Net_Packet
  imports Checksum
begin

unbundle bit_operations_syntax

text \<open>
  The packet classes below the transport layer (\<open>src/libsethnetkit\<close>: \<open>Packet\<close>, \<open>EthernetPacket\<close>,
  \<open>IPPacket\<close>, \<open>IPv4Packet\<close>, \<open>IPv6Packet\<close>). A derived class is an extension of the record of its
  base. A method that a class calls virtually (\<open>getHeaderSizeTotal\<close>) is an argument of the method
  that calls it, the result of the call on the whole object. Members that are in network order in
  the code hold the swapped value here too.
\<close>

section \<open>Packet\<close>

record packet =
  pkt_payload :: "u8 list"

definition Packet_clear :: "'a packet_scheme \<Rightarrow> 'a packet_scheme" where
  "Packet_clear p = p\<lparr>pkt_payload := []\<rparr>"

definition Packet_addPayload :: "u8 list \<Rightarrow> 'a packet_scheme \<Rightarrow> 'a packet_scheme" where
  "Packet_addPayload data p = p\<lparr>pkt_payload := data\<rparr>"

definition Packet_getPayloadSize :: "'a packet_scheme \<Rightarrow> u16" where
  "Packet_getPayloadSize p = of_nat (length (pkt_payload p))"

definition Packet_resizePayload :: "u16 \<Rightarrow> 'a packet_scheme \<Rightarrow> 'a packet_scheme" where
  "Packet_resizePayload n p =
     p\<lparr>pkt_payload := take (unat n) (pkt_payload p) @ replicate (unat n - length (pkt_payload p)) 0\<rparr>"

definition Packet_getHeaderOffset :: u16 where "Packet_getHeaderOffset = 0"
definition Packet_getHeaderSize :: u16 where "Packet_getHeaderSize = 0"

text \<open>The offset and the size are virtual calls.\<close>

definition Packet_getPacketSize :: "u16 \<Rightarrow> u16 \<Rightarrow> u16" where
  "Packet_getPacketSize header_offset header_size = header_offset + header_size"

definition Packet_asBinary :: "'a packet_scheme \<Rightarrow> u8 list" where
  "Packet_asBinary p = []"

definition Packet_compare :: "u8 list \<Rightarrow> u8 list \<Rightarrow> bool" where
  "Packet_compare as_binary bin \<longleftrightarrow> as_binary = bin"

text \<open>What the writing methods put on the wire of the payload: as many bytes as its 16-bit size says.\<close>

definition Packet_payload_bytes :: "'a packet_scheme \<Rightarrow> u8 list" where
  "Packet_payload_bytes p = take (unat (Packet_getPayloadSize p)) (pkt_payload p)"

section \<open>EthernetPacket\<close>

record ethernet_packet = packet +
  eth_dst_mac :: "u8 list"
  eth_src_mac :: "u8 list"
  eth_ethertype :: u16

definition SETH_PACKET_ETHERNET_HEADER_LEN :: nat where "SETH_PACKET_ETHERNET_HEADER_LEN = 14"
definition SETH_PACKET_ETHERNET_MAC_LEN :: nat where "SETH_PACKET_ETHERNET_MAC_LEN = 6"

definition EthernetPacket_init :: "'a ethernet_packet_scheme \<Rightarrow> 'a ethernet_packet_scheme" where
  "EthernetPacket_init p =
     p\<lparr>eth_dst_mac := replicate SETH_PACKET_ETHERNET_MAC_LEN 0,
       eth_src_mac := replicate SETH_PACKET_ETHERNET_MAC_LEN 0, eth_ethertype := 0\<rparr>"

definition EthernetPacket_clear :: "'a ethernet_packet_scheme \<Rightarrow> 'a ethernet_packet_scheme" where
  "EthernetPacket_clear p = EthernetPacket_init (Packet_clear p)"

definition EthernetPacket_setDstMac :: "u8 list \<Rightarrow> 'a ethernet_packet_scheme \<Rightarrow> 'a ethernet_packet_scheme" where
  "EthernetPacket_setDstMac m p = p\<lparr>eth_dst_mac := m\<rparr>"

definition EthernetPacket_setSrcMac :: "u8 list \<Rightarrow> 'a ethernet_packet_scheme \<Rightarrow> 'a ethernet_packet_scheme" where
  "EthernetPacket_setSrcMac m p = p\<lparr>eth_src_mac := m\<rparr>"

definition EthernetPacket_getEthertype :: "'a ethernet_packet_scheme \<Rightarrow> u16" where
  "EthernetPacket_getEthertype p = be_to_cpu_16 (eth_ethertype p)"

definition EthernetPacket_setEthertype :: "u16 \<Rightarrow> 'a ethernet_packet_scheme \<Rightarrow> 'a ethernet_packet_scheme" where
  "EthernetPacket_setEthertype t p = p\<lparr>eth_ethertype := cpu_to_be_16 t\<rparr>"

definition EthernetPacket_getHeaderOffset :: u16 where "EthernetPacket_getHeaderOffset = 0"
definition EthernetPacket_getHeaderSize :: u16 where "EthernetPacket_getHeaderSize = 14"

definition EthernetPacket_asBinary :: "'a ethernet_packet_scheme \<Rightarrow> u8 list" where
  "EthernetPacket_asBinary p =
     Packet_asBinary p @ eth_dst_mac p @ eth_src_mac p @ store16 (eth_ethertype p)"

section \<open>IPPacket\<close>

record ip_packet = ethernet_packet +
  ip_version :: u8

definition SETH_PACKET_IP_VERSION_IPV4 :: u8 where "SETH_PACKET_IP_VERSION_IPV4 = 4"
definition SETH_PACKET_IP_VERSION_IPV6 :: u8 where "SETH_PACKET_IP_VERSION_IPV6 = 6"

definition IPPacket_init :: "'a ip_packet_scheme \<Rightarrow> 'a ip_packet_scheme" where
  "IPPacket_init p = p\<lparr>ip_version := 0\<rparr>"

definition IPPacket_clear :: "'a ip_packet_scheme \<Rightarrow> 'a ip_packet_scheme" where
  "IPPacket_clear p = IPPacket_init (EthernetPacket_clear p)"

definition IPPacket_setVersion :: "u8 \<Rightarrow> 'a ip_packet_scheme \<Rightarrow> 'a ip_packet_scheme" where
  "IPPacket_setVersion v p = p\<lparr>ip_version := v\<rparr>"

definition IPPacket_getHeaderOffset :: u16 where
  "IPPacket_getHeaderOffset = EthernetPacket_getHeaderOffset + EthernetPacket_getHeaderSize"

definition IPPacket_asBinary :: "'a ip_packet_scheme \<Rightarrow> u8 list" where
  "IPPacket_asBinary p = EthernetPacket_asBinary p"

section \<open>IPv4Packet\<close>

record ipv4_packet = ip_packet +
  ip4_ihl :: u8
  ip4_dscp :: u8
  ip4_ecn :: u8
  ip4_id :: u16
  ip4_frag_off :: u16
  ip4_ttl :: u8
  ip4_protocol :: u8
  ip4_src_addr :: "u8 list"
  ip4_dst_addr :: "u8 list"

text \<open>The packed struct: the first field of a bit-field byte lies in its low bits.\<close>

record ipv4_header =
  h4_ihl :: "4 word"
  h4_version :: "4 word"
  h4_dscp :: "6 word"
  h4_ecn :: "2 word"
  h4_total_length :: u16
  h4_id :: u16
  h4_frag_off :: u16
  h4_ttl :: u8
  h4_protocol :: u8
  h4_checksum :: u16
  h4_src_addr :: "u8 list"
  h4_dst_addr :: "u8 list"

definition ipv4_header_bytes :: "ipv4_header \<Rightarrow> u8 list" where
  "ipv4_header_bytes h =
     [ucast (h4_ihl h) OR push_bit 4 (ucast (h4_version h)),
      ucast (h4_dscp h) OR push_bit 6 (ucast (h4_ecn h))]
     @ store16 (h4_total_length h) @ store16 (h4_id h) @ store16 (h4_frag_off h)
     @ [h4_ttl h, h4_protocol h] @ store16 (h4_checksum h) @ h4_src_addr h @ h4_dst_addr h"

definition SETH_PACKET_ETHERTYPE_ETHERNET_IPV4 :: u16 where "SETH_PACKET_ETHERTYPE_ETHERNET_IPV4 = 0x0800"
definition SETH_PACKET_IPV4_IP_LEN :: nat where "SETH_PACKET_IPV4_IP_LEN = 4"

definition IPv4Packet_init :: "'a ipv4_packet_scheme \<Rightarrow> 'a ipv4_packet_scheme" where
  "IPv4Packet_init p =
     (IPPacket_setVersion SETH_PACKET_IP_VERSION_IPV4
       (EthernetPacket_setEthertype SETH_PACKET_ETHERTYPE_ETHERNET_IPV4 p))
     \<lparr>ip4_ihl := 5, ip4_dscp := 0, ip4_ecn := 0, ip4_id := 0, ip4_frag_off := 0, ip4_ttl := 64,
      ip4_protocol := 0, ip4_dst_addr := replicate SETH_PACKET_IPV4_IP_LEN 0,
      ip4_src_addr := replicate SETH_PACKET_IPV4_IP_LEN 0\<rparr>"

definition IPv4Packet_clear :: "'a ipv4_packet_scheme \<Rightarrow> 'a ipv4_packet_scheme" where
  "IPv4Packet_clear p = IPv4Packet_init (IPPacket_clear p)"

text \<open>The constructors: every base class, then the class itself, on uninitialised memory.\<close>

definition IPv4Packet :: "'a ipv4_packet_scheme \<Rightarrow> 'a ipv4_packet_scheme" where
  "IPv4Packet mem = IPv4Packet_init (IPPacket_init (EthernetPacket_init (Packet_clear mem)))"

definition IPv4Packet_parse :: "u8 list \<Rightarrow> 'a ipv4_packet_scheme \<Rightarrow> 'a ipv4_packet_scheme" where
  "IPv4Packet_parse data p = IPPacket_setVersion SETH_PACKET_IP_VERSION_IPV4 p"

definition IPv4Packet_setDSCP :: "u8 \<Rightarrow> 'a ipv4_packet_scheme \<Rightarrow> 'a ipv4_packet_scheme" where
  "IPv4Packet_setDSCP x p = p\<lparr>ip4_dscp := x\<rparr>"

definition IPv4Packet_setECN :: "u8 \<Rightarrow> 'a ipv4_packet_scheme \<Rightarrow> 'a ipv4_packet_scheme" where
  "IPv4Packet_setECN x p = p\<lparr>ip4_ecn := x\<rparr>"

definition IPv4Packet_getId :: "'a ipv4_packet_scheme \<Rightarrow> u16" where
  "IPv4Packet_getId p = be_to_cpu_16 (ip4_id p)"

definition IPv4Packet_setId :: "u16 \<Rightarrow> 'a ipv4_packet_scheme \<Rightarrow> 'a ipv4_packet_scheme" where
  "IPv4Packet_setId x p = p\<lparr>ip4_id := cpu_to_be_16 x\<rparr>"

definition IPv4Packet_getFragOff :: "'a ipv4_packet_scheme \<Rightarrow> u16" where
  "IPv4Packet_getFragOff p = be_to_cpu_16 (ip4_frag_off p)"

definition IPv4Packet_setFragOff :: "u16 \<Rightarrow> 'a ipv4_packet_scheme \<Rightarrow> 'a ipv4_packet_scheme" where
  "IPv4Packet_setFragOff x p = p\<lparr>ip4_frag_off := cpu_to_be_16 x\<rparr>"

definition IPv4Packet_setTtl :: "u8 \<Rightarrow> 'a ipv4_packet_scheme \<Rightarrow> 'a ipv4_packet_scheme" where
  "IPv4Packet_setTtl x p = p\<lparr>ip4_ttl := x\<rparr>"

definition IPv4Packet_setProtocol :: "u8 \<Rightarrow> 'a ipv4_packet_scheme \<Rightarrow> 'a ipv4_packet_scheme" where
  "IPv4Packet_setProtocol x p = p\<lparr>ip4_protocol := x\<rparr>"

definition IPv4Packet_setDstAddr :: "u8 list \<Rightarrow> 'a ipv4_packet_scheme \<Rightarrow> 'a ipv4_packet_scheme" where
  "IPv4Packet_setDstAddr a p = p\<lparr>ip4_dst_addr := a\<rparr>"

definition IPv4Packet_setSrcAddr :: "u8 list \<Rightarrow> 'a ipv4_packet_scheme \<Rightarrow> 'a ipv4_packet_scheme" where
  "IPv4Packet_setSrcAddr a p = p\<lparr>ip4_src_addr := a\<rparr>"

definition IPv4Packet_getHeaderSize :: "'a ipv4_packet_scheme \<Rightarrow> u16" where
  "IPv4Packet_getHeaderSize p = ucast (ip4_ihl p) * 4"

definition IPv4Packet_getHeaderSizeTotal :: "'a ipv4_packet_scheme \<Rightarrow> u16" where
  "IPv4Packet_getHeaderSizeTotal p = IPv4Packet_getHeaderSize p"

definition IPv4Packet_getLayer3Size :: "u16 \<Rightarrow> 'a ipv4_packet_scheme \<Rightarrow> u16" where
  "IPv4Packet_getLayer3Size header_size_total p = header_size_total + Packet_getPayloadSize p"

definition IPv4Packet_header :: "u16 \<Rightarrow> u16 \<Rightarrow> 'a ipv4_packet_scheme \<Rightarrow> ipv4_header" where
  "IPv4Packet_header header_size_total checksum p =
     \<lparr>h4_ihl = ucast (ip4_ihl p), h4_version = 4, h4_dscp = ucast (ip4_dscp p), h4_ecn = ucast (ip4_ecn p),
      h4_total_length = cpu_to_be_16 (IPv4Packet_getLayer3Size header_size_total p),
      h4_id = cpu_to_be_16 (ip4_id p), h4_frag_off = cpu_to_be_16 (ip4_frag_off p),
      h4_ttl = ip4_ttl p, h4_protocol = ip4_protocol p, h4_checksum = checksum,
      h4_src_addr = ip4_src_addr p, h4_dst_addr = ip4_dst_addr p\<rparr>"

definition IPv4Packet_getIPv4Checksum :: "u16 \<Rightarrow> 'a ipv4_packet_scheme \<Rightarrow> u16" where
  "IPv4Packet_getIPv4Checksum header_size_total p =
     compute_checksum_finalize
       (compute_checksum_partial (ipv4_header_bytes (IPv4Packet_header header_size_total 0 p)) 0)"

definition IPv4Packet_getPseudoChecksumLayer3 :: "u16 \<Rightarrow> 'a ipv4_packet_scheme \<Rightarrow> u32" where
  "IPv4Packet_getPseudoChecksumLayer3 len p =
     compute_checksum_partial
       (ip4_src_addr p @ ip4_dst_addr p @ [0, ip4_protocol p] @ store16 (cpu_to_be_16 len)) 0"

definition IPv4Packet_asBinary :: "u16 \<Rightarrow> 'a ipv4_packet_scheme \<Rightarrow> u8 list" where
  "IPv4Packet_asBinary header_size_total p =
     IPPacket_asBinary p @
     ipv4_header_bytes (IPv4Packet_header header_size_total
       (cpu_to_be_16 (IPv4Packet_getIPv4Checksum header_size_total p)) p)"

section \<open>IPv6Packet\<close>

record ipv6_packet = ip_packet +
  ip6_priority :: u8
  ip6_flow_label :: u32
  ip6_next_header :: u8
  ip6_hop_limit :: u8
  ip6_src_addr :: "u8 list"
  ip6_dst_addr :: "u8 list"

record ipv6_header =
  h6_priority :: "4 word"
  h6_version :: "4 word"
  h6_flow_label :: "24 word"
  h6_payload_length :: u16
  h6_next_header :: u8
  h6_hop_limit :: u8
  h6_src_addr :: "u8 list"
  h6_dst_addr :: "u8 list"

definition ipv6_header_bytes :: "ipv6_header \<Rightarrow> u8 list" where
  "ipv6_header_bytes h =
     [ucast (h6_priority h) OR push_bit 4 (ucast (h6_version h))]
     @ take 3 (store32 (ucast (h6_flow_label h))) @ store16 (h6_payload_length h)
     @ [h6_next_header h, h6_hop_limit h] @ h6_src_addr h @ h6_dst_addr h"

definition SETH_PACKET_ETHERTYPE_ETHERNET_IPV6 :: u16 where "SETH_PACKET_ETHERTYPE_ETHERNET_IPV6 = 0x86DD"
definition SETH_PACKET_IPV6_IP_LEN :: nat where "SETH_PACKET_IPV6_IP_LEN = 16"

definition IPv6Packet_init :: "'a ipv6_packet_scheme \<Rightarrow> 'a ipv6_packet_scheme" where
  "IPv6Packet_init p =
     (IPPacket_setVersion SETH_PACKET_IP_VERSION_IPV6
       (EthernetPacket_setEthertype SETH_PACKET_ETHERTYPE_ETHERNET_IPV6 p))
     \<lparr>ip6_priority := 0, ip6_flow_label := 0, ip6_next_header := 0, ip6_hop_limit := 64,
      ip6_dst_addr := replicate SETH_PACKET_IPV6_IP_LEN 0,
      ip6_src_addr := replicate SETH_PACKET_IPV6_IP_LEN 0\<rparr>"

definition IPv6Packet_clear :: "'a ipv6_packet_scheme \<Rightarrow> 'a ipv6_packet_scheme" where
  "IPv6Packet_clear p = IPv6Packet_init (IPPacket_clear p)"

definition IPv6Packet :: "'a ipv6_packet_scheme \<Rightarrow> 'a ipv6_packet_scheme" where
  "IPv6Packet mem = IPv6Packet_init (IPPacket_init (EthernetPacket_init (Packet_clear mem)))"

definition IPv6Packet_parse :: "u8 list \<Rightarrow> 'a ipv6_packet_scheme \<Rightarrow> 'a ipv6_packet_scheme" where
  "IPv6Packet_parse data p = IPPacket_setVersion SETH_PACKET_IP_VERSION_IPV6 p"

definition IPv6Packet_setTrafficClass :: "u8 \<Rightarrow> 'a ipv6_packet_scheme \<Rightarrow> 'a ipv6_packet_scheme" where
  "IPv6Packet_setTrafficClass x p = p\<lparr>ip6_priority := x\<rparr>"

definition IPv6Packet_getFlowLabel :: "'a ipv6_packet_scheme \<Rightarrow> u8" where
  "IPv6Packet_getFlowLabel p = ucast (ip6_flow_label p)"

definition IPv6Packet_setFlowLabel :: "u8 \<Rightarrow> 'a ipv6_packet_scheme \<Rightarrow> 'a ipv6_packet_scheme" where
  "IPv6Packet_setFlowLabel x p = p\<lparr>ip6_flow_label := ucast x\<rparr>"

definition IPv6Packet_setNextHeader :: "u8 \<Rightarrow> 'a ipv6_packet_scheme \<Rightarrow> 'a ipv6_packet_scheme" where
  "IPv6Packet_setNextHeader x p = p\<lparr>ip6_next_header := x\<rparr>"

definition IPv6Packet_setHopLimit :: "u8 \<Rightarrow> 'a ipv6_packet_scheme \<Rightarrow> 'a ipv6_packet_scheme" where
  "IPv6Packet_setHopLimit x p = p\<lparr>ip6_hop_limit := x\<rparr>"

definition IPv6Packet_setDstAddr :: "u8 list \<Rightarrow> 'a ipv6_packet_scheme \<Rightarrow> 'a ipv6_packet_scheme" where
  "IPv6Packet_setDstAddr a p = p\<lparr>ip6_dst_addr := a\<rparr>"

definition IPv6Packet_setSrcAddr :: "u8 list \<Rightarrow> 'a ipv6_packet_scheme \<Rightarrow> 'a ipv6_packet_scheme" where
  "IPv6Packet_setSrcAddr a p = p\<lparr>ip6_src_addr := a\<rparr>"

definition IPv6Packet_getHeaderSize :: "'a ipv6_packet_scheme \<Rightarrow> u16" where
  "IPv6Packet_getHeaderSize p = 40"

definition IPv6Packet_getHeaderSizeTotal :: "'a ipv6_packet_scheme \<Rightarrow> u16" where
  "IPv6Packet_getHeaderSizeTotal p = IPv6Packet_getHeaderSize p"

definition IPv6Packet_getLayer3Size :: "u16 \<Rightarrow> 'a ipv6_packet_scheme \<Rightarrow> u16" where
  "IPv6Packet_getLayer3Size header_size_total p = header_size_total + Packet_getPayloadSize p"

definition IPv6Packet_headerPayloadLength :: "u16 \<Rightarrow> 'a ipv6_packet_scheme \<Rightarrow> u16" where
  "IPv6Packet_headerPayloadLength header_size_total p =
     IPv6Packet_getLayer3Size header_size_total p - IPv6Packet_getHeaderSize p"

text \<open>
  The pseudo-header assigns the big-endian 16-bit length to a 32-bit field, so it is in the first
  two of its bytes.
\<close>

definition IPv6Packet_getPseudoChecksumLayer3 :: "u16 \<Rightarrow> 'a ipv6_packet_scheme \<Rightarrow> u32" where
  "IPv6Packet_getPseudoChecksumLayer3 len p =
     compute_checksum_partial
       (ip6_src_addr p @ ip6_dst_addr p @ store32 (ucast (cpu_to_be_16 len))
        @ [0, 0, 0, ip6_next_header p]) 0"

definition IPv6Packet_header :: "u16 \<Rightarrow> 'a ipv6_packet_scheme \<Rightarrow> ipv6_header" where
  "IPv6Packet_header header_size_total p =
     \<lparr>h6_priority = ucast (ip6_priority p), h6_version = ucast (ip_version p),
      h6_flow_label = ucast (ip6_flow_label p),
      h6_payload_length = cpu_to_be_16 (IPv6Packet_headerPayloadLength header_size_total p),
      h6_next_header = ip6_next_header p, h6_hop_limit = ip6_hop_limit p,
      h6_src_addr = ip6_src_addr p, h6_dst_addr = ip6_dst_addr p\<rparr>"

definition IPv6Packet_asBinary :: "u16 \<Rightarrow> 'a ipv6_packet_scheme \<Rightarrow> u8 list" where
  "IPv6Packet_asBinary header_size_total p =
     IPPacket_asBinary p @ ipv6_header_bytes (IPv6Packet_header header_size_total p)"

end
