(* ===== verification/Net_Transport.thy ===== *)
theory Net_Transport
  imports Net_Packet
begin

unbundle bit_operations_syntax

text \<open>
  The packet classes of the transport layer (\<open>src/libsethnetkit\<close>: \<open>UDPPacketTmpl\<close>, \<open>TCPPacketTmpl\<close>,
  \<open>ICMPv4Packet\<close>, \<open>ICMPv6Packet\<close>). The first two are templates over their base class: \<open>layer3\<close> is
  what they call of it, with one value for each of the two base classes they are instantiated
  with, and the locale \<open>layer3_class\<close> is what the checksums rely on.
\<close>

section \<open>The base class of a template\<close>

record 't layer3 =
  l3_setProtocol :: "u8 \<Rightarrow> 't \<Rightarrow> 't"
  l3_clear :: "'t \<Rightarrow> 't"
  l3_construct :: "'t \<Rightarrow> 't"
  l3_getHeaderSize :: "'t \<Rightarrow> u16"
  l3_getHeaderSizeTotal :: "'t \<Rightarrow> u16"
  l3_getPayloadSize :: "'t \<Rightarrow> u16"
  l3_payload_bytes :: "'t \<Rightarrow> u8 list"
  l3_getPseudoChecksum :: "u16 \<Rightarrow> 't \<Rightarrow> u32"
  l3_asBinary :: "u16 \<Rightarrow> 't \<Rightarrow> u8 list"

definition ipv4_layer3 :: "ipv4_packet layer3" where
  "ipv4_layer3 = \<lparr>l3_setProtocol = IPv4Packet_setProtocol, l3_clear = IPv4Packet_clear,
     l3_construct = IPv4Packet, l3_getHeaderSize = IPv4Packet_getHeaderSize,
     l3_getHeaderSizeTotal = IPv4Packet_getHeaderSizeTotal,
     l3_getPayloadSize = Packet_getPayloadSize, l3_payload_bytes = Packet_payload_bytes,
     l3_getPseudoChecksum = IPv4Packet_getPseudoChecksumLayer3, l3_asBinary = IPv4Packet_asBinary\<rparr>"

definition ipv6_layer3 :: "ipv6_packet layer3" where
  "ipv6_layer3 = \<lparr>l3_setProtocol = IPv6Packet_setNextHeader, l3_clear = IPv6Packet_clear,
     l3_construct = IPv6Packet, l3_getHeaderSize = IPv6Packet_getHeaderSize,
     l3_getHeaderSizeTotal = IPv6Packet_getHeaderSizeTotal,
     l3_getPayloadSize = Packet_getPayloadSize, l3_payload_bytes = Packet_payload_bytes,
     l3_getPseudoChecksum = IPv6Packet_getPseudoChecksumLayer3, l3_asBinary = IPv6Packet_asBinary\<rparr>"

section \<open>UDPPacketTmpl\<close>

record 't udp_packet =
  udp_base :: 't
  udp_src_port :: u16
  udp_dst_port :: u16
  udp_checksum :: u16

definition SETH_PACKET_IP_PROTOCOL_UDP :: u8 where "SETH_PACKET_IP_PROTOCOL_UDP = 17"

definition UDPPacket_init :: "'t layer3 \<Rightarrow> 't udp_packet \<Rightarrow> 't udp_packet" where
  "UDPPacket_init T p =
     p\<lparr>udp_base := l3_setProtocol T SETH_PACKET_IP_PROTOCOL_UDP (udp_base p),
       udp_src_port := 0, udp_dst_port := 0, udp_checksum := 0\<rparr>"

definition UDPPacket :: "'t layer3 \<Rightarrow> 't udp_packet \<Rightarrow> 't udp_packet" where
  "UDPPacket T mem = UDPPacket_init T (mem\<lparr>udp_base := l3_construct T (udp_base mem)\<rparr>)"

definition UDPPacket_clear :: "'t layer3 \<Rightarrow> 't udp_packet \<Rightarrow> 't udp_packet" where
  "UDPPacket_clear T p = UDPPacket_init T (p\<lparr>udp_base := l3_clear T (udp_base p)\<rparr>)"

definition UDPPacket_getSrcPort :: "'t udp_packet \<Rightarrow> u16" where
  "UDPPacket_getSrcPort p = be_to_cpu_16 (udp_src_port p)"

definition UDPPacket_setSrcPort :: "u16 \<Rightarrow> 't udp_packet \<Rightarrow> 't udp_packet" where
  "UDPPacket_setSrcPort x p = p\<lparr>udp_src_port := cpu_to_be_16 x\<rparr>"

definition UDPPacket_getDstPort :: "'t udp_packet \<Rightarrow> u16" where
  "UDPPacket_getDstPort p = be_to_cpu_16 (udp_dst_port p)"

definition UDPPacket_setDstPort :: "u16 \<Rightarrow> 't udp_packet \<Rightarrow> 't udp_packet" where
  "UDPPacket_setDstPort x p = p\<lparr>udp_dst_port := cpu_to_be_16 x\<rparr>"

definition UDPPacket_getHeaderSize :: u16 where "UDPPacket_getHeaderSize = 8"

definition UDPPacket_getHeaderOffset :: "'t layer3 \<Rightarrow> 't udp_packet \<Rightarrow> u16" where
  "UDPPacket_getHeaderOffset T p = IPPacket_getHeaderOffset + l3_getHeaderSize T (udp_base p)"

definition UDPPacket_getHeaderSizeTotal :: "'t layer3 \<Rightarrow> 't udp_packet \<Rightarrow> u16" where
  "UDPPacket_getHeaderSizeTotal T p = l3_getHeaderSizeTotal T (udp_base p) + UDPPacket_getHeaderSize"

definition UDPPacket_getLayer4Size :: "'t layer3 \<Rightarrow> 't udp_packet \<Rightarrow> u16" where
  "UDPPacket_getLayer4Size T p = UDPPacket_getHeaderSize + l3_getPayloadSize T (udp_base p)"

definition udp_header_bytes :: "'t layer3 \<Rightarrow> u16 \<Rightarrow> 't udp_packet \<Rightarrow> u8 list" where
  "udp_header_bytes T checksum p =
     store16 (udp_src_port p) @ store16 (udp_dst_port p)
     @ store16 (cpu_to_be_16 (UDPPacket_getLayer4Size T p)) @ store16 checksum"

text \<open>The sum over the pseudo-header, a header and the payload.\<close>

definition udp_sum :: "'t layer3 \<Rightarrow> u16 \<Rightarrow> 't udp_packet \<Rightarrow> u32" where
  "udp_sum T checksum p =
     compute_checksum_partial (l3_payload_bytes T (udp_base p))
       (compute_checksum_partial (udp_header_bytes T checksum p)
         (l3_getPseudoChecksum T (UDPPacket_getLayer4Size T p) (udp_base p)))"

definition UDPPacket_getChecksumLayer4 :: "'t layer3 \<Rightarrow> 't udp_packet \<Rightarrow> u16" where
  "UDPPacket_getChecksumLayer4 T p = compute_checksum_finalize (udp_sum T 0 p)"

definition UDPPacket_asBinary :: "'t layer3 \<Rightarrow> 't udp_packet \<Rightarrow> u8 list" where
  "UDPPacket_asBinary T p =
     l3_asBinary T (UDPPacket_getHeaderSizeTotal T p) (udp_base p)
     @ udp_header_bytes T (cpu_to_be_16 (UDPPacket_getChecksumLayer4 T p)) p
     @ l3_payload_bytes T (udp_base p)"

section \<open>ICMPv4Packet\<close>

record icmpv4_packet = ipv4_packet +
  icmp_type :: u8
  icmp_code :: u8
  icmp_checksum :: u16

definition SETH_PACKET_IP_PROTOCOL_ICMP4 :: u8 where "SETH_PACKET_IP_PROTOCOL_ICMP4 = 1"

definition ICMPv4Packet_init :: "icmpv4_packet \<Rightarrow> icmpv4_packet" where
  "ICMPv4Packet_init p =
     (IPv4Packet_setProtocol SETH_PACKET_IP_PROTOCOL_ICMP4 p)
     \<lparr>icmp_type := 0, icmp_code := 0, icmp_checksum := 0\<rparr>"

definition ICMPv4Packet :: "icmpv4_packet \<Rightarrow> icmpv4_packet" where
  "ICMPv4Packet mem = ICMPv4Packet_init (IPv4Packet mem)"

definition ICMPv4Packet_clear :: "icmpv4_packet \<Rightarrow> icmpv4_packet" where
  "ICMPv4Packet_clear p = ICMPv4Packet_init (IPv4Packet_clear p)"

definition ICMPv4Packet_setType :: "u8 \<Rightarrow> icmpv4_packet \<Rightarrow> icmpv4_packet" where
  "ICMPv4Packet_setType x p = p\<lparr>icmp_type := x\<rparr>"

definition ICMPv4Packet_setCode :: "u8 \<Rightarrow> icmpv4_packet \<Rightarrow> icmpv4_packet" where
  "ICMPv4Packet_setCode x p = p\<lparr>icmp_code := x\<rparr>"

definition icmp_header_bytes :: "u16 \<Rightarrow> icmpv4_packet \<Rightarrow> u8 list" where
  "icmp_header_bytes checksum p = [icmp_type p, icmp_code p] @ store16 checksum @ store32 0"

definition ICMPv4Packet_getChecksumLayer4 :: "icmpv4_packet \<Rightarrow> u16" where
  "ICMPv4Packet_getChecksumLayer4 p =
     compute_checksum_finalize
       (compute_checksum_partial (Packet_payload_bytes p)
         (compute_checksum_partial (icmp_header_bytes 0 p) 0))"

definition ICMPv4Packet_getHeaderSize :: u16 where "ICMPv4Packet_getHeaderSize = 8"

definition ICMPv4Packet_getHeaderOffset :: "icmpv4_packet \<Rightarrow> u16" where
  "ICMPv4Packet_getHeaderOffset p = IPPacket_getHeaderOffset + IPv4Packet_getHeaderSize p"

definition ICMPv4Packet_getHeaderSizeTotal :: "icmpv4_packet \<Rightarrow> u16" where
  "ICMPv4Packet_getHeaderSizeTotal p = IPv4Packet_getHeaderSizeTotal p + ICMPv4Packet_getHeaderSize"

definition ICMPv4Packet_getLayer4Size :: "icmpv4_packet \<Rightarrow> u16" where
  "ICMPv4Packet_getLayer4Size p = ICMPv4Packet_getHeaderSize + Packet_getPayloadSize p"

definition ICMPv4Packet_asBinary :: "icmpv4_packet \<Rightarrow> u8 list" where
  "ICMPv4Packet_asBinary p =
     IPv4Packet_asBinary (ICMPv4Packet_getHeaderSizeTotal p) p
     @ icmp_header_bytes (cpu_to_be_16 (ICMPv4Packet_getChecksumLayer4 p)) p
     @ Packet_payload_bytes p"

section \<open>ICMPv6Packet\<close>

record icmpv6_packet = ipv6_packet +
  icmp6_type :: u8
  icmp6_code :: u8
  icmp6_checksum :: u16

definition SETH_PACKET_IP_PROTOCOL_ICMP6 :: u8 where "SETH_PACKET_IP_PROTOCOL_ICMP6 = 58"

definition ICMPv6Packet_init :: "icmpv6_packet \<Rightarrow> icmpv6_packet" where
  "ICMPv6Packet_init p =
     (IPv6Packet_setNextHeader SETH_PACKET_IP_PROTOCOL_ICMP6 p)
     \<lparr>icmp6_type := 0, icmp6_code := 0, icmp6_checksum := 0\<rparr>"

definition ICMPv6Packet :: "icmpv6_packet \<Rightarrow> icmpv6_packet" where
  "ICMPv6Packet mem = ICMPv6Packet_init (IPv6Packet mem)"

definition ICMPv6Packet_clear :: "icmpv6_packet \<Rightarrow> icmpv6_packet" where
  "ICMPv6Packet_clear p = ICMPv6Packet_init (IPv6Packet_clear p)"

definition icmp6_header_bytes :: "u16 \<Rightarrow> icmpv6_packet \<Rightarrow> u8 list" where
  "icmp6_header_bytes checksum p =
     [icmp6_type p, icmp6_code p] @ store16 checksum @ store32 0 @ store32 0"

definition ICMPv6Packet_getHeaderSize :: u16 where "ICMPv6Packet_getHeaderSize = 12"

definition ICMPv6Packet_getHeaderSizeTotal :: "icmpv6_packet \<Rightarrow> u16" where
  "ICMPv6Packet_getHeaderSizeTotal p = IPv6Packet_getHeaderSizeTotal p + ICMPv6Packet_getHeaderSize"

definition ICMPv6Packet_getLayer4Size :: "icmpv6_packet \<Rightarrow> u16" where
  "ICMPv6Packet_getLayer4Size p = ICMPv6Packet_getHeaderSize + Packet_getPayloadSize p"

definition icmp6_sum :: "u16 \<Rightarrow> icmpv6_packet \<Rightarrow> u32" where
  "icmp6_sum checksum p =
     compute_checksum_partial (Packet_payload_bytes p)
       (compute_checksum_partial (icmp6_header_bytes checksum p)
         (IPv6Packet_getPseudoChecksumLayer3 (ICMPv6Packet_getLayer4Size p) p))"

definition ICMPv6Packet_getChecksumLayer4 :: "icmpv6_packet \<Rightarrow> u16" where
  "ICMPv6Packet_getChecksumLayer4 p = compute_checksum_finalize (icmp6_sum 0 p)"

definition ICMPv6Packet_asBinary :: "icmpv6_packet \<Rightarrow> u8 list" where
  "ICMPv6Packet_asBinary p =
     IPv6Packet_asBinary (ICMPv6Packet_getHeaderSizeTotal p) p
     @ icmp6_header_bytes (cpu_to_be_16 (ICMPv6Packet_getChecksumLayer4 p)) p
     @ Packet_payload_bytes p"

section \<open>TCPPacketTmpl\<close>

record 't tcp_packet =
  tcp_base :: 't
  tcp_src_port :: u16
  tcp_dst_port :: u16
  tcp_sequence :: u32
  tcp_ack :: u32
  tcp_offset :: u8
  tcp_opt_cwr :: bool
  tcp_opt_ece :: bool
  tcp_opt_urg :: bool
  tcp_opt_ack :: bool
  tcp_opt_psh :: bool
  tcp_opt_rst :: bool
  tcp_opt_syn :: bool
  tcp_opt_fin :: bool
  tcp_window :: u16
  tcp_checksum :: u16
  tcp_urgent :: u16

definition SETH_PACKET_IP_PROTOCOL_TCP :: u8 where "SETH_PACKET_IP_PROTOCOL_TCP = 6"

definition TCPPacket_init :: "'t layer3 \<Rightarrow> 't tcp_packet \<Rightarrow> 't tcp_packet" where
  "TCPPacket_init T p =
     \<lparr>tcp_base = l3_setProtocol T SETH_PACKET_IP_PROTOCOL_TCP (tcp_base p),
      tcp_src_port = 0, tcp_dst_port = 0, tcp_sequence = 0, tcp_ack = 0, tcp_offset = 5,
      tcp_opt_cwr = False, tcp_opt_ece = False, tcp_opt_urg = False, tcp_opt_ack = False,
      tcp_opt_psh = False, tcp_opt_rst = False, tcp_opt_syn = False, tcp_opt_fin = False,
      tcp_window = 0, tcp_checksum = 0, tcp_urgent = 0\<rparr>"

definition TCPPacket :: "'t layer3 \<Rightarrow> 't tcp_packet \<Rightarrow> 't tcp_packet" where
  "TCPPacket T mem = TCPPacket_init T (mem\<lparr>tcp_base := l3_construct T (tcp_base mem)\<rparr>)"

definition TCPPacket_clear :: "'t layer3 \<Rightarrow> 't tcp_packet \<Rightarrow> 't tcp_packet" where
  "TCPPacket_clear T p = TCPPacket_init T (p\<lparr>tcp_base := l3_clear T (tcp_base p)\<rparr>)"

definition TCPPacket_getSequence :: "'t tcp_packet \<Rightarrow> u32" where
  "TCPPacket_getSequence p = be_to_cpu_32 (tcp_sequence p)"

definition TCPPacket_setSequence :: "u32 \<Rightarrow> 't tcp_packet \<Rightarrow> 't tcp_packet" where
  "TCPPacket_setSequence x p = p\<lparr>tcp_sequence := be_to_cpu_32 x\<rparr>"

definition TCPPacket_getAck :: "'t tcp_packet \<Rightarrow> u32" where
  "TCPPacket_getAck p = be_to_cpu_32 (tcp_ack p)"

definition TCPPacket_setAck :: "u32 \<Rightarrow> 't tcp_packet \<Rightarrow> 't tcp_packet" where
  "TCPPacket_setAck x p = p\<lparr>tcp_ack := be_to_cpu_32 x\<rparr>"

definition TCPPacket_getOffset :: "'t tcp_packet \<Rightarrow> u8" where
  "TCPPacket_getOffset p = tcp_offset p"

text \<open>Three of the setters assign to the acknowledgment number.\<close>

definition TCPPacket_setOffset :: "u8 \<Rightarrow> 't tcp_packet \<Rightarrow> 't tcp_packet" where
  "TCPPacket_setOffset x p = p\<lparr>tcp_ack := ucast x\<rparr>"

definition TCPPacket_getWindow :: "'t tcp_packet \<Rightarrow> u16" where
  "TCPPacket_getWindow p = ucast (be_to_cpu_32 (ucast (tcp_window p)))"

definition TCPPacket_setWindow :: "u16 \<Rightarrow> 't tcp_packet \<Rightarrow> 't tcp_packet" where
  "TCPPacket_setWindow x p = p\<lparr>tcp_ack := be_to_cpu_32 (ucast x)\<rparr>"

definition TCPPacket_getUrgent :: "'t tcp_packet \<Rightarrow> u16" where
  "TCPPacket_getUrgent p = ucast (be_to_cpu_32 (ucast (tcp_urgent p)))"

definition TCPPacket_setUrgent :: "u16 \<Rightarrow> 't tcp_packet \<Rightarrow> 't tcp_packet" where
  "TCPPacket_setUrgent x p = p\<lparr>tcp_ack := be_to_cpu_32 (ucast x)\<rparr>"

definition TCPPacket_getHeaderSize :: u16 where "TCPPacket_getHeaderSize = 20"

definition TCPPacket_getHeaderOffset :: "'t layer3 \<Rightarrow> 't tcp_packet \<Rightarrow> u16" where
  "TCPPacket_getHeaderOffset T p = IPPacket_getHeaderOffset + l3_getHeaderSize T (tcp_base p)"

definition TCPPacket_getHeaderSizeTotal :: "'t layer3 \<Rightarrow> 't tcp_packet \<Rightarrow> u16" where
  "TCPPacket_getHeaderSizeTotal T p = l3_getHeaderSizeTotal T (tcp_base p) + TCPPacket_getHeaderSize"

definition TCPPacket_getLayer4Size :: "'t layer3 \<Rightarrow> 't tcp_packet \<Rightarrow> u16" where
  "TCPPacket_getLayer4Size T p = TCPPacket_getHeaderSize + l3_getPayloadSize T (tcp_base p)"

definition tcp_options_byte :: "'t tcp_packet \<Rightarrow> u8" where
  "tcp_options_byte p =
     (of_bool (tcp_opt_fin p) OR push_bit 1 (of_bool (tcp_opt_syn p)) OR push_bit 2 (of_bool (tcp_opt_rst p))
      OR push_bit 3 (of_bool (tcp_opt_psh p)) OR push_bit 4 (of_bool (tcp_opt_ack p))
      OR push_bit 5 (of_bool (tcp_opt_urg p)) OR push_bit 6 (of_bool (tcp_opt_ece p))
      OR push_bit 7 (of_bool (tcp_opt_cwr p)))"

text \<open>The reserved bits are the low ones, the offset the high ones.\<close>

definition tcp_header_bytes :: "u16 \<Rightarrow> 't tcp_packet \<Rightarrow> u8 list" where
  "tcp_header_bytes checksum p =
     store16 (tcp_src_port p) @ store16 (tcp_dst_port p) @ store32 (tcp_sequence p)
     @ store32 (tcp_ack p) @ [push_bit 4 (tcp_offset p), tcp_options_byte p]
     @ store16 (tcp_window p) @ store16 checksum @ store16 (tcp_urgent p)"

definition tcp_sum :: "'t layer3 \<Rightarrow> u16 \<Rightarrow> 't tcp_packet \<Rightarrow> u32" where
  "tcp_sum T checksum p =
     compute_checksum_partial (l3_payload_bytes T (tcp_base p))
       (compute_checksum_partial (tcp_header_bytes checksum p)
         (l3_getPseudoChecksum T (TCPPacket_getLayer4Size T p) (tcp_base p)))"

definition TCPPacket_getChecksumLayer4 :: "'t layer3 \<Rightarrow> 't tcp_packet \<Rightarrow> u16" where
  "TCPPacket_getChecksumLayer4 T p = compute_checksum_finalize (tcp_sum T 0 p)"

definition TCPPacket_asBinary :: "'t layer3 \<Rightarrow> 't tcp_packet \<Rightarrow> u8 list" where
  "TCPPacket_asBinary T p =
     l3_asBinary T (TCPPacket_getHeaderSizeTotal T p) (tcp_base p)
     @ tcp_header_bytes (cpu_to_be_16 (TCPPacket_getChecksumLayer4 T p)) p
     @ l3_payload_bytes T (tcp_base p)"

text \<open>The ports and the flags.\<close>

definition TCPPacket_getSrcPort :: "'t tcp_packet \<Rightarrow> u16" where
  "TCPPacket_getSrcPort p = be_to_cpu_16 (tcp_src_port p)"

definition TCPPacket_setSrcPort :: "u16 \<Rightarrow> 't tcp_packet \<Rightarrow> 't tcp_packet" where
  "TCPPacket_setSrcPort x p = p\<lparr>tcp_src_port := cpu_to_be_16 x\<rparr>"

definition TCPPacket_getDstPort :: "'t tcp_packet \<Rightarrow> u16" where
  "TCPPacket_getDstPort p = be_to_cpu_16 (tcp_dst_port p)"

definition TCPPacket_setDstPort :: "u16 \<Rightarrow> 't tcp_packet \<Rightarrow> 't tcp_packet" where
  "TCPPacket_setDstPort x p = p\<lparr>tcp_dst_port := cpu_to_be_16 x\<rparr>"

definition TCPPacket_setOptCWR :: "bool \<Rightarrow> 't tcp_packet \<Rightarrow> 't tcp_packet" where
  "TCPPacket_setOptCWR x p = p\<lparr>tcp_opt_cwr := x\<rparr>"

definition TCPPacket_setOptECE :: "bool \<Rightarrow> 't tcp_packet \<Rightarrow> 't tcp_packet" where
  "TCPPacket_setOptECE x p = p\<lparr>tcp_opt_ece := x\<rparr>"

definition TCPPacket_setOptURG :: "bool \<Rightarrow> 't tcp_packet \<Rightarrow> 't tcp_packet" where
  "TCPPacket_setOptURG x p = p\<lparr>tcp_opt_urg := x\<rparr>"

definition TCPPacket_setOptACK :: "bool \<Rightarrow> 't tcp_packet \<Rightarrow> 't tcp_packet" where
  "TCPPacket_setOptACK x p = p\<lparr>tcp_opt_ack := x\<rparr>"

definition TCPPacket_setOptPSH :: "bool \<Rightarrow> 't tcp_packet \<Rightarrow> 't tcp_packet" where
  "TCPPacket_setOptPSH x p = p\<lparr>tcp_opt_psh := x\<rparr>"

definition TCPPacket_setOptRST :: "bool \<Rightarrow> 't tcp_packet \<Rightarrow> 't tcp_packet" where
  "TCPPacket_setOptRST x p = p\<lparr>tcp_opt_rst := x\<rparr>"

definition TCPPacket_setOptSYN :: "bool \<Rightarrow> 't tcp_packet \<Rightarrow> 't tcp_packet" where
  "TCPPacket_setOptSYN x p = p\<lparr>tcp_opt_syn := x\<rparr>"

definition TCPPacket_setOptFIN :: "bool \<Rightarrow> 't tcp_packet \<Rightarrow> 't tcp_packet" where
  "TCPPacket_setOptFIN x p = p\<lparr>tcp_opt_fin := x\<rparr>"

section \<open>ICMPv6 messages\<close>

definition ICMPv6Packet_setType :: "u8 \<Rightarrow> icmpv6_packet \<Rightarrow> icmpv6_packet" where
  "ICMPv6Packet_setType x p = p\<lparr>icmp6_type := x\<rparr>"

definition ICMPv6Packet_setCode :: "u8 \<Rightarrow> icmpv6_packet \<Rightarrow> icmpv6_packet" where
  "ICMPv6Packet_setCode x p = p\<lparr>icmp6_code := x\<rparr>"

definition ICMPv6Packet_getHeaderOffset :: "icmpv6_packet \<Rightarrow> u16" where
  "ICMPv6Packet_getHeaderOffset p = IPPacket_getHeaderOffset + IPv6Packet_getHeaderSize p"

section \<open>Construction from bytes\<close>

text \<open>
  Every base class is constructed from the bytes, then the class sets its members and parses; the
  methods \<open>parse\<close> of the other classes are empty.
\<close>

definition IPv4Packet_of_bytes :: "u8 list \<Rightarrow> 'a ipv4_packet_scheme \<Rightarrow> 'a ipv4_packet_scheme" where
  "IPv4Packet_of_bytes data mem =
     IPv4Packet_parse data (IPv4Packet_init (IPPacket_init (EthernetPacket_init (Packet_clear mem))))"

definition IPv6Packet_of_bytes :: "u8 list \<Rightarrow> 'a ipv6_packet_scheme \<Rightarrow> 'a ipv6_packet_scheme" where
  "IPv6Packet_of_bytes data mem =
     IPv6Packet_parse data (IPv6Packet_init (IPPacket_init (EthernetPacket_init (Packet_clear mem))))"

text \<open>\<open>of_bytes\<close> and \<open>parse\<close> are those of the base class of the template.\<close>

definition UDPPacket_of_bytes ::
    "'t layer3 \<Rightarrow> (u8 list \<Rightarrow> 't \<Rightarrow> 't) \<Rightarrow> (u8 list \<Rightarrow> 't \<Rightarrow> 't) \<Rightarrow> u8 list \<Rightarrow> 't udp_packet \<Rightarrow> 't udp_packet"
where
  "UDPPacket_of_bytes T of_bytes parse data mem =
     (let p = UDPPacket_init T (mem\<lparr>udp_base := of_bytes data (udp_base mem)\<rparr>)
      in p\<lparr>udp_base := parse data (udp_base p)\<rparr>)"

definition TCPPacket_of_bytes ::
    "'t layer3 \<Rightarrow> (u8 list \<Rightarrow> 't \<Rightarrow> 't) \<Rightarrow> u8 list \<Rightarrow> 't tcp_packet \<Rightarrow> 't tcp_packet" where
  "TCPPacket_of_bytes T of_bytes data mem =
     TCPPacket_init T (mem\<lparr>tcp_base := of_bytes data (tcp_base mem)\<rparr>)"

definition ICMPv4Packet_of_bytes :: "u8 list \<Rightarrow> icmpv4_packet \<Rightarrow> icmpv4_packet" where
  "ICMPv4Packet_of_bytes data mem = ICMPv4Packet_init (IPv4Packet_of_bytes data mem)"

definition ICMPv6Packet_of_bytes :: "u8 list \<Rightarrow> icmpv6_packet \<Rightarrow> icmpv6_packet" where
  "ICMPv6Packet_of_bytes data mem = ICMPv6Packet_init (IPv6Packet_of_bytes data mem)"

end
