(* ===== verification/Net_Correct.thy ===== *)
theory Net_Correct
  imports Net_Transport
begin

unbundle bit_operations_syntax

text \<open>
  What the packet classes write: the lengths and the layout of the headers, and that every
  checksum verifies, so that a receiver that computes it again over the bytes it got finds 0.
\<close>

section \<open>A checksum in its place\<close>

lemma be_sum_store_be: "be_sum (store16 (cpu_to_be_16 c)) = unat c"
proof -
  have "c = load16 [ucast c, ucast (drop_bit 8 c)]" by (metis load16_store16 store16_def)
  then have "unat c = unat (ucast c :: u8) + 256 * unat (ucast (drop_bit 8 c) :: u8)"
    by (metis unat_load16)
  then show ?thesis by (simp add: store_be)
qed

lemma be_sum_store_0 [simp]: "be_sum (store16 0) = 0"
  by (simp add: store16_def)

lemma be_sum_in_place:
  "even (length xs) \<Longrightarrow>
    be_sum (xs @ store16 (cpu_to_be_16 c) @ ys) = be_sum (xs @ store16 0 @ ys) + unat c"
  by (simp add: be_sum_append be_sum_store_be)

lemma checksum_in_place:
  assumes "even (length xs)" and "length xs + length ys \<le> 70000" and "unat s + 2359296000 < 4294967296"
    and "c = compute_checksum_finalize (compute_checksum_partial (xs @ store16 0 @ ys) s)"
  shows "compute_checksum_finalize (compute_checksum_partial (xs @ store16 (cpu_to_be_16 c) @ ys) s) = 0"
proof (rule checksum_verifies [OF assms(4)])
  have "be_sum (xs @ store16 0 @ ys) \<le> 65535 * ((length xs + 2 + length ys + 1) div 2)"
    using be_sum_bound [of "xs @ store16 0 @ ys"] by (simp add: add.assoc)
  also have "\<dots> \<le> 65535 * 35001" using assms(2) by (intro mult_left_mono) simp_all
  finally show "unat s + be_sum (xs @ store16 0 @ ys) + 65535 < 4294967296" using assms(3) by simp
qed (rule be_sum_in_place [OF assms(1)])

section \<open>IPv4\<close>

definition ipv4_ok :: "'a ipv4_packet_scheme \<Rightarrow> bool" where
  "ipv4_ok p \<longleftrightarrow> length (ip4_src_addr p) = 4 \<and> length (ip4_dst_addr p) = 4"

definition ethernet_ok :: "'a ethernet_packet_scheme \<Rightarrow> bool" where
  "ethernet_ok p \<longleftrightarrow> length (eth_dst_mac p) = 6 \<and> length (eth_src_mac p) = 6"

lemma ethernet_bytes:
  "ethernet_ok p \<Longrightarrow> length (EthernetPacket_asBinary p) = 14"
  by (simp add: EthernetPacket_asBinary_def Packet_asBinary_def ethernet_ok_def)

definition ipv4_header_front :: "u16 \<Rightarrow> 'a ipv4_packet_scheme \<Rightarrow> u8 list" where
  "ipv4_header_front hst p = take 10 (ipv4_header_bytes (IPv4Packet_header hst 0 p))"

lemma ipv4_header_split:
  "ipv4_header_bytes (IPv4Packet_header hst c p) =
     ipv4_header_front hst p @ store16 c @ ip4_src_addr p @ ip4_dst_addr p"
  "length (ipv4_header_front hst p) = 10"
  by (simp_all add: ipv4_header_front_def ipv4_header_bytes_def IPv4Packet_header_def store16_def)

lemma length_ipv4_header:
  "ipv4_ok p \<Longrightarrow> length (ipv4_header_bytes (IPv4Packet_header hst c p)) = 20"
  by (simp add: ipv4_header_split ipv4_ok_def)

lemma ipv4_checksum_verifies:
  assumes "ipv4_ok p"
  shows "compute_checksum (ipv4_header_bytes (IPv4Packet_header hst
      (cpu_to_be_16 (IPv4Packet_getIPv4Checksum hst p)) p)) = 0"
  unfolding compute_checksum_def ipv4_header_split(1)
  by (rule checksum_in_place)
    (use assms in \<open>simp_all add: ipv4_header_split ipv4_ok_def IPv4Packet_getIPv4Checksum_def\<close>)

section \<open>What the templates rely on\<close>

text \<open>
  The sum of the pseudo-header leaves room for the rest of the packet, and the payload that is
  written has at most 65535 bytes. The headers below the transport layer have a fixed length.
\<close>

locale layer3_class =
  fixes T :: "'t layer3"
    and ok :: "'t \<Rightarrow> bool"
    and hlen :: nat
  assumes pseudo_bound: "ok p \<Longrightarrow> unat (l3_getPseudoChecksum T len p) \<le> 65535 * 20"
    and payload_bound: "length (l3_payload_bytes T p) \<le> 65535"
    and wire_length: "ok p \<Longrightarrow> length (l3_asBinary T n p) = hlen"
begin

lemma udp_verifies:
  assumes "ok (udp_base p)"
  shows "compute_checksum_finalize (udp_sum T (cpu_to_be_16 (UDPPacket_getChecksumLayer4 T p)) p) = 0"
proof -
  let ?xs = "store16 (udp_src_port p) @ store16 (udp_dst_port p)
     @ store16 (cpu_to_be_16 (UDPPacket_getLayer4Size T p))"
  let ?s = "l3_getPseudoChecksum T (UDPPacket_getLayer4Size T p) (udp_base p)"
  have eq: "udp_sum T c p =
      compute_checksum_partial (?xs @ store16 c @ l3_payload_bytes T (udp_base p)) ?s" for c
    unfolding udp_sum_def udp_header_bytes_def
    by (subst compute_checksum_partial_append [symmetric]) simp_all
  show ?thesis unfolding eq
    by (rule checksum_in_place)
      (use pseudo_bound [OF assms, of "UDPPacket_getLayer4Size T p"] payload_bound [of "udp_base p"] in
        \<open>simp_all add: UDPPacket_getChecksumLayer4_def eq\<close>)
qed

lemma tcp_verifies:
  assumes "ok (tcp_base p)"
  shows "compute_checksum_finalize (tcp_sum T (cpu_to_be_16 (TCPPacket_getChecksumLayer4 T p)) p) = 0"
proof -
  let ?xs = "store16 (tcp_src_port p) @ store16 (tcp_dst_port p) @ store32 (tcp_sequence p)
     @ store32 (tcp_ack p) @ [push_bit 4 (tcp_offset p), tcp_options_byte p] @ store16 (tcp_window p)"
  let ?s = "l3_getPseudoChecksum T (TCPPacket_getLayer4Size T p) (tcp_base p)"
  have eq: "tcp_sum T c p = compute_checksum_partial
      (?xs @ store16 c @ store16 (tcp_urgent p) @ l3_payload_bytes T (tcp_base p)) ?s" for c
    unfolding tcp_sum_def tcp_header_bytes_def
    by (subst compute_checksum_partial_append [symmetric]) simp_all
  show ?thesis unfolding eq
    by (rule checksum_in_place)
      (use pseudo_bound [OF assms, of "TCPPacket_getLayer4Size T p"] payload_bound [of "tcp_base p"] in
        \<open>simp_all add: TCPPacket_getChecksumLayer4_def eq\<close>)
qed

text \<open>The same of the bytes that are written, behind the headers of the lower layers.\<close>

lemma udp_wire:
  assumes "ok (udp_base p)"
  shows "compute_checksum_finalize (compute_checksum_partial (drop hlen (UDPPacket_asBinary T p))
      (l3_getPseudoChecksum T (UDPPacket_getLayer4Size T p) (udp_base p))) = 0"
proof -
  have "drop hlen (UDPPacket_asBinary T p) =
      udp_header_bytes T (cpu_to_be_16 (UDPPacket_getChecksumLayer4 T p)) p @ l3_payload_bytes T (udp_base p)"
    using wire_length [OF assms] by (simp add: UDPPacket_asBinary_def)
  then show ?thesis
    using udp_verifies [OF assms] by (simp add: udp_sum_def compute_checksum_partial_append udp_header_bytes_def)
qed

lemma tcp_wire:
  assumes "ok (tcp_base p)"
  shows "compute_checksum_finalize (compute_checksum_partial (drop hlen (TCPPacket_asBinary T p))
      (l3_getPseudoChecksum T (TCPPacket_getLayer4Size T p) (tcp_base p))) = 0"
proof -
  have "drop hlen (TCPPacket_asBinary T p) =
      tcp_header_bytes (cpu_to_be_16 (TCPPacket_getChecksumLayer4 T p)) p @ l3_payload_bytes T (tcp_base p)"
    using wire_length [OF assms] by (simp add: TCPPacket_asBinary_def)
  then show ?thesis
    using tcp_verifies [OF assms] by (simp add: tcp_sum_def compute_checksum_partial_append tcp_header_bytes_def)
qed

end

definition ipv6_ok :: "'a ipv6_packet_scheme \<Rightarrow> bool" where
  "ipv6_ok p \<longleftrightarrow> length (ip6_src_addr p) = 16 \<and> length (ip6_dst_addr p) = 16"

lemma payload_bytes_bound: "length (Packet_payload_bytes p) \<le> 65535"
proof -
  have "length (Packet_payload_bytes p) \<le> unat (Packet_getPayloadSize p)"
    by (simp add: Packet_payload_bytes_def)
  moreover have "unat (Packet_getPayloadSize p) < 65536" by simp
  ultimately show ?thesis by linarith
qed

lemma pseudo_sum_bound:
  assumes "length bs \<le> 40"
  shows "unat (compute_checksum_partial bs 0) \<le> 65535 * 20"
proof -
  have "be_sum bs \<le> 65535 * ((length bs + 1) div 2)" by (rule be_sum_bound)
  also have "\<dots> \<le> 65535 * 20" using assms by (intro mult_left_mono) simp_all
  finally have "be_sum bs \<le> 65535 * 20" .
  then show ?thesis by (simp add: unat_compute_checksum_partial)
qed

lemma length_ipv4_packet:
  "ipv4_ok p \<Longrightarrow> ethernet_ok p \<Longrightarrow> length (IPv4Packet_asBinary n p) = 34"
  using ethernet_bytes [of p] by (simp add: IPv4Packet_asBinary_def IPPacket_asBinary_def length_ipv4_header)

lemma length_ipv6_packet:
  "ipv6_ok p \<Longrightarrow> ethernet_ok p \<Longrightarrow> length (IPv6Packet_asBinary n p) = 54"
  using ethernet_bytes [of p]
  by (simp add: IPv6Packet_asBinary_def IPPacket_asBinary_def IPv6Packet_header_def ipv6_header_bytes_def
      ipv6_ok_def store32_def)

interpretation ip4: layer3_class ipv4_layer3 "\<lambda>p. ipv4_ok p \<and> ethernet_ok p" 34
proof
  fix p :: ipv4_packet and len n
  show "unat (l3_getPseudoChecksum ipv4_layer3 len p) \<le> 65535 * 20" if "ipv4_ok p \<and> ethernet_ok p"
    unfolding ipv4_layer3_def IPv4Packet_getPseudoChecksumLayer3_def layer3.simps
    by (rule pseudo_sum_bound) (use that in \<open>simp add: ipv4_ok_def\<close>)
  show "length (l3_payload_bytes ipv4_layer3 p) \<le> 65535"
    by (simp add: ipv4_layer3_def payload_bytes_bound)
  show "length (l3_asBinary ipv4_layer3 n p) = 34" if "ipv4_ok p \<and> ethernet_ok p"
    using that by (simp add: ipv4_layer3_def length_ipv4_packet)
qed

interpretation ip6: layer3_class ipv6_layer3 "\<lambda>p. ipv6_ok p \<and> ethernet_ok p" 54
proof
  fix p :: ipv6_packet and len n
  show "unat (l3_getPseudoChecksum ipv6_layer3 len p) \<le> 65535 * 20" if "ipv6_ok p \<and> ethernet_ok p"
    unfolding ipv6_layer3_def IPv6Packet_getPseudoChecksumLayer3_def layer3.simps
    by (rule pseudo_sum_bound) (use that in \<open>simp add: ipv6_ok_def\<close>)
  show "length (l3_payload_bytes ipv6_layer3 p) \<le> 65535"
    by (simp add: ipv6_layer3_def payload_bytes_bound)
  show "length (l3_asBinary ipv6_layer3 n p) = 54" if "ipv6_ok p \<and> ethernet_ok p"
    using that by (simp add: ipv6_layer3_def length_ipv6_packet)
qed

lemma icmp6_verifies:
  assumes "ipv6_ok p"
  shows "compute_checksum_finalize (icmp6_sum (cpu_to_be_16 (ICMPv6Packet_getChecksumLayer4 p)) p) = 0"
proof -
  let ?xs = "[icmp6_type p, icmp6_code p]"
  let ?s = "IPv6Packet_getPseudoChecksumLayer3 (ICMPv6Packet_getLayer4Size p) p"
  have eq: "icmp6_sum c p = compute_checksum_partial
      (?xs @ store16 c @ store32 0 @ store32 0 @ Packet_payload_bytes p) ?s" for c
    unfolding icmp6_sum_def icmp6_header_bytes_def
    by (subst compute_checksum_partial_append [symmetric]) simp_all
  have "unat ?s \<le> 65535 * 20"
    unfolding IPv6Packet_getPseudoChecksumLayer3_def
    by (rule pseudo_sum_bound) (use assms in \<open>simp add: ipv6_ok_def\<close>)
  then show ?thesis unfolding eq
    by (intro checksum_in_place)
      (use payload_bytes_bound [of p] in \<open>simp_all add: ICMPv6Packet_getChecksumLayer4_def eq\<close>)
qed

lemma icmp4_verifies:
  "compute_checksum (icmp_header_bytes (cpu_to_be_16 (ICMPv4Packet_getChecksumLayer4 p)) p
     @ Packet_payload_bytes p) = 0"
proof -
  let ?xs = "[icmp_type p, icmp_code p]"
  have eq: "icmp_header_bytes c p @ Packet_payload_bytes p =
      ?xs @ store16 c @ store32 0 @ Packet_payload_bytes p" for c
    by (simp add: icmp_header_bytes_def)
  have "ICMPv4Packet_getChecksumLayer4 p =
      compute_checksum_finalize (compute_checksum_partial (icmp_header_bytes 0 p @ Packet_payload_bytes p) 0)"
    unfolding ICMPv4Packet_getChecksumLayer4_def
    by (subst compute_checksum_partial_append [symmetric]) (simp_all add: icmp_header_bytes_def)
  then show ?thesis unfolding compute_checksum_def eq
    by (intro checksum_in_place) (use payload_bytes_bound [of p] in simp_all)
qed

end
