(* ===== verification/Dump.thy ===== *)
theory Dump
  imports Logger Net_Packet
begin

text \<open>
  The hexadecimal dump of bytes (\<open>hex_dump\<close> in \<open>src/debug.cpp\<close>, and the same loop again in
  \<open>Packet::asHex\<close>), and the generator of test data (\<open>class accl::SequenceDataGenerator\<close>).
\<close>

section \<open>The dump\<close>

definition hex_digit :: "nat \<Rightarrow> char" where
  "hex_digit n = ''0123456789ABCDEF'' ! (n mod 16)"

definition hex2 :: "u8 \<Rightarrow> string" where
  "hex2 b = [hex_digit (unat b div 16), hex_digit (unat b)]"

definition hex4 :: "u16 \<Rightarrow> string" where
  "hex4 n = [hex_digit (unat n div 4096), hex_digit (unat n div 256), hex_digit (unat n div 16),
     hex_digit (unat n)]"

text \<open>The loop counts the bytes in 16 bits.\<close>

fun hex_loop :: "u16 \<Rightarrow> u8 list \<Rightarrow> string" where
  "hex_loop c [] = []"
| "hex_loop c (b # bs) =
     (if unat c mod 16 = 0 then (if c \<noteq> 0 then newline else []) @ hex4 c @ '': '' else '' '')
     @ hex2 b @ hex_loop (c + 1) bs"

definition hex_dump :: "u8 list \<Rightarrow> string" where
  "hex_dump buffer = hex_loop 0 buffer"

definition Packet_asHex :: "u8 list \<Rightarrow> string" where
  "Packet_asHex as_binary = hex_loop 0 as_binary"

text \<open>The layout: lines of 16 bytes, each with its position.\<close>

definition hex_line :: "nat \<Rightarrow> u8 list \<Rightarrow> string" where
  "hex_line pos bs = hex4 (of_nat pos) @ '':'' @ concat (map (\<lambda>b. '' '' @ hex2 b) bs)"

function hex_lines :: "nat \<Rightarrow> u8 list \<Rightarrow> string list" where
  "hex_lines pos bs =
     (if bs = [] then [] else hex_line pos (take 16 bs) # hex_lines (pos + 16) (drop 16 bs))"
  by pat_completeness auto
termination
  by (relation "measure (\<lambda>(pos, bs). length bs)") auto

declare hex_lines.simps [simp del]

fun join_lines :: "string list \<Rightarrow> string" where
  "join_lines [] = []"
| "join_lines [l] = l"
| "join_lines (l # ls) = l @ newline @ join_lines ls"

lemma hex_loop_append: "hex_loop c (xs @ ys) = hex_loop c xs @ hex_loop (c + of_nat (length xs)) ys"
  by (induction xs arbitrary: c) (simp_all add: algebra_simps)

text \<open>Inside a line.\<close>

lemma hex_loop_inside:
  assumes "n mod 16 + length xs \<le> 16" and "0 < n mod 16" and "n + length xs \<le> 65536" and "n < 65536"
  shows "hex_loop (of_nat n) (xs @ ys) =
    concat (map (\<lambda>b. '' '' @ hex2 b) xs) @ hex_loop (of_nat (n + length xs)) ys"
  using assms
proof (induction xs arbitrary: n)
  case (Cons x xs)
  have step: "hex_loop (of_nat n) ((x # xs) @ ys) = '' '' @ hex2 x @ hex_loop (of_nat (Suc n)) (xs @ ys)"
    using Cons.prems by (simp add: add.commute)
  show ?case
  proof (cases xs)
    case Nil
    then show ?thesis using step by simp
  next
    case (Cons y zs)
    have "Suc n mod 16 = Suc (n mod 16)"
      using Cons.prems(1) Cons by (simp add: mod_Suc)
    then have "hex_loop (of_nat (Suc n)) (xs @ ys) =
        concat (map (\<lambda>b. '' '' @ hex2 b) xs) @ hex_loop (of_nat (Suc n + length xs)) ys"
      using Cons.prems Cons by (intro Cons.IH) simp_all
    with step show ?thesis by simp
  qed
qed simp

lemma hex_loop_line:
  assumes "n mod 16 = 0" and "n < 65536" and "length xs \<le> 16" and "xs \<noteq> []"
  shows "hex_loop (of_nat n) (xs @ ys) =
    (if n = 0 then [] else newline) @ hex_line n xs @ hex_loop (of_nat (n + length xs)) ys"
proof -
  obtain x zs where xs: "xs = x # zs" using assms(4) by (cases xs) auto
  have u: "unat (of_nat n :: u16) = n" by (rule unat_of_nat_u16 [OF assms(2)])
  then have nz: "(of_nat n :: u16) \<noteq> 0 \<longleftrightarrow> n \<noteq> 0" by (cases "n = 0") force+
  have first: "hex_loop (of_nat n) (xs @ ys) =
      (if n = 0 then [] else newline) @ hex4 (of_nat n) @ '': '' @ hex2 x @ hex_loop (of_nat (Suc n)) (zs @ ys)"
    unfolding xs append_Cons hex_loop.simps u assms(1) nz by (simp add: add.commute)
  have rest: "hex_loop (of_nat (Suc n)) (zs @ ys) =
      concat (map (\<lambda>b. '' '' @ hex2 b) zs) @ hex_loop (of_nat (Suc n + length zs)) ys"
  proof (cases zs)
    case (Cons z zs')
    have m: "Suc n mod 16 = 1" using assms(1) by (simp add: mod_Suc)
    obtain k where "n = 16 * k" using assms(1) by (auto simp: mod_eq_0_iff_dvd elim: dvdE)
    moreover from this have "k < 4096" using assms(2) by linarith
    ultimately have "n + 16 \<le> 65536" by linarith
    moreover have "Suc (length zs) \<le> 16" using assms(3) by (simp add: xs)
    ultimately show ?thesis using m by (intro hex_loop_inside) linarith+
  qed simp
  show ?thesis unfolding first rest by (simp add: hex_line_def xs)
qed

lemma hex_loop_lines:
  "n mod 16 = 0 \<Longrightarrow> n + length bs \<le> 65536 \<Longrightarrow>
    hex_loop (of_nat n) bs =
      (if n = 0 \<or> bs = [] then [] else newline) @ join_lines (hex_lines n bs)"
proof (induction n bs rule: hex_lines.induct)
  case (1 n bs)
  show ?case
  proof (cases "bs = []")
    case True
    then show ?thesis by (simp add: hex_lines.simps)
  next
    case False
    let ?t = "take 16 bs" and ?d = "drop 16 bs"
    have n: "n < 65536" using False 1(3) by (cases bs) simp_all
    have head: "hex_loop (of_nat n) bs =
        (if n = 0 then [] else newline) @ hex_line n ?t @ hex_loop (of_nat (n + length ?t)) ?d"
      using hex_loop_line [of n ?t ?d] 1(2) n False by simp
    show ?thesis
    proof (cases "?d = []")
      case True
      then show ?thesis using head False by (simp add: hex_lines.simps [of n bs] hex_lines.simps [of _ "[]"])
    next
      case d: False
      then have len: "length ?t = 16" by simp
      have "hex_loop (of_nat (n + 16)) ?d = newline @ join_lines (hex_lines (n + 16) ?d)"
        using 1(1) [OF False] 1(2,3) d by simp
      moreover have "hex_lines (n + 16) ?d \<noteq> []" using d by (simp add: hex_lines.simps)
      ultimately show ?thesis using head False len
        by (cases "hex_lines (n + 16) ?d") (simp_all add: hex_lines.simps [of n bs])
    qed
  qed
qed

section \<open>Test data\<close>

fun seq_digits :: "nat \<Rightarrow> int \<Rightarrow> int \<Rightarrow> string \<times> int" where
  "seq_digits 0 curlen len = ([], curlen)"
| "seq_digits (Suc k) curlen len =
     (if curlen < len
      then (let (s, c) = seq_digits k (curlen + 1) len in (char_of (48 + (9 - k)) # s, c))
      else ([], curlen))"

definition next_letter :: "char \<Rightarrow> char" where
  "next_letter c = (if c = CHR ''Z'' then CHR ''A'' else char_of (of_char c + 1 :: nat))"

lemma seq_digits_mono: "curlen \<le> snd (seq_digits k curlen len)"
  by (induction k curlen len rule: seq_digits.induct) (auto simp: Let_def split: prod.splits)

function seq_generate :: "char \<Rightarrow> int \<Rightarrow> int \<Rightarrow> string" where
  "seq_generate letter curlen len =
     (if curlen < len
      then (let (ds, c) = seq_digits 10 (curlen + 1) len
            in letter # ds @ seq_generate (next_letter letter) c len)
      else [])"
  by pat_completeness auto
termination
proof (relation "measure (\<lambda>(letter, curlen, len). nat (len - curlen))")
  fix letter curlen len x y and z :: string
  assume "curlen < len" and "x = seq_digits 10 (curlen + 1) len" and "(z, y) = x"
  then have "curlen < y" using seq_digits_mono [of "curlen + 1" 10 len] by (metis less_le_trans snd_conv zless_add1_eq order_refl)
  with \<open>curlen < len\<close> show "((next_letter letter, y, len), letter, curlen, len) \<in>
      measure (\<lambda>(letter, curlen, len). nat (len - curlen))" by simp
qed simp

declare seq_generate.simps [simp del]

definition SequenceDataGenerator_generate :: "int \<Rightarrow> string" where
  "SequenceDataGenerator_generate len = seq_generate (CHR ''A'') 0 len"

definition SequenceDataGenerator_asBytes :: "string \<Rightarrow> u8 list" where
  "SequenceDataGenerator_asBytes data = map (\<lambda>c. of_nat (of_char c)) data"

lemma seq_digits_length:
  "seq_digits k curlen len = (s, c) \<Longrightarrow> curlen \<le> len \<Longrightarrow>
    c = curlen + int (length s) \<and> c \<le> len \<and> (length s = k \<or> c = len)"
proof (induction k curlen len arbitrary: s c rule: seq_digits.induct)
  case (2 k curlen len)
  then show ?case by (auto simp: Let_def split: if_splits prod.splits)
qed simp

lemma seq_generate_length: "length (seq_generate letter curlen len) = nat (len - curlen)"
proof (induction letter curlen len rule: seq_generate.induct)
  case (1 letter curlen len)
  show ?case
  proof (cases "curlen < len")
    case True
    obtain ds c where d: "seq_digits 10 (curlen + 1) len = (ds, c)" by fastforce
    have "c = curlen + 1 + int (length ds)" "c \<le> len"
      using seq_digits_length [OF d] True by simp_all
    with 1 [OF True refl d [symmetric]] d True show ?thesis
      by (subst seq_generate.simps) simp
  next
    case False
    then show ?thesis by (subst seq_generate.simps) simp
  qed
qed

end
