(* ===== verification/Samples.thy ===== *)
theory Samples
  imports Loss_Tunnel Tunnel Decoder_Limits Switch_Correct Switch_Start Settings Net_Correct Dump
begin

unbundle bit_operations_syntax

text \<open>
  Concrete inputs on which the properties of the root theory are evaluated: pools of buffers,
  frames, and a tunnel with the library that stores (\<^const>\<open>store_codec\<close>).
\<close>

definition sample_addr :: sockaddr where "sample_addr = Sockaddr_in6 0 0 (replicate 16 0) 0"

definition sample_pool :: "nat \<Rightarrow> nat \<Rightarrow> packet_pool" where
  "sample_pool cap n = BufferPool_filled (PacketBuffer sample_addr) cap n"

definition sample_frame :: "nat \<Rightarrow> nat \<Rightarrow> packet_buffer" where
  "sample_frame cap n = (PacketBuffer sample_addr cap)\<lparr>dataSize := n\<rparr>"

lemma sample_pool_ok: "pool_ok cap (sample_pool cap n)" "length (pool (sample_pool cap n)) = n"
  unfolding sample_pool_def by (rule pool_ok_filled, simp) simp

lemma sample_frame_ok: "n \<le> cap \<Longrightarrow> buffer_ok cap (sample_frame cap n)"
  "dataSize (sample_frame cap n) = n"
  by (simp_all add: sample_frame_def buffer_ok_def)

lemma sample_tunnel_ok: "tunnel_ok store_codec (stores LZ4) 220 200 104 1"
proof -
  have "\<exists>f. (1 :: u8) = PacketHeaderOptionFormatType_value f"
    by (rule exI [of _ COMPRESSED_LZ4]) simp
  moreover have "lib_ready store_codec"
    by (simp add: lib_ready_def StreamCompressorLZ4_def StreamCompressorZSTD_def store_codec_def)
  moreover have "format_algorithm 1 = LZ4" by (simp add: format_algorithm_def)
  ultimately show ?thesis
    using store_codec_lossless [of 200 220 LZ4] by (simp add: tunnel_ok_def)
qed

definition sample_events :: "(bool \<times> packet_buffer list) list" where
  "sample_events = [(True, [sample_frame 220 150, sample_frame 220 60]), (False, [])]"

lemma sample_events_frames:
  "length (frames_of sample_events) = 2" "length sample_events = 2"
  by (simp_all add: frames_of_def sample_events_def)

lemma sample_events_ok:
  "\<forall>b \<in> set (frames_of sample_events). buffer_ok 220 b \<and> dataSize b \<le> unat (200 :: u16)"
  by (simp add: frames_of_def sample_events_def sample_frame_ok)

lemma pool_ok_empty: "pool_ok cap (BufferPool cap)"
  by (simp add: pool_ok_def)

lemma sample_decoder:
  "\<exists>d. PacketDecoder 7 store_codec 200 (BufferPool 220) (sample_pool 220 4) = Inr d"
proof -
  have "StreamCompressorLZ4 store_codec = Inr \<lparr>sc_algorithm = LZ4, sc_cstream = (), sc_dstream = (),
      compression_level = StreamCompressor_level\<rparr>"
    "StreamCompressorZSTD store_codec = Inr \<lparr>sc_algorithm = ZSTD, sc_cstream = (), sc_dstream = (),
      compression_level = StreamCompressor_level\<rparr>"
    by (simp_all add: StreamCompressorLZ4_def StreamCompressorZSTD_def store_codec_def)
  from decoder_start [OF this pool_ok_empty [of 220] sample_pool_ok(1), of 2 4 7 200] show ?thesis
    by (auto simp: sample_pool_ok)
qed

lemma store_codec_bounded: "cap < 65536 \<Longrightarrow> codec_bounded store_codec cap"
  unfolding codec_bounded_def
proof (intro allI impI)
  fix input sc n out and sc' :: "unit stream_compressor"
  assume cap: "cap < 65536" and run: "sc_decompress store_codec input cap sc = (n, out, sc')"
  have ios: "int_of_size cap = int cap" using cap by simp
  show "n \<le> int cap"
  proof (cases "sc_algorithm sc")
    case LZ4
    with run show ?thesis by (auto simp: sc_decompress_def store_codec_def ios)
  next
    case ZSTD
    let ?k = "nat (min (int_of_size cap) (int (length input) - 1))"
    have k: "?k \<le> cap" by (simp add: ios)
    have "n = int_of_u64 (of_nat ?k)" using ZSTD run by (simp add: sc_decompress_def store_codec_def)
    also have "\<dots> = int ?k" by (rule int_of_u64_small) (use k cap in simp)
    finally show ?thesis using k by (auto simp: ios)
  qed
qed

text \<open>A packet of two frames without compression, as an encoder makes it.\<close>

definition sample_packet :: packet_buffer where
  "sample_packet = (PacketBuffer sample_addr 220)\<lparr>
     content := overwrite 0 (packet_bytes (1, [Complete 3 0 [1, 2, 3], Complete 2 0 [4, 5]])) (replicate 220 0),
     dataSize := 29\<rparr>"

lemma sample_packet_bytes:
  "packet_bytes (1, [Complete 3 0 [1, 2, 3], Complete 2 0 [4, 5]]) =
    [17, 0, 1, 0, 0, 0, 0, 1, 2, 0, 3, 0, 0, 3, 0, 0, 1, 2, 3, 2, 0, 2, 0, 0, 2, 0, 0, 4, 5]"
  by (simp add: packet_bytes_def packet_header_of_def PacketHeader_bytes_def seg_bytes_def
      PacketHeaderOption_bytes_def store_be)

lemma sample_packet_size: "dataSize sample_packet = 29"
  by (simp add: sample_packet_def)

lemma sample_packet_ok: "buffer_ok 220 sample_packet"
  by (simp add: sample_packet_def buffer_ok_def sample_packet_bytes)

lemma sample_packet_content:
  "content sample_packet = [17, 0, 1, 0, 0, 0, 0, 1, 2, 0, 3, 0, 0, 3, 0, 0, 1, 2, 3, 2, 0, 2, 0, 0, 2, 0, 0, 4, 5]
     @ replicate 191 0"
  by (simp add: sample_packet_def sample_packet_bytes overwrite_def)

lemma sample_packet_chain:
  fixes p :: u16
  assumes "n = unat (ph_opt_len (PacketHeader_at (slice 0 8 (content sample_packet))))"
    and "decoder_options sample_packet n n (of_nat sizeof_PacketHeader) 0 = Inr (Some p)" and "p \<noteq> 0"
  shows "frame_chain (content sample_packet) (dataSize sample_packet) (unat p)"
proof -
  have n: "n = 1" using assms(1) by (simp add: sample_packet_content PacketHeader_at_def slice_def)
  have "Buffer_read 8 8 sample_packet = Inr [2, 0, 3, 0, 0, 3, 0, 0]"
    by (simp add: Buffer_read_def sample_packet_content slice_def)
  then have "p = 8"
    using assms(2) by (auto simp: n One_nat_def sizeof_PacketHeaderOption_def Buffer_getDataSize_def
        sizeof_PacketHeader_def Let_def split: if_splits)
  have opts: "PacketHeaderOption_at (slice 8 8 (content sample_packet)) =
      \<lparr>po_type = 2, po_packet_size = load16 [0, 3], po_format = 0, po_payload_length = load16 [0, 3],
       po_part = 0, po_reserved = 0\<rparr>"
    "PacketHeaderOption_at (slice 19 8 (content sample_packet)) =
      \<lparr>po_type = 2, po_packet_size = load16 [0, 2], po_format = 0, po_payload_length = load16 [0, 2],
       po_part = 0, po_reserved = 0\<rparr>"
    by (simp_all add: sample_packet_content PacketHeaderOption_at_def slice_def)
  have len: "unat (load16 [3, 0]) = 3" "unat (load16 [2, 0]) = 2" by (simp_all add: load16_def)
  have "frame_chain (content sample_packet) 29 29" by (rule chain_end) simp
  then have "frame_chain (content sample_packet) 29 19"
    by (rule chain_frame [rotated 4]) (simp_all add: opts len)
  then have "frame_chain (content sample_packet) 29 8"
    by (rule chain_frame [rotated 4]) (simp_all add: opts len)
  then show ?thesis by (simp add: \<open>p = 8\<close> sample_packet_size)
qed

definition sample_lz4 :: "unit stream_compressor" where
  "sample_lz4 = \<lparr>sc_algorithm = LZ4, sc_cstream = (), sc_dstream = (), compression_level = StreamCompressor_level\<rparr>"

definition sample_zstd :: "unit stream_compressor" where
  "sample_zstd = \<lparr>sc_algorithm = ZSTD, sc_cstream = (), sc_dstream = (), compression_level = StreamCompressor_level\<rparr>"

lemma sample_compressors:
  "StreamCompressorLZ4 store_codec = Inr sample_lz4" "StreamCompressorZSTD store_codec = Inr sample_zstd"
  by (simp_all add: StreamCompressorLZ4_def StreamCompressorZSTD_def store_codec_def sample_lz4_def sample_zstd_def)

lemma sample_frame_data: "n \<le> cap \<Longrightarrow> buffer_data (sample_frame cap n) = replicate n 0"
  by (simp add: buffer_data_def sample_frame_def PacketBuffer_def Buffer_def buffer.defs)

lemma sample_tunnel_1500: "tunnel_ok store_codec (stores LZ4) 1674 1522 1452 1"
proof -
  have "\<exists>f. (1 :: u8) = PacketHeaderOptionFormatType_value f"
    by (rule exI [of _ COMPRESSED_LZ4]) simp
  moreover have "lib_ready store_codec" using sample_compressors by (auto simp: lib_ready_def)
  moreover have "format_algorithm 1 = LZ4" by (simp add: format_algorithm_def)
  ultimately show ?thesis
    using store_codec_lossless [of 1522 1674 LZ4] by (simp add: tunnel_ok_def)
qed

text \<open>A packet of any bytes.\<close>

definition sample_raw :: "u8 list \<Rightarrow> packet_buffer" where
  "sample_raw bs = (PacketBuffer sample_addr 220)\<lparr>
     content := overwrite 0 bs (replicate 220 0), dataSize := length bs\<rparr>"

lemma sample_raw_ok: "length bs \<le> 220 \<Longrightarrow> buffer_ok 220 (sample_raw bs)"
  "dataSize (sample_raw bs) = length bs" "buffer_data (sample_raw bs) = bs"
  by (simp_all add: sample_raw_def buffer_ok_def buffer_data_def overwrite_def)

lemma sample_decoder_mem:
  obtains d where "PacketDecoder 7 store_codec 200 (BufferPool 220) (sample_pool 220 4) = Inr d"
    and "dec_mem 220 d" and "dec_idle d" and "dec_l2mtu d = 200" and "dec_first_packet d"
    and "length (pool (dec_available_buffer_pool d)) = 2"
proof -
  obtain d where d: "PacketDecoder 7 store_codec 200 (BufferPool 220) (sample_pool 220 4) = Inr d"
    using sample_decoder by blast
  with that PacketDecoder_mem [OF d pool_ok_empty sample_pool_ok(1)] PacketDecoder_taken [OF d] show thesis
    by (simp add: sample_pool_ok)
qed

lemma swapped_literals [simp]: "be_to_cpu_16 0 = 0" "be_to_cpu_16 63743 = 65528"
  by (simp_all add: be_to_cpu_16_def bswap16_def store16_def load16_def)

text \<open>A switch with two remote nodes.\<close>

definition sample_peer :: "u8 \<Rightarrow> sockaddr" where
  "sample_peer n = Sockaddr_in6 0 0 (replicate 16 n) 0"

lemma sample_peer_key [simp]: "get_key_from_sockaddr g (sample_peer n) = replicate 16 n"
  by (simp add: sample_peer_def)

definition sample_node :: "u8 \<Rightarrow> remote_node" where
  "sample_node n = RemoteNode [] 3 (sample_peer n) 1500 1522 1674 1"

lemma sample_switch:
  "\<exists>sw. PacketSwitch sample_addr [] 3 1500 1500 1 sample_addr [sample_peer 1, sample_peer 2] 58023 = Inr sw \<and>
    sw_l2mtu sw = 1522 \<and> sw_remote_nodes sw = [(replicate 16 1, Some (sample_node 1)), (replicate 16 2, Some (sample_node 2))] \<and>
    sw_fdb sw = [] \<and> length (pool (sw_available_rx_buffer_pool sw)) = 10000"
proof -
  have check: "PacketSwitch_check 1500 1500 = Inr ()" by (simp add: PacketSwitch_check_iff)
  have l2: "get_l2mtu_from_mtu 1500 = 1522" by (simp add: get_l2mtu_from_mtu_def)
  have size: "sw_buffer_size 1522 = 1674" by (simp add: sw_buffer_size_def)
  have key: "rn_node_key (RemoteNode [] 3 (sample_peer n) 1500 1522 1674 1) = replicate 16 n" for n
    by (simp add: RemoteNode_def Let_def)
  have less: "\<not> replicate 16 (2 :: u8) < replicate 16 1" "replicate 16 (2 :: u8) \<noteq> replicate 16 1"
    by (simp_all add: eval_nat_numeral)
  show ?thesis
    by (simp add: PacketSwitch_def check l2 size key less Let_def sample_node_def sw_buffer_count_def
        SETH_BUFFER_COUNT_def)
qed


text \<open>The switch with two nodes at the start of its threads.\<close>

lemma sample_system:
  obtains sw and s :: "(unit, 'f) system" where "PacketSwitch sample_addr [] 3 1500 1500 1 sample_addr [sample_peer 1, sample_peer 2] 58023 = Inr sw"
    and "sw_l2mtu sw = 1522" and "nat (sw_buffer_size (sw_l2mtu sw)) = 1674" and "sw_ok [] 1674 sw"
    and "sw_remote_nodes sw = [(replicate 16 1, Some (sample_node 1)), (replicate 16 2, Some (sample_node 2))]"
    and "sw_fdb sw = []" and "length (pool (sw_available_rx_buffer_pool sw)) = 10000"
    and "system_start store_codec 0 sw = Inr s"
proof -
  obtain sw where sw: "PacketSwitch sample_addr [] 3 1500 1500 1 sample_addr [sample_peer 1, sample_peer 2] 58023 = Inr sw"
    "sw_l2mtu sw = 1522"
    "sw_remote_nodes sw = [(replicate 16 1, Some (sample_node 1)), (replicate 16 2, Some (sample_node 2))]"
    "sw_fdb sw = []" "length (pool (sw_available_rx_buffer_pool sw)) = 10000"
    using sample_switch by auto
  have size: "nat (sw_buffer_size (sw_l2mtu sw)) = 1674" unfolding sw(2) by (simp add: sw_buffer_size_def)
  have ok: "sw_ok [] 1674 sw" using PacketSwitch_ok [OF sw(1)] unfolding size .
  have "sw_available_tx_buffer_pool sw = sw_available_rx_buffer_pool sw"
    using sw(1) by (auto simp: PacketSwitch_def Let_def rbind_Inr_conv)
  then have "256 + 2 * length (sw_remote_nodes sw) \<le> length (pool (sw_available_tx_buffer_pool sw))"
    "2 * length (sw_remote_nodes sw) \<le> length (pool (sw_available_rx_buffer_pool sw))"
    by (simp_all add: sw(3,5))
  moreover have "\<forall>(k, n) \<in> set (sw_remote_nodes sw). \<exists>rn. n = Some rn \<and> rn_packet_format rn \<in> {0, 1, 2}"
    by (simp add: sw(3) sample_node_def RemoteNode_def Let_def)
  moreover have "\<exists>a b. StreamCompressorLZ4 store_codec = Inr a \<and> StreamCompressorZSTD store_codec = Inr b"
    using sample_tunnel_ok by (simp add: tunnel_ok_def lib_ready_def)
  ultimately obtain s :: "(unit, 'f) system" where "system_start store_codec 0 sw = Inr s"
    using system_start_exists [of store_codec _ _ sw, OF _ _ _ _ _ ok] by fastforce
  with that sw size ok show thesis by blast
qed

text \<open>Packets as the constructors leave them, whatever the memory held before.\<close>

lemma sample_packet_fields:
  "ipv4_ok (IPv4Packet mem4)" "ethernet_ok (IPv4Packet mem4)" "ipv6_ok (IPv6Packet mem6)" "ethernet_ok (IPv6Packet mem6)"
  by (simp_all add: ipv4_ok_def ipv6_ok_def ethernet_ok_def IPv4Packet_def IPv4Packet_init_def IPPacket_init_def
      IPv6Packet_def IPv6Packet_init_def IPPacket_setVersion_def EthernetPacket_setEthertype_def EthernetPacket_init_def
      SETH_PACKET_IPV4_IP_LEN_def SETH_PACKET_IPV6_IP_LEN_def SETH_PACKET_ETHERNET_MAC_LEN_def)

lemma sample_transport_ok:
  "ipv4_ok (udp_base (UDPPacket ipv4_layer3 m))" "ethernet_ok (udp_base (UDPPacket ipv4_layer3 m))"
  "ipv4_ok (tcp_base (TCPPacket ipv4_layer3 n))" "ethernet_ok (tcp_base (TCPPacket ipv4_layer3 n))"
  "ipv6_ok (udp_base (UDPPacket ipv6_layer3 m'))" "ethernet_ok (udp_base (UDPPacket ipv6_layer3 m'))"
  "ipv6_ok (tcp_base (TCPPacket ipv6_layer3 n'))" "ethernet_ok (tcp_base (TCPPacket ipv6_layer3 n'))"
  using sample_packet_fields
  by (simp_all add: UDPPacket_def UDPPacket_init_def TCPPacket_def TCPPacket_init_def ipv4_layer3_def ipv6_layer3_def
      IPv4Packet_setProtocol_def IPv6Packet_setNextHeader_def ipv4_ok_def ipv6_ok_def ethernet_ok_def)

lemma sample_icmp_ok:
  "ipv4_ok (ICMPv4Packet m)" "ethernet_ok (ICMPv4Packet m)" "ipv6_ok (ICMPv6Packet n)" "ethernet_ok (ICMPv6Packet n)"
  using sample_packet_fields
  by (simp_all add: ICMPv4Packet_def ICMPv4Packet_init_def ICMPv6Packet_def ICMPv6Packet_init_def
      IPv4Packet_setProtocol_def IPv6Packet_setNextHeader_def ipv4_ok_def ipv6_ok_def ethernet_ok_def)

text \<open>An encoder, and a command line with the settings it gives.\<close>

lemma sample_encoder:
  obtains e :: "(unit, int) encoder" where "PacketEncoder 200 104 (BufferPool 220) (sample_pool 220 12) = Inr e"
    and "enc_l2mtu e = 200" and "buffer_size (enc_available_buffer_pool e) = 220"
proof -
  have pool: "pool (sample_pool 220 12) = replicate 12 (PacketBuffer sample_addr 220)"
    "buffer_size (sample_pool 220 12) = 220"
    by (simp_all add: sample_pool_def)
  obtain x where x: "x = PacketBuffer sample_addr 220" "length (content x) = 220"
    by (simp add: PacketBuffer_def Buffer_def buffer.defs)
  have "replicate 12 x = x # x # replicate 10 x" by (simp add: numeral_eq_Suc)
  then have "pool (sample_pool 220 12) = x # x # replicate 10 x" by (simp only: pool(1) x(1))
  with that pool(2) x(2) show thesis
    by (auto simp: PacketEncoder_def encoder_take_buffer_def BufferPool_pop_wait_simps Let_def Buffer_setDataSize_def
        Buffer_clear_def sizeof_PacketHeader_def)
qed

text \<open>A ZSTD that refuses every frame with its error 70, output buffer too small.\<close>

definition refusing_codec :: "unit codec_lib" where
  "refusing_codec = store_codec\<lparr>ZSTD_compressCCtx := (\<lambda>s cap x level. (- 70, [], s))\<rparr>"

lemma sample_refusing_encoder:
  obtains e :: "(unit, int) encoder" and cbuf where
    "rbind (PacketEncoder 200 104 (BufferPool 220) (sample_pool 220 12)) (encoder_setPacketFormat refusing_codec 2) = Inr e"
    and "enc_l2mtu e = 200" and "buffer_size (enc_available_buffer_pool e) = 220" and "enc_packet_format e = 2"
    and "enc_compressor e = Some sample_zstd" and "enc_comp_buffer e = Some cbuf" and "buffer_ok 220 cbuf"
proof -
  have pool: "pool (sample_pool 220 12) = replicate 12 (PacketBuffer sample_addr 220)"
    "buffer_size (sample_pool 220 12) = 220"
    by (simp_all add: sample_pool_def)
  obtain x where x: "x = PacketBuffer sample_addr 220" "length (content x) = 220" "buffer_ok 220 x"
    by (simp add: PacketBuffer_def Buffer_def buffer.defs buffer_ok_def)
  have "replicate 12 x = x # x # replicate 10 x" by (simp add: numeral_eq_Suc)
  then have "pool (sample_pool 220 12) = x # x # replicate 10 x" by (simp only: pool(1) x(1))
  moreover have "StreamCompressorZSTD refusing_codec = Inr sample_zstd"
    by (simp add: StreamCompressorZSTD_def refusing_codec_def store_codec_def sample_zstd_def)
  ultimately show thesis
    using that pool(2) x(2,3)
    by (auto simp: PacketEncoder_def encoder_take_buffer_def BufferPool_pop_wait_simps Let_def Buffer_setDataSize_def
        Buffer_clear_def sizeof_PacketHeader_def encoder_setPacketFormat_def)
qed

definition sample_environment :: environment where
  "sample_environment = \<lparr>env_version = ''1'', env_config_file = ''/etc/superethd.conf'', env_exists = (\<lambda>f. False),
     env_read_ini = (\<lambda>f. Inl []), env_pton6 = (\<lambda>s. Some (replicate 15 0 @ [of_nat (length s)])),
     env_pton4 = (\<lambda>s. None), env_ntop6 = (\<lambda>a. Some ''x''), env_ntop4 = (\<lambda>a. None), env_garbage = 0\<rparr>"

lemma sample_configuration:
  obtains a where "configure sample_environment (Logger False None) [(CHR ''d'', ''b,a b''), (CHR ''m'', ''1400'')] = Inr a"
    and "cfg_mtu (start_settings a) = 1400" and "cfg_txsize (start_settings a) = 1500"
    and "cfg_tunnel_dst (start_settings a) = [''a'', ''b'']" and "cfg_tunnel_port (start_settings a) = 58023"
    and "cfg_packet_format (start_settings a) = COMPRESSED_LZ4"
proof -
  have args: "parse_command_line sample_environment (Logger False None) [(CHR ''d'', ''b,a b''), (CHR ''m'', ''1400'')] =
      Inr (no_options\<lparr>opt_dst := [''b'', ''a'', ''b''], opt_mtu := 1400\<rparr>)"
    by code_simp
  have conf: "load_config_file sample_environment (no_options\<lparr>opt_dst := [''b'', ''a'', ''b''], opt_mtu := 1400\<rparr>) =
      Inr no_options"
    by (simp add: load_config_file_def no_options_def sample_environment_def)
  have uniq: "unique_destinations [''b'', ''a'', ''b''] = [''a'', ''b'']" by code_simp
  let ?cfg = "\<lparr>cfg_mtu = 1400, cfg_txsize = 1500, cfg_tunnel_port = 58023, cfg_tunnel_src = ''::'',
      cfg_tunnel_dst = [''a'', ''b''], cfg_ifname = ''seth0'', cfg_packet_format = COMPRESSED_LZ4\<rparr>"
  have "resolve_settings (no_options\<lparr>opt_dst := [''b'', ''a'', ''b''], opt_mtu := 1400\<rparr>) no_options (Logger False None) =
      Inr (?cfg, Logger False None)"
    by (simp add: resolve_settings_def set_log_level_def no_options_def pick_int_def pick_list_def uniq Let_def
        SETH_MIN_MTU_SIZE_def SETH_MAX_MTU_SIZE_def SETH_MIN_TXSIZE_def SETH_MAX_TXSIZE_def SETH_DEFAULT_PORT_def
        SETH_DEFAULT_TUNNEL_NAME_def IFNAMSIZ_def parse_packet_format_def)
  with args conf have "\<exists>a. configure sample_environment (Logger False None) [(CHR ''d'', ''b,a b''), (CHR ''m'', ''1400'')] = Inr a \<and>
      start_settings a = ?cfg"
    by (simp add: configure_def convert_address_def to_sockaddr_storage_def sample_environment_def get_ipv6_str_def)
  with that show thesis by auto
qed

end
