(* ===== verification/Sample_Run.thy ===== *)
theory Sample_Run
  imports Samples
begin

unbundle bit_operations_syntax

text \<open>
  A run of the threads of a switch with one node, for the witnesses of the properties of all runs: a
  broadcast frame is read from the device, encoded, the encoder's wait times out, and the packet is
  sent.
\<close>

section \<open>Steps that succeed\<close>

text \<open>A small frame goes into the packet under construction.\<close>

lemma encode_small:
  assumes m: "enc_mem cap e" and idle: "enc_idle e" and raw: "buffer_ok cap raw"
    and plain: "enc_packet_format e = 0" and l2: "dataSize raw \<le> unat (enc_l2mtu e)"
    and room: "dataSize (enc_tx_buffer e) + 8 + dataSize raw + 96 \<le> unat (enc_l4mtu e)"
  shows "\<exists>e'. encoder_encode ratio lib raw e = Inr e' \<and> ekeeps cap e 1 e' \<and> enc_idle e' \<and>
    dataSize (enc_tx_buffer e') \<noteq> 8 \<and> pool (enc_available_buffer_pool e') \<noteq> []"
proof -
  have ds: "dataSize raw < 65536" using l2 unat_u16_bound [of "enc_l2mtu e"] by linarith
  then have big: "\<not> (of_nat (dataSize raw) :: u16) > enc_l2mtu e" using l2 by (simp add: word_less_nat_alt)
  have tx: "8 \<le> dataSize (enc_tx_buffer e)" using m by (auto simp: enc_mem_def enc_current_def)
  have max: "unat (encoder_getMaxPayloadSize sz e) = unat (enc_l4mtu e) - 8 - dataSize (enc_tx_buffer e)" for sz
    using tx by (intro max_payload_room) simp
  have fits: "\<not> dataSize raw > unat (encoder_getMaxPayloadSize sz e)" for sz
    using room unfolding max by linarith
  define opt where "opt = \<lparr>po_type = PacketHeaderOptionType_value COMPLETE_PACKET,
      po_packet_size = cpu_to_be_16 (of_nat (dataSize raw)), po_format = 0,
      po_payload_length = cpu_to_be_16 (of_nat (dataSize raw)), po_part = 0, po_reserved = 0\<rparr>"
  obtain e1 where e1: "encoder_add_payload opt (buffer_data raw) e = Inr e1" "ekeeps cap e 0 e1"
    "enc_comp_buffer e1 = enc_comp_buffer e"
    "dataSize (enc_tx_buffer e1) = dataSize (enc_tx_buffer e) + 8 + dataSize raw"
    using safe_add_payload [OF ekeeps_refl [OF m], of "buffer_data raw" opt] room
    by (auto simp: length_buffer_data [OF raw])
  have read: "Buffer_read 0 (dataSize raw) raw = Inr (buffer_data raw)"
    using Buffer_read_data [OF raw, of 0 "dataSize raw"] by (simp add: slice_def length_buffer_data [OF raw])
  have l4: "enc_l4mtu e1 = enc_l4mtu e" "enc_packet_format e1 = 0" using e1(2) plain by (simp_all add: ekeeps_def)
  have "unat (encoder_getMaxPayloadSize SETH_PACKET_MAX_SIZE e1) =
      unat (enc_l4mtu e1) - 8 - dataSize (enc_tx_buffer e1)"
    using e1(4) by (intro max_payload_room) simp
  then have wide: "\<not> unat (encoder_getMaxPayloadSize SETH_PACKET_MAX_SIZE e1)
      < sizeof_PacketHeader + sizeof_PacketHeaderOption * 10"
    using room e1(4) l4 by (simp add: sizeof_PacketHeader_def sizeof_PacketHeaderOption_def)
  let ?av = "(enc_available_buffer_pool e1)\<lparr>pool := pool (enc_available_buffer_pool e1) @ [raw]\<rparr>"
  have push: "BufferPool_push raw (enc_available_buffer_pool e1) = Inr ?av"
    using e1(2) raw by (intro BufferPool_push_ok [of _ cap]) (simp_all add: ekeeps_def enc_mem_def pool_ok_def)
  let ?e' = "e1\<lparr>enc_available_buffer_pool := ?av\<rparr>"
  have run: "encoder_encode ratio lib raw e = Inr ?e'"
    using big fits plain read e1(1) wide push l4
    by (simp add: encoder_encode_def encoder_compress_def encoder_complete_def Buffer_getDataSize_def
        opt_def Let_def)
  moreover have "ekeeps cap e 1 ?e' \<and> enc_idle ?e'"
    using give_back [OF e1(2) raw, where E = "{}"] idle room e1(3,4) l4 push by (simp add: enc_idle_def)
  ultimately show ?thesis using e1(4) tx by auto
qed

text \<open>A packet that holds something is sent when there is another buffer.\<close>

lemma flush_sends:
  assumes m: "enc_mem cap e" and idle: "enc_idle e" and avail: "pool (enc_available_buffer_pool e) \<noteq> []"
    and some: "dataSize (enc_tx_buffer e) \<noteq> 8"
  shows "\<exists>e'. encoder_flush lib e = Inr e' \<and> pool (enc_tx_buffer_pool e') \<noteq> []"
proof -
  have "encoder_flush_buffer e \<noteq> Inl Would_block"
    using avail by (auto simp: encoder_flush_buffer_def encoder_getTxBuffer_def encoder_take_buffer_def rbind_Inl_conv
        Let_def Buffer_write_def Buffer_setDataSize_def BufferPool_push_def BufferPool_pop_wait_def
        BufferPool_pop_wait_woken_def after_wait_def split: if_splits list.splits)
  then obtain e1 where e1: "encoder_flush_buffer e = Inr e1" "ekeeps cap e 0 e1"
    using safe_flush_buffer [OF ekeeps_refl [OF m]] by (cases "encoder_flush_buffer e") auto
  then obtain e2 where e2: "encoder_flushInflight lib e1 = Inr e2"
    using safe_enc_flushInflight [OF e1(2), of lib] by (cases "encoder_flushInflight lib e1") auto
  have "pool (enc_tx_buffer_pool e1) \<noteq> []"
    using e1(1) some
    by (auto simp: encoder_flush_buffer_def encoder_getTxBuffer_def rbind_Inr_conv Let_def Buffer_getDataSize_def
        sizeof_PacketHeader_def BufferPool_push_def split: if_splits)
  moreover have "enc_tx_buffer_pool e2 = enc_tx_buffer_pool e1"
    using e2 by (auto simp: encoder_flushInflight_def rbind_Inr_conv split: if_splits)
  ultimately show ?thesis using e1(1) e2 by (simp add: encoder_flush_def)
qed

text \<open>
  Three steps from a small frame in an encoder's pool to a datagram: the frame is encoded, the wait
  for the next one times out, and the packet is sent.
\<close>

lemma sent_in_three_steps:
  fixes st :: "('s, 'f) system"
  assumes ok: "system_ok g cap st" and rn: "map_find k (sw_remote_nodes (sy_switch st)) = Some (Some rn)"
    and c: "pool (rn_encoder_pool rn) = [c]" and e: "sy_encoders st k = Some (t, e)" and plain: "enc_packet_format e = 0"
    and l2: "dataSize c \<le> unat (enc_l2mtu e)"
    and room: "dataSize (enc_tx_buffer e) + 8 + dataSize c + 96 \<le> unat (enc_l4mtu e)"
    and cap: "12 \<le> cap" "cap < 65536" and lib: "codec_bounded lib cap"
  shows "\<exists>st1 st2 st3 m. system_step ratio lib g cap st st1 \<and> system_step ratio lib g cap st1 st2 \<and>
    system_step ratio lib g cap st2 st3 \<and> m \<in> set (sy_network st3)"
proof -
  let ?sw = "sy_switch st" and ?p = "(rn_encoder_pool rn)\<lparr>pool := []\<rparr>"
  have sw: "sw_ok g cap ?sw" and mok: "map_ok (sw_remote_nodes ?sw)" and some: "sw_remote_nodes ?sw \<noteq> []"
    using ok rn by (auto simp: system_ok_def sw_ok_def nodes_ok_def)
  have pools: "pool_ok cap (rn_encoder_pool rn)" "pool_ok cap (rn_socket_write_pool rn)"
    using sw rn by (auto simp: sw_ok_def nodes_ok_def node_ok_def)
  have "encoder_private cap e" using ok e by (auto simp: system_ok_def encoders_ok_def)
  note E = encoder_of_switch_mem [OF sw pools(2) this]
  have "buffer_ok cap c" using pools(1) c by (simp add: pool_ok_def)
  from encode_small [OF E this, of ratio lib] plain l2 room obtain e1 where
    e1: "encoder_encode ratio lib c (encoder_of_switch ?sw rn e) = Inr e1" "ekeeps cap (encoder_of_switch ?sw rn e) 1 e1"
    "enc_idle e1" "dataSize (enc_tx_buffer e1) \<noteq> 8" "pool (enc_available_buffer_pool e1) \<noteq> []"
    by (auto simp: encoder_of_switch_def)
  have "encoder_handler_round ratio lib Notified None (t, rn_encoder_pool rn, encoder_of_switch ?sw rn e) = Inr (1, ?p, e1)"
    using c e1(1) by (simp add: encoder_handler_round_simps(1) encoder_handle_def encoder_encode_all_def)
  note step1 = system_step.encode [OF rn e disjI1 [OF refl] this, of g cap]
  let ?st1 = "after_encode k rn 1 ?p e1 st"
  let ?rn1 = "rn\<lparr>rn_encoder_pool := ?p, rn_socket_write_pool := enc_tx_buffer_pool e1\<rparr>"
  have k1: "kept g cap st ?st1" by (rule system_step_kept [OF step1 ok cap lib some])
  then have ok1: "system_ok g cap ?st1" and some1: "sw_remote_nodes (sy_switch ?st1) \<noteq> []"
    using nodes_not_empty [OF _ some] by (auto simp: kept_def conserved_def)
  have rn1: "map_find k (sw_remote_nodes (sy_switch ?st1)) = Some (Some ?rn1)"
    by (simp add: after_encode_def map_find_assign [OF mok])
  have en1: "sy_encoders ?st1 k = Some (1, e1)" by (simp add: after_encode_def)
  have same: "encoder_of_switch (sy_switch ?st1) ?rn1 e1 = e1" by (simp add: encoder_of_switch_def after_encode_def)
  from flush_sends [OF _ e1(3,5,4), of cap lib] e1(2) obtain e2 where
    e2: "encoder_flush lib e1 = Inr e2" "pool (enc_tx_buffer_pool e2) \<noteq> []" by (auto simp: ekeeps_def)
  have "encoder_handler_round ratio lib Timed_out (Some (rn_encoder_pool ?rn1))
      (1, rn_encoder_pool ?rn1, encoder_of_switch (sy_switch ?st1) ?rn1 e1) = Inr (0, ?p, e2)"
    unfolding same using e2(1) encoder_handler_round_simps(2) [of ?p 1 ratio lib ?p e1]
    by (simp add: encoder_handle_def)
  note step2 = system_step.encode [OF rn1 en1 disjI2 [OF refl] this, of g cap]
  let ?st2 = "after_encode k ?rn1 0 ?p e2 ?st1"
  let ?rn2 = "?rn1\<lparr>rn_encoder_pool := ?p, rn_socket_write_pool := enc_tx_buffer_pool e2\<rparr>"
  have "kept g cap ?st1 ?st2" by (rule system_step_kept [OF step2 ok1 cap lib some1])
  then have sw2: "sw_ok g cap (sy_switch ?st2)" by (simp add: kept_def system_ok_def)
  have "map_ok (sw_remote_nodes (sy_switch ?st1))" using ok1 by (simp add: system_ok_def sw_ok_def nodes_ok_def)
  then have rn2: "map_find k (sw_remote_nodes (sy_switch ?st2)) = Some (Some ?rn2)"
    by (simp add: after_encode_def [of _ _ 0] map_find_assign)
  have "pool (rn_socket_write_pool ?rn2) \<noteq> []" using e2(2) by simp
  note step3 = system_step.send [OF rn2 send_round_runs [OF sw2 rn2 this], of ratio lib g cap]
  obtain b where "b \<in> set (pool (enc_tx_buffer_pool e2))"
    using e2(2) by (cases "pool (enc_tx_buffer_pool e2)") auto
  then have net: "(rn_node_addr ?rn2, sizeof_sockaddr_in6, buffer_data b) \<in> set (sy_network (after_send k ?rn2
      (map (\<lambda>b. (rn_node_addr ?rn2, sizeof_sockaddr_in6, buffer_data b)) (pool (rn_socket_write_pool ?rn2))) p a ?st2))"
    for p a by (auto simp: after_send_def)
  show ?thesis by (intro exI conjI, rule step1, rule step2, rule step3, rule net)
qed

section \<open>The encoder of a node\<close>

lemma sample_node_l4mtu [simp]: "unat (rn_l4mtu (sample_node n)) = (if is_ipv4 (sample_peer n) then 1472 else 1452)"
  unfolding sample_node_def by (simp add: rn_l4mtu_value)

lemma sample_node_pools: "rn_socket_write_pool (sample_node n) = BufferPool 1674" "rn_packet_format (sample_node n) = 1"
  by (simp_all add: sample_node_def RemoteNode_def Let_def)

lemma sample_encoder_setup:
  "\<exists>e :: (unit, 'f) encoder. encoder_setup store_codec (sample_node 1) (sample_pool 1674 40) = Inr e"
  using encoder_setup_exists [OF sample_compressors, of "sample_node 1" 1674 "sample_pool 1674 40"]
  by (force simp: sample_pool_ok sample_node_pools)

section \<open>The run\<close>

definition broadcast_frame :: "u8 list" where
  "broadcast_frame = replicate 6 255 @ replicate 54 2"

text \<open>What a step of an encoder or of a sender is, from its round.\<close>

lemma sample_sent:
  obtains sw and s st :: "(unit, int) system" and m where
    "PacketSwitch sample_addr [] 3 1500 1500 0 sample_addr [sample_peer 1] 58023 = Inr sw"
    and "nat (sw_buffer_size (sw_l2mtu sw)) = 1674" and "system_start store_codec 0 sw = Inr s"
    and "reachable (\<lambda>n size. n) store_codec [] 1674 s st" and "m \<in> set (sy_network st)" and "st \<noteq> s"
proof -
  let ?ratio = "\<lambda>n (size :: u16). n :: int" and ?k = "replicate 16 1 :: u8 list"
  have check: "PacketSwitch_check 1500 1500 = Inr ()" by (simp add: PacketSwitch_check_iff)
  have l2: "get_l2mtu_from_mtu 1500 = 1522" by (simp add: get_l2mtu_from_mtu_def)
  have size: "sw_buffer_size 1522 = 1674" by (simp add: sw_buffer_size_def)
  define rn where "rn = RemoteNode [] 3 (sample_peer 1) 1500 1522 1674 0"
  have rn: "rn_node_key rn = ?k" "rn_l2mtu rn = 1522" "rn_packet_format rn = 0" "rn_encoder_pool rn = BufferPool 1674"
    "rn_socket_write_pool rn = BufferPool 1674"
    by (simp_all add: rn_def RemoteNode_def Let_def)
  have l4: "unat (rn_l4mtu rn) = 1452" unfolding rn_def by (simp add: rn_l4mtu_value sample_peer_def)
  obtain sw where new: "PacketSwitch sample_addr [] 3 1500 1500 0 sample_addr [sample_peer 1] 58023 = Inr sw"
    and sw: "sw_l2mtu sw = 1522" "sw_remote_nodes sw = [(?k, Some rn)]"
    "length (pool (sw_available_rx_buffer_pool sw)) = 5000" "length (pool (sw_available_tx_buffer_pool sw)) = 5000"
    using rn(1) by (simp add: PacketSwitch_def check l2 size Let_def rn_def sw_buffer_count_def SETH_BUFFER_COUNT_def)
  have ok: "sw_ok [] 1674 sw" using PacketSwitch_ok [OF new, of "[]"] by (simp add: sw(1) size)
  have "\<exists>a b. StreamCompressorLZ4 store_codec = Inr a \<and> StreamCompressorZSTD store_codec = Inr b"
    using sample_tunnel_ok by (simp add: tunnel_ok_def lib_ready_def)
  then obtain s :: "(unit, int) system" where s: "system_start store_codec 0 sw = Inr s"
    using system_start_exists [of store_codec _ _ sw "[]" 1674, OF _ _ _ _ _ ok] by (force simp: sw rn(3))
  have lib: "codec_bounded store_codec 1674" by (rule store_codec_bounded) simp
  have cap: "1674 = nat (sw_buffer_size (sw_l2mtu sw))" by (simp add: sw(1) size)
  obtain e slots decs tx where e: "encoder_setup store_codec rn (sw_available_rx_buffer_pool sw) = Inr e"
    and s_eq: "s = \<lparr>sy_switch = sw\<lparr>sw_available_rx_buffer_pool := enc_available_buffer_pool e,
        sw_available_tx_buffer_pool := tx\<rparr>, sy_tap_buffer = None, sy_slots = slots, sy_received = [],
        sy_decoders = decs, sy_encoders = [?k \<mapsto> (1, e)], sy_network = []\<rparr>"
    using s by (auto simp: system_start_def rbind_Inr_conv sw(2))
  have "pool_ok 1674 (sw_available_rx_buffer_pool sw)" "pool_ok 1674 (rn_socket_write_pool rn)"
    "104 \<le> unat (rn_l4mtu rn)" "unat (rn_l4mtu rn) \<le> 1674"
    using ok l4 by (simp_all add: sw_ok_def rn(5) pool_ok_def)
  from encoder_setup_ok [OF e this]
  have e_new: "enc_packet_format e = 0" "enc_l2mtu e = 1522" "dataSize (enc_tx_buffer e) = 8" "enc_l4mtu e = rn_l4mtu rn"
    and len: "length (pool (enc_available_buffer_pool e)) = 4998" using rn(2,3) sw(3) by simp_all
  have kept: "system_ok [] 1674 st \<and> conserved s st" if "reachable ?ratio store_codec [] 1674 s st" for st
    using new_switch_runs(1,2) [OF new _ s cap lib that] by simp
  have oks: "system_ok [] 1674 s" using kept [OF reachable.start] by simp
  let ?sw0 = "sy_switch s"
  have sw0: "sw_ok [] 1674 ?sw0" using oks by (simp add: system_ok_def)
  obtain b bs where b: "pool (sw_available_rx_buffer_pool ?sw0) = b # bs" "length bs = 4997"
    using len by (cases "pool (enc_available_buffer_pool e)") (auto simp: s_eq)
  let ?av = "(sw_available_rx_buffer_pool ?sw0)\<lparr>pool := bs\<rparr>"
  let ?sw1 = "?sw0\<lparr>sw_available_rx_buffer_pool := ?av\<rparr>"
  have b_ok: "buffer_ok 1674 b" and sw1: "sw_ok [] 1674 ?sw1" using sw0 b(1) by (auto simp: sw_ok_def pool_ok_def)
  have frame: "length broadcast_frame \<le> 1674" "12 \<le> length broadcast_frame" "length broadcast_frame = 60"
    "\<not> mac_is_group (slice 6 6 broadcast_frame)" "mac_is_group (slice 0 6 broadcast_frame)"
    by (simp_all add: broadcast_frame_def mac_is_group_def slice_def numeral_eq_Suc)
  obtain b2 where b2: "buffer_ok 1674 b2" "buffer_data b2 = broadcast_frame" and
    read: "tap_read_frame 0 broadcast_frame b ?sw1 = rbind (broadcast b2 (sw_remote_nodes ?sw1) ?av) (\<lambda>(nodes, avail).
       Inr (Handled (?sw1\<lparr>sw_fdb := FDB_learn 0 (slice 6 6 broadcast_frame) None (sw_fdb ?sw1), sw_remote_nodes := nodes,
         sw_available_rx_buffer_pool := avail\<rparr>)))"
    using tap_read_cases [OF sw1 b_ok frame(1,2), of 0] frame(4,5) by auto
  let ?rn1 = "rn\<lparr>rn_encoder_pool := (BufferPool 1674)\<lparr>pool := [b2]\<rparr>\<rparr>"
  have push: "push_to_encoder b2 (Some rn) = Inr (Some ?rn1)"
    using b2(1) by (simp add: push_to_encoder_def rn(4) BufferPool_push_ok [of _ 1674])
  have nodes0: "sw_remote_nodes ?sw0 = [(?k, Some rn)]" by (simp add: s_eq sw(2))
  let ?sw2 = "?sw1\<lparr>sw_fdb := FDB_learn 0 (slice 6 6 broadcast_frame) None (sw_fdb ?sw1), sw_remote_nodes := [(?k, Some ?rn1)]\<rparr>"
  have "tap_read_round 0 broadcast_frame ?sw0 = Inr (Handled ?sw2)"
    by (simp add: tap_read_round_def BufferPool_pop_wait_simps(2) [OF b(1)] read nodes0 push)
  from system_step.read_frame [OF _ frame(1) this]
  have step1: "system_step ?ratio store_codec [] 1674 s (s\<lparr>sy_switch := ?sw2\<rparr>)"
    by (simp add: after_tap_read_def s_eq)
  have r1: "reachable ?ratio store_codec [] 1674 s (s\<lparr>sy_switch := ?sw2\<rparr>)"
    by (rule reachable.step [OF reachable.start step1])
  have "map_find ?k (sw_remote_nodes (sy_switch (s\<lparr>sy_switch := ?sw2\<rparr>))) = Some (Some ?rn1)"
    "pool (rn_encoder_pool ?rn1) = [b2]" "sy_encoders (s\<lparr>sy_switch := ?sw2\<rparr>) ?k = Some (1, e)"
    by (simp_all add: s_eq)
  moreover have "dataSize b2 = 60" using b2 frame(3) by (simp add: length_buffer_data [symmetric])
  ultimately obtain st1 st2 st3 m where "system_step ?ratio store_codec [] 1674 (s\<lparr>sy_switch := ?sw2\<rparr>) st1"
    "system_step ?ratio store_codec [] 1674 st1 st2" "system_step ?ratio store_codec [] 1674 st2 st3"
    "m \<in> set (sy_network st3)"
    using sent_in_three_steps [of "[]" 1674 "s\<lparr>sy_switch := ?sw2\<rparr>" ?k ?rn1 b2 1 e store_codec ?ratio]
      conjunct1 [OF kept [OF r1]] e_new l4 lib by auto
  with r1 have "reachable ?ratio store_codec [] 1674 s st3" "m \<in> set (sy_network st3)"
    by (blast intro: reachable.step)+
  moreover from this have "st3 \<noteq> s" by (auto simp: s_eq)
  ultimately show thesis using that new s cap by metis
qed

end
