(* ===== verification/System_Calls.thy ===== *)
theory System_Calls
  imports Endian "HOL-Library.Multiset"
begin

text \<open>
  The system calls of the program. The operating system is a parameter: it answers a request from
  a state of its own, which the program does not see. The program's side is a computation that
  makes requests, can fail by an exception, and leaves a trace of what it asked and what it was
  answered, so that statements about the order of requests and about descriptors left open are
  statements about traces. Threads are started and joined through the same interface.
\<close>

section \<open>Requests and answers\<close>

datatype switch_thread = Tap_read | Socket_read | Tap_write | Fdb_expiry

datatype node_thread = Node_decoder | Node_encoder | Node_socket_write

text \<open>A thread of the switch, or one of the node with this key.\<close>

datatype thread_id = Switch_thread switch_thread | Node_thread "u8 list" node_thread

datatype ioctl_code = TUNSETIFF | SIOCGIFHWADDR | SIOCSIFMTU | SIOCGIFFLAGS | SIOCSIFFLAGS

datatype address_family = AF_INET | AF_INET6

datatype socket_option = IPV6_V6ONLY | SO_SNDBUF | SO_RCVBUF

text \<open>The bytes of a \<open>struct ifreq\<close>.\<close>

type_synonym ifreq = "u8 list"

text \<open>\<open>'a\<close> is the type of socket addresses.\<close>

datatype 'a request =
    Sys_signal
  | Sys_open string
  | Sys_socket address_family
  | Sys_ioctl int ioctl_code ifreq
  | Sys_setsockopt int socket_option int
  | Sys_bind int 'a
  | Sys_close int
  | Sys_setpriority int
  | Sys_setschedparam thread_id
  | Start_thread thread_id
  | Join_thread thread_id

text \<open>The value a call returns, \<open>errno\<close> after it, and the bytes it leaves in an \<open>ifreq\<close>.\<close>

record answer =
  ans_value :: int
  ans_errno :: int
  ans_ifreq :: ifreq

type_synonym ('a, 's) os = "'a request \<Rightarrow> 's \<Rightarrow> answer \<times> 's"

text \<open>The trace has the last request first.\<close>

record ('a, 's) world =
  w_os :: 's
  w_trace :: "('a request \<times> answer) list"

section \<open>Computations\<close>

type_synonym ('a, 's, 'r) io = "('a, 's) world \<Rightarrow> 'r result \<times> ('a, 's) world"

definition io_return :: "'r \<Rightarrow> ('a, 's, 'r) io" where
  "io_return x = (\<lambda>w. (Inr x, w))"

definition io_throw :: "cpp_error \<Rightarrow> ('a, 's, 'r) io" where
  "io_throw e = (\<lambda>w. (Inl e, w))"

definition io_lift :: "'r result \<Rightarrow> ('a, 's, 'r) io" where
  "io_lift r = (\<lambda>w. (r, w))"

definition io_bind :: "('a, 's, 'r) io \<Rightarrow> ('r \<Rightarrow> ('a, 's, 'q) io) \<Rightarrow> ('a, 's, 'q) io" where
  "io_bind m f = (\<lambda>w. case m w of (Inl e, w') \<Rightarrow> (Inl e, w') | (Inr x, w') \<Rightarrow> f x w')"

text \<open>What unwinding the stack does when an exception passes: \<open>h\<close>, and the exception goes on.\<close>

definition io_on_throw :: "('a, 's, 'r) io \<Rightarrow> ('a, 's, unit) io \<Rightarrow> ('a, 's, 'r) io" where
  "io_on_throw m h = (\<lambda>w. case m w of
     (Inl e, w') \<Rightarrow> (Inl e, snd (h w'))
   | (Inr x, w') \<Rightarrow> (Inr x, w'))"

definition request :: "('a, 's) os \<Rightarrow> 'a request \<Rightarrow> ('a, 's, answer) io" where
  "request os q = (\<lambda>w. let (a, s') = os q (w_os w)
                        in (Inr a, \<lparr>w_os = s', w_trace = (q, a) # w_trace w\<rparr>))"

fun io_each :: "('x \<Rightarrow> ('a, 's, unit) io) \<Rightarrow> 'x list \<Rightarrow> ('a, 's, unit) io" where
  "io_each f [] = io_return ()"
| "io_each f (x # xs) = io_bind (f x) (\<lambda>_. io_each f xs)"

section \<open>Postconditions\<close>

text \<open>\<open>io_post m Q w\<close>: started in \<open>w\<close>, the computation \<open>m\<close> ends with a result and a world that satisfy \<open>Q\<close>.\<close>

definition io_post :: "('a, 's, 'r) io \<Rightarrow> ('r result \<Rightarrow> ('a, 's) world \<Rightarrow> bool) \<Rightarrow> ('a, 's) world \<Rightarrow> bool" where
  "io_post m Q w \<longleftrightarrow> Q (fst (m w)) (snd (m w))"

named_theorems io_rules

lemma io_post_return [io_rules]: "io_post (io_return x) Q w \<longleftrightarrow> Q (Inr x) w"
  by (simp add: io_post_def io_return_def)

lemma io_post_throw [io_rules]: "io_post (io_throw e) Q w \<longleftrightarrow> Q (Inl e) w"
  by (simp add: io_post_def io_throw_def)

lemma io_post_lift [io_rules]: "io_post (io_lift r) Q w \<longleftrightarrow> Q r w"
  by (simp add: io_post_def io_lift_def)

lemma io_post_bind [io_rules]:
  "io_post (io_bind m f) Q w \<longleftrightarrow>
     io_post m (\<lambda>r w'. case r of Inl e \<Rightarrow> Q (Inl e) w' | Inr x \<Rightarrow> io_post (f x) Q w') w"
  by (simp add: io_post_def io_bind_def split: prod.split sum.split)

lemma io_post_on_throw [io_rules]:
  "io_post (io_on_throw m h) Q w \<longleftrightarrow>
     io_post m (\<lambda>r w'. case r of Inl e \<Rightarrow> io_post h (\<lambda>_ w''. Q (Inl e) w'') w' | Inr x \<Rightarrow> Q (Inr x) w') w"
  by (simp add: io_post_def io_on_throw_def split: prod.split sum.split)

lemma io_post_if [io_rules]:
  "io_post (if b then m else n) Q w \<longleftrightarrow> (b \<longrightarrow> io_post m Q w) \<and> (\<not> b \<longrightarrow> io_post n Q w)"
  by simp

lemma io_post_request:
  "(\<And>a s'. os q (w_os w) = (a, s') \<Longrightarrow> Q (Inr a) \<lparr>w_os = s', w_trace = (q, a) # w_trace w\<rparr>) \<Longrightarrow>
    io_post (request os q) Q w"
  by (simp add: io_post_def request_def split: prod.split)

lemma io_post_mono:
  "io_post m Q w \<Longrightarrow> (\<And>r w'. Q r w' \<Longrightarrow> R r w') \<Longrightarrow> io_post m R w"
  by (simp add: io_post_def)

lemma io_postD: "io_post m Q w \<Longrightarrow> m w = (r, w') \<Longrightarrow> Q r w'"
  by (simp add: io_post_def)

lemma io_postI: "(\<And>r w'. m w = (r, w') \<Longrightarrow> Q r w') \<Longrightarrow> io_post m Q w"
  by (cases "m w") (simp add: io_post_def)

section \<open>Descriptors\<close>

text \<open>The descriptors that are open after a trace: what was opened and not closed.\<close>

fun open_fds :: "('a request \<times> answer) list \<Rightarrow> int multiset" where
  "open_fds [] = {#}"
| "open_fds ((q, a) # t) =
     (case q of
        Sys_open p \<Rightarrow> if ans_value a < 0 then open_fds t else add_mset (ans_value a) (open_fds t)
      | Sys_socket f \<Rightarrow> if ans_value a < 0 then open_fds t else add_mset (ans_value a) (open_fds t)
      | Sys_close fd \<Rightarrow> open_fds t - {#fd#}
      | _ \<Rightarrow> open_fds t)"

lemma open_fds_nonneg: "fd \<in># open_fds t \<Longrightarrow> 0 \<le> fd"
  by (induction t rule: open_fds.induct) (auto split: request.splits if_splits dest: in_diffD)

lemma open_fds_no_close: "fd < 0 \<Longrightarrow> open_fds t - {#fd#} = open_fds t"
  using open_fds_nonneg [of fd t] by (intro diff_single_trivial) auto

section \<open>What was asked for\<close>

definition requests :: "('a request \<times> answer) list \<Rightarrow> 'a request list" where
  "requests t = map fst (rev t)"

lemma requests_simps [simp]:
  "requests [] = []"
  "requests ((q, a) # t) = requests t @ [q]"
  "requests (t @ u) = requests u @ requests t"
  by (simp_all add: requests_def)

section \<open>Threads\<close>

definition started :: "('a request \<times> answer) list \<Rightarrow> thread_id list" where
  "started t = concat (map (\<lambda>(q, a). case q of Start_thread i \<Rightarrow> [i] | _ \<Rightarrow> []) (rev t))"

definition joined :: "('a request \<times> answer) list \<Rightarrow> thread_id list" where
  "joined t = concat (map (\<lambda>(q, a). case q of Join_thread i \<Rightarrow> [i] | _ \<Rightarrow> []) (rev t))"

lemma started_simps [simp]:
  "started [] = []"
  "started ((q, a) # t) = started t @ (case q of Start_thread i \<Rightarrow> [i] | _ \<Rightarrow> [])"
  "started (t @ u) = started u @ started t"
  by (simp_all add: started_def)

lemma joined_simps [simp]:
  "joined [] = []"
  "joined ((q, a) # t) = joined t @ (case q of Join_thread i \<Rightarrow> [i] | _ \<Rightarrow> [])"
  by (simp_all add: joined_def)

end
