(* ===== verification/Tap_Interface.thy ===== *)
theory Tap_Interface
  imports System_Calls
begin

unbundle bit_operations_syntax

text \<open>
  The TAP device (\<open>class TAPInterface\<close>, \<open>src/tap_interface.cpp\<close>): its construction, the MTU and
  the bring-up, as computations over system calls. A \<open>struct ifreq\<close> is its 40 bytes: the name in
  the first 16, the value of the request behind it. Log lines are left out.
\<close>

section \<open>The request structure\<close>

definition sizeof_ifreq :: nat where "sizeof_ifreq = 40"
definition ifr_value_offset :: nat where "ifr_value_offset = 16"
definition ETH_ALEN :: nat where "ETH_ALEN = 6"

definition IFF_UP :: u16 where "IFF_UP = 0x1"
definition IFF_TAP :: u16 where "IFF_TAP = 0x2"
definition IFF_NO_PI :: u16 where "IFF_NO_PI = 0x1000"

definition char_bytes :: "string \<Rightarrow> u8 list" where
  "char_bytes s = map (\<lambda>c. of_nat (of_char c)) s"

text \<open>\<open>memset\<close> and the copy of the name; a name longer than the structure is written past its end.\<close>

definition ifreq_named :: "string \<Rightarrow> ifreq result" where
  "ifreq_named ifname =
     (if length ifname \<le> sizeof_ifreq
      then Inr (overwrite 0 (char_bytes ifname) (replicate sizeof_ifreq 0)) else Inl Out_of_bounds)"

definition ifr_flags :: "ifreq \<Rightarrow> u16" where
  "ifr_flags ifr = load16 (slice ifr_value_offset 2 ifr)"

definition ifr_set_flags :: "u16 \<Rightarrow> ifreq \<Rightarrow> ifreq" where
  "ifr_set_flags x ifr = overwrite ifr_value_offset (store16 x) ifr"

definition ifr_set_mtu :: "int \<Rightarrow> ifreq \<Rightarrow> ifreq" where
  "ifr_set_mtu mtu ifr = overwrite ifr_value_offset (store32 (word_of_int mtu)) ifr"

text \<open>The address family comes before the bytes of the link-layer address.\<close>

definition ifr_hwaddr_data :: "ifreq \<Rightarrow> u8 list" where
  "ifr_hwaddr_data ifr = slice (ifr_value_offset + 2) ETH_ALEN ifr"

section \<open>The object\<close>

record tap_interface =
  tap_fd :: int
  tap_hwaddr :: "u8 list"
  tap_ifname :: string
  tap_mtu :: u16
  tap_online :: bool

definition TAPInterface_getFD :: "tap_interface \<Rightarrow> int" where
  "TAPInterface_getFD tap = tap_fd tap"

definition TAPInterface_getMTU :: "tap_interface \<Rightarrow> u16" where
  "TAPInterface_getMTU tap = tap_mtu tap"

definition TAPInterface_isOnline :: "tap_interface \<Rightarrow> bool" where
  "TAPInterface_isOnline tap = tap_online tap"

text \<open>Every failure after the device is open closes it and throws with the text of \<open>errno\<close>.\<close>

definition close_and_throw :: "('a, 's) os \<Rightarrow> int \<Rightarrow> string \<Rightarrow> ('a, 's, 'r) io" where
  "close_and_throw os fd what =
     io_bind (request os (Sys_close fd)) (\<lambda>_. io_throw (Runtime_error what))"

text \<open>\<open>garbage\<close> is what the member \<open>online\<close> holds, which the constructor does not set.\<close>

definition TAPInterface ::
    "(int \<Rightarrow> string) \<Rightarrow> bool \<Rightarrow> ('a, 's) os \<Rightarrow> string \<Rightarrow> ('a, 's, tap_interface) io"
where
  "TAPInterface strerror garbage os ifname =
     io_bind (request os (Sys_open ''/dev/net/tun'')) (\<lambda>o1.
     let fd = ans_value o1 in
     if fd < 0 then
       io_throw (Runtime_error (''Cannot open TUN/TAP device file: '' @ strerror (ans_errno o1)))
     else
     io_bind (io_lift (ifreq_named ifname)) (\<lambda>ifr.
     io_bind (request os (Sys_ioctl fd TUNSETIFF (ifr_set_flags (IFF_TAP OR IFF_NO_PI) ifr))) (\<lambda>o2.
     if ans_value o2 = - 1 then
       close_and_throw os fd (''Cannot ioctl TUNSETIFF on '' @ [CHR 0x27] @ ifname @ [CHR 0x27] @ '': ''
         @ strerror (ans_errno o2))
     else
     io_bind (io_lift (ifreq_named ifname)) (\<lambda>ifr_hw.
     io_bind (request os (Sys_ioctl fd SIOCGIFHWADDR ifr_hw)) (\<lambda>o3.
     if ans_value o3 = - 1 then
       close_and_throw os fd (''Cannot get link-layer address: '' @ strerror (ans_errno o3))
     else
       io_return \<lparr>tap_fd = fd, tap_hwaddr = ifr_hwaddr_data (ans_ifreq o3), tap_ifname = ifname,
                  tap_mtu = 1500, tap_online = garbage\<rparr>)))))"

text \<open>The destructor takes descriptor 0 for none.\<close>

definition TAPInterface_destroy :: "('a, 's) os \<Rightarrow> tap_interface \<Rightarrow> ('a, 's, unit) io" where
  "TAPInterface_destroy os tap =
     (if tap_fd tap \<noteq> 0 then io_bind (request os (Sys_close (tap_fd tap))) (\<lambda>_. io_return ())
      else io_return ())"

definition TAPInterface_setMTU ::
    "(int \<Rightarrow> string) \<Rightarrow> ('a, 's) os \<Rightarrow> int \<Rightarrow> tap_interface \<Rightarrow> ('a, 's, tap_interface) io"
where
  "TAPInterface_setMTU strerror os mtu tap =
     io_bind (request os (Sys_socket AF_INET)) (\<lambda>o1.
     let sockfd = ans_value o1 in
     if sockfd = - 1 then
       io_throw (Runtime_error (''Cannot open socket to set interface '' @ [CHR 0x27] @ tap_ifname tap
         @ [CHR 0x27] @ '' MTU: '' @ strerror (ans_errno o1)))
     else
     io_bind (io_lift (ifreq_named (tap_ifname tap))) (\<lambda>ifr.
     io_bind (request os (Sys_ioctl sockfd SIOCSIFMTU (ifr_set_mtu mtu ifr))) (\<lambda>o2.
     if ans_value o2 = - 1 then
       close_and_throw os sockfd (''Cannot set interface MTU on '' @ [CHR 0x27] @ tap_ifname tap
         @ [CHR 0x27] @ '': '' @ strerror (ans_errno o2))
     else
     io_bind (request os (Sys_close sockfd)) (\<lambda>_.
     io_return (tap\<lparr>tap_mtu := word_of_int mtu, tap_online := False\<rparr>)))))"

definition TAPInterface_start ::
    "(int \<Rightarrow> string) \<Rightarrow> ('a, 's) os \<Rightarrow> tap_interface \<Rightarrow> ('a, 's, tap_interface) io"
where
  "TAPInterface_start strerror os tap =
     io_bind (request os (Sys_socket AF_INET)) (\<lambda>o1.
     let sockfd = ans_value o1 in
     if sockfd = - 1 then
       io_throw (Runtime_error (''Cannot open socket to set interface UP: '' @ strerror (ans_errno o1)))
     else
     io_bind (io_lift (ifreq_named (tap_ifname tap))) (\<lambda>ifr.
     io_bind (request os (Sys_ioctl sockfd SIOCGIFFLAGS ifr)) (\<lambda>o2.
     if ans_value o2 = - 1 then
       close_and_throw os sockfd (''Cannot get interface flags for '' @ [CHR 0x27] @ tap_ifname tap
         @ [CHR 0x27] @ '': '' @ strerror (ans_errno o2))
     else
     let ifr' = ans_ifreq o2 in
     io_bind (request os (Sys_ioctl sockfd SIOCSIFFLAGS (ifr_set_flags (ifr_flags ifr' OR IFF_UP) ifr')))
       (\<lambda>o3.
     if ans_value o3 = - 1 then
       close_and_throw os sockfd (''Cannot set interface UP: '' @ strerror (ans_errno o3))
     else
     io_bind (request os (Sys_close sockfd)) (\<lambda>_.
     io_return (tap\<lparr>tap_online := True\<rparr>))))))"

end
