(* ===== verification/Program_Start.thy ===== *)
theory Program_Start
  imports Tap_Interface Packet_Switch Settings
begin

text \<open>
  The start of the program: the constructor of the packet switch with its device and its socket,
  the start and the join of the threads (\<open>src/packet_switch.cpp\<close>, \<open>src/remote_node.cpp\<close>),
  \<open>start_seth\<close> with the signal handler (\<open>src/superethd.cpp\<close>) and \<open>main\<close> as a whole. What the
  threads do between start and join is the subject of the transition system in \<open>Switch_Steps\<close>.
\<close>

section \<open>The socket\<close>

definition create_udp_socket ::
    "(int \<Rightarrow> string) \<Rightarrow> (sockaddr, 's) os \<Rightarrow> u16 \<Rightarrow> sockaddr \<Rightarrow> (sockaddr, 's, int) io"
where
  "create_udp_socket strerror os l2mtu src_addr =
     io_bind (request os (Sys_socket AF_INET6)) (\<lambda>o1.
     let udp_socket = ans_value o1 in
     if udp_socket < 0 then
       io_throw (Runtime_error (''ERROR: Socket creation failed: '' @ strerror (ans_errno o1)))
     else
     io_bind (request os (Sys_setsockopt udp_socket IPV6_V6ONLY 0)) (\<lambda>o2.
     if ans_value o2 = - 1 then
       close_and_throw os udp_socket (''ERROR: Failed to set IPV6_V6ONLY: '' @ strerror (ans_errno o2))
     else
     let buffer_size = uint l2mtu * 8192 in
     io_bind (request os (Sys_setsockopt udp_socket SO_SNDBUF buffer_size)) (\<lambda>o3.
     if ans_value o3 < 0 then
       close_and_throw os udp_socket (''ERROR: Failed to set send buffer size: '' @ strerror (ans_errno o3))
     else
     io_bind (request os (Sys_setsockopt udp_socket SO_RCVBUF buffer_size)) (\<lambda>o4.
     if ans_value o4 < 0 then
       close_and_throw os udp_socket (''ERROR: Failed to set receive buffer size: '' @ strerror (ans_errno o4))
     else
     io_bind (request os (Sys_bind udp_socket src_addr)) (\<lambda>o5.
     if ans_value o5 = - 1 then
       close_and_throw os udp_socket (''ERROR: Failed to bind UDP socket: '' @ strerror (ans_errno o5))
     else io_return udp_socket)))))"

definition destroy_udp_socket :: "(sockaddr, 's) os \<Rightarrow> int \<Rightarrow> (sockaddr, 's, unit) io" where
  "destroy_udp_socket os udp_socket = io_bind (request os (Sys_close udp_socket)) (\<lambda>_. io_return ())"

section \<open>The switch with its device and its socket\<close>

record switch_object =
  so_switch :: packet_switch
  so_tap :: tap_interface
  so_udp_socket :: int
  so_stop_flag :: bool

text \<open>What uninitialised memory holds: arrays, and the flags nobody sets in a constructor.\<close>

record uninitialised =
  un_addr :: sockaddr
  un_key :: "u8 list"
  un_online :: bool
  un_stop_flag :: bool

text \<open>
  An exception after the device is made destroys it: the pointer to it is a member. The parts
  that make no request (sizes, pools, remote nodes) are those of \<^const>\<open>PacketSwitch\<close>.
\<close>

definition PacketSwitch_object ::
    "(int \<Rightarrow> string) \<Rightarrow> uninitialised \<Rightarrow> (sockaddr, 's) os \<Rightarrow> string \<Rightarrow> int \<Rightarrow> int \<Rightarrow> u8 \<Rightarrow> sockaddr \<Rightarrow>
       sockaddr list \<Rightarrow> int \<Rightarrow> (sockaddr, 's, switch_object) io"
where
  "PacketSwitch_object strerror un os ifname mtu tx_size packet_format src_addr dst_addrs port =
     io_bind (io_lift (PacketSwitch_check mtu tx_size)) (\<lambda>_.
     io_bind (TAPInterface strerror (un_online un) os ifname) (\<lambda>tap.
     io_on_throw
       (io_bind (TAPInterface_setMTU strerror os mtu tap) (\<lambda>tap.
        io_bind (create_udp_socket strerror os (get_l2mtu_from_mtu (word_of_int mtu)) src_addr) (\<lambda>udp_socket.
        io_bind (io_lift (PacketSwitch (un_addr un) (un_key un) udp_socket mtu tx_size packet_format
                            src_addr dst_addrs port)) (\<lambda>sw.
        io_return \<lparr>so_switch = sw, so_tap = tap, so_udp_socket = udp_socket,
                   so_stop_flag = un_stop_flag un\<rparr>))))
       (TAPInterface_destroy os tap)))"

section \<open>Threads\<close>

text \<open>\<open>std::thread\<close> throws when the thread cannot be made; a priority that is refused is logged.\<close>

definition start_thread :: "('a, 's) os \<Rightarrow> thread_id \<Rightarrow> ('a, 's, unit) io" where
  "start_thread os i =
     io_bind (request os (Start_thread i)) (\<lambda>a.
     if ans_value a \<noteq> 0 then io_throw System_error else io_return ())"

definition raise_priority :: "('a, 's) os \<Rightarrow> thread_id \<Rightarrow> ('a, 's, unit) io" where
  "raise_priority os i = io_bind (request os (Sys_setschedparam i)) (\<lambda>_. io_return ())"

definition join_thread :: "('a, 's) os \<Rightarrow> thread_id \<Rightarrow> ('a, 's, unit) io" where
  "join_thread os i = io_bind (request os (Join_thread i)) (\<lambda>_. io_return ())"

definition RemoteNode_start :: "('a, 's) os \<Rightarrow> remote_node \<Rightarrow> ('a, 's, unit) io" where
  "RemoteNode_start os rn =
     (let threads = map (Node_thread (rn_node_key rn)) [Node_decoder, Node_encoder, Node_socket_write]
      in io_bind (io_each (start_thread os) threads) (\<lambda>_. io_each (raise_priority os) threads))"

definition RemoteNode_wait :: "('a, 's) os \<Rightarrow> remote_node \<Rightarrow> ('a, 's, unit) io" where
  "RemoteNode_wait os rn =
     io_each (join_thread os)
       (map (Node_thread (rn_node_key rn)) [Node_decoder, Node_encoder, Node_socket_write])"

definition the_node :: "(remote_node \<Rightarrow> ('a, 's, unit) io) \<Rightarrow> remote_node option \<Rightarrow> ('a, 's, unit) io" where
  "the_node f n = (case n of None \<Rightarrow> io_throw Null_pointer | Some rn \<Rightarrow> f rn)"

definition PacketSwitch_start ::
    "(int \<Rightarrow> string) \<Rightarrow> ('a, 's) os \<Rightarrow> switch_object \<Rightarrow> ('a, 's, switch_object) io"
where
  "PacketSwitch_start strerror os so =
     io_bind (io_each (start_thread os)
                (map Switch_thread [Tap_read, Socket_read, Tap_write, Fdb_expiry])) (\<lambda>_.
     io_bind (request os (Sys_setpriority (- 10))) (\<lambda>a.
     if ans_value a < 0 then
       io_throw (Runtime_error (''Could not set process nice value: '' @ strerror (ans_errno a)))
     else
     io_bind (io_each (raise_priority os) (map Switch_thread [Tap_read, Socket_read, Tap_write])) (\<lambda>_.
     io_bind (io_each (the_node (RemoteNode_start os)) (map snd (sw_remote_nodes (so_switch so)))) (\<lambda>_.
     io_bind (TAPInterface_start strerror os (so_tap so)) (\<lambda>tap.
     io_return (so\<lparr>so_tap := tap\<rparr>))))))"

definition PacketSwitch_wait :: "('a, 's) os \<Rightarrow> switch_object \<Rightarrow> ('a, 's, unit) io" where
  "PacketSwitch_wait os so =
     io_bind (io_each (join_thread os)
                (map Switch_thread [Tap_read, Socket_read, Tap_write, Fdb_expiry])) (\<lambda>_.
     io_each (the_node (RemoteNode_wait os)) (map snd (sw_remote_nodes (so_switch so))))"

definition PacketSwitch_stop :: "switch_object \<Rightarrow> switch_object" where
  "PacketSwitch_stop so = so\<lparr>so_stop_flag := True\<rparr>"

section \<open>The program\<close>

text \<open>The handler uses the global pointer, which is null until the switch is constructed.\<close>

definition handleSIGUSR1 :: "switch_object option \<Rightarrow> switch_object option result" where
  "handleSIGUSR1 global =
     (case global of None \<Rightarrow> Inl Null_pointer | Some so \<Rightarrow> Inr (Some (PacketSwitch_stop so)))"

text \<open>
  \<open>start_seth\<close> returns, or ends the program: failures of the constructor are caught, an exception
  of \<open>start\<close> is not.
\<close>

definition start_seth ::
    "(int \<Rightarrow> string) \<Rightarrow> uninitialised \<Rightarrow> (sockaddr, 's) os \<Rightarrow> string \<Rightarrow> int \<Rightarrow> int \<Rightarrow> u8 \<Rightarrow> sockaddr \<Rightarrow>
       sockaddr list \<Rightarrow> int \<Rightarrow> (sockaddr, 's) world \<Rightarrow> (main_exit + int) \<times> (sockaddr, 's) world"
where
  "start_seth strerror un os ifname mtu tx_size packet_format src_addr dst_addrs port w =
     (case request os Sys_signal w of
        (Inl e, w) \<Rightarrow> (Inl Terminates, w)
      | (Inr a, w) \<Rightarrow>
          if ans_value a = - 1 then
            (Inl (Exit EXIT_FAILURE
               (''ERROR: Failed to register signal handler: '' @ strerror (ans_errno a))), w)
          else
          (case PacketSwitch_object strerror un os ifname mtu tx_size packet_format src_addr dst_addrs port w of
             (Inl (Config_error what), w) \<Rightarrow>
               (Inl (Exit EXIT_FAILURE (''Failed to initialize packet switch: '' @ what)), w)
           | (Inl (Runtime_error what), w) \<Rightarrow>
               (Inl (Exit EXIT_FAILURE (''Failed to initialize packet switch: '' @ what)), w)
           | (Inl e, w) \<Rightarrow> (Inl Terminates, w)
           | (Inr so, w) \<Rightarrow>
               (case io_bind (PacketSwitch_start strerror os so) (PacketSwitch_wait os) w of
                  (Inl e, w) \<Rightarrow> (Inl Terminates, w)
                | (Inr _, w) \<Rightarrow> (Inr 0, w))))"

definition superethd ::
    "(int \<Rightarrow> string) \<Rightarrow> uninitialised \<Rightarrow> (sockaddr, 's) os \<Rightarrow> environment \<Rightarrow> logger \<Rightarrow> (char \<times> string) list \<Rightarrow>
       (sockaddr, 's) world \<Rightarrow> (main_exit + int) \<times> (sockaddr, 's) world"
where
  "superethd strerror un os env lg args w =
     (case configure env lg args of
        Inl e \<Rightarrow> (Inl e, w)
      | Inr start \<Rightarrow>
          (let cfg = start_settings start
           in case start_seth strerror un os (cfg_ifname cfg) (cfg_mtu cfg) (cfg_txsize cfg)
                     (PacketHeaderOptionFormatType_value (cfg_packet_format cfg)) (start_src_addr start)
                     (start_dst_addrs start) (cfg_tunnel_port cfg) w of
                (Inl e, w) \<Rightarrow> (Inl e, w)
              | (Inr _, w) \<Rightarrow> (Inr 0, w)))"

end
