(* ===== verification/Start_Correct.thy ===== *)
theory Start_Correct
  imports Program_Start Switch_Start
begin

unbundle bit_operations_syntax

text \<open>
  What the start of the program does to the outside: the descriptors it leaves open, the requests
  it makes and their order, the threads it starts and joins.
\<close>

section \<open>Descriptors\<close>

text \<open>What an operation adds to the open descriptors: nothing when it throws.\<close>

definition fd_change :: "('r \<Rightarrow> int multiset) \<Rightarrow> ('a, 's) world \<Rightarrow> 'r result \<Rightarrow> ('a, 's) world \<Rightarrow> bool" where
  "fd_change f w r w' \<longleftrightarrow> open_fds (w_trace w') =
     open_fds (w_trace w) + (case r of Inl e \<Rightarrow> {#} | Inr x \<Rightarrow> f x)"

lemmas io_defs = io_rules Let_def close_and_throw_def

lemma TAPInterface_fds:
  "length ifname \<le> 40 \<Longrightarrow> io_post (TAPInterface strerror g os ifname)
     (\<lambda>r w'. fd_change (\<lambda>tap. {#tap_fd tap#}) w r w' \<and> (\<forall>tap. r = Inr tap \<longrightarrow> tap_ifname tap = ifname \<and>
        tap_fd tap = ans_value (fst (os (Sys_open ''/dev/net/tun'') (w_os w))))) w"
  by (auto simp: TAPInterface_def io_defs ifreq_named_def sizeof_ifreq_def fd_change_def intro!: io_post_request)

lemma TAPInterface_setMTU_fds:
  "length (tap_ifname tap) \<le> 40 \<Longrightarrow> io_post (TAPInterface_setMTU strerror os mtu tap)
     (\<lambda>r w'. fd_change (\<lambda>_. {#}) w r w' \<and>
        (\<forall>tap'. r = Inr tap' \<longrightarrow> tap' = tap\<lparr>tap_mtu := word_of_int mtu, tap_online := False\<rparr>)) w"
  by (auto simp: TAPInterface_setMTU_def io_defs ifreq_named_def sizeof_ifreq_def fd_change_def
      open_fds_no_close intro!: io_post_request)

lemma TAPInterface_start_fds:
  "length (tap_ifname tap) \<le> 40 \<Longrightarrow> io_post (TAPInterface_start strerror os tap)
     (\<lambda>r w'. fd_change (\<lambda>_. {#}) w r w' \<and> (\<forall>tap'. r = Inr tap' \<longrightarrow> tap' = tap\<lparr>tap_online := True\<rparr>)) w"
  by (auto simp: TAPInterface_start_def io_defs ifreq_named_def sizeof_ifreq_def fd_change_def
      open_fds_no_close intro!: io_post_request)

lemma TAPInterface_destroy_fds:
  "io_post (TAPInterface_destroy os tap)
     (\<lambda>r w'. open_fds (w_trace w') = open_fds (w_trace w) - (if tap_fd tap = 0 then {#} else {#tap_fd tap#})) w"
  by (auto simp: TAPInterface_destroy_def io_defs intro!: io_post_request)

lemma create_udp_socket_fds:
  "io_post (create_udp_socket strerror os l2mtu src) (fd_change (\<lambda>sock. {#sock#}) w) w"
  by (auto simp: create_udp_socket_def io_defs fd_change_def intro!: io_post_request)

lemma PacketSwitch_fails_iff:
  "PacketSwitch g gk s mtu tx fmt src dsts port = Inl e \<longleftrightarrow> PacketSwitch_check mtu tx = Inl e"
  by (simp add: PacketSwitch_def Let_def rbind_Inl_conv)

text \<open>The device is never opened as descriptor 0, which the destructor would take for none.\<close>

definition no_descriptor_0 :: "('a, 's) os \<Rightarrow> bool" where
  "no_descriptor_0 os \<longleftrightarrow> (\<forall>s. ans_value (fst (os (Sys_open ''/dev/net/tun'') s)) \<noteq> 0)"

lemma PacketSwitch_object_fds:
  assumes name: "length ifname \<le> 40" and fd: "no_descriptor_0 os"
  shows "io_post (PacketSwitch_object strerror un os ifname mtu tx fmt src dsts port)
    (fd_change (\<lambda>so. {#tap_fd (so_tap so), so_udp_socket so#}) w) w"
proof -
  have fd': "ans_value a \<noteq> 0" if "os (Sys_open ''/dev/net/tun'') s = (a, s')" for a s s'
    using fd that by (auto simp: no_descriptor_0_def dest: spec [of _ s])
  show ?thesis
    using name unfolding PacketSwitch_object_def TAPInterface_def TAPInterface_setMTU_def
      TAPInterface_destroy_def create_udp_socket_def
    by (auto simp: io_defs ifreq_named_def sizeof_ifreq_def fd_change_def open_fds_no_close
        PacketSwitch_fails_iff intro!: io_post_request dest!: fd' split: sum.split)
qed

section \<open>Requests\<close>

text \<open>The first 16 bytes of the request structure: the name, ended by zeros.\<close>

definition ifr_name_field :: "string \<Rightarrow> u8 list" where
  "ifr_name_field ifname = char_bytes ifname @ replicate (16 - length ifname) 0"

lemma length_ifr_name_field [simp]: "length ifname \<le> 16 \<Longrightarrow> length (ifr_name_field ifname) = 16"
  by (simp add: ifr_name_field_def char_bytes_def)

lemma ifreq_named_field:
  "length ifname \<le> 16 \<Longrightarrow> ifreq_named ifname = Inr (ifr_name_field ifname @ replicate 24 0)"
  by (simp add: ifreq_named_def sizeof_ifreq_def ifr_name_field_def overwrite_def char_bytes_def
      flip: replicate_add)

lemma ifr_set_flags_field:
  "length n = 16 \<Longrightarrow> ifr_set_flags x (n @ replicate 24 0) = n @ store16 x @ replicate 22 0"
  by (simp add: ifr_set_flags_def ifr_value_offset_def overwrite_def)

lemma ifr_set_mtu_field:
  "length n = 16 \<Longrightarrow> ifr_set_mtu mtu (n @ replicate 24 0) = n @ store32 (word_of_int mtu) @ replicate 20 0"
  by (simp add: ifr_set_mtu_def ifr_value_offset_def overwrite_def)

text \<open>
  The requests of a constructor that returns: the device is opened, named and given its MTU, the
  socket is made to take IPv4 as well, given its buffers and bound.
\<close>

definition device_requests :: "string \<Rightarrow> int \<Rightarrow> sockaddr \<Rightarrow> int \<Rightarrow> int \<Rightarrow> int \<Rightarrow> sockaddr request list" where
  "device_requests ifname mtu src fd ctl sock =
    [Sys_open ''/dev/net/tun'',
     Sys_ioctl fd TUNSETIFF (ifr_name_field ifname @ store16 0x1002 @ replicate 22 0),
     Sys_ioctl fd SIOCGIFHWADDR (ifr_name_field ifname @ replicate 24 0),
     Sys_socket AF_INET,
     Sys_ioctl ctl SIOCSIFMTU (ifr_name_field ifname @ store32 (word_of_int mtu) @ replicate 20 0),
     Sys_close ctl, Sys_socket AF_INET6, Sys_setsockopt sock IPV6_V6ONLY 0,
     Sys_setsockopt sock SO_SNDBUF ((mtu + 22) * 8192),
     Sys_setsockopt sock SO_RCVBUF ((mtu + 22) * 8192), Sys_bind sock src]"

lemma PacketSwitch_object_requests:
  assumes name: "length ifname \<le> 16"
  shows "io_post (PacketSwitch_object strerror un os ifname mtu tx fmt src dsts port)
    (\<lambda>r w'. \<forall>so. r = Inr so \<longrightarrow>
      (\<exists>ctl. requests (w_trace w') = requests (w_trace w) @
         device_requests ifname mtu src (tap_fd (so_tap so)) ctl (so_udp_socket so)) \<and>
      tap_ifname (so_tap so) = ifname \<and> tap_mtu (so_tap so) = word_of_int mtu \<and> \<not> tap_online (so_tap so) \<and>
      PacketSwitch (un_addr un) (un_key un) (so_udp_socket so) mtu tx fmt src dsts port = Inr (so_switch so)) w"
proof -
  have l2: "uint (get_l2mtu_from_mtu (word_of_int mtu)) = mtu + 22" if "PacketSwitch_check mtu tx = Inr ()"
  proof -
    have "1200 \<le> mtu" "mtu \<le> 9218" using that by (simp_all add: PacketSwitch_check_iff)
    then show ?thesis using l2_value_of [of mtu] by (simp add: uint_nat)
  qed
  show ?thesis
    using name unfolding PacketSwitch_object_def TAPInterface_def TAPInterface_setMTU_def
      TAPInterface_destroy_def create_udp_socket_def
    by (auto simp: io_defs ifreq_named_field ifr_set_flags_field ifr_set_mtu_field IFF_TAP_def IFF_NO_PI_def l2
        device_requests_def intro!: io_post_request split: sum.split)
qed

text \<open>The flags are read, the bit for up is set, and everything else goes back as it came.\<close>

definition up_requests :: "string \<Rightarrow> int \<Rightarrow> ifreq \<Rightarrow> 'a request list" where
  "up_requests ifname ctl ifr =
    [Sys_socket AF_INET, Sys_ioctl ctl SIOCGIFFLAGS (ifr_name_field ifname @ replicate 24 0),
     Sys_ioctl ctl SIOCSIFFLAGS (ifr_set_flags (ifr_flags ifr OR IFF_UP) ifr), Sys_close ctl]"

lemma TAPInterface_start_requests:
  "length (tap_ifname tap) \<le> 16 \<Longrightarrow> io_post (TAPInterface_start strerror os tap)
    (\<lambda>r w'. \<forall>tap'. r = Inr tap' \<longrightarrow> tap' = tap\<lparr>tap_online := True\<rparr> \<and>
      (\<exists>ctl a. requests (w_trace w') = requests (w_trace w) @ up_requests (tap_ifname tap) ctl (ans_ifreq a) \<and>
         (Sys_ioctl ctl SIOCGIFFLAGS (ifr_name_field (tap_ifname tap) @ replicate 24 0), a) \<in> set (w_trace w'))) w"
  by (auto simp: TAPInterface_start_def io_defs ifreq_named_field up_requests_def intro!: io_post_request) blast

section \<open>Threads\<close>

text \<open>\<open>asks f m\<close>: when the computation \<open>m\<close> returns, it has made the requests \<open>f\<close>.\<close>

definition asks :: "'a request list \<Rightarrow> ('a, 's, unit) io \<Rightarrow> bool" where
  "asks qs m \<longleftrightarrow> 
     (\<forall>w w'. m w = (Inr (), w') \<longrightarrow> (\<exists>t. w_trace w' = t @ w_trace w \<and> requests t = qs))"

lemma asksI: "(\<And>w w'. m w = (Inr (), w') \<Longrightarrow> \<exists>t. w_trace w' = t @ w_trace w \<and> requests t = qs) \<Longrightarrow> asks qs m"
  by (simp add: asks_def)

lemma asksE:
  assumes "asks qs m" and "m w = (Inr u, w')"
  obtains t where "w_trace w' = t @ w_trace w" and "requests t = qs"
  using assms by (cases u) (auto simp: asks_def)

lemma asksD: "asks qs m \<Longrightarrow> m w = (Inr u, w') \<Longrightarrow> requests (w_trace w') = requests (w_trace w) @ qs"
  by (auto elim: asksE)

lemma request_trace: "request os q w = (r, w') \<Longrightarrow> \<exists>a. r = Inr a \<and> w_trace w' = (q, a) # w_trace w"
  by (auto simp: request_def split: prod.splits)

lemma asks_bind:
  assumes "asks qs m" and "asks rs n"
  shows "asks (qs @ rs) (io_bind m (\<lambda>_. n))"
proof (rule asksI)
  fix w w' assume "io_bind m (\<lambda>_. n) w = (Inr (), w')"
  then obtain w1 where 1: "m w = (Inr (), w1)" "n w1 = (Inr (), w')"
    by (auto simp: io_bind_def split: prod.splits sum.splits)
  obtain t where t: "w_trace w1 = t @ w_trace w" "requests t = qs" by (rule asksE [OF assms(1) 1(1)])
  obtain u where u: "w_trace w' = u @ w_trace w1" "requests u = rs" by (rule asksE [OF assms(2) 1(2)])
  have "w_trace w' = (u @ t) @ w_trace w \<and> requests (u @ t) = qs @ rs" using t u by simp
  then show "\<exists>v. w_trace w' = v @ w_trace w \<and> requests v = qs @ rs" by blast
qed

lemma asks_each:
  "(\<And>x. x \<in> set xs \<Longrightarrow> asks (g x) (f x)) \<Longrightarrow> asks (concat (map g xs)) (io_each f xs)"
proof (induction xs)
  case Nil
  show ?case by (simp add: asks_def io_return_def requests_def)
next
  case (Cons x xs)
  then show ?case by (auto intro!: asks_bind)
qed

lemma asks_request: "asks [q] (io_bind (request os q) (\<lambda>_. io_return ()))"
  by (auto simp: asks_def requests_def io_bind_def request_def io_return_def split: prod.splits)

lemma asks_start_thread: "asks [Start_thread i] (start_thread os i)"
  by (auto simp: asks_def requests_def start_thread_def io_bind_def request_def io_return_def io_throw_def
      split: prod.splits sum.splits if_splits)

lemma concat_singles [simp]: "concat (map (\<lambda>x. [f x]) xs) = map f xs"
  by (induction xs) simp_all

definition node_threads :: "remote_node \<Rightarrow> thread_id list" where
  "node_threads rn = map (Node_thread (rn_node_key rn)) [Node_decoder, Node_encoder, Node_socket_write]"

lemma asks_threads:
  "asks (map Start_thread ts) (io_each (start_thread os) ts)"
  "asks (map Sys_setschedparam ts) (io_each (raise_priority os) ts)"
  "asks (map Join_thread ts) (io_each (join_thread os) ts)"
  using asks_each [of ts "\<lambda>i. [Start_thread i]" "start_thread os"]
    asks_each [of ts "\<lambda>i. [Sys_setschedparam i]" "raise_priority os"]
    asks_each [of ts "\<lambda>i. [Join_thread i]" "join_thread os"]
  by (simp_all add: asks_start_thread asks_request raise_priority_def join_thread_def)

lemma asks_node:
  "asks (map Start_thread (node_threads rn) @ map Sys_setschedparam (node_threads rn)) (RemoteNode_start os rn)"
  "asks (map Join_thread (node_threads rn)) (RemoteNode_wait os rn)"
  unfolding RemoteNode_start_def RemoteNode_wait_def Let_def node_threads_def [symmetric]
  by (intro asks_bind asks_threads)+

text \<open>The requests of \<open>start\<close> and \<open>wait\<close>; a node that is a null pointer would end \<open>start\<close>.\<close>

definition nodes_of :: "switch_object \<Rightarrow> remote_node list" where
  "nodes_of so = map the (map snd (sw_remote_nodes (so_switch so)))"

definition switch_threads :: "thread_id list" where
  "switch_threads = map Switch_thread [Tap_read, Socket_read, Tap_write, Fdb_expiry]"

definition all_threads :: "switch_object \<Rightarrow> thread_id list" where
  "all_threads so = switch_threads @ concat (map node_threads (nodes_of so))"

definition start_requests :: "switch_object \<Rightarrow> 'a request list" where
  "start_requests so =
     map Start_thread switch_threads @ [Sys_setpriority (- 10)] @
     map Sys_setschedparam (map Switch_thread [Tap_read, Socket_read, Tap_write]) @
     concat (map (\<lambda>rn. map Start_thread (node_threads rn) @ map Sys_setschedparam (node_threads rn)) (nodes_of so))"

lemma asks_nodes:
  assumes "\<And>rn. asks (g rn) (f rn)"
  shows "asks (concat (map g (nodes_of so))) (io_each (the_node f) (map snd (sw_remote_nodes (so_switch so))))"
proof -
  have "asks (g (the n)) (the_node f n)" for n
    using assms by (cases n) (simp_all add: the_node_def asks_def io_throw_def)
  then have "asks (concat (map (\<lambda>n. g (the n)) ns)) (io_each (the_node f) ns)" for ns by (intro asks_each)
  from this [of "map snd (sw_remote_nodes (so_switch so))"] show ?thesis by (simp add: nodes_of_def comp_def)
qed

lemma PacketSwitch_wait_requests: "asks (map Join_thread (all_threads so)) (PacketSwitch_wait os so)"
proof -
  have "asks (map Join_thread switch_threads @ concat (map (\<lambda>rn. map Join_thread (node_threads rn)) (nodes_of so)))
      (PacketSwitch_wait os so)"
    unfolding PacketSwitch_wait_def switch_threads_def by (intro asks_bind asks_threads asks_nodes asks_node)
  then show ?thesis by (simp add: all_threads_def map_concat comp_def)
qed

lemma PacketSwitch_start_requests:
  assumes name: "length (tap_ifname (so_tap so)) \<le> 16"
    and run: "PacketSwitch_start strerror os so w = (Inr so', w')"
  shows "so' = so\<lparr>so_tap := so_tap so\<lparr>tap_online := True\<rparr>\<rparr> \<and>
    (\<exists>ctl a. requests (w_trace w') =
       requests (w_trace w) @ start_requests so @ up_requests (tap_ifname (so_tap so)) ctl (ans_ifreq a) \<and>
      (Sys_ioctl ctl SIOCGIFFLAGS (ifr_name_field (tap_ifname (so_tap so)) @ replicate 24 0), a) \<in> set (w_trace w'))"
proof -
  obtain w1 a w2 w3 w4 tap where
    1: "io_each (start_thread os) switch_threads w = (Inr (), w1)" and
    2: "request os (Sys_setpriority (- 10)) w1 = (Inr a, w2)" and
    3: "io_each (raise_priority os) (map Switch_thread [Tap_read, Socket_read, Tap_write]) w2 = (Inr (), w3)" and
    4: "io_each (the_node (RemoteNode_start os)) (map snd (sw_remote_nodes (so_switch so))) w3 = (Inr (), w4)" and
    5: "TAPInterface_start strerror os (so_tap so) w4 = (Inr tap, w')" and
    so': "so' = so\<lparr>so_tap := tap\<rparr>"
    using run unfolding PacketSwitch_start_def switch_threads_def
    by (auto simp: io_bind_def io_throw_def io_return_def split: prod.splits sum.splits if_splits)
  have "requests (w_trace w4) = requests (w_trace w) @ start_requests so"
    using asksD [OF asks_threads(1) 1] request_trace [OF 2] asksD [OF asks_threads(2) 3]
      asksD [OF asks_nodes [OF asks_node(1)] 4] by (simp add: start_requests_def)
  with io_postD [OF TAPInterface_start_requests [OF name] 5] so' show ?thesis by auto
qed

section \<open>The program\<close>

lemma start_seth_returns:
  assumes name: "length ifname \<le> 16"
    and run: "start_seth strerror un os ifname mtu tx fmt src dsts port w = (Inr code, w')"
  obtains so fd ctl sock ctl' a where "code = 0"
    and "PacketSwitch (un_addr un) (un_key un) sock mtu tx fmt src dsts port = Inr (so_switch so)"
    and "requests (w_trace w') = requests (w_trace w) @ [Sys_signal] @ device_requests ifname mtu src fd ctl sock @
      start_requests so @ up_requests ifname ctl' (ans_ifreq a) @ map Join_thread (all_threads so)"
    and "(Sys_ioctl ctl' SIOCGIFFLAGS (ifr_name_field ifname @ replicate 24 0), a) \<in> set (w_trace w')"
proof -
  obtain a0 w0 so w1 so' w2 where
    0: "request os Sys_signal w = (Inr a0, w0)" and
    1: "PacketSwitch_object strerror un os ifname mtu tx fmt src dsts port w0 = (Inr so, w1)" and
    2: "PacketSwitch_start strerror os so w1 = (Inr so', w2)" and
    3: "PacketSwitch_wait os so' w2 = (Inr (), w')" and code: "code = 0"
    using run unfolding start_seth_def
    by (auto simp: io_bind_def split: prod.splits sum.splits cpp_error.splits if_splits)
  note obj = io_postD [OF PacketSwitch_object_requests [OF name] 1]
  then have tap: "tap_ifname (so_tap so) = ifname" by simp
  with name have name': "length (tap_ifname (so_tap so)) \<le> 16" by simp
  note st = PacketSwitch_start_requests [OF name' 2]
  have same: "all_threads so' = all_threads so" using st by (simp add: all_threads_def nodes_of_def)
  obtain t where t: "w_trace w' = t @ w_trace w2" "requests t = map Join_thread (all_threads so)"
    by (rule asksE [OF PacketSwitch_wait_requests 3]) (simp add: same)
  from request_trace [OF 0] have "requests (w_trace w0) = requests (w_trace w) @ [Sys_signal]" by auto
  with that code obj st t tap show thesis by (auto simp: Un_commute)
qed

section \<open>Failures\<close>

text \<open>\<open>leaves P m\<close>: every request that the computation makes satisfies \<open>P\<close> with its answer.\<close>

named_theorems leaves_intro

definition leaves :: "('a request \<times> answer \<Rightarrow> bool) \<Rightarrow> ('a, 's, 'r) io \<Rightarrow> bool" where
  "leaves P m \<longleftrightarrow> (\<forall>w. \<exists>t. w_trace (snd (m w)) = t @ w_trace w \<and> list_all P t)"

lemma leavesE:
  assumes "leaves P m" and "m w = (r, w')"
  obtains t where "w_trace w' = t @ w_trace w" and "list_all P t"
  using assms by (metis leaves_def snd_conv)

lemma leavesI:
  "(\<And>w r w'. m w = (r, w') \<Longrightarrow> \<exists>t. w_trace w' = t @ w_trace w \<and> list_all P t) \<Longrightarrow> leaves P m"
  by (simp add: leaves_def) (metis prod.collapse)

lemma leaves_pure [leaves_intro]:
  "leaves P (io_return x)" "leaves P (io_throw e)" "leaves P (io_lift r)"
  by (simp_all add: leaves_def io_return_def io_throw_def io_lift_def)

lemma leaves_bind [leaves_intro]:
  assumes "leaves P m" and "\<And>x. leaves P (f x)"
  shows "leaves P (io_bind m f)"
proof (rule leavesI)
  fix w r w' assume run: "io_bind m f w = (r, w')"
  obtain r1 w1 where 1: "m w = (r1, w1)" by (cases "m w")
  obtain t where t: "w_trace w1 = t @ w_trace w" "list_all P t" by (rule leavesE [OF assms(1) 1])
  show "\<exists>t. w_trace w' = t @ w_trace w \<and> list_all P t"
  proof (cases r1)
    case Inl
    then show ?thesis using run 1 t by (simp add: io_bind_def)
  next
    case (Inr x)
    then have "f x w1 = (r, w')" using run 1 by (simp add: io_bind_def)
    then obtain u where "w_trace w' = u @ w_trace w1" "list_all P u" by (rule leavesE [OF assms(2)])
    with t have "w_trace w' = (u @ t) @ w_trace w \<and> list_all P (u @ t)" by simp
    then show ?thesis by blast
  qed
qed

lemma leaves_on_throw [leaves_intro]:
  assumes "leaves P m" and "leaves P h"
  shows "leaves P (io_on_throw m h)"
proof (rule leavesI)
  fix w r w' assume run: "io_on_throw m h w = (r, w')"
  obtain r1 w1 where 1: "m w = (r1, w1)" by (cases "m w")
  obtain t where t: "w_trace w1 = t @ w_trace w" "list_all P t" by (rule leavesE [OF assms(1) 1])
  obtain r2 w2 where 2: "h w1 = (r2, w2)" by (cases "h w1")
  obtain u where u: "w_trace w2 = u @ w_trace w1" "list_all P u" by (rule leavesE [OF assms(2) 2])
  from t u have "w_trace w2 = (u @ t) @ w_trace w \<and> list_all P (u @ t)" by simp
  moreover have "w' = w1 \<or> w' = w2" using run 1 2 by (cases r1) (auto simp: io_on_throw_def)
  ultimately show "\<exists>t. w_trace w' = t @ w_trace w \<and> list_all P t" using t by blast
qed

lemma leaves_if [leaves_intro]: "leaves P m \<Longrightarrow> leaves P n \<Longrightarrow> leaves P (if b then m else n)"
  by simp

lemma leaves_request [leaves_intro]: "(\<And>a. P (q, a)) \<Longrightarrow> leaves P (request os q)"
  by (rule leavesI) (auto dest!: request_trace)

lemma leaves_each [leaves_intro]: "(\<And>x. leaves P (f x)) \<Longrightarrow> leaves P (io_each f xs)"
  by (induction xs) (auto intro!: leaves_intro)

text \<open>Nothing is started and the interface is not brought up.\<close>

fun silent :: "'a request \<times> answer \<Rightarrow> bool" where
  "silent (Start_thread i, a) = False"
| "silent (Sys_ioctl fd SIOCSIFFLAGS ifr, a) = False"
| "silent _ = True"

text \<open>The interface is not brought up: a request to do so was refused.\<close>

fun not_up :: "'a request \<times> answer \<Rightarrow> bool" where
  "not_up (Sys_ioctl fd SIOCSIFFLAGS ifr, a) = (ans_value a = - 1)"
| "not_up _ = True"

lemma silent_not_up: "list_all silent t \<Longrightarrow> list_all not_up t"
  by (auto simp: list_all_iff elim!: silent.elims)

lemma silent_started: "list_all silent t \<Longrightarrow> started t = []"
  by (induction t) (auto split: request.split)

lemma PacketSwitch_object_silent:
  "leaves silent (PacketSwitch_object strerror un os ifname mtu tx fmt src dsts port)"
  unfolding PacketSwitch_object_def TAPInterface_def TAPInterface_setMTU_def TAPInterface_destroy_def
    create_udp_socket_def close_and_throw_def Let_def
  by (intro leaves_intro) simp_all

text \<open>\<open>fails P m\<close>: the same for the runs that throw.\<close>

definition fails :: "('a request \<times> answer \<Rightarrow> bool) \<Rightarrow> ('a, 's, 'r) io \<Rightarrow> bool" where
  "fails P m \<longleftrightarrow> (\<forall>w e w'. m w = (Inl e, w') \<longrightarrow> (\<exists>t. w_trace w' = t @ w_trace w \<and> list_all P t))"

lemma fails_leaves: "leaves P m \<Longrightarrow> fails P m"
  by (meson fails_def leavesE)

lemma fails_bind:
  assumes "leaves P m" and "\<And>x. fails P (f x)"
  shows "fails P (io_bind m f)"
  unfolding fails_def
proof (intro allI impI)
  fix w e w' assume run: "io_bind m f w = (Inl e, w')"
  obtain r1 w1 where 1: "m w = (r1, w1)" by (cases "m w")
  obtain t where t: "w_trace w1 = t @ w_trace w" "list_all P t" by (rule leavesE [OF assms(1) 1])
  show "\<exists>t. w_trace w' = t @ w_trace w \<and> list_all P t"
  proof (cases r1)
    case Inl
    then show ?thesis using run 1 t by (simp add: io_bind_def)
  next
    case (Inr x)
    then have "f x w1 = (Inl e, w')" using run 1 by (simp add: io_bind_def)
    then obtain u where "w_trace w' = u @ w_trace w1" "list_all P u" using assms(2) by (meson fails_def)
    with t have "w_trace w' = (u @ t) @ w_trace w \<and> list_all P (u @ t)" by simp
    then show ?thesis by blast
  qed
qed

lemma fails_bind_return: "fails P m \<Longrightarrow> fails P (io_bind m (\<lambda>x. io_return (f x)))"
  by (auto simp: fails_def io_bind_def io_return_def split: prod.splits sum.splits)

lemma fails_if: "fails P m \<Longrightarrow> fails P n \<Longrightarrow> fails P (if b then m else n)"
  by simp

lemma TAPInterface_start_fails: "fails not_up (TAPInterface_start strerror os tap)"
  unfolding fails_def
proof (intro allI impI)
  fix w e w' assume run: "TAPInterface_start strerror os tap w = (Inl e, w')"
  have "io_post (TAPInterface_start strerror os tap)
      (\<lambda>r w'. (\<exists>e. r = Inl e) \<longrightarrow> (\<exists>t. w_trace w' = t @ w_trace w \<and> list_all not_up t)) w"
    by (auto simp: TAPInterface_start_def io_defs intro!: io_post_request split: sum.split)
  from io_postD [OF this run] show "\<exists>t. w_trace w' = t @ w_trace w \<and> list_all not_up t" by simp
qed

lemma PacketSwitch_start_fails: "fails not_up (PacketSwitch_start strerror os so)"
proof -
  have node: "leaves not_up (the_node (RemoteNode_start os) n)" for n :: "remote_node option"
    unfolding the_node_def RemoteNode_start_def start_thread_def raise_priority_def Let_def
    by (cases n) (auto intro!: leaves_intro)
  show ?thesis
    unfolding PacketSwitch_start_def
    by (intro fails_bind fails_bind_return fails_if fails_leaves [of _ "io_throw _"] TAPInterface_start_fails
        leaves_intro node) (auto simp: start_thread_def raise_priority_def intro!: leaves_intro)
qed

text \<open>Joining does not fail once all nodes were started.\<close>

lemma the_nodes_started:
  "io_each (the_node f) ns w = (Inr u, w') \<Longrightarrow> None \<notin> set ns"
  by (induction ns arbitrary: w)
    (auto simp: io_bind_def the_node_def io_throw_def split: prod.splits sum.splits option.splits)

lemma io_each_total:
  "(\<And>x w. x \<in> set xs \<Longrightarrow> \<exists>w'. f x w = (Inr (), w')) \<Longrightarrow> \<exists>w'. io_each f xs w = (Inr (), w')"
proof (induction xs arbitrary: w)
  case (Cons x xs)
  from Cons.prems [of x w] obtain w1 where "f x w = (Inr (), w1)" by auto
  with Cons.IH [of w1] Cons.prems show ?case by (auto simp: io_bind_def)
qed (simp add: io_return_def)

lemma join_thread_total: "\<exists>w'. join_thread os i w = (Inr (), w')"
  by (auto simp: join_thread_def io_bind_def request_def io_return_def split: prod.split)

lemma PacketSwitch_wait_total:
  assumes "None \<notin> set (map snd (sw_remote_nodes (so_switch so)))"
  shows "\<exists>w'. PacketSwitch_wait os so w = (Inr (), w')"
proof -
  obtain w1 where 1: "io_each (join_thread os) (map Switch_thread [Tap_read, Socket_read, Tap_write, Fdb_expiry]) w =
      (Inr (), w1)" using io_each_total [of _ "join_thread os"] join_thread_total by blast
  have "\<exists>w'. the_node (RemoteNode_wait os) n w = (Inr (), w')"
    if n: "n \<in> set (map snd (sw_remote_nodes (so_switch so)))" for n w
  proof -
    obtain rn where "n = Some rn" using n assms by (metis option.exhaust)
    then show ?thesis using io_each_total [of _ "join_thread os", OF join_thread_total]
      by (simp add: the_node_def RemoteNode_wait_def del: io_each.simps)
  qed
  then have "\<exists>w'. io_each (the_node (RemoteNode_wait os)) (map snd (sw_remote_nodes (so_switch so))) w1 = (Inr (), w')"
    by (rule io_each_total)
  with 1 show ?thesis by (simp add: PacketSwitch_wait_def io_bind_def del: io_each.simps)
qed

lemma start_seth_nodes:
  assumes "PacketSwitch_start strerror os so w = (Inr so', w')"
  shows "None \<notin> set (map snd (sw_remote_nodes (so_switch so')))"
  using assms unfolding PacketSwitch_start_def
  by (auto simp: io_bind_def io_throw_def io_return_def dest!: the_nodes_started
      split: prod.splits sum.splits if_splits simp del: io_each.simps) force

lemma start_seth_failure:
  assumes name: "length ifname \<le> 16" and fd: "no_descriptor_0 os"
    and run: "start_seth strerror un os ifname mtu tx fmt src dsts port w = (Inl e, w')"
  shows "\<exists>t. w_trace w' = t @ w_trace w \<and> list_all not_up t \<and>
    (e = Terminates \<or> (\<exists>what. e = Exit 1 what) \<and> started t = [] \<and>
       open_fds (w_trace w') = open_fds (w_trace w))"
proof -
  obtain a0 w0 where 0: "request os Sys_signal w = (Inr a0, w0)" "w_trace w0 = [(Sys_signal, a0)] @ w_trace w"
    using request_trace [of os Sys_signal w] by (cases "request os Sys_signal w") auto
  show ?thesis
  proof (cases "ans_value a0 = - 1")
    case True
    then have "e = Exit 1 (''ERROR: Failed to register signal handler: '' @ strerror (ans_errno a0)) \<and> w' = w0"
      using run 0(1) by (simp add: start_seth_def EXIT_FAILURE_def)
    with 0(2) show ?thesis by auto
  next
    case False
    obtain r1 w1 where 1: "PacketSwitch_object strerror un os ifname mtu tx fmt src dsts port w0 = (r1, w1)"
      by (cases "PacketSwitch_object strerror un os ifname mtu tx fmt src dsts port w0")
    obtain t1 where t1: "w_trace w1 = t1 @ w_trace w0" "list_all silent t1"
      by (rule leavesE [OF PacketSwitch_object_silent 1])
    have "length ifname \<le> 40" using name by simp
    note fds = io_postD [OF PacketSwitch_object_fds [OF this fd] 1]
    show ?thesis
    proof (cases r1)
      case (Inl x)
      then have "w' = w1" "e = Terminates \<or> (\<exists>what. e = Exit 1 what)"
        using run 0(1) 1 False by (auto simp: start_seth_def EXIT_FAILURE_def split: cpp_error.splits)
      moreover have "open_fds (w_trace w1) = open_fds (w_trace w)"
        using fds Inl 0(2) by (simp add: fd_change_def)
      ultimately have "w_trace w' = (t1 @ [(Sys_signal, a0)]) @ w_trace w \<and> list_all not_up (t1 @ [(Sys_signal, a0)]) \<and>
          (e = Terminates \<or> (\<exists>what. e = Exit 1 what) \<and> started (t1 @ [(Sys_signal, a0)]) = [] \<and>
           open_fds (w_trace w') = open_fds (w_trace w))"
        using t1 0(2) by (auto simp: silent_not_up silent_started)
      then show ?thesis by (rule exI)
    next
      case (Inr so)
      have ends: "e = Terminates"
        if "io_bind (PacketSwitch_start strerror os so) (PacketSwitch_wait os) w1 = (Inl x, w2)" for x w2
        using run 0(1) 1 False Inr that by (auto simp: start_seth_def)
      obtain x where x: "io_bind (PacketSwitch_start strerror os so) (PacketSwitch_wait os) w1 = (Inl x, w')"
        using run 0(1) 1 False Inr by (auto simp: start_seth_def split: prod.splits sum.splits)
      have "\<exists>e. PacketSwitch_start strerror os so w1 = (Inl e, w')"
      proof (cases "PacketSwitch_start strerror os so w1")
        case (Pair r2 w2)
        show ?thesis
        proof (cases r2)
          case (Inr so')
          from start_seth_nodes [OF Pair [unfolded Inr]] obtain w3 where "PacketSwitch_wait os so' w2 = (Inr (), w3)"
            using PacketSwitch_wait_total by blast
          with x Pair Inr show ?thesis by (simp add: io_bind_def)
        qed (use x Pair in \<open>simp add: io_bind_def\<close>)
      qed
      then obtain t2 where "w_trace w' = t2 @ w_trace w1" "list_all not_up t2"
        using PacketSwitch_start_fails unfolding fails_def by blast
      with ends [OF x] t1 0(2) have "w_trace w' = (t2 @ t1 @ [(Sys_signal, a0)]) @ w_trace w \<and>
          list_all not_up (t2 @ t1 @ [(Sys_signal, a0)]) \<and> e = Terminates"
        by (auto simp: silent_not_up)
      then show ?thesis by blast
    qed
  qed
qed

section \<open>An IPv4 address to bind to\<close>

text \<open>\<open>bind\<close> refuses an address that is not of the family of the socket; the program's is an IPv6 socket.\<close>

definition refuses_ipv4 :: "(sockaddr, 's) os \<Rightarrow> bool" where
  "refuses_ipv4 os \<longleftrightarrow> (\<forall>fd p a s. ans_value (fst (os (Sys_bind fd (Sockaddr_in p a)) s)) = - 1)"

lemma PacketSwitch_object_ipv4:
  assumes name: "length ifname \<le> 40" and bind: "refuses_ipv4 os"
  shows "io_post (PacketSwitch_object strerror un os ifname mtu tx fmt (Sockaddr_in p a) dsts port)
    (\<lambda>r w'. \<exists>what. r = Inl (Config_error what) \<or> r = Inl (Runtime_error what)) w"
proof -
  have bind': "ans_value b = - 1" if "os (Sys_bind fd (Sockaddr_in p a)) s = (b, s')" for fd b s s'
    using bind that by (metis refuses_ipv4_def fst_conv)
  have check: "\<exists>what. e = Config_error what" if "PacketSwitch_check mtu tx = Inl e" for e
    using that by (auto simp: PacketSwitch_check_def split: if_splits)
  show ?thesis
    using name unfolding PacketSwitch_object_def TAPInterface_def TAPInterface_setMTU_def
      TAPInterface_destroy_def create_udp_socket_def
    by (auto simp: io_defs ifreq_named_def sizeof_ifreq_def intro!: io_post_request dest!: bind' dest: check
        split: sum.split)
qed

lemma start_seth_ipv4:
  assumes "length ifname \<le> 16" and "refuses_ipv4 os"
  shows "\<exists>what w'. start_seth strerror un os ifname mtu tx fmt (Sockaddr_in p a) dsts port w = (Inl (Exit 1 what), w')"
proof -
  obtain a0 w0 where 0: "request os Sys_signal w = (Inr a0, w0)"
    using request_trace [of os Sys_signal w] by (cases "request os Sys_signal w") auto
  obtain r w1 where 1: "PacketSwitch_object strerror un os ifname mtu tx fmt (Sockaddr_in p a) dsts port w0 = (r, w1)"
    by (cases "PacketSwitch_object strerror un os ifname mtu tx fmt (Sockaddr_in p a) dsts port w0")
  have "length ifname \<le> 40" using assms(1) by simp
  from io_postD [OF PacketSwitch_object_ipv4 [OF this assms(2)] 1] 0 1 show ?thesis
    by (auto simp: start_seth_def EXIT_FAILURE_def)
qed

section \<open>Each thread once\<close>

lemma started_requests: "started t = concat (map (\<lambda>q. case q of Start_thread i \<Rightarrow> [i] | _ \<Rightarrow> []) (requests t))"
  by (induction t) auto

lemma joined_requests: "joined t = concat (map (\<lambda>q. case q of Join_thread i \<Rightarrow> [i] | _ \<Rightarrow> []) (requests t))"
  by (induction t) auto

lemma threads_in_requests:
  "concat (map (\<lambda>q. case q of Start_thread i \<Rightarrow> [i] | _ \<Rightarrow> []) (map Start_thread ts)) = ts"
  "concat (map (\<lambda>q. case q of Start_thread i \<Rightarrow> [i] | _ \<Rightarrow> []) (map Join_thread ts)) = []"
  "concat (map (\<lambda>q. case q of Start_thread i \<Rightarrow> [i] | _ \<Rightarrow> []) (map Sys_setschedparam ts)) = []"
  "concat (map (\<lambda>q. case q of Join_thread i \<Rightarrow> [i] | _ \<Rightarrow> []) (map Start_thread ts)) = []"
  "concat (map (\<lambda>q. case q of Join_thread i \<Rightarrow> [i] | _ \<Rightarrow> []) (map Join_thread ts)) = ts"
  "concat (map (\<lambda>q. case q of Join_thread i \<Rightarrow> [i] | _ \<Rightarrow> []) (map Sys_setschedparam ts)) = []"
  by (induction ts) simp_all

lemma start_requests_threads:
  "concat (map (\<lambda>q. case q of Start_thread i \<Rightarrow> [i] | _ \<Rightarrow> []) (start_requests so)) = all_threads so"
  "concat (map (\<lambda>q. case q of Join_thread i \<Rightarrow> [i] | _ \<Rightarrow> []) (start_requests so)) = []"
proof -
  let ?f = "\<lambda>rn. map Start_thread (node_threads rn) @ map Sys_setschedparam (node_threads rn)"
  have "concat (map (\<lambda>q. case q of Start_thread i \<Rightarrow> [i] | _ \<Rightarrow> []) (concat (map ?f ns))) = concat (map node_threads ns)"
    "concat (map (\<lambda>q. case q of Join_thread i \<Rightarrow> [i] | _ \<Rightarrow> []) (concat (map ?f ns))) = []" for ns
    by (induction ns) (simp_all add: threads_in_requests del: map_map)
  then show "concat (map (\<lambda>q. case q of Start_thread i \<Rightarrow> [i] | _ \<Rightarrow> []) (start_requests so)) = all_threads so"
    "concat (map (\<lambda>q. case q of Join_thread i \<Rightarrow> [i] | _ \<Rightarrow> []) (start_requests so)) = []"
    unfolding start_requests_def all_threads_def
    by (simp_all add: threads_in_requests switch_threads_def del: map_map)
qed

lemma distinct_node_threads:
  "distinct (map rn_node_key rns) \<Longrightarrow> distinct (concat (map node_threads rns))"
  by (induction rns) (auto simp: node_threads_def)

lemma nodes_of_keys:
  assumes "PacketSwitch g gk s mtu tx fmt src dsts port = Inr (so_switch so)"
  shows "distinct (map rn_node_key (nodes_of so))"
    and "rn_node_key ` set (nodes_of so) = get_key_from_sockaddr gk ` set dsts"
proof -
  let ?nodes = "sw_remote_nodes (so_switch so)"
  have nodes: "nodes_ok [] (nat (sw_buffer_size (sw_l2mtu (so_switch so)))) ?nodes"
    using PacketSwitch_ok [OF assms, of "[]"] by (simp add: sw_ok_def)
  have ok: "map_ok ?nodes" "map_find k ?nodes = Some n \<Longrightarrow> \<exists>rn. n = Some rn \<and> rn_node_key rn = k" for k n
    using nodes unfolding nodes_ok_def node_ok_def by blast+
  have "rn_node_key (the (snd x)) = fst x" if "x \<in> set ?nodes" for x
  proof -
    have "map_find (fst x) ?nodes = Some (snd x)" using that ok(1) by (simp add: map_find_iff)
    from ok(2) [OF this] show ?thesis by force
  qed
  then have keys: "map rn_node_key (nodes_of so) = map fst ?nodes" by (simp add: nodes_of_def)
  then show "distinct (map rn_node_key (nodes_of so))" using ok(1) by (simp add: map_ok_def strict_sorted_iff)
  have "fst ` set ?nodes = get_key_from_sockaddr gk ` set dsts"
    using PacketSwitch_keys [OF assms] by (auto simp: map_find_None)
  then show "rn_node_key ` set (nodes_of so) = get_key_from_sockaddr gk ` set dsts"
    using keys by (metis list.set_map)
qed

lemma all_threads_distinct:
  "PacketSwitch g gk s mtu tx fmt src dsts port = Inr (so_switch so) \<Longrightarrow> distinct (all_threads so)"
  using distinct_node_threads [OF nodes_of_keys(1)]
  by (auto simp: all_threads_def switch_threads_def node_threads_def)

lemma all_threads_set:
  assumes "PacketSwitch g gk s mtu tx fmt src dsts port = Inr (so_switch so)"
  shows "set (all_threads so) = {Switch_thread k |k. True} \<union>
     {Node_thread (get_key_from_sockaddr gk d) k |d k. d \<in> set dsts}"
proof -
  have "k \<in> {Node_decoder, Node_encoder, Node_socket_write}" for k by (cases k) simp_all
  then have node: "set (node_threads rn) = {Node_thread (rn_node_key rn) k |k. True}" for rn
    by (auto simp: node_threads_def)
  have "k \<in> {Tap_read, Socket_read, Tap_write, Fdb_expiry}" for k by (cases k) simp_all
  then have sw: "set switch_threads = {Switch_thread k |k. True}" by (auto simp: switch_threads_def)
  have "set (all_threads so) = {Switch_thread k |k. True} \<union>
      {Node_thread key k |key k. key \<in> rn_node_key ` set (nodes_of so)}"
    by (auto simp: all_threads_def node sw)
  then show ?thesis unfolding nodes_of_keys(2) [OF assms] by blast
qed

lemma threads_of_run:
  assumes "requests t = [Sys_signal] @ device_requests ifname mtu src fd ctl sock @ start_requests so @
    up_requests ifname ctl' ifr @ map Join_thread (all_threads so)"
  shows "started t = all_threads so" and "joined t = all_threads so"
    and "\<exists>pre post fd ifr. requests t = pre @ Sys_ioctl fd SIOCSIFFLAGS ifr # post \<and>
       (\<forall>i. Start_thread i \<notin> set post \<and> Join_thread i \<notin> set pre)"
proof -
  show "started t = all_threads so" "joined t = all_threads so"
    unfolding started_requests joined_requests assms
    by (simp_all add: threads_in_requests start_requests_threads device_requests_def up_requests_def
        del: map_map)
  let ?pre = "[Sys_signal] @ device_requests ifname mtu src fd ctl sock @ start_requests so @
      [Sys_socket AF_INET, Sys_ioctl ctl' SIOCGIFFLAGS (ifr_name_field ifname @ replicate 24 0)]"
    and ?post = "[Sys_close ctl'] @ map Join_thread (all_threads so)"
  have "requests t = ?pre @ Sys_ioctl ctl' SIOCSIFFLAGS (ifr_set_flags (ifr_flags ifr OR IFF_UP) ifr) # ?post"
    by (simp add: assms up_requests_def)
  moreover have "\<forall>i. Start_thread i \<notin> set ?post \<and> Join_thread i \<notin> set ?pre"
    by (auto simp: start_requests_def device_requests_def)
  ultimately show "\<exists>pre post fd ifr. requests t = pre @ Sys_ioctl fd SIOCSIFFLAGS ifr # post \<and>
       (\<forall>i. Start_thread i \<notin> set post \<and> Join_thread i \<notin> set pre)" by blast
qed

section \<open>The whole program\<close>

lemma configured_name: "configure env lg args = Inr a \<Longrightarrow> length (cfg_ifname (start_settings a)) < 16"
  by (erule configure_ok) (rule resolve_settings_ok(7))

lemma configured_destinations: "configure env lg args = Inr a \<Longrightarrow> start_dst_addrs a \<noteq> []"
  by (erule configure_ok) (use resolve_settings_ok(8) in fastforce)

lemma configured_source:
  assumes "configure env lg args = Inr a" and "env_pton6 env (cfg_tunnel_src (start_settings a)) = None"
  shows "\<exists>p ad. start_src_addr a = Sockaddr_in p ad"
  using assms
  by (auto simp: configure_def convert_address_def to_sockaddr_storage_def rbind_Inr_conv
      split: sum.splits cpp_error.splits option.splits)

lemma superethd_returns:
  assumes run: "superethd strerror un os env lg args w = (Inr code, w')"
  obtains a so fd ctl sock ctl' ans where "configure env lg args = Inr a" and "code = 0"
    and "PacketSwitch (un_addr un) (un_key un) sock (cfg_mtu (start_settings a)) (cfg_txsize (start_settings a))
      (PacketHeaderOptionFormatType_value (cfg_packet_format (start_settings a))) (start_src_addr a)
      (start_dst_addrs a) (cfg_tunnel_port (start_settings a)) = Inr (so_switch so)"
    and "requests (w_trace w') = requests (w_trace w) @ [Sys_signal] @
      device_requests (cfg_ifname (start_settings a)) (cfg_mtu (start_settings a)) (start_src_addr a) fd ctl sock @
      start_requests so @ up_requests (cfg_ifname (start_settings a)) ctl' (ans_ifreq ans) @
      map Join_thread (all_threads so)"
    and "(Sys_ioctl ctl' SIOCGIFFLAGS (ifr_name_field (cfg_ifname (start_settings a)) @ replicate 24 0), ans)
      \<in> set (w_trace w')"
proof -
  obtain a where a: "configure env lg args = Inr a" using run by (cases "configure env lg args") (simp_all add: superethd_def)
  let ?c = "start_settings a"
  have name: "length (cfg_ifname ?c) \<le> 16" using configured_name [OF a] by simp
  obtain code' where start: "start_seth strerror un os (cfg_ifname ?c) (cfg_mtu ?c) (cfg_txsize ?c)
      (PacketHeaderOptionFormatType_value (cfg_packet_format ?c)) (start_src_addr a) (start_dst_addrs a)
      (cfg_tunnel_port ?c) w = (Inr code', w')" and "code = 0"
    using run a by (auto simp: superethd_def Let_def split: prod.splits sum.splits)
  show thesis by (rule start_seth_returns [OF name start]) (rule that [OF a \<open>code = 0\<close>], assumption+)
qed

end
