(* ===== verification/Sample_Start.thy ===== *)
theory Sample_Start
  imports Start_Correct Samples
begin

unbundle bit_operations_syntax

text \<open>
  An operating system that grants every request, except to bind an IPv6 socket to an IPv4 address,
  and two runs of the whole program on it: one that returns, one with an IPv4 source address.
\<close>

fun sample_os :: "(sockaddr, nat) os" where
  "sample_os (Sys_open p) s = (\<lparr>ans_value = 4, ans_errno = 0, ans_ifreq = []\<rparr>, s + 1)"
| "sample_os (Sys_socket AF_INET) s = (\<lparr>ans_value = 5, ans_errno = 0, ans_ifreq = []\<rparr>, s + 1)"
| "sample_os (Sys_socket AF_INET6) s = (\<lparr>ans_value = 6, ans_errno = 0, ans_ifreq = []\<rparr>, s + 1)"
| "sample_os (Sys_ioctl fd c ifr) s = (\<lparr>ans_value = 0, ans_errno = 0, ans_ifreq = ifr\<rparr>, s + 1)"
| "sample_os (Sys_bind fd (Sockaddr_in p a)) s = (\<lparr>ans_value = - 1, ans_errno = 97, ans_ifreq = []\<rparr>, s + 1)"
| "sample_os q s = (\<lparr>ans_value = 0, ans_errno = 0, ans_ifreq = []\<rparr>, s + 1)"

lemma sample_os_laws: "no_descriptor_0 sample_os" "refuses_ipv4 sample_os"
  by (simp_all add: no_descriptor_0_def refuses_ipv4_def)

definition sample_world :: "(sockaddr, nat) world" where
  "sample_world = \<lparr>w_os = 0, w_trace = []\<rparr>"

definition sample_uninitialised :: uninitialised where
  "sample_uninitialised = \<lparr>un_addr = sample_addr, un_key = [], un_online = True, un_stop_flag = False\<rparr>"

text \<open>The environment in which every text is an IPv4 address.\<close>

definition ipv4_environment :: environment where
  "ipv4_environment = sample_environment\<lparr>env_pton6 := (\<lambda>s. None), env_pton4 := (\<lambda>s. Some [192, 0, 2, 1]),
     env_ntop4 := (\<lambda>a. Some ''192.0.2.1'')\<rparr>"

lemma sample_ipv4_configuration:
  "configure ipv4_environment (Logger False None) [(CHR ''d'', ''peer''), (CHR ''s'', ''192.0.2.1'')] =
    Inr \<lparr>start_settings = \<lparr>cfg_mtu = 1500, cfg_txsize = 1500, cfg_tunnel_port = 58023, cfg_tunnel_src = ''192.0.2.1'',
           cfg_tunnel_dst = [''peer''], cfg_ifname = ''seth0'', cfg_packet_format = COMPRESSED_LZ4\<rparr>,
         start_src_addr = Sockaddr_in 0xA7E2 [192, 0, 2, 1], start_dst_addrs = [Sockaddr_in 0xA7E2 [192, 0, 2, 1]],
         start_logger = Logger False None\<rparr>"
  by code_simp

lemma sample_start_configuration:
  "configure sample_environment (Logger False None) [(CHR ''d'', ''peer'')] =
    Inr \<lparr>start_settings = \<lparr>cfg_mtu = 1500, cfg_txsize = 1500, cfg_tunnel_port = 58023, cfg_tunnel_src = ''::'',
           cfg_tunnel_dst = [''peer''], cfg_ifname = ''seth0'', cfg_packet_format = COMPRESSED_LZ4\<rparr>,
         start_src_addr = Sockaddr_in6 0xA7E2 0 (replicate 15 0 @ [2]) 0,
         start_dst_addrs = [Sockaddr_in6 0xA7E2 0 (replicate 15 0 @ [4]) 0],
         start_logger = Logger False None\<rparr>"
  by code_simp

lemma sample_startup:
  "\<exists>w'. superethd (\<lambda>e. []) sample_uninitialised sample_os sample_environment (Logger False None)
     [(CHR ''d'', ''peer'')] sample_world = (Inr 0, w')"
proof -
  let ?src = "Sockaddr_in6 0xA7E2 0 (replicate 15 0 @ [2]) 0"
    and ?dst = "Sockaddr_in6 0xA7E2 0 (replicate 15 0 @ [4]) 0"
  have check: "PacketSwitch_check 1500 1500 = Inr ()" by (simp add: PacketSwitch_check_iff)
  have l2: "get_l2mtu_from_mtu 1500 = 1522" by (simp add: get_l2mtu_from_mtu_def)
  have size: "sw_buffer_size 1522 = 1674" by (simp add: sw_buffer_size_def)
  obtain sw rn where sw: "PacketSwitch sample_addr [] 6 1500 1500 1 ?src [?dst] 58023 = Inr sw"
    "sw_remote_nodes sw = [(rn_node_key rn, Some rn)]"
    by (simp add: PacketSwitch_def check l2 size Let_def)
  show ?thesis
    unfolding superethd_def sample_start_configuration
    by (simp add: Let_def start_seth_def PacketSwitch_object_def TAPInterface_def TAPInterface_setMTU_def
        create_udp_socket_def io_bind_def io_lift_def io_on_throw_def io_return_def io_throw_def request_def sample_world_def check l2
        ifreq_named_field sample_uninitialised_def sw PacketSwitch_start_def PacketSwitch_wait_def
        TAPInterface_start_def start_thread_def raise_priority_def join_thread_def the_node_def
        RemoteNode_start_def RemoteNode_wait_def)
qed

lemma sample_ipv4_startup:
  "\<exists>what w'. superethd (\<lambda>e. []) sample_uninitialised sample_os ipv4_environment (Logger False None)
     [(CHR ''d'', ''peer''), (CHR ''s'', ''192.0.2.1'')] sample_world = (Inl (Exit 1 what), w')"
proof -
  have "\<exists>what w'. start_seth (\<lambda>e. []) sample_uninitialised sample_os ''seth0'' 1500 1500 1
      (Sockaddr_in 0xA7E2 [192, 0, 2, 1]) [Sockaddr_in 0xA7E2 [192, 0, 2, 1]] 58023 sample_world =
      (Inl (Exit 1 what), w')"
    by (rule start_seth_ipv4 [OF _ sample_os_laws(2)]) simp
  then show ?thesis unfolding superethd_def sample_ipv4_configuration by (auto simp: Let_def)
qed

end
