(* ===== verification/Text_Output.thy ===== *)
theory Text_Output
  imports Dump Net_Transport Settings
begin

unbundle bit_operations_syntax

text \<open>
  The texts the program makes for people: the \<open>asText\<close> methods of the packet classes, the MAC
  address of an FDB entry (\<open>src/fdb_entry.hpp\<close>) and the socket address of \<open>dumpSockaddr\<close>
  (\<open>src/util.cpp\<close>). As in \<open>Net_Packet\<close>, what a class calls virtually is an argument: the size of
  \<open>asBinary\<close> of the whole object and its \<open>getHeaderSizeTotal\<close>.
\<close>

section \<open>Fields\<close>

text \<open>\<open>std::format\<close> with \<open>{}\<close> prints an unsigned number in decimal, also one of 8 bits.\<close>

definition dec :: "'a::len word \<Rightarrow> string" where
  "dec x = nat_to_string (unat x)"

definition text_line :: "string \<Rightarrow> string" where
  "text_line s = s @ newline"

fun separated :: "string \<Rightarrow> string list \<Rightarrow> string" where
  "separated s [] = []"
| "separated s [x] = x"
| "separated s (x # xs) = x @ s @ separated s xs"

definition mac_text :: "u8 list \<Rightarrow> string" where
  "mac_text mac = separated '':'' (map (\<lambda>i. hex2 (mac ! i)) [0..<6])"

definition ipv4_text :: "u8 list \<Rightarrow> string" where
  "ipv4_text ip = separated ''.'' (map (\<lambda>i. dec (ip ! i)) [0..<4])"

definition ipv6_text :: "u8 list \<Rightarrow> string" where
  "ipv6_text ip = separated '':'' (map (\<lambda>i. hex2 (ip ! (2 * i)) @ hex2 (ip ! (2 * i + 1))) [0..<8])"

definition bool_text :: "bool \<Rightarrow> string" where
  "bool_text b = (if b then ''1'' else ''0'')"

section \<open>The packet classes\<close>

definition Packet_printHex :: "string \<Rightarrow> string" where
  "Packet_printHex as_hex = text_line ''==> Hex Dump'' @ text_line as_hex"

definition Packet_printText :: "string \<Rightarrow> string" where
  "Packet_printText as_text = text_line as_text"

definition Packet_asText :: "nat \<Rightarrow> string" where
  "Packet_asText binary_size =
     text_line ''==> Packet'' @ text_line (''Size           : '' @ nat_to_string binary_size)"

definition EthernetPacket_asText :: "nat \<Rightarrow> 'a ethernet_packet_scheme \<Rightarrow> string" where
  "EthernetPacket_asText binary_size p =
     text_line (Packet_asText binary_size)
     @ text_line ''==> Ethernet''
     @ text_line (''*Header Offset : '' @ dec EthernetPacket_getHeaderOffset)
     @ text_line (''*Header Size   : '' @ dec EthernetPacket_getHeaderSize)
     @ text_line (''Destination MAC : '' @ mac_text (eth_dst_mac p))
     @ text_line (''Source MAC      : '' @ mac_text (eth_src_mac p))
     @ text_line (''Ethernet Type   : 0x'' @ hex4 (EthernetPacket_getEthertype p))"

text \<open>The size of the header is that of the Ethernet header: \<open>IPPacket\<close> has no method of its own.\<close>

definition IPPacket_asText :: "nat \<Rightarrow> 'a ip_packet_scheme \<Rightarrow> string" where
  "IPPacket_asText binary_size p =
     text_line (EthernetPacket_asText binary_size p)
     @ text_line ''==> IP''
     @ text_line (''*Header Offset : '' @ dec IPPacket_getHeaderOffset)
     @ text_line (''*Header Size   : '' @ dec EthernetPacket_getHeaderSize)
     @ text_line (''Version        : '' @ dec (ip_version p))"

definition IPv4Packet_asText :: "nat \<Rightarrow> u16 \<Rightarrow> 'a ipv4_packet_scheme \<Rightarrow> string" where
  "IPv4Packet_asText binary_size header_size_total p =
     text_line (IPPacket_asText binary_size p)
     @ text_line ''==> IPv4''
     @ text_line (''*Header Offset : '' @ dec IPPacket_getHeaderOffset)
     @ text_line (''*Header Size   : '' @ dec (IPv4Packet_getHeaderSize p))
     @ text_line (''IP Header Len  : '' @ dec (ip4_ihl p) @ '' * 4 bytes = ''
         @ nat_to_string (unat (ip4_ihl p) * 4))
     @ text_line (''DSCP           : '' @ dec (ip4_dscp p))
     @ text_line (''ECN            : '' @ dec (ip4_ecn p))
     @ text_line (''Total Length   : '' @ dec (IPv4Packet_getLayer3Size header_size_total p))
     @ text_line (''ID             : '' @ dec (IPv4Packet_getId p))
     @ text_line (''Frag Offset    : '' @ dec (IPv4Packet_getFragOff p))
     @ text_line (''TTL            : '' @ dec (ip4_ttl p))
     @ text_line (''Protocol       : '' @ dec (ip4_protocol p))
     @ text_line (''Checksum       : '' @ hex4 (IPv4Packet_getIPv4Checksum header_size_total p))
     @ text_line (''Destination IP : '' @ ipv4_text (ip4_dst_addr p))
     @ text_line (''Source IP      : '' @ ipv4_text (ip4_src_addr p))"

text \<open>This class leaves the text of its base classes out.\<close>

definition IPv6Packet_asText :: "nat \<Rightarrow> u16 \<Rightarrow> 'a ipv6_packet_scheme \<Rightarrow> string" where
  "IPv6Packet_asText binary_size header_size_total p =
     text_line (Packet_asText binary_size)
     @ text_line ''==> IPv6''
     @ text_line (''*Header Offset  : '' @ dec IPPacket_getHeaderOffset)
     @ text_line (''*Header Size    : '' @ dec (IPv6Packet_getHeaderSize p))
     @ text_line (''Version         : '' @ dec (ip_version p))
     @ text_line (''Traffic Class   : '' @ dec (ip6_priority p))
     @ text_line (''Flow Label      : '' @ dec (IPv6Packet_getFlowLabel p))
     @ text_line (''Payload Length  : '' @ dec (IPv6Packet_headerPayloadLength header_size_total p))
     @ text_line (''Next Header     : '' @ dec (ip6_next_header p))
     @ text_line (''Hop Limit       : '' @ dec (ip6_hop_limit p))
     @ text_line (''Destination IP  : '' @ ipv6_text (ip6_dst_addr p))
     @ text_line (''Source IP       : '' @ ipv6_text (ip6_src_addr p))"

text \<open>\<open>base_text\<close> is the \<open>asText\<close> of the base class of a template.\<close>

definition UDPPacket_asText :: "(nat \<Rightarrow> u16 \<Rightarrow> 't \<Rightarrow> string) \<Rightarrow> 't layer3 \<Rightarrow> 't udp_packet \<Rightarrow> string" where
  "UDPPacket_asText base_text T p =
     text_line (base_text (length (UDPPacket_asBinary T p)) (UDPPacket_getHeaderSizeTotal T p) (udp_base p))
     @ text_line ''==> UDP Packet''
     @ text_line (''*Header Offset : '' @ dec (UDPPacket_getHeaderOffset T p))
     @ text_line (''*Header Size   : '' @ dec UDPPacket_getHeaderSize)
     @ text_line (''Source Port    : '' @ dec (UDPPacket_getSrcPort p))
     @ text_line (''Dest. Port     : '' @ dec (UDPPacket_getDstPort p))
     @ text_line (''Checksum       : '' @ hex4 (UDPPacket_getChecksumLayer4 T p))
     @ text_line (''Length         : '' @ dec (UDPPacket_getLayer4Size T p))"

definition TCPPacket_asText :: "(nat \<Rightarrow> u16 \<Rightarrow> 't \<Rightarrow> string) \<Rightarrow> 't layer3 \<Rightarrow> 't tcp_packet \<Rightarrow> string" where
  "TCPPacket_asText base_text T p =
     text_line (base_text (length (TCPPacket_asBinary T p)) (TCPPacket_getHeaderSizeTotal T p) (tcp_base p))
     @ text_line ''==> TCP Packet''
     @ text_line (''*Header Offset : '' @ dec (TCPPacket_getHeaderOffset T p))
     @ text_line (''*Header Size   : '' @ dec TCPPacket_getHeaderSize)
     @ text_line (''Source Port    : '' @ dec (TCPPacket_getSrcPort p))
     @ text_line (''Dest. Port     : '' @ dec (TCPPacket_getDstPort p))
     @ text_line (''Sequence       : '' @ dec (TCPPacket_getSequence p))
     @ text_line (''Ack            : '' @ dec (TCPPacket_getAck p))
     @ text_line (''Offset         : '' @ dec (TCPPacket_getOffset p))
     @ text_line ''Options        : ''
     @ text_line (''           FIN: '' @ bool_text (tcp_opt_fin p))
     @ text_line (''           SYN: '' @ bool_text (tcp_opt_syn p))
     @ text_line (''           RST: '' @ bool_text (tcp_opt_rst p))
     @ text_line (''           PSH: '' @ bool_text (tcp_opt_psh p))
     @ text_line (''           ACK: '' @ bool_text (tcp_opt_ack p))
     @ text_line (''           URG: '' @ bool_text (tcp_opt_urg p))
     @ text_line (''           ECE: '' @ bool_text (tcp_opt_ece p))
     @ text_line (''Window         : '' @ dec (TCPPacket_getWindow p))
     @ text_line (''Checksum       : '' @ hex4 (TCPPacket_getChecksumLayer4 T p))
     @ text_line (''Urgent         : '' @ dec (TCPPacket_getUrgent p))"

definition ICMPv4Packet_asText :: "icmpv4_packet \<Rightarrow> string" where
  "ICMPv4Packet_asText p =
     text_line (IPv4Packet_asText (length (ICMPv4Packet_asBinary p)) (ICMPv4Packet_getHeaderSizeTotal p) p)
     @ text_line ''==> ICMPv4 Packet''
     @ text_line (''*Header Offset : '' @ dec (ICMPv4Packet_getHeaderOffset p))
     @ text_line (''*Header Size   : '' @ dec ICMPv4Packet_getHeaderSize)
     @ text_line (''Type           : '' @ dec (icmp_type p))
     @ text_line (''Code           : '' @ dec (icmp_code p))
     @ text_line (''Checksum       : '' @ hex4 (ICMPv4Packet_getChecksumLayer4 p))"

definition ICMPv6Packet_asText :: "icmpv6_packet \<Rightarrow> string" where
  "ICMPv6Packet_asText p =
     text_line (IPv6Packet_asText (length (ICMPv6Packet_asBinary p)) (ICMPv6Packet_getHeaderSizeTotal p) p)
     @ text_line ''==> ICMPv6 Packet''
     @ text_line (''*Header Offset : '' @ dec (ICMPv6Packet_getHeaderOffset p))
     @ text_line (''*Header Size   : '' @ dec ICMPv6Packet_getHeaderSize)
     @ text_line (''Type           : '' @ dec (icmp6_type p))
     @ text_line (''Code           : '' @ dec (icmp6_code p))
     @ text_line (''Checksum       : '' @ hex4 (ICMPv6Packet_getChecksumLayer4 p))"

section \<open>Addresses\<close>

text \<open>\<open>snprintf\<close> into an array of 18 characters: at most 17 of them and a zero.\<close>

definition lower_hex2 :: "u8 \<Rightarrow> string" where
  "lower_hex2 b = map tolower (hex2 b)"

definition FDBMACAddress_toString :: "u8 list \<Rightarrow> string" where
  "FDBMACAddress_toString bytes =
     take (SETH_PACKET_ETHERNET_MAC_LEN * 3 - 1) (separated '':'' (map (\<lambda>i. lower_hex2 (bytes ! i)) [0..<6]))"

text \<open>What \<open>dumpSockaddr\<close> logs or writes; a failed \<open>inet_ntop\<close> leaves the text empty.\<close>

fun dumpSockaddr :: "environment \<Rightarrow> sockaddr \<Rightarrow> string" where
  "dumpSockaddr env (Sockaddr_in p a) =
     ''IPv4 Address: '' @ (case env_ntop4 env a of None \<Rightarrow> [] | Some s \<Rightarrow> s) @ '', Port: '' @ dec (be_to_cpu_16 p)"
| "dumpSockaddr env (Sockaddr_in6 p f a s) =
     ''IPv6 Address: '' @ (case env_ntop6 env a of None \<Rightarrow> [] | Some s \<Rightarrow> s) @ '', Port: '' @ dec (be_to_cpu_16 p)"
| "dumpSockaddr env (Sockaddr_other f) = text_line ''Unknown AF family''"

text \<open>The copy of bytes into a string of C, unless there is no memory.\<close>

definition uint8_array_to_char_buffer :: "bool \<Rightarrow> u8 list \<Rightarrow> u8 list option" where
  "uint8_array_to_char_buffer memory bytes = (if memory then Some (bytes @ [0]) else None)"

section \<open>Lemmas\<close>

lemma hex_digit_inject: "m < 16 \<Longrightarrow> n < 16 \<Longrightarrow> hex_digit m = hex_digit n \<longleftrightarrow> m = n"
proof -
  have "distinct ''0123456789ABCDEF''" "length ''0123456789ABCDEF'' = 16" by simp_all
  then show "m < 16 \<Longrightarrow> n < 16 \<Longrightarrow> ?thesis" by (simp only: hex_digit_def mod_less nth_eq_iff_index_eq)
qed

lemma hex2_inject: "hex2 a = hex2 b \<longleftrightarrow> a = b"
proof
  assume "hex2 a = hex2 b"
  then have "hex_digit (unat a div 16) = hex_digit (unat b div 16)" "hex_digit (unat a mod 16) = hex_digit (unat b mod 16)"
    by (simp_all add: hex2_def hex_digit_def)
  moreover have "unat a div 16 < 16" "unat b div 16 < 16"
    using unat_u8_bound [of a] unat_u8_bound [of b] by linarith+
  ultimately have "unat a div 16 = unat b div 16" "unat a mod 16 = unat b mod 16"
    by (simp_all add: hex_digit_inject)
  then have "unat a = unat b" by (metis div_mult_mod_eq)
  then show "a = b" by (simp add: word_unat_eq_iff)
qed simp

lemma length_hex2 [simp]: "length (hex2 b) = 2"
  by (simp add: hex2_def)

lemma six: "[0..<6] = [0, 1, 2, 3, 4, 5 :: nat]"
  by (simp add: upt_rec)

text \<open>Two MAC addresses have the same text only when they are the same.\<close>

lemma mac_text_inject:
  assumes "length m = 6" and "length n = 6"
  shows "mac_text m = mac_text n \<longleftrightarrow> m = n"
proof
  assume "mac_text m = mac_text n"
  then have bytes: "hex2 (m ! 0) = hex2 (n ! 0)" "hex2 (m ! 1) = hex2 (n ! 1)" "hex2 (m ! 2) = hex2 (n ! 2)"
    "hex2 (m ! 3) = hex2 (n ! 3)" "hex2 (m ! 4) = hex2 (n ! 4)" "hex2 (m ! 5) = hex2 (n ! 5)"
    by (simp_all add: mac_text_def six hex2_def)
  have "m ! i = n ! i" if "i < 6" for i
  proof -
    have "i = 0 \<or> i = 1 \<or> i = 2 \<or> i = 3 \<or> i = 4 \<or> i = 5" using that by linarith
    then show ?thesis using bytes by (auto simp: hex2_inject)
  qed
  then show "m = n" using assms by (intro nth_equalityI) simp_all
qed simp

text \<open>The text of an FDB entry is never cut.\<close>

lemma FDBMACAddress_toString_mac: "FDBMACAddress_toString m = map tolower (mac_text m)"
proof -
  have "tolower CHR '':'' = CHR '':''" by (simp add: tolower_def)
  moreover have "length (separated '':'' (map (\<lambda>i. lower_hex2 (m ! i)) [0..<6])) = 17"
    by (simp add: six lower_hex2_def)
  ultimately show ?thesis
    by (simp add: FDBMACAddress_toString_def SETH_PACKET_ETHERNET_MAC_LEN_def)
       (simp add: mac_text_def lower_hex2_def six)
qed

text \<open>No constructor reads the bytes it is given.\<close>

lemma ip_of_bytes: "IPv4Packet_of_bytes bs m4 = IPv4Packet m4" "IPv6Packet_of_bytes bs m6 = IPv6Packet m6"
  by (simp_all add: IPv4Packet_of_bytes_def IPv4Packet_def IPv4Packet_parse_def IPv4Packet_init_def
      IPv6Packet_of_bytes_def IPv6Packet_def IPv6Packet_parse_def IPv6Packet_init_def IPPacket_setVersion_def
      EthernetPacket_setEthertype_def)

lemma ip_parse:
  "IPv4Packet_parse bs (IPv4Packet_setProtocol x (IPv4Packet m4)) = IPv4Packet_setProtocol x (IPv4Packet m4)"
  "IPv6Packet_parse bs (IPv6Packet_setNextHeader x (IPv6Packet m6)) = IPv6Packet_setNextHeader x (IPv6Packet m6)"
  by (simp_all add: IPv4Packet_def IPv4Packet_parse_def IPv4Packet_init_def IPv4Packet_setProtocol_def
      IPv6Packet_def IPv6Packet_parse_def IPv6Packet_init_def IPv6Packet_setNextHeader_def IPPacket_setVersion_def
      EthernetPacket_setEthertype_def)

end
