(* ===== verification/Further_Properties.thy ===== *)
theory Further_Properties
  imports Sample_Run Text_Output
begin

unbundle bit_operations_syntax

text \<open>
  Further results on the parts of the program at its edges, each evaluated at a concrete input: the
  letters of the options, the addresses in the settings, the hex dump, the levels of the logger,
  the wake-up of a pool, the room in a datagram, one node per address, the checksums of ICMP and the accessors of TCP.
\<close>

section \<open>Options, addresses and debug output\<close>

text \<open>
  Which options end the program by abort: of the short options only r, none of the long ones;
  the long option txsize of the help text does not exist.
\<close>

theorem option_letters:
  "{c. c \<in> set short_options \<and> c \<noteq> CHR '':'' \<and> option_step env lg (c, arg) opts = Inl Aborts} = {CHR ''r''} \<and>
   filter (\<lambda>(name, has_arg, c). option_step env lg (c, arg) opts = Inl Aborts) long_options = [] \<and>
   ''txsize'' \<notin> fst ` set long_options \<and>
   filter (\<lambda>l. take 17 l = ''    -t, --txsize='') (print_help env lg) \<noteq> []"
  unfolding option_step_aborts
  by (intro conjI) (auto simp: short_options_def long_options_def print_help_def)

text \<open>
  The list of destinations is split at its delimiters: words joined with delimiters come out
  again, none empty.
\<close>

theorem split_addresses:
  assumes "\<forall>(w, s) \<in> set ps. w \<noteq> [] \<and> set w \<inter> set ds = {} \<and> s \<noteq> [] \<and> set s \<subseteq> set ds"
    and "set lst \<inter> set ds = {}" and "set lead \<subseteq> set ds"
  shows "splitByDelimiters (lead @ concat (map (\<lambda>(w, s). w @ s) ps) @ lst) ds =
    map fst ps @ (if lst = [] then [] else [lst])"
proof (cases "lead = []")
  case True
  then show ?thesis using split_words [OF assms(1,2)] by (simp add: splitByDelimiters_def)
next
  case False
  let ?rest = "concat (map (\<lambda>(w, s). w @ s) ps) @ lst"
  have "?rest = [] \<or> hd ?rest \<notin> set ds"
    using assms(1,2) by (cases ps) (auto simp: hd_append split: if_splits dest: hd_in_set)
  from split_tokens_word(2) [of "[]" "set ds" lead, OF _ assms(3) False this]
  show ?thesis using split_words [OF assms(1,2)] by (simp add: splitByDelimiters_def)
qed

theorem split_addresses_witness:
  "splitByDelimiters '' 10.0.0.1, fe80::1;;10.0.0.2'' address_delimiters = [''10.0.0.1'', ''fe80::1'', ''10.0.0.2'']"
proof -
  let ?ps = "[(''10.0.0.1'', '', ''), (''fe80::1'', '';;'')]"
  have "\<forall>(w, s) \<in> set ?ps. w \<noteq> [] \<and> set w \<inter> set address_delimiters = {} \<and> s \<noteq> [] \<and> set s \<subseteq> set address_delimiters"
    by (simp add: address_delimiters_def)
  moreover have "set ''10.0.0.2'' \<inter> set address_delimiters = {}" "set '' '' \<subseteq> set address_delimiters"
    by (simp_all add: address_delimiters_def)
  ultimately show ?thesis using split_addresses [of ?ps address_delimiters "''10.0.0.2''" "'' ''"] by simp
qed

text \<open>
  The layout of the hexadecimal dump, and what happens to it when the 16 bit counter wraps.
\<close>

theorem hex_dump_layout:
  assumes "length bs \<le> 65536"
  shows "hex_dump bs = join_lines (hex_lines 0 bs) \<and> Packet_asHex bs = hex_dump bs \<and>
    (length bs = 65536 \<longrightarrow> hex_dump (bs @ [b]) = hex_dump bs @ ''0000: '' @ hex2 b)"
proof -
  have "hex_dump bs = join_lines (hex_lines 0 bs)"
    using hex_loop_lines [of 0 bs] assms by (simp add: hex_dump_def)
  moreover have "hex_dump (bs @ [b]) = hex_dump bs @ ''0000: '' @ hex2 b" if "length bs = 65536"
    by (simp add: hex_dump_def hex_loop_append that hex4_def hex_digit_def)
  ultimately show ?thesis by (simp add: hex_dump_def Packet_asHex_def)
qed

theorem hex_dump_layout_witness:
  "hex_dump [0, 17, 255] = ''0000: 00 11 FF''"
proof -
  have "length [0 :: u8, 17, 255] \<le> 65536" by simp
  from hex_dump_layout [OF this, of 0] show ?thesis
    by (simp add: hex_lines.simps hex_line_def hex4_def hex2_def hex_digit_def)
qed

text \<open>
  The level of the logger: set by name in any case, unchanged by an unknown name, and messages
  below it are not written.
\<close>

theorem logger_levels:
  assumes "Logger_setLogLevel s lg = (ok, lg')"
  shows "(ok \<longleftrightarrow> (\<exists>l. map tolower s = Logger_getLogLevelString_of l)) \<and>
    (if ok then map tolower s = Logger_getLogLevelString_of (lg_log_level lg') else lg' = lg) \<and>
    (Logger_log time level file func line args lg' \<noteq> None \<longleftrightarrow>
      LogLevel_value (lg_log_level lg') \<le> LogLevel_value level)"
proof -
  have logged: "Logger_log time level file func line args lg' \<noteq> None \<longleftrightarrow>
      LogLevel_value (lg_log_level lg') \<le> LogLevel_value level"
    by (simp add: Logger_log_def Logger_log_line_def less_eq_LogLevel_def Let_def)
  show ?thesis
  proof (cases "\<exists>l. map tolower s = Logger_getLogLevelString_of l")
    case True
    then obtain l where l: "map tolower s = Logger_getLogLevelString_of l" ..
    from setLogLevel_Some [OF this, of lg] assms have "ok" "lg_log_level lg' = l" by auto
    with l logged True show ?thesis by simp
  next
    case False
    then have "\<forall>l. map tolower s \<noteq> Logger_getLogLevelString_of l" by blast
    from setLogLevel_None [OF this, of lg] assms have "\<not> ok" "lg' = lg" by auto
    with False logged show ?thesis by simp
  qed
qed

theorem logger_levels_witness:
  "\<exists>lg'. Logger_setLogLevel ''Warning'' (Logger False None) = (True, lg') \<and> lg_log_level lg' = WARNING \<and>
    Logger_log [] NOTICE ''f'' ''g'' 1 [''x''] lg' = None \<and> Logger_log [] ERROR ''f'' ''g'' 1 [''x''] lg' \<noteq> None"
proof -
  have name: "map tolower ''Warning'' = Logger_getLogLevelString_of WARNING" by code_simp
  let ?lg = "(Logger False None)\<lparr>lg_log_level := WARNING\<rparr>"
  note set = setLogLevel_Some [OF name, of "Logger False None"]
  from logger_levels [OF set, of "[]" NOTICE "''f''" "''g''" 1 "[''x'']"]
    logger_levels [OF set, of "[]" ERROR "''f''" "''g''" 1 "[''x'']"] set
  show ?thesis by (simp del: not_None_eq)
qed

section \<open>Buffers, datagrams and nodes\<close>

text \<open>
  The three waits on an empty pool, woken with the pool q: pop_wait takes the front of an
  empty deque after a spurious wake-up, the other two do not fail.
\<close>

theorem pool_wakeup:
  assumes "pool p = []"
  shows "(case pool q of
      [] \<Rightarrow> BufferPool_pop_wait_woken (Some q) p = Inl Empty_front
    | b # bs \<Rightarrow> BufferPool_pop_wait_woken (Some q) p = Inr (b, q\<lparr>pool := bs\<rparr>)) \<and>
    BufferPool_wait (Some q) results p = Inr (results @ pool q, q\<lparr>pool := []\<rparr>) \<and>
    BufferPool_wait_for Notified (Some q) dur results p = Inr (True, results @ pool q, q\<lparr>pool := []\<rparr>) \<and>
    BufferPool_wait_for Timed_out (Some q) (Suc dur) results p = Inr (False, results, q)"
  using assms
  by (simp add: BufferPool_pop_wait_woken_def BufferPool_wait_def BufferPool_wait_for_def after_wait_def
      BufferPool_pop_into_all split: list.split)

theorem pool_wakeup_witness:
  "BufferPool_pop_wait_woken (Some (BufferPool 64)) (BufferPool 64 :: packet_pool) = Inl Empty_front \<and>
    BufferPool_wait (Some (BufferPool 64)) [] (BufferPool 64 :: packet_pool) = Inr ([], BufferPool 64)"
proof -
  have "pool (BufferPool 64 :: packet_pool) = []" by simp
  from pool_wakeup [OF this, of "BufferPool 64" "[]"] show ?thesis by (simp add: BufferPool_def)
qed

text \<open>
  A node's packets fit into datagrams of the transmit size; for a plain IPv4 address 20 bytes
  of each are left unused.
\<close>

theorem datagram_room:
  assumes "1200 \<le> tx" "tx \<le> 9218" "length a = 4"
  shows "unat (rn_l4mtu (RemoteNode g s (Sockaddr_in p a) tx l2 bsize fmt)) + 20 + 8 + 20 = nat tx \<and>
    unat (rn_l4mtu (RemoteNode g s (to_sockaddr_storage_ipv6 (Sockaddr_in p a)) tx l2 bsize fmt)) + 20 + 8 = nat tx \<and>
    rn_node_addr (RemoteNode g s (Sockaddr_in p a) tx l2 bsize fmt) =
      rn_node_addr (RemoteNode g s (to_sockaddr_storage_ipv6 (Sockaddr_in p a)) tx l2 bsize fmt) \<and>
    unat (rn_l4mtu (RemoteNode g s addr tx l2 bsize fmt)) + (if is_ipv4 addr then 20 else 40) + 8 = nat tx"
proof -
  have "is_ipv4 (to_sockaddr_storage_ipv6 (Sockaddr_in p a))" by (rule is_ipv4_mapped [OF assms(3)])
  with rn_l4mtu_value [OF assms(1,2)] assms(1) show ?thesis
    by (simp add: RemoteNode_def [THEN arg_cong [of _ _ rn_node_addr]] Let_def del: is_ipv4.simps(2))
qed

theorem datagram_room_witness:
  "unat (rn_l4mtu (RemoteNode [] 3 (Sockaddr_in 0 [10, 0, 0, 1]) 1500 1522 1674 1)) = 1452"
proof -
  have "(1200 :: int) \<le> 1500" "(1500 :: int) \<le> 9218" "length [10 :: u8, 0, 0, 1] = 4" by simp_all
  from datagram_room [OF this, of "[]" 3 0 1522 1674 1] show ?thesis by simp
qed

text \<open>
  The packets that wait at a node are sent to its address, one datagram each, in their order,
  and their buffers are given back.
\<close>

theorem socket_sends_everything:
  assumes "pool_ok cap p" and "pool_ok cap avail"
  shows "socket_write_round rn None (p, avail) =
    (if pool p = [] then Inl Would_block
     else Inr (map (\<lambda>b. (rn_node_addr rn, sizeof_sockaddr_in6, buffer_data b)) (pool p),
            p\<lparr>pool := []\<rparr>, avail\<lparr>pool := pool avail @ pool p\<rparr>))"
proof (cases "pool p = []")
  case False
  have bs: "\<forall>b \<in> set (pool p). buffer_ok cap b" using assms(1) by (simp add: pool_ok_def)
  have "BufferPool_push_list (pool p) avail = Inr (avail\<lparr>pool := pool avail @ pool p\<rparr>, [])"
    using assms bs by (intro BufferPool_push_list_ok [of _ cap]) (simp_all add: pool_ok_def)
  then show ?thesis
    using False socket_send_all_ok [OF bs, of rn]
    by (simp add: socket_write_round_def BufferPool_wait_def after_wait_def BufferPool_pop_into_all)
qed (simp add: socket_write_round_def BufferPool_wait_def after_wait_def)

theorem socket_sends_everything_witness:
  "\<exists>p avail. socket_write_round (sample_node 1) None (sample_pool 64 2, sample_pool 64 1) =
    Inr ([(sample_peer 1, 28, []), (sample_peer 1, 28, [])], p, avail) \<and> length (pool avail) = 3"
proof -
  have pool: "pool (sample_pool 64 2) = replicate 2 (PacketBuffer sample_addr 64)"
    by (simp add: sample_pool_def)
  have data: "buffer_data (PacketBuffer sample_addr 64) = []"
    by (simp add: buffer_data_def PacketBuffer_def Buffer_def buffer.defs)
  have addr: "rn_node_addr (sample_node 1) = sample_peer 1"
    by (simp add: sample_node_def RemoteNode_def Let_def sample_peer_def)
  from socket_sends_everything [OF sample_pool_ok(1) sample_pool_ok(1), of "sample_node 1" 64 2 1]
  show ?thesis
    using sample_pool_ok(2) [of 64 1] by (simp add: pool data addr sizeof_sockaddr_in6_def) (simp add: numeral_2_eq_2)
qed

text \<open>
  A new switch has exactly one node per distinct destination address, and finds it under the
  address the socket reports for the peer.
\<close>

theorem node_per_address:
  assumes new: "PacketSwitch g gk s mtu tx fmt src dsts port = Inr sw"
    and ok: "\<forall>a \<in> set dsts. sockaddr_ok a \<and> (\<forall>f. a \<noteq> Sockaddr_other f)"
  shows "(\<forall>k. map_find k (sw_remote_nodes sw) \<noteq> None \<longleftrightarrow> k \<in> get_key_from_sockaddr gk ` set dsts) \<and>
    length (sw_remote_nodes sw) = card (get_key_from_sockaddr gk ` set dsts) \<and>
    (\<forall>a \<in> set dsts. map_find (get_key_from_sockaddr g' (to_sockaddr_storage_ipv6 a)) (sw_remote_nodes sw) \<noteq> None)"
proof -
  note keys = PacketSwitch_keys [OF new]
  have "fst ` set (sw_remote_nodes sw) = get_key_from_sockaddr gk ` set dsts"
    using keys by (auto simp: map_find_None)
  moreover have "map_ok (sw_remote_nodes sw)"
    using PacketSwitch_ok [OF new] by (simp add: sw_ok_def nodes_ok_def)
  moreover have "map_find (get_key_from_sockaddr g' (to_sockaddr_storage_ipv6 a)) (sw_remote_nodes sw) \<noteq> None"
    if "a \<in> set dsts" for a
    using that ok keys key_of_mapped [of a g' gk] by (simp del: not_None_eq)
  ultimately show ?thesis using keys by (simp add: length_map_ok del: not_None_eq)
qed

theorem node_per_address_witness:
  "\<exists>sw. PacketSwitch sample_addr [] 3 1500 1500 1 sample_addr
      [Sockaddr_in 0 [10, 0, 0, 1], Sockaddr_in6 0 0 (replicate 10 0 @ [255, 255, 10, 0, 0, 1]) 0] 58023 = Inr sw \<and>
    length (sw_remote_nodes sw) = 1"
proof -
  let ?d = "[Sockaddr_in 0 [10, 0, 0, 1], Sockaddr_in6 0 0 (replicate 10 0 @ [255, 255, 10, 0, 0, 1]) 0]"
  have check: "PacketSwitch_check 1500 1500 = Inr ()" by (simp add: PacketSwitch_check_iff)
  obtain sw where sw: "PacketSwitch sample_addr [] 3 1500 1500 1 sample_addr ?d 58023 = Inr sw"
    by (simp add: PacketSwitch_def check Let_def)
  have "\<forall>a \<in> set ?d. sockaddr_ok a \<and> (\<forall>f. a \<noteq> Sockaddr_other f)" by simp
  from node_per_address [OF sw this] sw show ?thesis by auto
qed

section \<open>Packets of the network\<close>

text \<open>
  ICMP messages verify: the checksum over the bytes on the wire behind the IP header, for
  ICMPv6 with the pseudo-header, computed again, is 0.
\<close>

theorem icmp_checksums:
  assumes "ipv4_ok p4" "ethernet_ok p4" "ipv6_ok p6" "ethernet_ok p6"
  shows "compute_checksum (drop 34 (ICMPv4Packet_asBinary p4)) = 0 \<and>
    compute_checksum_finalize (compute_checksum_partial (drop 54 (ICMPv6Packet_asBinary p6))
      (IPv6Packet_getPseudoChecksumLayer3 (ICMPv6Packet_getLayer4Size p6) p6)) = 0"
proof
  show "compute_checksum (drop 34 (ICMPv4Packet_asBinary p4)) = 0"
    using icmp4_verifies [of p4] length_ipv4_packet [OF assms(1,2)] by (simp add: ICMPv4Packet_asBinary_def)
  have "drop 54 (ICMPv6Packet_asBinary p6) =
      icmp6_header_bytes (cpu_to_be_16 (ICMPv6Packet_getChecksumLayer4 p6)) p6 @ Packet_payload_bytes p6"
    using length_ipv6_packet [OF assms(3,4)] by (simp add: ICMPv6Packet_asBinary_def)
  then show "compute_checksum_finalize (compute_checksum_partial (drop 54 (ICMPv6Packet_asBinary p6))
      (IPv6Packet_getPseudoChecksumLayer3 (ICMPv6Packet_getLayer4Size p6) p6)) = 0"
    using icmp6_verifies [OF assms(3)]
    by (simp add: icmp6_sum_def compute_checksum_partial_append icmp6_header_bytes_def)
qed

theorem icmp_checksums_witness:
  "compute_checksum (drop 34 (ICMPv4Packet_asBinary (ICMPv4Packet undefined))) = 0 \<and>
    compute_checksum_finalize (compute_checksum_partial (drop 54 (ICMPv6Packet_asBinary (ICMPv6Packet undefined)))
      (IPv6Packet_getPseudoChecksumLayer3 (ICMPv6Packet_getLayer4Size (ICMPv6Packet undefined))
        (ICMPv6Packet undefined))) = 0"
  by (rule icmp_checksums) (simp_all add: sample_icmp_ok)

text \<open>
  Which accessors of a TCP packet work: sequence and acknowledgment number; offset, window and
  urgent pointer cannot be set, and setting them changes the acknowledgment number.
\<close>

theorem tcp_accessors:
  "TCPPacket_getSequence (TCPPacket_setSequence s p) = s \<and> TCPPacket_getAck (TCPPacket_setAck s p) = s \<and>
   TCPPacket_setWindow w p = TCPPacket_setUrgent w p \<and>
   TCPPacket_setWindow w p = TCPPacket_setAck (ucast w) p \<and>
   TCPPacket_getOffset (TCPPacket_setOffset n p) = TCPPacket_getOffset p \<and>
   TCPPacket_getAck (TCPPacket_setOffset n p) = be_to_cpu_32 (ucast n) \<and>
   TCPPacket_getWindow p = 0 \<and> TCPPacket_getUrgent p = 0"
proof -
  have swap: "be_to_cpu_32 (be_to_cpu_32 x) = x" for x by (simp add: be_to_cpu_32_def)
  have low: "ucast (be_to_cpu_32 (ucast (w :: u16))) = (0 :: u16)" for w
  proof -
    have "store32 (ucast w) = [ucast w, ucast (drop_bit 8 w), 0, 0]"
      by (simp add: store32_def) (intro conjI bit_word_eqI; auto simp: bit_simps dest: bit_imp_le_length)
    then have "be_to_cpu_32 (ucast w) = load32 [0, 0, ucast (drop_bit 8 w), ucast w]"
      by (simp add: be_to_cpu_32_def bswap32_def)
    then show ?thesis by (simp only:) (rule bit_word_eqI, simp add: load32_def bit_simps)
  qed
  show ?thesis
    by (simp add: TCPPacket_getSequence_def TCPPacket_setSequence_def TCPPacket_getAck_def TCPPacket_setAck_def
        TCPPacket_setWindow_def TCPPacket_setUrgent_def TCPPacket_getOffset_def TCPPacket_setOffset_def
        TCPPacket_getWindow_def TCPPacket_getUrgent_def swap low)
qed

text \<open>
  A packet that is constructed from bytes is the one that is constructed without them: no
  class reads the bytes.
\<close>

theorem bytes_not_parsed:
  "IPv4Packet_of_bytes bs m4 = IPv4Packet m4 \<and> IPv6Packet_of_bytes bs m6 = IPv6Packet m6 \<and>
   UDPPacket_of_bytes ipv4_layer3 IPv4Packet_of_bytes IPv4Packet_parse bs u4 = UDPPacket ipv4_layer3 u4 \<and>
   UDPPacket_of_bytes ipv6_layer3 IPv6Packet_of_bytes IPv6Packet_parse bs u6 = UDPPacket ipv6_layer3 u6 \<and>
   TCPPacket_of_bytes ipv4_layer3 IPv4Packet_of_bytes bs t4 = TCPPacket ipv4_layer3 t4 \<and>
   TCPPacket_of_bytes ipv6_layer3 IPv6Packet_of_bytes bs t6 = TCPPacket ipv6_layer3 t6 \<and>
   ICMPv4Packet_of_bytes bs i4 = ICMPv4Packet i4 \<and> ICMPv6Packet_of_bytes bs i6 = ICMPv6Packet i6"
  by (simp add: ip_of_bytes ip_parse UDPPacket_of_bytes_def UDPPacket_def UDPPacket_init_def
      TCPPacket_of_bytes_def TCPPacket_def ICMPv4Packet_of_bytes_def ICMPv4Packet_def ICMPv6Packet_of_bytes_def
      ICMPv6Packet_def ipv4_layer3_def ipv6_layer3_def Let_def)

end
