(* ===== verification/Switch_Learning.thy ===== *)
theory Switch_Learning
  imports Switch_Invariant
begin

unbundle bit_operations_syntax

text \<open>
  How long the switch knows where an address is: no step of any thread changes the destination of
  an entry of the forwarding database, only the expiry removes one.
\<close>

section \<open>The destination of an entry\<close>

definition keeps_dest :: "mac \<Rightarrow> fdb \<Rightarrow> fdb \<Rightarrow> bool" where
  "keeps_dest m f f' \<longleftrightarrow>
     (\<forall>e. FDB_get m f = Some e \<longrightarrow> (\<exists>e'. FDB_get m f' = Some e' \<and> fe_dest e' = fe_dest e))"

lemma keeps_dest_refl [simp]: "keeps_dest m f f"
  by (simp add: keeps_dest_def)

lemma keeps_dest_trans: "keeps_dest m f f1 \<Longrightarrow> keeps_dest m f1 f2 \<Longrightarrow> keeps_dest m f f2"
  by (fastforce simp: keeps_dest_def)

lemma keeps_dest_learn: "fdb_ok f \<Longrightarrow> keeps_dest m f (FDB_learn now mac dest f)"
  by (auto simp: keeps_dest_def FDB_get_learn)

section \<open>The rounds\<close>

lemma tap_read_frame_dest:
  assumes "tap_read_frame now frame b sw = Inr r" and "fdb_ok (sw_fdb sw)"
  shows "keeps_dest m (sw_fdb sw) (sw_fdb (tap_end_switch r))"
  using assms(1) keeps_dest_learn [OF assms(2)]
  by (auto simp: tap_read_frame_def Let_def rbind_Inr_conv split: if_splits option.splits)

lemma tap_read_round_dest:
  assumes "tap_read_round now frame sw = Inr r" and "fdb_ok (sw_fdb sw)"
  shows "keeps_dest m (sw_fdb sw) (sw_fdb (tap_end_switch r))"
  using assms(1) tap_read_frame_dest [of now frame _ _ r m] assms(2)
  by (fastforce simp: tap_read_round_def rbind_Inr_conv)

lemma tap_write_frame_dest:
  assumes "tap_write_frame g now online write_ok b sw = Inr (out, sw')" and "fdb_ok (sw_fdb sw)"
  shows "keeps_dest m (sw_fdb sw) (sw_fdb sw') \<and> fdb_ok (sw_fdb sw')"
  using assms(1) keeps_dest_learn [OF assms(2)] fdb_ok_learn [OF assms(2)] assms(2)
  by (auto simp: tap_write_frame_def Let_def rbind_Inr_conv split: if_splits option.splits)

lemma tap_write_frames_dest:
  assumes "tap_write_frames g at bs sw = Inr (outs, sw')" and "fdb_ok (sw_fdb sw)"
  shows "keeps_dest m (sw_fdb sw) (sw_fdb sw')"
  using assms
proof (induction bs arbitrary: sw outs at)
  case (Cons b bs)
  obtain now online write_ok where at: "at 0 = (now, online, write_ok)" by (cases "at 0")
  obtain out sw1 outs' where step: "tap_write_frame g now online write_ok b sw = Inr (out, sw1)"
    "tap_write_frames g (\<lambda>i. at (Suc i)) bs sw1 = Inr (outs', sw')"
    using Cons.prems(1) by (auto simp: at rbind_Inr_conv)
  from tap_write_frame_dest [OF step(1) Cons.prems(2), of m] Cons.IH [OF step(2)]
  show ?case using keeps_dest_trans by blast
qed simp

lemma tap_write_round_dest:
  assumes "tap_write_round g at None sw = Inr (outs, sw')" and "fdb_ok (sw_fdb sw)"
  shows "keeps_dest m (sw_fdb sw) (sw_fdb sw')"
  using assms(1) tap_write_frames_dest [of g at _ "sw\<lparr>sw_tap_write_pool := _\<rparr>" _ _ m] assms(2)
  by (fastforce simp: tap_write_round_def rbind_Inr_conv)

lemma socket_read_round_fdb: "socket_read_round g ms (slots, r, sw) = Inr (slots', r', sw') \<Longrightarrow> sw_fdb sw' = sw_fdb sw"
  by (auto simp: socket_read_round_def rbind_Inr_conv)

section \<open>A run\<close>

text \<open>A step keeps the destination of every entry that is still there after it.\<close>

lemma system_step_dest:
  assumes "system_step ratio lib g cap s s'" and ok: "fdb_ok (sw_fdb (sy_switch s))"
    and "FDB_get m (sw_fdb (sy_switch s)) = Some e" and "FDB_get m (sw_fdb (sy_switch s')) = Some e'"
  shows "fe_dest e' = fe_dest e"
proof -
  have "keeps_dest m (sw_fdb (sy_switch s)) (sw_fdb (sy_switch s')) \<or> e' = e"
    using assms(1)
  proof (cases rule: system_stepE)
    case (read_frame frame now r)
    then show ?thesis using tap_read_round_dest [OF read_frame(4) ok, of m]
      by (auto simp: after_tap_read_def split: tap_read_end.splits)
  next
    case (read_again b frame now r)
    then show ?thesis using tap_read_frame_dest [OF read_again(4) ok, of m]
      by (auto simp: after_tap_read_def split: tap_read_end.splits)
  next
    case (receive ms slots r sw)
    then show ?thesis using socket_read_round_fdb [OF receive(4)] by simp
  next
    case (write_frames at outs sw)
    then show ?thesis using tap_write_round_dest [OF write_frames(2) ok, of m] by simp
  next
    case (expire now)
    then show ?thesis using assms(3,4) FDB_get_expire [OF ok] by (simp add: fdb_round_def)
  qed (simp_all add: after_encode_def after_send_def after_decode_def)
  with assms(3,4) show ?thesis by (auto simp: keeps_dest_def)
qed

text \<open>A run in which an address stays in the database.\<close>

abbreviation run_knowing ::
    "(int \<Rightarrow> u16 \<Rightarrow> 'f) \<Rightarrow> 's codec_lib \<Rightarrow> u8 list \<Rightarrow> nat \<Rightarrow> mac \<Rightarrow> ('s, 'f) system \<Rightarrow> ('s, 'f) system \<Rightarrow> bool"
where
  "run_knowing ratio lib g cap m \<equiv>
     rtranclp (\<lambda>s s'. system_step ratio lib g cap s s' \<and> FDB_get m (sw_fdb (sy_switch s')) \<noteq> None)"

lemma run_keeps_dest:
  assumes "run_knowing ratio lib g cap m s s'" and "system_ok g cap s" and "12 \<le> cap" and "cap < 65536"
    and "codec_bounded lib cap" and some: "sw_remote_nodes (sy_switch s) \<noteq> []"
    and e: "FDB_get m (sw_fdb (sy_switch s)) = Some e"
  shows "system_ok g cap s' \<and> sw_remote_nodes (sy_switch s') \<noteq> [] \<and>
    (\<exists>e'. FDB_get m (sw_fdb (sy_switch s')) = Some e' \<and> fe_dest e' = fe_dest e)"
  using assms(1)
proof (induction rule: rtranclp_induct)
  case base
  show ?case using assms(2) some e by blast
next
  case (step s1 s2)
  then obtain e1 e2 where e12: "FDB_get m (sw_fdb (sy_switch s1)) = Some e1" "fe_dest e1 = fe_dest e"
    "FDB_get m (sw_fdb (sy_switch s2)) = Some e2" by blast
  have s1: "system_ok g cap s1" "sw_remote_nodes (sy_switch s1) \<noteq> []" using step.IH by simp_all
  have one: "system_step ratio lib g cap s1 s2" using step.hyps(2) by blast
  note kept = system_step_kept [OF one s1(1) assms(3-5) s1(2)]
  then have "sw_remote_nodes (sy_switch s2) \<noteq> []"
    using nodes_not_empty [OF _ s1(2)] by (simp add: kept_def conserved_def)
  moreover have "fdb_ok (sw_fdb (sy_switch s1))" using s1(1) by (simp add: system_ok_def sw_ok_def)
  then have "fe_dest e2 = fe_dest e1" using system_step_dest [OF one _ e12(1,3)] by blast
  ultimately show ?case using kept e12 by (simp add: kept_def)
qed

section \<open>Frames to an address that is known\<close>

text \<open>A frame from the device to an address of a node goes to that node and nowhere else.\<close>

lemma tap_read_known:
  assumes sw: "sw_ok g cap sw" and e: "FDB_get dst (sw_fdb sw) = Some e" "fe_dest e = Some k"
    and b: "buffer_ok cap b" and frame: "12 \<le> length frame" "length frame \<le> cap"
    and macs: "slice 0 6 frame = dst" "\<not> mac_is_group dst" "\<not> mac_is_group (slice 6 6 frame)"
  shows "\<exists>b2 n n' sw2. tap_read_frame now frame b sw = Inr (Handled sw2) \<and>
    buffer_data b2 = frame \<and> map_find k (sw_remote_nodes sw) = Some n \<and> given cap b2 n n' \<and>
    (\<forall>j. map_find j (sw_remote_nodes sw2) = (if j = k then Some n' else map_find j (sw_remote_nodes sw)))"
proof -
  have fdb: "fdb_ok (sw_fdb sw)" and nodes: "nodes_ok g cap (sw_remote_nodes sw)" using sw by (simp_all add: sw_ok_def)
  have "map_find k (sw_remote_nodes sw) \<noteq> None" using sw e by (auto simp: sw_ok_def)
  then obtain n where k: "map_find k (sw_remote_nodes sw) = Some n" by blast
  have n: "node_ok g cap k n" and maps: "map_ok (sw_remote_nodes sw)" using nodes k by (simp_all add: nodes_ok_def)
  let ?sw1 = "sw\<lparr>sw_fdb := FDB_learn now (slice 6 6 frame) None (sw_fdb sw)\<rparr>"
  obtain e1 where e1: "FDB_get dst (sw_fdb ?sw1) = Some e1" "fe_dest e1 = Some k"
    using keeps_dest_learn [OF fdb, of dst now "slice 6 6 frame" None] e by (auto simp: keeps_dest_def)
  obtain b2 where b2: "buffer_ok cap b2" "buffer_data b2 = frame"
    "tap_read_frame now frame b sw = rbind (push_to_encoder b2 n) (\<lambda>n'.
       Inr (Handled (?sw1\<lparr>sw_remote_nodes := map_assign k n' (sw_remote_nodes sw)\<rparr>)))"
    using tap_read_cases [OF sw b frame(2,1), of now] macs e1 k by auto
  obtain n' where "push_to_encoder b2 n = Inr n'" "given cap b2 n n'"
    using push_to_encoder_given [OF n b2(1) refl] by blast
  with b2 k maps show ?thesis by (auto simp: map_find_assign)
qed

end
