(* ===== verification/Wire_Bytes.thy ===== *)
theory Wire_Bytes
  imports Codec_Spec Decoder
begin

unbundle bit_operations_syntax

text \<open>
  The wire format byte by byte, without the structs of \<open>codec.hpp\<close>: what a packet of segments is on
  the wire, and what the checks of a received header ask of its bytes.
\<close>

section \<open>What is sent\<close>

definition wire16 :: "u16 \<Rightarrow> u8 list" where
  "wire16 w = [ucast (drop_bit 8 w), ucast w]"

definition wire32 :: "u32 \<Rightarrow> u8 list" where
  "wire32 w = [ucast (drop_bit 24 w), ucast (drop_bit 16 w), ucast (drop_bit 8 w), ucast w]"

fun wire_segment :: "seg \<Rightarrow> u8 list" where
  "wire_segment (Complete orig fmt payload) =
     2 # wire16 orig @ [fmt] @ wire16 (of_nat (length payload)) @ [0, 0] @ payload"
| "wire_segment (Part last' orig fmt part payload) =
     (if last' then 3 else 1) # wire16 orig @ [fmt] @ wire16 (of_nat (length payload)) @ [part, 0] @ payload"

definition wire_packet :: "u32 \<times> seg list \<Rightarrow> u8 list" where
  "wire_packet p = [0x11, 0, 1, 0] @ wire32 (fst p) @ concat (map wire_segment (snd p))"

lemma wire_segment_bytes: "wire_segment s = seg_bytes s"
  by (cases s) (simp_all add: seg_bytes_def PacketHeaderOption_bytes_def wire16_def store_be)

lemma wire_packet_bytes: "wire_packet p = packet_bytes p"
  by (simp add: wire_packet_def packet_bytes_def packet_header_of_def PacketHeader_bytes_def wire32_def store_be
      segs_bytes_def wire_segment_bytes [abs_def])

section \<open>What is received\<close>

text \<open>The bytes on which the header is refused, and the fields that are read from bytes.\<close>

lemma packet_header_bad_bytes:
  "packet_header_bad (PacketHeader_at (b0 # b1 # b2 # b3 # bs)) \<longleftrightarrow>
     1 < unat b0 mod 16 \<or> 4 \<le> unat b1 \<or> b2 \<noteq> 1 \<or> b3 \<noteq> 0"
proof -
  have "unat (ucast (ucast b0 :: 4 word) :: u8) = unat b0 mod 16"
    by (simp add: unsigned_ucast_eq unsigned_take_bit_eq take_bit_eq_mod unat_mod_distrib)
  then have "(ucast (ucast b0 :: 4 word) :: u8) > 1 \<longleftrightarrow> 1 < unat b0 mod 16"
    by (simp add: word_less_nat_alt)
  moreover have "unat (ucast (drop_bit 2 b1) :: 6 word) = unat b1 div 4 mod 64"
    by (simp add: unsigned_ucast_eq unsigned_drop_bit_eq take_bit_eq_mod drop_bit_eq_div unat_div_distrib)
  moreover have "unat b1 div 4 mod 64 = 0 \<longleftrightarrow> \<not> 4 \<le> unat b1"
  proof -
    have "unat b1 < 256" by (rule unsigned_less [of b1, simplified])
    then have "unat b1 div 4 < 64" by linarith
    then show ?thesis by (simp only: mod_less) linarith
  qed
  ultimately show ?thesis
    by (simp add: packet_header_bad_def PacketHeader_at_def SETH_PACKET_HEADER_VERSION_V1_def word_unat_eq_iff [of _ "0 :: 6 word"])
qed

lemma wire_be: "wire16 x = store16 (cpu_to_be_16 x)" "wire32 y = store32 (cpu_to_be_32 y)"
  by (simp_all add: wire16_def wire32_def store_be)

lemma PacketHeader_at_wire:
  "be_to_cpu_32 (ph_sequence (PacketHeader_at (b0 # b1 # b2 # b3 # wire32 s))) = s"
  "unat (ph_opt_len (PacketHeader_at (b0 # bs))) = unat b0 div 16"
proof -
  show "be_to_cpu_32 (ph_sequence (PacketHeader_at (b0 # b1 # b2 # b3 # wire32 s))) = s"
    by (simp add: PacketHeader_at_def wire_be)
  have "unat b0 < 256" by (rule unsigned_less [of b0, simplified])
  then have "unat b0 div 16 < 16" by linarith
  then show "unat (ph_opt_len (PacketHeader_at (b0 # bs))) = unat b0 div 16"
    by (simp add: PacketHeader_at_def unsigned_ucast_eq unsigned_drop_bit_eq take_bit_eq_mod drop_bit_eq_div
        unat_div_distrib)
qed

lemma PacketHeaderOption_at_wire:
  "PacketHeaderOption_at (t # wire16 sz @ f # wire16 len @ [part, res]) =
     \<lparr>po_type = t, po_packet_size = cpu_to_be_16 sz, po_format = f,
      po_payload_length = cpu_to_be_16 len, po_part = part, po_reserved = res\<rparr>"
proof -
  let ?o = "\<lparr>po_type = t, po_packet_size = cpu_to_be_16 sz, po_format = f,
      po_payload_length = cpu_to_be_16 len, po_part = part, po_reserved = res\<rparr>"
  have "t # wire16 sz @ f # wire16 len @ [part, res] = PacketHeaderOption_bytes ?o"
    by (simp add: PacketHeaderOption_bytes_def wire_be)
  then show ?thesis by (simp only: PacketHeaderOption_at_bytes)
qed

end
