(* ===== verification/Spec2Isabelle.thy ===== *)
theory Spec2Isabelle
  imports Sample_Run Sample_Start Further_Properties Text_Output Switch_Learning Wire_Bytes
begin

unbundle bit_operations_syntax

text \<open>
  superethd is a layer 2 tunnel over UDP: it reads Ethernet frames from a TAP device, finds the
  remote end of the tunnel by the destination address of the frame, packs frames (whole or in
  parts, optionally compressed) into UDP packets, and at the other end takes them out of the
  packets and writes them to the TAP device there. This development is a model of that program
  with the theorems that make it correct. File names below are those under \<open>src/\<close> of the
  repository's \<open>src\<close> directory.

  \<^bold>\<open>The parts of the program and how they interact.\<close> \<open>main\<close> (\<open>main.cpp\<close>) turns the command line and
  the configuration file into the arguments of \<open>start_seth\<close>, which constructs a \<open>PacketSwitch\<close>
  (\<open>packet_switch.cpp\<close>). The switch owns the pool of free buffers, the forwarding database
  (\<open>fdb.cpp\<close>), one \<open>RemoteNode\<close> per peer (\<open>remote_node.cpp\<close>) and four threads: the reader of the
  TAP device, its writer, the reader of the socket and the expiry of the database. A remote node
  has three threads of its own: one drives a \<open>PacketEncoder\<close> (\<open>encoder.cpp\<close>), one a \<open>PacketDecoder\<close>
  (\<open>decoder.cpp\<close>), one sends packets. Threads hand buffers (\<open>libaccl/buffer.hpp\<close>) to each other
  through pools (\<open>libaccl/buffer_pool.hpp\<close>). A frame travels: free pool, TAP reader, encoder pool of
  a node, encoder, socket pool of the node, socket writer; and back: free pool, socket reader,
  decoder pool of the node, decoder, TAP pool of the switch, TAP writer, free pool.

  \<^bold>\<open>Which theory models what.\<close>

  \<^item> \<open>Prelude\<close>: the machine integers, \<open>cpp_error\<close> and \<open>result\<close> (every exception, undefined access,
    endless wait and endless loop is a value), sequencing (\<open>rbind\<close>, \<open>rfold\<close>), loops that may not end
    (\<open>rwhile\<close>), the rules for \<open>safe\<close>, reading and writing ranges of a byte list.
  \<^item> \<open>Endian\<close> (\<open>libaccl/endian.hpp\<close>): the byte-order conversions and integers in memory, with the
    locale \<open>wire_format\<close> (a fixed number of bytes that gives back the value stored), interpreted
    here for integers and in \<open>Codec\<close> for both headers.
  \<^item> \<open>Buffers\<close>, \<open>Packet_Buffer\<close>, \<open>Buffer_Pool\<close>: \<open>class accl::Buffer\<close>, \<open>class PacketBuffer\<close>
    (\<open>packet_buffer.hpp\<close>) and \<open>class accl::BufferPool\<close>. The locale \<open>fifo_pool\<close> states that a pool is
    a queue; it is interpreted for \<open>pop\<close> and for \<open>pop_wait\<close>.
  \<^item> \<open>Sockaddr\<close> (\<open>util.cpp\<close>), \<open>Statistic\<close> (\<open>libaccl/statistic.hpp\<close>), \<open>Compressor\<close>
    (\<open>libaccl/stream_compressor*.cpp\<close>), \<open>Logger\<close> (\<open>libaccl/logger.cpp\<close>), \<open>Std_Map\<close> (\<open>std::map\<close> as the
    program uses it, with the locale \<open>finite_map\<close>).
  \<^item> \<open>Codec\<close> (\<open>codec.hpp\<close>), \<open>Encoder\<close> (\<open>encoder.cpp\<close>), \<open>Decoder\<close> (\<open>decoder.cpp\<close>): one definition per
    method and per block of the long methods, in their order, on records that hold the members of
    the classes. The buffers that a thread gets and gives are those of the pools in the record.
  \<^item> \<open>Remote_Node\<close>, \<open>Fdb\<close>, \<open>Packet_Switch\<close>: the constructors and one round of every thread.
    \<open>PacketSwitch\<close> is the constructor, \<open>tap_read_round\<close>, \<open>tap_write_round\<close>, \<open>socket_read_round\<close> and
    \<open>fdb_round\<close> are the bodies of the loops of the four threads; \<open>encoder_handler_round\<close>,
    \<open>decoder_handler_round\<close> and \<open>socket_write_round\<close> those of a node.
  \<^item> \<open>Settings\<close> (\<open>main.cpp\<close>): the loop over the options, the configuration file, the defaults and
    checks, the conversion of the addresses (\<open>configure\<close>).
  \<^item> \<open>System_Calls\<close>: requests to the operating system, computations that make them and leave a trace.
    \<open>Tap_Interface\<close> (\<open>tap_interface.cpp\<close>): the TAP device. \<open>Program_Start\<close> (\<open>superethd.cpp\<close> and the
    parts of \<open>packet_switch.cpp\<close> and \<open>remote_node.cpp\<close> that open the socket, start and join threads):
    \<open>PacketSwitch_object\<close> is the whole constructor, \<open>superethd\<close> the whole program.
  \<^item> \<open>Checksum\<close>, \<open>Net_Packet\<close>, \<open>Net_Transport\<close> (\<open>libsethnetkit\<close>): the packet classes. A template
    over the network layer is parametrised by the record \<open>layer3\<close>, with the locale \<open>layer3_class\<close>
    (in \<open>Net_Correct\<close>), interpreted for IPv4 and IPv6. \<open>Dump\<close>: the hexadecimal dumps (\<open>debug.cpp\<close>,
    \<open>packet.cpp\<close>) and \<open>libaccl/sequence_data_generator.cpp\<close>. \<open>Text_Output\<close>: the \<open>asText\<close> methods
    and the texts of addresses.

  \<^bold>\<open>What the groups of lemmas show.\<close>

  \<^item> \<open>Codec_Spec\<close> is the abstract codec: a packet is a list of segments, without buffers, pools and
    bytes. Its main lemma is that the abstract decoder inverts the abstract encoder for packets of
    any size. \<open>Encoder_Correct\<close> and \<open>Decoder_Correct\<close> are the simulations that the program's encoder
    and decoder implement it byte for byte, \<open>Tunnel\<close> composes them: C1 to C8.
  \<^item> \<open>Loss_Spec\<close> extends the abstract decoder to packets that are lost, repeated or reordered; the
    simulation of \<open>Decoder_Correct\<close> is with this one, for any sequence numbers. \<open>Loss_Frames\<close> compares
    a decoder that gets some of the packets with one that gets them all, \<open>Loss_Tunnel\<close> carries the
    result over to the program (C3); C15 is what goes wrong where the sequence number wraps.
  \<^item> \<open>Decoder_Safe\<close> and \<open>Decoder_Limits\<close> are about packets that no encoder has made: what the decoder
    never does (C9), when it returns (C10), the packets on which it does not
    return or reads behind the data (C11, C12,
    C16), and what it refuses (C13, C14).
    A packet that leaves less than 7 bytes of its buffer free can make it read an option header past
    the end of the buffer; that outcome, \<open>Out_of_bounds\<close>, is part of C9 and C10, and
    C16 shows that it happens. C28 is what the encoder refuses.
  \<^item> \<open>Wire_Bytes\<close> gives the wire format as literal bytes, without the structs of \<open>codec.hpp\<close>, for what
    is sent and for what is read and checked (C17).
  \<^item> \<open>Switch_Correct\<close> gives the sizes that the constructor accepts, where frames go and what is
    learned from them (C18, C22 to C27). \<open>Encoder_Safe\<close>
    is the encoder's invariant, for any frames and any compression library (C7).
  \<^item> \<open>Switch_Steps\<close> makes the rounds of all threads of one end, the encoders, senders and decoders of
    its nodes included, the steps of a transition system. \<open>Switch_Nodes\<close> says what a round moves and
    what it leaves alone, \<open>Switch_Invariant\<close> proves the invariant by rule induction, \<open>Switch_Start\<close> that
    the start of the threads establishes it: C19; C20, that no buffer
    is lost; C21, what goes to the network. \<open>Switch_Learning\<close> shows that no step changes
    the destination of an entry of the forwarding database (C23).
  \<^item> \<open>Start_Correct\<close> is about the start of the program: the exact requests of a run that returns
    (C30), what a failure leaves behind (C31), the threads
    (C32), an IPv4 source address (C33). C29 joins the
    start and the transition system: what holds of a program that has started from a command line. C34 is about the
    settings. The rules for computations over system calls are in \<open>System_Calls\<close> (\<open>io_post\<close>, for
    the result and the world after it) and here (\<open>asks\<close>, for runs that return; \<open>leaves\<close> and \<open>fails\<close>,
    for what every request or every request of a run that throws satisfies).
  \<^item> C35 to C36 are about the small classes, C37 to
    C40 about the packet classes; some of these state what the code does where it
    differs from a standard or from its comments. \<open>Further_Properties\<close> holds more of this kind.
  \<^item> \<open>Samples\<close> holds the concrete inputs of the witnesses, \<open>Sample_Run\<close> a run of the threads from a
    frame that is read to the datagram that is sent, \<open>Sample_Start\<close> an operating system and two runs
    of the whole program. In the samples the compression library is
    \<open>store_codec\<close>, which stores, so that losslessness is shown to be satisfiable.

  \<^bold>\<open>Parameters.\<close> LZ4 and ZSTD are an argument \<open>codec_lib\<close> of the definitions (operations on a
  state of a stream of type \<open>'s\<close>); \<open>lossless\<close> is the documented behaviour that the tunnel relies on:
  two streams in step stay in step and what one compresses the other decompresses. The bytes a
  packet buffer holds beyond its data, the clock, the messages that \<open>recvmmsg\<close> returns, the
  outcome of \<open>write\<close>, the results of \<open>getopt_long\<close>, of the property tree, of \<open>inet_pton\<close> and
  \<open>inet_ntop\<close> and the rounding of a statistic are arguments as well. The operating system is an
  argument \<open>os\<close> that answers requests from a state of its own; nothing is assumed of it but where a
  theorem says so. A wait gets the buffers that
  arrive while it sleeps as an argument; that nobody wakes it is \<open>Would_block\<close>. The device writer
  gets the time, the state of the device and the outcome of the write for each frame of a round
  (the argument \<open>at\<close>).

  \<^bold>\<open>What a step of the transition system takes in.\<close> A frame or a datagram is at most as long as the
  buffer it is read into, the limit that \<open>read\<close> and \<open>recvmmsg\<close> are given; every datagram up to the whole
  buffer is admitted. The empty frame stands for a failed or empty read, on which \<open>tap_read_frame\<close>
  ends the program (\<open>Process_exit\<close>). A round that fails has no successor state: an exception, a
  sleep for a buffer, a loop without end, and also the decoder's read past the end of a buffer,
  which is undefined in C++. The invariants are about the states reached by rounds that succeed;
  C19 says in addition which failures the next round of each thread can have.

  \<^bold>\<open>Bounds.\<close> The model is of a little-endian machine. There is no fuel: \<open>rwhile\<close> gives \<open>Diverges\<close>
  when the loop of the program does not end, so that a theorem that ends in \<open>Inr\<close> says that the
  code returns. The tunnel theorems assume \<open>104 \<le> l4mtu \<le> cap \<le> 22352\<close> for the size \<open>cap\<close> of the
  buffers (\<open>tunnel_ok\<close>): a smaller payload does not hold a header and a part of the least size, a
  larger buffer could need a frame in more parts than 8 bits count or packets beyond 16 bit
  positions. C8 shows that every configuration the program accepts is inside these bounds. An
  encoder needs at most \<open>cap div (l4mtu - 16) + 2\<close> buffers for a frame, which the hypotheses on the
  pools ask for. Addresses are split at delimiters that are no special characters of a regular
  expression, which those of \<open>main\<close> are not.

  \<^bold>\<open>Not modelled.\<close> \<open>tunnel.cpp\<close> and \<open>threads.hpp\<close> are disabled by \<open>#if 0\<close>. Log lines inside the
  codec, the switch and the start, the progress lines of \<open>main\<close> and the text of system errors
  only print. Mutexes, condition variables and data races
  are below the model: a method of a pool or of the database and a round of a thread in
  \<open>Switch_Steps\<close> are atomic. What the threads do between their start and their end is in
  \<open>Switch_Steps\<close> (C29 joins the two), not in the trace of system calls of \<open>superethd\<close>. Destructors other than that of the
  TAP device are left out, tests and benchmarks as well.

  \<^bold>\<open>What could follow.\<close> Two ends as one transition system with the network between them.
\<close>

section \<open>The tunnel\<close>

text \<open>
  C1. Frames go through the tunnel in order and unharmed: for every packet format, the decoder that
  is handed the packets of an encoder gives the frames the encoder was given.
\<close>

theorem tunnel_roundtrip:
  fixes lib :: "'s codec_lib" and ratio :: "int \<Rightarrow> u16 \<Rightarrow> 'f"
  assumes ok: "tunnel_ok lib R cap l2mtu l4mtu fmt"
    and pools: "pool_ok cap rx" "pool_ok cap tx" "pool_ok cap tap"
    and frames: "\<forall>b \<in> set (frames_of evs). buffer_ok cap b \<and> dataSize b \<le> unat l2mtu"
    and rx: "length (frames_of evs) * (cap div (unat l4mtu - 16) + 2) + length evs + 3 \<le> length (pool rx)"
    and tx: "length (frames_of evs) + 2 \<le> length (pool tx)"
  shows "\<exists>e0 e1 :: ('s, 'f) encoder.
    rbind (PacketEncoder l2mtu l4mtu (BufferPool cap) rx) (encoder_setPacketFormat lib fmt) = Inr e0 \<and>
    rfold (encoder_handle ratio lib) (evs @ [(False, [])]) e0 = Inr e1 \<and>
    (\<forall>pbs. (\<forall>pb \<in> set pbs. buffer_ok cap pb) \<and>
        map buffer_data pbs = map buffer_data (pool (enc_tx_buffer_pool e1)) \<longrightarrow>
      (\<exists>d0 d1. PacketDecoder garbage lib l2mtu tap tx = Inr d0 \<and>
        decoder_handle lib pbs d0 = Inr d1 \<and>
        map buffer_data (pool (dec_tx_buffer_pool d1)) =
          map buffer_data (pool tap) @ map buffer_data (frames_of evs)))"
proof -
  let ?evs = "evs @ [(False, [])]"
  obtain lz4 zstd where lib: "StreamCompressorLZ4 lib = Inr lz4" "StreamCompressorZSTD lib = Inr zstd"
    using ok by (auto simp: tunnel_ok_def lib_ready_def)
  let ?st = "fold (abs_handle lib (unat l4mtu) cap fmt) ?evs (aenc_init (format_compressor fmt lz4 zstd))"
  have all: "frames_of ?evs = frames_of evs" by (simp add: frames_of_def)
  have rx': "length (frames_of ?evs) * (cap div (unat l4mtu - 16) + 2) + length ?evs + 2 \<le> length (pool rx)"
    using rx by (simp add: all)
  obtain e0 e1 :: "('s, 'f) encoder" and N d where
    e: "rbind (PacketEncoder l2mtu l4mtu (BufferPool cap) rx) (encoder_setPacketFormat lib fmt) = Inr e0"
      "rfold (encoder_handle ratio lib) ?evs e0 = Inr e1"
      "tunnel_inv lib R cap N (l2mtu, l4mtu, fmt) (adec_init lz4 zstd) e1 ?st d"
      "ad_out d = map buffer_data (frames_of ?evs)"
    by (rule encoder_run [OF ok lib pools(1) frames [folded all] rx' refl])
  have "acur (ast_enc ?st) = []" by (simp add: abs_handle_def)
  moreover have "cap < 65536" using ok by (simp add: tunnel_ok_def)
  moreover have "length (ad_out d) + 2 \<le> length (pool tx)" using tx by (simp add: e(4) all)
  ultimately obtain d0 where "PacketDecoder garbage lib l2mtu tap tx = Inr d0"
    "\<forall>pbs. (\<forall>pb \<in> set pbs. buffer_ok cap pb) \<and>
        map buffer_data pbs = map buffer_data (pool (enc_tx_buffer_pool e1)) \<longrightarrow>
      (\<exists>d1. decoder_handle lib pbs d0 = Inr d1 \<and>
        map buffer_data (pool (dec_tx_buffer_pool d1)) = map buffer_data (pool tap) @ ad_out d)"
    using decoder_run [OF e(3) _ _ lib pools(3,2), of garbage] by blast
  with e(1,2) show ?thesis unfolding e(4) all by blast
qed

theorem tunnel_roundtrip_witness:
  "\<exists>e0 e1 :: (unit, int) encoder.
    rbind (PacketEncoder 200 104 (BufferPool 220) (sample_pool 220 13)) (encoder_setPacketFormat store_codec 1) = Inr e0 \<and>
    rfold (encoder_handle (\<lambda>n m. n) store_codec) (sample_events @ [(False, [])]) e0 = Inr e1 \<and>
    (\<forall>pbs. (\<forall>pb \<in> set pbs. buffer_ok 220 pb) \<and>
        map buffer_data pbs = map buffer_data (pool (enc_tx_buffer_pool e1)) \<longrightarrow>
      (\<exists>d0 d1. PacketDecoder 7 store_codec 200 (BufferPool 220) (sample_pool 220 4) = Inr d0 \<and>
        decoder_handle store_codec pbs d0 = Inr d1 \<and>
        map buffer_data (pool (dec_tx_buffer_pool d1)) =
          map buffer_data (pool (BufferPool 220)) @ map buffer_data (frames_of sample_events)))"
  using tunnel_roundtrip [OF sample_tunnel_ok sample_pool_ok(1) sample_pool_ok(1) pool_ok_empty
        sample_events_ok, of 13 4 "\<lambda>n m. n" 7]
  by (simp add: sample_pool_ok sample_events_frames del: rfold.simps)

text \<open>
  C2. From one machine to the other: the datagrams of a node are accepted by the switch that knows
  their source, reach the decoder of its node, and the decoder delivers the frames that the
  encoder was given.
\<close>

theorem end_to_end:
  fixes lib :: "'s codec_lib" and ratio :: "int \<Rightarrow> u16 \<Rightarrow> 'f"
  assumes ok: "tunnel_ok lib R cap l2mtu l4mtu fmt"
    and pools: "pool_ok cap rx" "pool_ok cap tx" "pool_ok cap tap"
    and frames: "\<forall>b \<in> set (frames_of evs). buffer_ok cap b \<and> dataSize b \<le> unat l2mtu"
    and n: "n = length (frames_of evs) * (cap div (unat l4mtu - 16) + 2) + length evs + 1"
    and bufs: "n + 2 \<le> length (pool rx)" "length (frames_of evs) + 2 \<le> length (pool tx)"
    and sw: "sw_ok g cap sw" and slots: "\<forall>s \<in> set slots. buffer_ok cap s"
    and room: "n \<le> length slots" "n \<le> length (pool (sw_available_tx_buffer_pool sw))"
    and src: "\<forall>f. src \<noteq> Sockaddr_other f"
      "map_find (get_key_from_sockaddr g src) (sw_remote_nodes sw) = Some (Some rn)" "pool (rn_decoder_pool rn) = []"
  shows "\<exists>(e0 :: ('s, 'f) encoder) e1 sent slots' r' sw' rn' d0 d1.
    rbind (PacketEncoder l2mtu l4mtu (BufferPool cap) rx) (encoder_setPacketFormat lib fmt) = Inr e0 \<and>
    rfold (encoder_handle ratio lib) (evs @ [(False, [])]) e0 = Inr e1 \<and>
    socket_send_all peer (pool (enc_tx_buffer_pool e1)) = Inr sent \<and>
    socket_read_round g (map (\<lambda>(addr, len, bytes). (src, bytes)) sent) (slots, [], sw) = Inr (slots', r', sw') \<and>
    map_find (get_key_from_sockaddr g src) (sw_remote_nodes sw') = Some (Some rn') \<and>
    PacketDecoder garbage lib l2mtu tap tx = Inr d0 \<and>
    decoder_handle lib (pool (rn_decoder_pool rn')) d0 = Inr d1 \<and>
    map buffer_data (pool (dec_tx_buffer_pool d1)) = map buffer_data (pool tap) @ map buffer_data (frames_of evs)"
proof -
  let ?evs = "evs @ [(False, [])]" and ?k = "get_key_from_sockaddr g src"
  obtain lz4 zstd where lib: "StreamCompressorLZ4 lib = Inr lz4" "StreamCompressorZSTD lib = Inr zstd"
    using ok by (auto simp: tunnel_ok_def lib_ready_def)
  let ?st = "fold (abs_handle lib (unat l4mtu) cap fmt) ?evs (aenc_init (format_compressor fmt lz4 zstd))"
  have all: "frames_of ?evs = frames_of evs" by (simp add: frames_of_def)
  have rx: "length (frames_of ?evs) * (cap div (unat l4mtu - 16) + 2) + length ?evs + 2 \<le> length (pool rx)"
    using bufs(1) n by (simp add: all)
  obtain e0 e1 :: "('s, 'f) encoder" and N d where
    e: "rbind (PacketEncoder l2mtu l4mtu (BufferPool cap) rx) (encoder_setPacketFormat lib fmt) = Inr e0"
      "rfold (encoder_handle ratio lib) ?evs e0 = Inr e1"
      "tunnel_inv lib R cap N (l2mtu, l4mtu, fmt) (adec_init lz4 zstd) e1 ?st d"
      "ad_out d = map buffer_data (frames_of ?evs)"
      "length (aout (ast_enc ?st)) \<le> length (frames_of ?evs) * (cap div (unat l4mtu - 16) + 2) + length ?evs"
    by (rule encoder_run [OF ok lib pools(1) frames [folded all] rx refl])
  let ?pbs = "pool (enc_tx_buffer_pool e1)"
  note packets = tunnel_packets [OF e(3)]
  let ?sent = "map (\<lambda>b. (rn_node_addr peer, sizeof_sockaddr_in6, buffer_data b)) ?pbs"
  let ?ms = "map (\<lambda>b. (src, buffer_data b)) ?pbs"
  have sent: "socket_send_all peer ?pbs = Inr ?sent"
    using packets(3) by (intro socket_send_all_ok [of _ cap]) blast
  have "length (buffer_data b) \<le> cap" if "b \<in> set ?pbs" for b
    using packets(3) that length_buffer_data [of cap b] by (auto simp: buffer_ok_def)
  then have fits: "\<forall>m \<in> set ?ms. length (snd m) \<le> cap" by simp
  have accepted: "\<forall>m \<in> set ?ms. message_accepted g (sw_remote_nodes sw) m \<and> message_key g m = ?k"
    using packets(3) src by (fastforce simp: message_accepted_def message_key_def length_buffer_data)
  have ms: "length ?ms \<le> length slots" "length ?ms \<le> length (pool (sw_available_tx_buffer_pool sw))"
    using e(5) room n packets(2) by (simp_all add: all)
  obtain slots' r' sw' where read: "socket_read_round g ?ms (slots, [], sw) = Inr (slots', r', sw')" "sw_ok g cap sw'"
    "delivered g ?ms [] (sw_remote_nodes sw) (sw_remote_nodes sw')"
    using socket_read_round_enough [OF sw slots _ fits ms, of "[]"] by (auto simp: received_ok_def)
  obtain rn' bs where rn': "map_find ?k (sw_remote_nodes sw') = Some (Some rn')" "pool (rn_decoder_pool rn') = bs"
    "map buffer_data bs = map snd ?ms"
  proof -
    have "filter (\<lambda>m. message_accepted g (sw_remote_nodes sw) m \<and> message_key g m = ?k) ?ms = ?ms"
      using accepted by (intro filter_True) blast
    with read(3) src(2) have "\<exists>n' bs. map_find ?k (sw_remote_nodes sw') = Some n' \<and> fed bs (Some rn) n' \<and>
        map buffer_data bs = map snd ?ms"
      unfolding delivered_def accepted_from_def by (auto simp: bucket_def dest!: spec [of _ ?k])
    then show thesis using that src(3) by (auto simp: fed_def)
  qed
  have "node_ok g cap ?k (Some rn')" using read(2) rn'(1) by (simp add: sw_ok_def nodes_ok_def)
  then have "\<forall>b \<in> set bs. buffer_ok cap b" by (simp add: node_ok_def pool_ok_def rn'(2))
  moreover have "map buffer_data bs = map buffer_data ?pbs" using rn'(3) by (simp add: comp_def)
  moreover have "acur (ast_enc ?st) = []" by (simp add: abs_handle_def)
  moreover have "cap < 65536" using ok by (simp add: tunnel_ok_def)
  moreover have "length (ad_out d) + 2 \<le> length (pool tx)" using bufs(2) by (simp add: e(4) all)
  ultimately obtain d0 d1 where "PacketDecoder garbage lib l2mtu tap tx = Inr d0" "decoder_handle lib bs d0 = Inr d1"
    "map buffer_data (pool (dec_tx_buffer_pool d1)) = map buffer_data (pool tap) @ ad_out d"
    using decoder_run [OF e(3) _ _ lib pools(3,2), of garbage] by blast
  moreover have "socket_read_round g (map (\<lambda>(addr, len, bytes). (src, bytes)) ?sent) (slots, [], sw) = Inr (slots', r', sw')"
    using read(1) by (simp add: comp_def)
  ultimately show ?thesis using e(1,2) sent rn'(1) unfolding e(4) all rn'(2) [symmetric]
    by (intro exI conjI)
qed

theorem end_to_end_witness:
  "\<exists>(e0 :: (unit, int) encoder) e1 sent sw slots' r' sw' rn' d0 d1. sw_ok [] 1674 sw \<and>
    rbind (PacketEncoder 1522 1452 (BufferPool 1674) (sample_pool 1674 10)) (encoder_setPacketFormat store_codec 1) = Inr e0 \<and>
    rfold (encoder_handle (\<lambda>n m. n) store_codec) ([(True, [sample_frame 1674 1500, sample_frame 1674 60])] @ [(False, [])]) e0 = Inr e1 \<and>
    socket_send_all (sample_node 1) (pool (enc_tx_buffer_pool e1)) = Inr sent \<and>
    socket_read_round [] (map (\<lambda>(addr, len, bytes). (sample_peer 2, bytes)) sent)
      (replicate 8 (sample_frame 1674 0), [], sw) = Inr (slots', r', sw') \<and>
    map_find (replicate 16 2) (sw_remote_nodes sw') = Some (Some rn') \<and>
    PacketDecoder 7 store_codec 1522 (BufferPool 1674) (sample_pool 1674 4) = Inr d0 \<and>
    decoder_handle store_codec (pool (rn_decoder_pool rn')) d0 = Inr d1 \<and>
    map buffer_data (pool (dec_tx_buffer_pool d1)) = [replicate 1500 0, replicate 60 0]"
proof -
  obtain sw s where s: "sw_ok [] 1674 sw" "length (pool (sw_available_rx_buffer_pool sw)) = 10000"
    "sw_remote_nodes sw = [(replicate 16 1, Some (sample_node 1)), (replicate 16 2, Some (sample_node 2))]"
    "PacketSwitch sample_addr [] 3 1500 1500 1 sample_addr [sample_peer 1, sample_peer 2] 58023 = Inr sw"
    by (rule sample_system)
  let ?evs = "[(True, [sample_frame 1674 1500, sample_frame 1674 60])]"
  have fr: "frames_of ?evs = [sample_frame 1674 1500, sample_frame 1674 60]" by (simp add: frames_of_def)
  have data: "map buffer_data (frames_of ?evs) = [replicate 1500 0, replicate 60 0]"
    by (simp add: fr sample_frame_data)
  have ok: "tunnel_ok store_codec (stores LZ4) 1674 1522 1452 1" by (rule sample_tunnel_1500)
  have frames: "\<forall>b \<in> set (frames_of ?evs). buffer_ok 1674 b \<and> dataSize b \<le> unat (1522 :: u16)"
    by (simp add: fr sample_frame_ok)
  have n: "8 = length (frames_of ?evs) * (1674 div (unat (1452 :: u16) - 16) + 2) + length ?evs + 1" by (simp add: fr)
  have bufs: "8 + 2 \<le> length (pool (sample_pool 1674 10))" "length (frames_of ?evs) + 2 \<le> length (pool (sample_pool 1674 4))"
    by (simp_all add: fr sample_pool_ok)
  have tx: "length (pool (sw_available_tx_buffer_pool sw)) = 10000"
    using s(2,4) by (auto simp: PacketSwitch_def Let_def rbind_Inr_conv)
  have slots: "\<forall>s \<in> set (replicate 8 (sample_frame 1674 0)). buffer_ok 1674 s" by (simp add: sample_frame_ok)
  have room: "8 \<le> length (replicate 8 (sample_frame 1674 0))" "8 \<le> length (pool (sw_available_tx_buffer_pool sw))"
    by (simp_all add: tx)
  have src: "\<forall>f. sample_peer 2 \<noteq> Sockaddr_other f"
    "map_find (get_key_from_sockaddr [] (sample_peer 2)) (sw_remote_nodes sw) = Some (Some (sample_node 2))"
    "pool (rn_decoder_pool (sample_node 2)) = []"
    by (simp_all add: s(3) sample_node_def RemoteNode_def Let_def) (simp add: sample_peer_def)
  have empty: "map buffer_data (pool (BufferPool 1674 :: packet_pool)) @ xs = xs" for xs by simp
  from end_to_end [OF ok sample_pool_ok(1) sample_pool_ok(1) pool_ok_empty frames n bufs s(1) slots room src,
      of "\<lambda>n m. n" "sample_node 1" 7] s(1)
  show ?thesis unfolding data sample_peer_key empty by (elim exE conjE) (intro exI conjI; assumption)
qed

text \<open>
  C3. Over a network that loses, repeats and reorders packets the tunnel delivers exactly the
  frames whose packets arrive one after the other, unharmed: nothing is made up, and losses alone
  do not reorder.
\<close>

theorem unreliable_network:
  fixes lib :: "'s codec_lib" and ratio :: "int \<Rightarrow> u16 \<Rightarrow> 'f"
  assumes ok: "tunnel_ok lib R cap l2mtu l4mtu fmt" and alike: "alike lib cap B"
    and rx: "pool_ok cap rx" "length (pool rx) < 2147483648"
      "length (frames_of evs) * (cap div (unat l4mtu - 16) + 2) + length evs + 3 \<le> length (pool rx)"
    and frames: "\<forall>b \<in> set (frames_of evs). buffer_ok cap b \<and> dataSize b \<le> unat l2mtu"
    and F: "F = map buffer_data (frames_of evs)"
  shows "\<exists>(e0 :: ('s, 'f) encoder) e1 ps.
    rbind (PacketEncoder l2mtu l4mtu (BufferPool cap) rx) (encoder_setPacketFormat lib fmt) = Inr e0 \<and>
    rfold (encoder_handle ratio lib) (evs @ [(False, [])]) e0 = Inr e1 \<and>
    map buffer_data (pool (enc_tx_buffer_pool e1)) = map packet_bytes ps \<and>
    (\<forall>js pbs tap tx. (\<forall>i \<in> set js. i < length ps) \<and> (\<forall>pb \<in> set pbs. buffer_ok cap pb) \<and>
        map buffer_data pbs = map (\<lambda>i. packet_bytes (ps ! i)) js \<and> pool_ok cap tap \<and> pool_ok cap tx \<and>
        length (arrived ps F None js) + 2 \<le> length (pool tx) \<longrightarrow>
      (\<exists>d0 d1. PacketDecoder garbage lib l2mtu tap tx = Inr d0 \<and> decoder_handle lib pbs d0 = Inr d1 \<and>
        map buffer_data (pool (dec_tx_buffer_pool d1)) =
          map buffer_data (pool tap) @ arrived ps F None js)) \<and>
    (\<forall>js. set (arrived ps F None js) \<subseteq> set F \<and>
      (sorted_wrt (<) js \<longrightarrow> subseq (arrived ps F None js) F)) \<and>
    arrived ps F None [0..<length ps] = F"
proof -
  let ?evs = "evs @ [(False, [])]"
  obtain lz4 zstd where lib: "StreamCompressorLZ4 lib = Inr lz4" "StreamCompressorZSTD lib = Inr zstd"
    using ok by (auto simp: tunnel_ok_def lib_ready_def)
  let ?st = "fold (abs_handle lib (unat l4mtu) cap fmt) ?evs (aenc_init (format_compressor fmt lz4 zstd))"
  have all: "frames_of ?evs = frames_of evs" by (simp add: frames_of_def)
  have rx': "length (frames_of ?evs) * (cap div (unat l4mtu - 16) + 2) + length ?evs + 2 \<le> length (pool rx)"
    using rx(3) by (simp add: all)
  obtain e0 e1 :: "('s, 'f) encoder" and N d where
    e: "rbind (PacketEncoder l2mtu l4mtu (BufferPool cap) rx) (encoder_setPacketFormat lib fmt) = Inr e0"
      "rfold (encoder_handle ratio lib) ?evs e0 = Inr e1"
      "tunnel_inv lib R cap N (l2mtu, l4mtu, fmt) (adec_init lz4 zstd) e1 ?st d"
      "ad_out d = map buffer_data (frames_of ?evs)"
      "length (aout (ast_enc ?st)) \<le> length (frames_of ?evs) * (cap div (unat l4mtu - 16) + 2) + length ?evs"
    by (rule encoder_run [OF ok lib rx(1) frames [folded all] rx' refl])
  have out: "ad_out d = F" by (simp add: e(4) all F)
  have few: "length (aout (ast_enc ?st)) < 2147483648" using e(5) rx' rx(2) by linarith
  have flushed: "acur (ast_enc ?st) = []" by (simp add: abs_handle_def)
  have cap: "cap < 65536" using ok by (simp add: tunnel_ok_def)
  note arrive = decoder_arrivals [OF e(3) alike cap lib few, unfolded out]
  have "sorted_wrt (<) js \<Longrightarrow> subseq (arrived (aout (ast_enc ?st)) F None js) F" for js
    using subseq_arrived [of js 0 "aout (ast_enc ?st)" F None] by (simp add: ends_def)
  then show ?thesis
    using arrive set_arrived
    by (intro exI [of _ e0] exI [of _ e1] exI [of _ "aout (ast_enc ?st)"] conjI allI impI e(1,2)
        tunnel_packets(1) [OF e(3)] tunnel_arrived_all [OF e(3) flushed lib few, unfolded out]) simp_all
qed

theorem unreliable_network_witness:
  "\<exists>(e0 :: (unit, int) encoder) e1 ps.
    rbind (PacketEncoder 200 104 (BufferPool 220) (sample_pool 220 13)) (encoder_setPacketFormat store_codec 1) = Inr e0 \<and>
    rfold (encoder_handle (\<lambda>n m. n) store_codec) (sample_events @ [(False, [])]) e0 = Inr e1 \<and>
    map buffer_data (pool (enc_tx_buffer_pool e1)) = map packet_bytes ps \<and>
    (\<forall>js pbs tap tx. (\<forall>i \<in> set js. i < length ps) \<and> (\<forall>pb \<in> set pbs. buffer_ok 220 pb) \<and>
        map buffer_data pbs = map (\<lambda>i. packet_bytes (ps ! i)) js \<and> pool_ok 220 tap \<and> pool_ok 220 tx \<and>
        length (arrived ps (map buffer_data (frames_of sample_events)) None js) + 2 \<le> length (pool tx) \<longrightarrow>
      (\<exists>d0 d1. PacketDecoder 7 store_codec 200 tap tx = Inr d0 \<and> decoder_handle store_codec pbs d0 = Inr d1 \<and>
        map buffer_data (pool (dec_tx_buffer_pool d1)) = map buffer_data (pool tap) @
          arrived ps (map buffer_data (frames_of sample_events)) None js)) \<and>
    (\<forall>js. set (arrived ps (map buffer_data (frames_of sample_events)) None js)
        \<subseteq> set (map buffer_data (frames_of sample_events)) \<and>
      (sorted_wrt (<) js \<longrightarrow> subseq (arrived ps (map buffer_data (frames_of sample_events)) None js)
        (map buffer_data (frames_of sample_events)))) \<and>
    arrived ps (map buffer_data (frames_of sample_events)) None [0..<length ps] =
      map buffer_data (frames_of sample_events)"
proof (rule unreliable_network [OF sample_tunnel_ok store_codec_alike sample_pool_ok(1) _ _ sample_events_ok refl])
  show "length (pool (sample_pool 220 13)) < 2147483648" by (simp add: sample_pool_ok)
  show "length (frames_of sample_events) * (220 div (unat (104 :: u16) - 16) + 2) + length sample_events + 3
      \<le> length (pool (sample_pool 220 13))"
    by (simp add: sample_pool_ok sample_events_frames)
qed

text \<open>
  C4. Every packet that an encoder sends fits into a datagram, their number is bounded and they are
  numbered without a gap.
\<close>

theorem encoder_packets:
  fixes lib :: "'s codec_lib" and ratio :: "int \<Rightarrow> u16 \<Rightarrow> 'f"
  assumes ok: "tunnel_ok lib R cap l2mtu l4mtu fmt"
    and pool: "pool_ok cap rx"
    and frames: "\<forall>b \<in> set (frames_of evs). buffer_ok cap b \<and> dataSize b \<le> unat l2mtu"
    and rx: "length (frames_of evs) * (cap div (unat l4mtu - 16) + 2) + length evs + 2 \<le> length (pool rx)"
  shows "\<exists>e0 e1 :: ('s, 'f) encoder.
    rbind (PacketEncoder l2mtu l4mtu (BufferPool cap) rx) (encoder_setPacketFormat lib fmt) = Inr e0 \<and>
    rfold (encoder_handle ratio lib) evs e0 = Inr e1 \<and>
    (\<forall>b \<in> set (pool (enc_tx_buffer_pool e1)). buffer_ok cap b \<and> dataSize b \<le> unat l4mtu) \<and>
    length (pool (enc_tx_buffer_pool e1)) \<le>
      length (frames_of evs) * (cap div (unat l4mtu - 16) + 2) + length evs \<and>
    seqs_from 1 (map (\<lambda>b. be_to_cpu_32 (ph_sequence (PacketHeader_at (take 8 (buffer_data b)))))
      (pool (enc_tx_buffer_pool e1))) (enc_sequence e1)"
proof -
  obtain lz4 zstd where lib: "StreamCompressorLZ4 lib = Inr lz4" "StreamCompressorZSTD lib = Inr zstd"
    using ok by (auto simp: tunnel_ok_def lib_ready_def)
  let ?st = "fold (abs_handle lib (unat l4mtu) cap fmt) evs (aenc_init (format_compressor fmt lz4 zstd))"
  obtain e0 e1 :: "('s, 'f) encoder" and N d where
    e: "rbind (PacketEncoder l2mtu l4mtu (BufferPool cap) rx) (encoder_setPacketFormat lib fmt) = Inr e0"
      "rfold (encoder_handle ratio lib) evs e0 = Inr e1"
      "tunnel_inv lib R cap N (l2mtu, l4mtu, fmt) (adec_init lz4 zstd) e1 ?st d"
      "length (aout (ast_enc ?st)) \<le> length (frames_of evs) * (cap div (unat l4mtu - 16) + 2) + length evs"
    by (rule encoder_run [OF ok lib pool frames rx refl])
  note packets = tunnel_packets [OF e(3)]
  let ?pool = "pool (enc_tx_buffer_pool e1)"
  have "map (\<lambda>b. be_to_cpu_32 (ph_sequence (PacketHeader_at (take 8 (buffer_data b))))) ?pool =
      map fst (aout (ast_enc ?st))"
    using arg_cong [OF packets(1), of "map (\<lambda>x. be_to_cpu_32 (ph_sequence (PacketHeader_at (take 8 x))))"]
    by (simp add: comp_def packet_bytes_sequence)
  moreover have "seqs_from 1 (map fst (aout (ast_enc ?st))) (enc_sequence e1)"
    using e(3) by (simp add: tunnel_inv_def sent_ok_def enc_rel_def)
  ultimately show ?thesis using e(1,2,4) packets(2,3) by (intro exI [of _ e0] exI [of _ e1]) simp
qed

theorem encoder_packets_witness:
  "\<exists>e0 e1 :: (unit, int) encoder.
    rbind (PacketEncoder 200 104 (BufferPool 220) (sample_pool 220 12)) (encoder_setPacketFormat store_codec 1) = Inr e0 \<and>
    rfold (encoder_handle (\<lambda>n m. n) store_codec) sample_events e0 = Inr e1 \<and>
    (\<forall>b \<in> set (pool (enc_tx_buffer_pool e1)). buffer_ok 220 b \<and> dataSize b \<le> 104) \<and>
    length (pool (enc_tx_buffer_pool e1)) \<le> 10 \<and>
    seqs_from 1 (map (\<lambda>b. be_to_cpu_32 (ph_sequence (PacketHeader_at (take 8 (buffer_data b)))))
      (pool (enc_tx_buffer_pool e1))) (enc_sequence e1)"
  using encoder_packets [OF sample_tunnel_ok sample_pool_ok(1) sample_events_ok,
      of 12 "\<lambda>n m. n"]
  by (simp add: sample_pool_ok sample_events_frames del: rfold.simps)

text \<open>
  C5. The encoder implements its abstract specification: its packets are the bytes of the packets
  of segments that the abstract encoder makes of the same frames.
\<close>

theorem encoder_refines:
  fixes lib :: "'s codec_lib" and ratio :: "int \<Rightarrow> u16 \<Rightarrow> 'f"
  assumes ok: "tunnel_ok lib R cap l2mtu l4mtu fmt"
    and lib: "StreamCompressorLZ4 lib = Inr lz4" "StreamCompressorZSTD lib = Inr zstd"
    and pool: "pool_ok cap rx"
    and frames: "\<forall>b \<in> set (frames_of evs). buffer_ok cap b \<and> dataSize b \<le> unat l2mtu"
    and rx: "length (frames_of evs) * (cap div (unat l4mtu - 16) + 2) + length evs + 2 \<le> length (pool rx)"
  defines "st \<equiv> fold (abs_handle lib (unat l4mtu) cap fmt) evs (aenc_init (format_compressor fmt lz4 zstd))"
  shows "\<exists>e0 e1 :: ('s, 'f) encoder.
    rbind (PacketEncoder l2mtu l4mtu (BufferPool cap) rx) (encoder_setPacketFormat lib fmt) = Inr e0 \<and>
    rfold (encoder_handle ratio lib) evs e0 = Inr e1 \<and>
    map buffer_data (pool (enc_tx_buffer_pool e1)) = map packet_bytes (aout (ast_enc st)) \<and>
    drop 8 (buffer_data (enc_tx_buffer e1)) = segs_bytes (acur (ast_enc st)) \<and>
    enc_sequence e1 = aseq (ast_enc st) \<and> enc_compressor e1 = ast_comp st"
proof -
  obtain e0 e1 :: "('s, 'f) encoder" and N d where
    "rbind (PacketEncoder l2mtu l4mtu (BufferPool cap) rx) (encoder_setPacketFormat lib fmt) = Inr e0"
    "rfold (encoder_handle ratio lib) evs e0 = Inr e1"
    "tunnel_inv lib R cap N (l2mtu, l4mtu, fmt) (adec_init lz4 zstd) e1 st d"
    by (rule encoder_run [OF ok lib pool frames rx refl, folded st_def])
  then show ?thesis by (auto simp: tunnel_inv_def enc_rel_def)
qed

theorem encoder_refines_witness:
  "\<exists>e0 e1 :: (unit, int) encoder.
    rbind (PacketEncoder 200 104 (BufferPool 220) (sample_pool 220 12)) (encoder_setPacketFormat store_codec 1) = Inr e0 \<and>
    rfold (encoder_handle (\<lambda>n m. n) store_codec) sample_events e0 = Inr e1 \<and>
    map buffer_data (pool (enc_tx_buffer_pool e1)) =
      map packet_bytes (aout (ast_enc (fold (abs_handle store_codec 104 220 1) sample_events
        (aenc_init (format_compressor 1 sample_lz4 sample_zstd)))))"
proof -
  have rx: "length (frames_of sample_events) * (220 div (unat (104 :: u16) - 16) + 2) + length sample_events + 2
      \<le> length (pool (sample_pool 220 12))" by (simp add: sample_pool_ok sample_events_frames)
  have m: "unat (104 :: u16) = 104" by simp
  from encoder_refines [OF sample_tunnel_ok sample_compressors sample_pool_ok(1) sample_events_ok rx, of "\<lambda>n m. n"]
  show ?thesis unfolding m by blast
qed

text \<open>
  C6. The decoder implements its abstract specification: on the bytes of packets of segments,
  whatever their sequence numbers, it delivers the frames that the abstract decoder delivers.
\<close>

theorem decoder_refines:
  assumes lib: "StreamCompressorLZ4 lib = Inr lz4" "StreamCompressorZSTD lib = Inr zstd"
    and pools: "pool_ok cap tap" "pool_ok cap tx" "cap < 65536"
    and spec: "ldec_packets lib (unat l2mtu) cap None ps (adec_init lz4 zstd) = Some ad"
    and segs: "\<forall>p \<in> set ps. snd p \<noteq> []"
    and pbs: "\<forall>pb \<in> set pbs. buffer_ok cap pb" "map buffer_data pbs = map packet_bytes ps"
    and tx: "length (ad_out ad) + 2 \<le> length (pool tx)"
  shows "\<exists>d0 d1. PacketDecoder garbage lib l2mtu tap tx = Inr d0 \<and> decoder_handle lib pbs d0 = Inr d1 \<and>
    map buffer_data (pool (dec_tx_buffer_pool d1)) = map buffer_data (pool tap) @ ad_out ad \<and>
    dec_compressorLZ4 d1 = ad_lz4 ad \<and> dec_compressorZSTD d1 = ad_zstd ad \<and> dec_last_part d1 = ad_part ad"
  using decoder_on_packets [OF lib pools spec segs pbs tx, of garbage] by (auto simp: dec_rel_def)

theorem decoder_refines_witness:
  "\<exists>d0 d1. PacketDecoder 7 store_codec 200 (BufferPool 220) (sample_pool 220 4) = Inr d0 \<and>
    decoder_handle store_codec [sample_packet] d0 = Inr d1 \<and>
    map buffer_data (pool (dec_tx_buffer_pool d1)) = [[1, 2, 3], [4, 5]]"
proof -
  let ?p = "(1 :: u32, [Complete 3 0 [1, 2, 3], Complete 2 0 [4, 5]])"
  obtain ad where ad: "ldec_packets store_codec (unat (200 :: u16)) 220 None [?p]
      (adec_init sample_lz4 sample_zstd) = Some ad" "ad_out ad = [[1, 2, 3], [4, 5]]"
    by (simp add: ldec_packet_def adec_start_def adec_init_def adec_end_def adec_reset_def unpack_def number_gap_def)
  have segs: "\<forall>p \<in> set [?p]. snd p \<noteq> []" by simp
  have pbs: "\<forall>pb \<in> set [sample_packet]. buffer_ok 220 pb" "map buffer_data [sample_packet] = map packet_bytes [?p]"
    by (simp_all add: sample_packet_ok)
      (simp add: buffer_data_def sample_packet_content sample_packet_size sample_packet_bytes)
  have tx: "length (ad_out ad) + 2 \<le> length (pool (sample_pool 220 4))" by (simp add: ad(2) sample_pool_ok)
  have cap: "(220 :: nat) < 65536" by simp
  from decoder_refines [OF sample_compressors pool_ok_empty sample_pool_ok(1) cap ad(1) segs pbs tx, of 7]
  show ?thesis by (auto simp: ad(2))
qed

text \<open>
  C7. The encoder stays well formed whatever frames it is given and whatever the compression
  library does: its buffers are all accounted for, it keeps room for the next option headers, and
  each packet it hands over is one that can be sent.
\<close>

theorem encoder_keeps_invariant:
  fixes e :: "('s, 'f) encoder"
  assumes new: "encoder_setup lib rn avail = Inr e"
    and pools: "pool_ok cap avail" "pool_ok cap (rn_socket_write_pool rn)"
    and mtu: "104 \<le> unat (rn_l4mtu rn)" "unat (rn_l4mtu rn) \<le> cap" and cap: "cap < 65536"
    and frames: "\<forall>b \<in> set (frames_of evs). buffer_ok cap b"
  shows "safe (if compressor_bounded lib cap then {Would_block} else {Would_block, Out_of_range}) (\<lambda>e'.
      buffer_ok cap (enc_tx_buffer e') \<and> dataSize (enc_tx_buffer e') + 96 \<le> unat (rn_l4mtu rn) \<and>
      pool_ok cap (enc_available_buffer_pool e') \<and> pool_ok cap (enc_tx_buffer_pool e') \<and>
      (\<exists>b. enc_comp_buffer e' = Some b \<and> buffer_ok cap b) \<and>
      length (pool (enc_available_buffer_pool e')) + length (enc_inflight_buffers e') + 2
        + length (pool (enc_tx_buffer_pool e')) =
      length (pool avail) + length (pool (rn_socket_write_pool rn)) + length (frames_of evs) \<and>
      (\<exists>ps. pool (enc_tx_buffer_pool e') = pool (rn_socket_write_pool rn) @ ps \<and>
        (\<forall>b \<in> set ps. 16 \<le> dataSize b \<and> dataSize b \<le> unat (rn_l4mtu rn) \<and>
           \<not> packet_header_bad (PacketHeader_at (take 8 (buffer_data b))))))
    (rfold (encoder_handle ratio lib) evs e)"
proof -
  let ?E = "if compressor_bounded lib cap then {Would_block} else {Would_block, Out_of_range}"
  note e = encoder_setup_ok [OF new pools mtu]
  have lib: "size_failures ?E lib cap" "Would_block \<in> ?E" by (simp_all add: size_failures_def)
  have m: "enc_mem cap e" "enc_idle e" using e by simp_all
  have comp: "enc_comp_buffer e \<noteq> None" using m(2) by (simp add: enc_idle_def)
  show ?thesis
  proof (rule safe_mono [OF safe_handle_all [OF m cap lib frames, of ratio]])
    fix e' assume e': "ekeeps cap e (length (frames_of evs)) e' \<and> enc_idle e'"
    then obtain c ps where "enc_comp_buffer e' = Some c"
      "pool (enc_tx_buffer_pool e') = pool (rn_socket_write_pool rn) @ ps"
      "\<forall>b \<in> set ps. sendable cap (unat (rn_l4mtu rn)) b"
      using e by (auto simp: ekeeps_def enc_idle_def)
    with e' e comp show "buffer_ok cap (enc_tx_buffer e') \<and> dataSize (enc_tx_buffer e') + 96 \<le> unat (rn_l4mtu rn) \<and>
      pool_ok cap (enc_available_buffer_pool e') \<and> pool_ok cap (enc_tx_buffer_pool e') \<and>
      (\<exists>b. enc_comp_buffer e' = Some b \<and> buffer_ok cap b) \<and>
      length (pool (enc_available_buffer_pool e')) + length (enc_inflight_buffers e') + 2
        + length (pool (enc_tx_buffer_pool e')) =
      length (pool avail) + length (pool (rn_socket_write_pool rn)) + length (frames_of evs) \<and>
      (\<exists>ps. pool (enc_tx_buffer_pool e') = pool (rn_socket_write_pool rn) @ ps \<and>
        (\<forall>b \<in> set ps. 16 \<le> dataSize b \<and> dataSize b \<le> unat (rn_l4mtu rn) \<and>
           \<not> packet_header_bad (PacketHeader_at (take 8 (buffer_data b)))))"
      by (auto simp: ekeeps_def enc_mem_def enc_current_def enc_idle_def enc_count_def sendable_def packet_header_of_accepted)
  qed simp
qed

theorem encoder_keeps_invariant_witness:
  "\<exists>e :: (unit, int) encoder. encoder_setup store_codec (sample_node 1) (sample_pool 1674 40) = Inr e \<and>
    safe {Would_block, Out_of_range} (\<lambda>e'. dataSize (enc_tx_buffer e') + 96 \<le> unat (rn_l4mtu (sample_node 1)) \<and>
      length (pool (enc_available_buffer_pool e')) + length (enc_inflight_buffers e') + 2
        + length (pool (enc_tx_buffer_pool e')) = 40 + 2)
    (rfold (encoder_handle (\<lambda>n size. n) store_codec) [(True, [sample_frame 1674 1600, sample_frame 1674 1500]), (False, [])] e)"
proof -
  let ?evs = "[(True, [sample_frame 1674 1600, sample_frame 1674 1500]), (False, [])]"
  obtain e :: "(unit, int) encoder" where e: "encoder_setup store_codec (sample_node 1) (sample_pool 1674 40) = Inr e"
    using sample_encoder_setup by blast
  have node: "pool_ok 1674 (rn_socket_write_pool (sample_node 1))" "pool (rn_socket_write_pool (sample_node 1)) = []"
    "104 \<le> unat (rn_l4mtu (sample_node 1))" "unat (rn_l4mtu (sample_node 1)) \<le> 1674"
    by (simp_all add: sample_node_l4mtu sample_node_pools pool_ok_def)
  have frames: "\<forall>b \<in> set (frames_of ?evs). buffer_ok 1674 b" by (simp add: frames_of_def sample_frame_ok)
  have cap: "(1674 :: nat) < 65536" by simp
  from encoder_keeps_invariant [OF e sample_pool_ok(1) node(1,3,4) cap frames, of "\<lambda>n size. n"]
  have "safe {Would_block, Out_of_range}
      (\<lambda>e'. dataSize (enc_tx_buffer e') + 96 \<le> unat (rn_l4mtu (sample_node 1)) \<and>
        length (pool (enc_available_buffer_pool e')) + length (enc_inflight_buffers e') + 2
          + length (pool (enc_tx_buffer_pool e')) = 40 + 2)
      (rfold (encoder_handle (\<lambda>n size. n) store_codec) ?evs e)"
  proof (rule safe_mono, goal_cases)
    case 1
    then show ?case by simp
  next
    case (2 e')
    have "length (frames_of ?evs) = 2" by (simp add: frames_of_def)
    with 2 show ?case by (simp only: node(2) sample_pool_ok list.size add_0_right simp_thms)
  qed
  with e show ?thesis by (intro exI conjI)
qed

text \<open>
  C8. Every configuration that the switch accepts is one with which the tunnel works: each of its
  nodes satisfies what the properties of the tunnel assume.
\<close>

theorem accepted_configuration:
  assumes new: "PacketSwitch g gk s mtu tx (PacketHeaderOptionFormatType_value f) src dsts port = Inr sw"
    and node: "map_find k (sw_remote_nodes sw) = Some n"
    and lib: "lib_ready lib"
      "f \<noteq> FORMAT_NONE \<Longrightarrow> lossless lib (format_algorithm (PacketHeaderOptionFormatType_value f))
         (unat (sw_l2mtu sw)) (nat (sw_buffer_size (sw_l2mtu sw))) R"
  shows "\<exists>rn. n = Some rn \<and> rn_l2mtu rn = sw_l2mtu sw \<and>
    tunnel_ok lib R (nat (sw_buffer_size (sw_l2mtu sw))) (rn_l2mtu rn) (rn_l4mtu rn) (rn_packet_format rn) \<and>
    rn_encoder_pool rn = BufferPool (nat (sw_buffer_size (sw_l2mtu sw))) \<and>
    rn_decoder_pool rn = BufferPool (nat (sw_buffer_size (sw_l2mtu sw))) \<and>
    rn_socket_write_pool rn = BufferPool (nat (sw_buffer_size (sw_l2mtu sw))) \<and>
    nat (sw_buffer_size (sw_l2mtu sw)) div (unat (rn_l4mtu rn) - 16) + 2 \<le> 10"
proof -
  let ?l2 = "sw_l2mtu sw" and ?fmt = "PacketHeaderOptionFormatType_value f"
  have "PacketSwitch_check mtu tx = Inr ()" and l2: "?l2 = get_l2mtu_from_mtu (word_of_int mtu)"
    using new by (auto simp: PacketSwitch_def Let_def rbind_Inr_conv)
  then have sizes: "1200 \<le> mtu" "mtu \<le> 9218" "1200 \<le> tx" "tx \<le> mtu"
    by (simp_all add: PacketSwitch_check_iff)
  obtain a where rn: "n = Some (RemoteNode gk s a tx (uint ?l2) (sw_buffer_size ?l2) ?fmt)"
    using PacketSwitch_nodes [OF new node] by blast
  let ?rn = "RemoteNode gk s a tx (uint ?l2) (sw_buffer_size ?l2) ?fmt"
  have fields: "rn_l2mtu ?rn = ?l2" "rn_packet_format ?rn = ?fmt"
    "rn_encoder_pool ?rn = BufferPool (nat (sw_buffer_size ?l2))" "rn_decoder_pool ?rn = BufferPool (nat (sw_buffer_size ?l2))"
    "rn_socket_write_pool ?rn = BufferPool (nat (sw_buffer_size ?l2))"
    by (simp_all add: RemoteNode_def Let_def)
  have l4: "unat (rn_l4mtu ?rn) = nat tx - (if is_ipv4 a then 28 else 48)"
    using sizes by (intro rn_l4mtu_value) simp_all
  have m: "unat ?l2 = nat mtu + 22" using l2_value_of [OF sizes(1,2)] by (simp add: l2)
  have cap: "nat (sw_buffer_size ?l2) = (nat mtu + 22) + (nat mtu + 22) div 10"
    using sw_buffer_size_value [of ?l2] m by simp
  have nat: "1200 \<le> nat tx" "nat tx \<le> nat mtu" "nat mtu \<le> 9218" using sizes by simp_all
  have bounds: "104 \<le> unat (rn_l4mtu ?rn)" "unat (rn_l4mtu ?rn) \<le> nat (sw_buffer_size ?l2)"
    "unat ?l2 \<le> nat (sw_buffer_size ?l2)" "nat (sw_buffer_size ?l2) \<le> 22352"
    using nat unfolding l4 m cap by (cases "is_ipv4 a"; simp only: if_True if_False; linarith)+
  have "1136 \<le> unat (rn_l4mtu ?rn) - 16" "nat (sw_buffer_size ?l2) \<le> 10164"
    using nat unfolding l4 m cap by (cases "is_ipv4 a"; simp only: if_True if_False; linarith)+
  then have "nat (sw_buffer_size ?l2) div (unat (rn_l4mtu ?rn) - 16) \<le> 10164 div 1136"
    by (rule order_trans [OF div_le_mono2 div_le_mono, rotated]) simp
  then have packets: "nat (sw_buffer_size ?l2) div (unat (rn_l4mtu ?rn) - 16) + 2 \<le> 10" by simp
  have "f \<noteq> FORMAT_NONE" if "?fmt \<noteq> 0" using that by (cases f) simp_all
  with lib bounds have "tunnel_ok lib R (nat (sw_buffer_size ?l2)) ?l2 (rn_l4mtu ?rn) ?fmt"
    unfolding tunnel_ok_def by blast
  with fields packets show ?thesis unfolding rn by (intro exI [of _ ?rn] conjI refl) simp_all
qed

theorem accepted_configuration_witness:
  "\<exists>rn. Some (sample_node 2) = Some rn \<and> rn_l2mtu rn = 1522 \<and>
    tunnel_ok store_codec (stores LZ4) 1674 (rn_l2mtu rn) (rn_l4mtu rn) (rn_packet_format rn) \<and>
    rn_encoder_pool rn = BufferPool 1674 \<and> rn_decoder_pool rn = BufferPool 1674 \<and>
    rn_socket_write_pool rn = BufferPool 1674 \<and> 1674 div (unat (rn_l4mtu rn) - 16) + 2 \<le> 10"
proof -
  obtain sw where sw: "PacketSwitch sample_addr [] 3 1500 1500 (PacketHeaderOptionFormatType_value COMPRESSED_LZ4)
      sample_addr [sample_peer 1, sample_peer 2] 58023 = Inr sw" "sw_l2mtu sw = 1522"
      "sw_remote_nodes sw = [(replicate 16 1, Some (sample_node 1)), (replicate 16 2, Some (sample_node 2))]"
    using sample_switch by auto
  have node: "map_find (replicate 16 2) (sw_remote_nodes sw) = Some (Some (sample_node 2))"
    by (simp add: sw(3) eval_nat_numeral)
  have size: "nat (sw_buffer_size 1522) = 1674" by (simp add: sw_buffer_size_def)
  have ready: "lib_ready store_codec" using sample_tunnel_ok by (simp add: tunnel_ok_def)
  have "lossless store_codec (format_algorithm (PacketHeaderOptionFormatType_value COMPRESSED_LZ4))
      (unat (sw_l2mtu sw)) (nat (sw_buffer_size (sw_l2mtu sw))) (stores LZ4)"
    using store_codec_lossless [of 1522 1674 LZ4] unfolding sw(2) size by (simp add: format_algorithm_def)
  from accepted_configuration [OF sw(1) node ready this] show ?thesis unfolding sw(2) size by blast
qed

section \<open>The decoder\<close>



text \<open>
  C10. The decoder does not loop on a packet whose headers all have a proper type and whose positions
  do not wrap: it returns, or sleeps for a buffer; a packet that leaves less than 7 bytes of its
  buffer may also make it read past the end.
\<close>

theorem decoder_returns:
  assumes mem: "dec_mem cap d" and idle: "dec_idle d" and pb: "buffer_ok cap pb"
    and cap: "cap < 65536" and lib: "codec_bounded lib cap"
    and chain: "\<And>n p. n = unat (ph_opt_len (PacketHeader_at (slice 0 8 (content pb)))) \<Longrightarrow>
      decoder_options pb n n (of_nat sizeof_PacketHeader) 0 = Inr (Some p) \<Longrightarrow> p \<noteq> 0 \<Longrightarrow>
      frame_chain (content pb) (dataSize pb) (unat p)"
  shows "safe (if dataSize pb + 7 \<le> cap then {Would_block} else {Would_block, Out_of_bounds})
    (\<lambda>d'. keeps UNIV cap d 1 d' \<and> dec_idle d') (decoder_decode lib pb d)"
proof -
  let ?E = "insert Would_block (overrun cap pb)"
  let ?n = "unat (ph_opt_len (PacketHeader_at (slice 0 8 (content pb))))"
  have stop: "safe ?E (\<lambda>d'. keeps UNIV cap d 1 d' \<and> dec_idle d') (decoder_payload lib pb found d1)"
    if d1: "keeps UNIV cap d 0 d1 \<and> dec_idle d1"
      and found: "decoder_options pb ?n ?n (of_nat sizeof_PacketHeader) 0 = Inr found" for d1 found
  proof -
    have bail: "safe ?E (\<lambda>d'. keeps UNIV cap d 1 d' \<and> dec_idle d')
        (decoder_clearStateAndFlushInflight lib pb d1)"
      by (rule safe_mono [OF safe_clear_flush [OF _ pb]]) (use d1 in auto)
    have "safe ?E (\<lambda>d'. keeps UNIV cap d 1 d' \<and> dec_idle d')
        (rbind (decoder_frames lib pb (Next d1 p True)) (decoder_end lib pb))" if "found = Some p" "p \<noteq> 0" for p
      by (rule safe_rbind [OF frames_return [OF chain [OF refl _ that(2)] refl _ pb cap lib]
            safe_mono [OF safe_end]])
        (use d1 found that(1) pb in \<open>auto simp: round_ok_def\<close>)
    with bail show ?thesis by (cases found) (auto simp: decoder_payload_def intro: safe_if)
  qed
  have all: "safe ({Would_block, Diverges} \<union> overrun cap pb) (\<lambda>d'. keeps UNIV cap d 1 d' \<and> dec_idle d') (decoder_decode lib pb d)"
    by (rule safe_decode [OF mem idle pb cap lib UNIV_I])
  have "decoder_decode lib pb d \<noteq> Inl Diverges"
  proof
    assume div: "decoder_decode lib pb d = Inl Diverges"
    obtain d1 found where run: "decoder_options pb ?n ?n (of_nat sizeof_PacketHeader) 0 = Inr found"
      "decoder_payload lib pb found d1 = Inl Diverges" "keeps UNIV cap d 0 d1 \<and> dec_idle d1"
      by (rule decode_divergesE [OF mem idle pb cap div]) (simp add: Let_def)
    from stop [OF run(3,1)] run(2) show False by (simp split: if_splits)
  qed
  with all show ?thesis by (cases "decoder_decode lib pb d") (auto split: if_splits)
qed

theorem decoder_returns_witness:
  "\<exists>d. PacketDecoder 7 store_codec 200 (BufferPool 220) (sample_pool 220 4) = Inr d \<and>
    safe {Would_block} (\<lambda>d'. keeps UNIV 220 d 1 d' \<and> dec_idle d') (decoder_decode store_codec sample_packet d)"
proof -
  obtain d where d: "PacketDecoder 7 store_codec 200 (BufferPool 220) (sample_pool 220 4) = Inr d"
    using sample_decoder by blast
  have "dec_mem 220 d" "dec_idle d" using PacketDecoder_mem [OF d pool_ok_empty sample_pool_ok(1)] by simp_all
  from decoder_returns [OF this sample_packet_ok _ store_codec_bounded sample_packet_chain] d
  show ?thesis by (auto simp: sample_packet_size)
qed

text \<open>
  C11. A packet whose option header has the type 0 passes the validity test, and the decoder never
  returns from it.
\<close>

theorem type_0_diverges:
  assumes "dec_mem cap d" and "dec_idle d"
    and pb: "buffer_ok cap pb" "16 \<le> dataSize pb" "dataSize pb < 65536"
    and header: "h = PacketHeader_at (take 8 (buffer_data pb))" "\<not> packet_header_bad h" "ph_opt_len h = 1"
    and option: "opt = PacketHeaderOption_at (slice 8 8 (buffer_data pb))" "po_type opt = 0"
      "po_reserved opt = 0" "be_to_cpu_16 (po_packet_size opt) \<le> dec_l2mtu d"
  shows "decoder_decode lib pb d = Inl Diverges"
  by (rule decode_type_0 [OF assms(1,2) pb header(1) [symmetric] header(2,3) option(1) [symmetric]
        option(3,2,4)])

theorem type_0_diverges_witness:
  "\<exists>d. PacketDecoder 7 store_codec 200 (BufferPool 220) (sample_pool 220 4) = Inr d \<and>
    decoder_decode store_codec (sample_raw [17, 0, 1, 0, 0, 0, 0, 1, 0, 0, 0, 0, 0, 0, 0, 0]) d = Inl Diverges"
proof -
  obtain d where d: "PacketDecoder 7 store_codec 200 (BufferPool 220) (sample_pool 220 4) = Inr d"
    "dec_mem 220 d" "dec_idle d" "dec_l2mtu d = 200" by (rule sample_decoder_mem)
  have "decoder_decode store_codec (sample_raw [17, 0, 1, 0, 0, 0, 0, 1, 0, 0, 0, 0, 0, 0, 0, 0]) d = Inl Diverges"
    by (rule type_0_diverges [OF d(2,3) sample_raw_ok(1) _ _ refl _ _ refl])
      (simp_all add: sample_raw_ok d(4) PacketHeader_at_def PacketHeaderOption_at_def slice_def
        packet_header_bad_def SETH_PACKET_HEADER_VERSION_V1_def load16_def)
  with d(1) show ?thesis by blast
qed

text \<open>
  C12. A part that is skipped moves the position on in 16 bits without a comparison with the size of
  the packet: with the length 65528 the decoder never returns.
\<close>

theorem skipped_part_diverges:
  assumes "dec_mem cap d" and "dec_idle d"
    and pb: "buffer_ok cap pb" "16 \<le> dataSize pb" "dataSize pb < 65536"
    and header: "h = PacketHeader_at (take 8 (buffer_data pb))" "\<not> packet_header_bad h" "ph_opt_len h = 1"
    and option: "opt = PacketHeaderOption_at (slice 8 8 (buffer_data pb))" "po_type opt \<in> {1, 3}"
      "po_reserved opt = 0" "be_to_cpu_16 (po_packet_size opt) \<le> dec_l2mtu d" "po_part opt = 0"
      "be_to_cpu_16 (po_payload_length opt) = 65528"
  shows "decoder_decode lib pb d = Inl Diverges"
  by (rule decode_skip_wraps [OF assms(1,2) pb header(1) [symmetric] header(2,3) option(1) [symmetric]
        option(3,2,4-6)])

theorem skipped_part_diverges_witness:
  "\<exists>d. PacketDecoder 7 store_codec 200 (BufferPool 220) (sample_pool 220 4) = Inr d \<and>
    decoder_decode store_codec (sample_raw [17, 0, 1, 0, 0, 0, 0, 1, 1, 0, 0, 0, 255, 248, 0, 0]) d = Inl Diverges"
proof -
  obtain d where d: "PacketDecoder 7 store_codec 200 (BufferPool 220) (sample_pool 220 4) = Inr d"
    "dec_mem 220 d" "dec_idle d" "dec_l2mtu d = 200" by (rule sample_decoder_mem)
  have "decoder_decode store_codec (sample_raw [17, 0, 1, 0, 0, 0, 0, 1, 1, 0, 0, 0, 255, 248, 0, 0]) d = Inl Diverges"
    by (rule skipped_part_diverges [OF d(2,3) sample_raw_ok(1) _ _ refl _ _ refl])
      (simp_all add: sample_raw_ok d(4) PacketHeader_at_def PacketHeaderOption_at_def slice_def
        packet_header_bad_def SETH_PACKET_HEADER_VERSION_V1_def load16_def)
  with d(1) show ?thesis by blast
qed

text \<open>
  C13. A packet with a bad header is dropped: nothing is delivered, the frame under assembly is given
  up, and its buffers and the packet's own go back to the pool.
\<close>

theorem decoder_refuses:
  assumes mem: "dec_mem cap d" and pb: "buffer_ok cap pb" "8 \<le> dataSize pb"
    and bad: "packet_header_bad (PacketHeader_at (take 8 (buffer_data pb)))"
  shows "\<exists>d'. decoder_decode lib pb d = Inr d' \<and>
    dec_tx_buffer_pool d' = dec_tx_buffer_pool d \<and> dec_last_sequence d' = dec_last_sequence d \<and>
    dec_last_part d' = 0 \<and> buffer_data (dec_tx_buffer d') = [] \<and> dec_inflight_buffers d' = [] \<and>
    pool (dec_available_buffer_pool d') =
      pool (dec_available_buffer_pool d) @ dec_inflight_buffers d @ [pb] \<and>
    dec_compressorLZ4 d' = resetDecompressionStream lib (dec_compressorLZ4 d) \<and>
    dec_compressorZSTD d' = resetDecompressionStream lib (dec_compressorZSTD d)"
proof -
  have "Buffer_read 0 8 pb = Inr (take 8 (buffer_data pb))"
    using Buffer_read_data [OF pb(1), of 0 8] pb(2) by (simp add: slice_def)
  then have "decoder_decode lib pb d = decoder_clearStateAndFlushInflight lib pb d"
    using pb(2) bad by (simp add: decoder_decode_def sizeof_PacketHeader_def Buffer_getDataSize_def Let_def)
  then show ?thesis
    unfolding clear_flush_eq [OF mem pb(1)]
    by (simp add: released_def decoder_pushInflight_def decoder_clearState_def)
qed

theorem decoder_refuses_witness:
  "\<exists>d d'. decoder_decode store_codec (sample_raw [18, 0, 1, 0, 0, 0, 0, 1]) d = Inr d' \<and>
    dec_tx_buffer_pool d' = dec_tx_buffer_pool d \<and>
    pool (dec_available_buffer_pool d') = pool (dec_available_buffer_pool d) @ dec_inflight_buffers d
      @ [sample_raw [18, 0, 1, 0, 0, 0, 0, 1]]"
proof -
  obtain d :: "unit decoder" where d: "dec_mem 220 d" by (rule sample_decoder_mem)
  have "packet_header_bad (PacketHeader_at (take 8 (buffer_data (sample_raw [18, 0, 1, 0, 0, 0, 0, 1]))))"
    by (simp add: sample_raw_ok PacketHeader_at_def packet_header_bad_def SETH_PACKET_HEADER_VERSION_V1_def)
  from decoder_refuses [OF d sample_raw_ok(1) _ this, of store_codec] show ?thesis
    by (auto simp: sample_raw_ok)
qed

text \<open>
  C14. The check of the sequence number, on every branch: the next number and a wrapped one (not after
  0xFFFFFFFF) keep the frame under assembly, any other gives it up; the number is recorded in every
  case.
\<close>

theorem sequence_check:
  assumes mem: "dec_mem cap d" and "\<not> dec_first_packet d"
  shows "\<exists>d'. decoder_sequence lib seq d = Inr d' \<and> dec_last_sequence d' = seq \<and>
    dec_tx_buffer_pool d' = dec_tx_buffer_pool d \<and>
    (if unat seq = (unat (dec_last_sequence d) + 1) mod 2 ^ 32 \<or>
        unat seq + 0x7FFFFFFF < unat (dec_last_sequence d) \<and> dec_last_sequence d \<noteq> 0xFFFFFFFF
     then dec_last_part d' = dec_last_part d \<and> dec_tx_buffer d' = dec_tx_buffer d \<and>
       dec_inflight_buffers d' = dec_inflight_buffers d \<and>
       dec_available_buffer_pool d' = dec_available_buffer_pool d
     else dec_last_part d' = 0 \<and> buffer_data (dec_tx_buffer d') = [] \<and> dec_inflight_buffers d' = [] \<and>
       pool (dec_available_buffer_pool d') = pool (dec_available_buffer_pool d) @ dec_inflight_buffers d)"
proof -
  let ?l = "dec_last_sequence d"
  have succ: "unat (?l + 1) = (unat ?l + 1) mod 2 ^ 32" by (simp add: unat_word_ariths)
  have cond: "(seq = ?l + 1 \<or> seq < ?l + 1 \<and> is_sequence_wrapping seq ?l) \<longleftrightarrow>
      (unat seq = (unat ?l + 1) mod 2 ^ 32 \<or> unat seq + 0x7FFFFFFF < unat ?l \<and> ?l \<noteq> 0xFFFFFFFF)"
  proof (cases "?l = 0xFFFFFFFF")
    case True
    then have "?l + 1 = 0" by simp
    then have "\<not> seq < ?l + 1" by simp
    with True succ show ?thesis by (simp add: word_unat_eq_iff)
  next
    case False
    then have "unat ?l \<noteq> 4294967295" by (simp add: word_unat_eq_iff)
    moreover have "unat ?l < 4294967296" by simp
    ultimately have "unat ?l + 1 < 4294967296" by linarith
    then have "unat (?l + 1) = unat ?l + 1" using succ by simp
    with False succ show ?thesis
      by (auto simp: word_unat_eq_iff is_sequence_wrapping_unat word_less_nat_alt)
  qed
  show ?thesis
    unfolding decoder_sequence_eq [OF assms] cond
    by (simp add: released_def decoder_clearState_def)
qed

theorem sequence_check_witness:
  "\<exists>d d'. decoder_sequence store_codec 9 (d\<lparr>dec_first_packet := False, dec_last_sequence := 4\<rparr>) = Inr d' \<and>
    dec_last_sequence d' = 9 \<and> dec_last_part d' = 0 \<and> dec_inflight_buffers d' = []"
proof -
  obtain d :: "unit decoder" where d: "dec_mem 220 d" by (rule sample_decoder_mem)
  then have "dec_mem 220 (d\<lparr>dec_first_packet := False, dec_last_sequence := 4\<rparr>)"
    by (simp add: dec_mem_def)
  from sequence_check [OF this, of store_codec 9] show ?thesis by auto
qed

text \<open>
  C15. A lost packet is noticed unless the sequence number wraps: then the beginning of one frame
  and the end of another are handed over as one frame.
\<close>

theorem wrap_hides_loss:
  assumes lib: "StreamCompressorLZ4 lib = Inr lz4" "StreamCompressorZSTD lib = Inr zstd"
    and pools: "pool_ok cap tap" "pool_ok cap tx" "cap < 65536" "3 \<le> length (pool tx)"
    and pbs: "buffer_ok cap a" "buffer_ok cap b"
      "buffer_data a = packet_bytes (q, [Part False n 0 1 x])"
      "buffer_data b = packet_bytes (this_seq (this_seq (q + 1) + 1), [Part True n 0 2 y])"
    and size: "length x + length y = unat n" "unat n \<le> unat l2mtu" "unat n \<le> cap"
    and q: "q \<noteq> 0xFFFFFFFF"
  shows "\<exists>d0 d1. PacketDecoder garbage lib l2mtu tap tx = Inr d0 \<and> decoder_handle lib [a, b] d0 = Inr d1 \<and>
    map buffer_data (pool (dec_tx_buffer_pool d1)) =
      map buffer_data (pool tap) @ (if unat q < 0xFFFFFFFD then [] else [x @ y])"
proof -
  let ?q2 = "this_seq (this_seq (q + 1) + 1)"
  let ?ps = "[(q, [Part False n 0 1 x]), (?q2, [Part True n 0 2 y])]"
  obtain ad where ad: "ldec_packets lib (unat l2mtu) cap None ?ps (adec_init lz4 zstd) = Some ad"
    "ad_out ad = (if unat q < 0xFFFFFFFD then [] else [x @ y])"
    using two_parts [OF size(2,3,1), of lib q ?q2 lz4 zstd] unfolding number_gap_skipped [OF q] by blast
  have segs: "\<forall>p \<in> set ?ps. snd p \<noteq> []" by simp
  have bufs: "\<forall>pb \<in> set [a, b]. buffer_ok cap pb" "map buffer_data [a, b] = map packet_bytes ?ps"
    using pbs by simp_all
  have room: "length (ad_out ad) + 2 \<le> length (pool tx)" using pools(4) by (simp add: ad(2))
  from decoder_on_packets [OF lib pools(1-3) ad(1) segs bufs room, of garbage] ad(2)
  show ?thesis by (auto simp: dec_rel_def)
qed

theorem wrap_hides_loss_witness:
  "\<exists>d0 d1. PacketDecoder 7 store_codec 200 (BufferPool 220) (sample_pool 220 4) = Inr d0 \<and>
    decoder_handle store_codec [sample_raw (packet_bytes (0xFFFFFFFE, [Part False 2 0 1 [1]])),
      sample_raw (packet_bytes (2, [Part True 2 0 2 [2]]))] d0 = Inr d1 \<and>
    map buffer_data (pool (dec_tx_buffer_pool d1)) = [[1, 2]]"
proof -
  let ?a = "sample_raw (packet_bytes (0xFFFFFFFE, [Part False 2 0 1 [1]]))"
  let ?b = "sample_raw (packet_bytes (2, [Part True 2 0 2 [2]]))"
  have ok: "buffer_ok 220 ?a" "buffer_ok 220 ?b"
    by (rule sample_raw_ok(1); simp add: length_packet_bytes used_def)+
  have next_number: "this_seq (this_seq (0xFFFFFFFE + 1) + 1) = 2" by (simp add: this_seq_def)
  have b: "buffer_data ?b = packet_bytes (this_seq (this_seq (0xFFFFFFFE + 1) + 1), [Part True 2 0 2 [2]])"
    unfolding next_number by (rule sample_raw_ok(3))
  show ?thesis
    using wrap_hides_loss [OF sample_compressors pool_ok_empty sample_pool_ok(1) _ _ ok sample_raw_ok(3) b,
        of 4 200 7]
    by (simp add: sample_pool_ok)
qed





section \<open>The switch\<close>

text \<open>
  C18. The switch accepts exactly the configurations with 1200 <= txsize <= mtu <= 9218 and answers
  every other one with a configuration error.
\<close>

theorem configuration_check:
  "(1200 \<le> tx \<and> tx \<le> mtu \<and> mtu \<le> 9218 \<longleftrightarrow>
      (\<exists>sw. PacketSwitch g gk s mtu tx fmt src dsts port = Inr sw)) \<and>
   (\<not> (1200 \<le> tx \<and> tx \<le> mtu \<and> mtu \<le> 9218) \<longleftrightarrow>
      (\<exists>msg. PacketSwitch g gk s mtu tx fmt src dsts port = Inl (Config_error msg)))"
proof -
  have "PacketSwitch_check mtu tx = Inr () \<longleftrightarrow> 1200 \<le> tx \<and> tx \<le> mtu \<and> mtu \<le> 9218"
    by (auto simp: PacketSwitch_check_iff)
  moreover have "\<exists>msg. e = Config_error msg" if "PacketSwitch_check mtu tx = Inl e" for e
    by (rule PacketSwitch_check_error [OF that])
  ultimately show ?thesis
    by (cases "PacketSwitch_check mtu tx") (auto simp: PacketSwitch_def Let_def)
qed

text \<open>
  C19. One end of the tunnel stays well formed whatever arrives: in every reachable state the
  invariant holds and no thread can fail in any way but those named.
\<close>

theorem switch_stays_safe:
  assumes new: "PacketSwitch garbage gk s mtu tx fmt src dsts port = Inr sw" and "dsts \<noteq> []"
    and start: "system_start lib garbage' sw = Inr s0"
    and cap: "cap = nat (sw_buffer_size (sw_l2mtu sw))" and lib: "codec_bounded lib cap"
    and run: "reachable ratio lib g cap s0 st"
  shows "system_ok g cap st \<and>
    (\<forall>frame now. length frame \<le> cap \<longrightarrow>
      safe {Would_block, if frame = [] then Process_exit 1 else Null_pointer} (\<lambda>_. True)
        (tap_read_round now frame (sy_switch st))) \<and>
    (\<forall>k rn t e status. map_find k (sw_remote_nodes (sy_switch st)) = Some (Some rn) \<and> sy_encoders st k = Some (t, e) \<longrightarrow>
      safe (if compressor_bounded lib cap then {Would_block} else {Would_block, Out_of_range}) (\<lambda>_. True)
        (encoder_handler_round ratio lib status (Some (rn_encoder_pool rn))
          (t, rn_encoder_pool rn, encoder_of_switch (sy_switch st) rn e))) \<and>
    (\<forall>k rn. map_find k (sw_remote_nodes (sy_switch st)) = Some (Some rn) \<longrightarrow>
      safe {Would_block} (\<lambda>_. True) (socket_write_round rn None
        (rn_socket_write_pool rn, sw_available_rx_buffer_pool (sy_switch st)))) \<and>
    (\<forall>ms. length ms \<le> length (sy_slots st) \<and> (\<forall>m \<in> set ms. length (snd m) \<le> cap) \<longrightarrow>
      safe {Would_block} (\<lambda>_. True) (socket_read_round g ms (sy_slots st, sy_received st, sy_switch st))) \<and>
    (\<forall>k rn d. map_find k (sw_remote_nodes (sy_switch st)) = Some (Some rn) \<and> sy_decoders st k = Some d \<longrightarrow>
      safe (if \<forall>pb \<in> set (pool (rn_decoder_pool rn)). dataSize pb + 7 \<le> cap
            then {Would_block, Diverges} else {Would_block, Diverges, Out_of_bounds}) (\<lambda>_. True)
        (decoder_handler_round lib None (rn_decoder_pool rn, decoder_of_switch (sy_switch st) d))) \<and>
    (\<forall>at. safe {Would_block, Runtime_error ''Error writing TAP device''} (\<lambda>_. True)
      (tap_write_round g at None (sy_switch st)))"
proof (intro conjI allI impI)
  note facts = new_switch_runs [OF assms]
  show ok: "system_ok g cap st" by (rule facts(1))
  then have sw: "sw_ok g cap (sy_switch st)" by (simp add: system_ok_def)
  show "safe {Would_block, if frame = [] then Process_exit 1 else Null_pointer} (\<lambda>_. True)
      (tap_read_round now frame (sy_switch st))"
    if "length frame \<le> cap" for frame now
    by (rule safe_mono [OF tap_read_round_safe [OF sw that facts(3)]]) auto
  show "safe (if compressor_bounded lib cap then {Would_block} else {Would_block, Out_of_range}) (\<lambda>_. True)
      (encoder_handler_round ratio lib status (Some (rn_encoder_pool rn))
        (t, rn_encoder_pool rn, encoder_of_switch (sy_switch st) rn e))"
    if "map_find k (sw_remote_nodes (sy_switch st)) = Some (Some rn) \<and> sy_encoders st k = Some (t, e)" for k rn t e status
    by (rule encoder_round_never_fails [OF ok _ _ facts(4)]) (use that in auto)
  show "safe {Would_block} (\<lambda>_. True) (socket_write_round rn None
      (rn_socket_write_pool rn, sw_available_rx_buffer_pool (sy_switch st)))"
    if "map_find k (sw_remote_nodes (sy_switch st)) = Some (Some rn)" for k rn
    by (rule safe_mono [OF send_round_safe [OF sw that]]) auto
  show "safe {Would_block} (\<lambda>_. True) (socket_read_round g ms (sy_slots st, sy_received st, sy_switch st))"
    if "length ms \<le> length (sy_slots st) \<and> (\<forall>m \<in> set ms. length (snd m) \<le> cap)" for ms
    using ok by (intro safe_mono [OF socket_read_round_safe [OF sw _ _ conjunct2 [OF that] conjunct1 [OF that]]])
      (auto simp: system_ok_def)
  show "safe (if \<forall>pb \<in> set (pool (rn_decoder_pool rn)). dataSize pb + 7 \<le> cap
      then {Would_block, Diverges} else {Would_block, Diverges, Out_of_bounds}) (\<lambda>_. True)
      (decoder_handler_round lib None (rn_decoder_pool rn, decoder_of_switch (sy_switch st) d))"
    if "map_find k (sw_remote_nodes (sy_switch st)) = Some (Some rn) \<and> sy_decoders st k = Some d" for k rn d
    using ok that by (intro safe_mono [OF decode_round_safe [OF sw conjunct1 [OF that] _ facts(4) lib]])
      (auto simp: system_ok_def split: if_splits)
  show "safe {Would_block, Runtime_error ''Error writing TAP device''} (\<lambda>_. True)
      (tap_write_round g at None (sy_switch st))" for at
    by (rule safe_mono [OF tap_write_round_safe [OF sw facts(3)]]) auto
qed

theorem switch_stays_safe_witness:
  "\<exists>sw (s0 :: (unit, int) system). PacketSwitch sample_addr [] 3 1500 1500 1 sample_addr [sample_peer 1, sample_peer 2] 58023 = Inr sw \<and>
    system_start store_codec 0 sw = Inr s0 \<and> system_ok [] 1674 s0 \<and>
    safe {Would_block, Null_pointer} (\<lambda>_. True) (tap_read_round 5 (replicate 60 2) (sy_switch s0))"
proof -
  obtain sw and s :: "(unit, int) system" where
    s: "PacketSwitch sample_addr [] 3 1500 1500 1 sample_addr [sample_peer 1, sample_peer 2] 58023 = Inr sw"
    "nat (sw_buffer_size (sw_l2mtu sw)) = 1674" "system_start store_codec 0 sw = Inr s"
    by (rule sample_system)
  have cap: "1674 = nat (sw_buffer_size (sw_l2mtu sw))" using s(2) by simp
  have lib: "codec_bounded store_codec 1674" by (rule store_codec_bounded) simp
  have frame: "length (replicate 60 (2 :: u8)) \<le> 1674" by simp
  have some: "[sample_peer 1, sample_peer 2] \<noteq> []" by simp
  note safe = switch_stays_safe [OF s(1) some s(3) cap lib reachable.start, where g = "[]"]
  have "system_ok [] 1674 s" using safe by blast
  moreover have "safe (tap_read_failures (replicate 60 2)) (\<lambda>_. True) (tap_read_round 5 (replicate 60 2) (sy_switch s))"
    using safe frame by blast
  then have "safe {Would_block, Null_pointer} (\<lambda>_. True) (tap_read_round 5 (replicate 60 2) (sy_switch s))" by simp
  ultimately show ?thesis using s by blast
qed

text \<open>
  C20. No buffer is ever lost or made up: in every reachable state each of the two families has
  exactly the buffers that the constructor has made.
\<close>

theorem buffers_conserved:
  assumes new: "PacketSwitch garbage gk s mtu tx fmt src dsts port = Inr sw" and "dsts \<noteq> []"
    and start: "system_start lib garbage' sw = Inr s0"
    and cap: "cap = nat (sw_buffer_size (sw_l2mtu sw))" and lib: "codec_bounded lib cap"
    and run: "reachable ratio lib g cap s0 st"
  shows "rx_total st = 5000 * length dsts \<and> tx_total st = 5000 * length dsts \<and>
    nodes_conf (sw_remote_nodes (sy_switch st)) = nodes_conf (sw_remote_nodes sw)"
  using new_switch_runs(2,5,6,7) [OF assms] by (simp add: conserved_def SETH_BUFFER_COUNT_def)

theorem buffers_conserved_witness:
  "\<exists>sw (s0 :: (unit, int) system) st. PacketSwitch sample_addr [] 3 1500 1500 0 sample_addr [sample_peer 1] 58023 = Inr sw \<and>
    system_start store_codec 0 sw = Inr s0 \<and> st \<noteq> s0 \<and> rx_total st = 5000 \<and> tx_total st = 5000"
proof -
  obtain sw and s st :: "(unit, int) system" where
    s: "PacketSwitch sample_addr [] 3 1500 1500 0 sample_addr [sample_peer 1] 58023 = Inr sw"
    "nat (sw_buffer_size (sw_l2mtu sw)) = 1674" "system_start store_codec 0 sw = Inr s"
    "reachable (\<lambda>n size. n) store_codec [] 1674 s st" "st \<noteq> s"
    by (rule sample_sent)
  have cap: "1674 = nat (sw_buffer_size (sw_l2mtu sw))" using s(2) by simp
  have lib: "codec_bounded store_codec 1674" by (rule store_codec_bounded) simp
  have some: "[sample_peer 1] \<noteq> []" by simp
  from buffers_conserved [OF s(1) some s(3) cap lib s(4)] s show ?thesis by auto
qed



text \<open>
  C22. A frame for a group address from the device reaches every remote node: each has a copy of it
  at the end of its encoder pool, and nothing else of the node changes. With too few buffers for the
  copies the thread sleeps.
\<close>

theorem broadcast_reaches_everybody:
  assumes sw: "sw_ok g cap sw" and b: "buffer_ok cap b" and len: "12 \<le> length frame" "length frame \<le> cap"
    and src: "\<not> mac_is_group (slice 6 6 frame)" and dst: "mac_is_group (slice 0 6 frame)"
  shows "if length (sw_remote_nodes sw) - 1 \<le> length (pool (sw_available_rx_buffer_pool sw))
    then \<exists>b2 nodes avail. buffer_data b2 = frame \<and>
      tap_read_frame now frame b sw = Inr (Handled (sw\<lparr>sw_fdb := FDB_learn now (slice 6 6 frame) None (sw_fdb sw),
        sw_remote_nodes := nodes, sw_available_rx_buffer_pool := avail\<rparr>)) \<and>
      all_given cap b2 (sw_remote_nodes sw) nodes \<and>
      length (pool avail) = length (pool (sw_available_rx_buffer_pool sw)) - (length (sw_remote_nodes sw) - 1)
    else tap_read_frame now frame b sw = Inl Would_block"
proof -
  obtain b2 where b2: "buffer_ok cap b2" "buffer_data b2 = frame"
    "tap_read_frame now frame b sw = rbind (broadcast b2 (sw_remote_nodes sw) (sw_available_rx_buffer_pool sw))
      (\<lambda>(nodes, avail). Inr (Handled (sw\<lparr>sw_fdb := FDB_learn now (slice 6 6 frame) None (sw_fdb sw),
         sw_remote_nodes := nodes, sw_available_rx_buffer_pool := avail\<rparr>)))"
    using tap_read_cases [OF sw b len(2,1), of now] src dst by auto
  have "nodes_ok g cap (sw_remote_nodes sw)" "pool_ok cap (sw_available_rx_buffer_pool sw)"
    using sw by (simp_all add: sw_ok_def)
  note all = broadcast_all [OF nodes_ok_elem [OF this(1)] b2(1) this(2)]
  show ?thesis
  proof (cases "length (sw_remote_nodes sw) - 1 \<le> length (pool (sw_available_rx_buffer_pool sw))")
    case True
    then have "length (sw_remote_nodes sw) \<le> Suc (length (pool (sw_available_rx_buffer_pool sw)))" by simp
    with all obtain nodes avail where
      "broadcast b2 (sw_remote_nodes sw) (sw_available_rx_buffer_pool sw) = Inr (nodes, avail)"
      "all_given cap b2 (sw_remote_nodes sw) nodes"
      "length (pool avail) = length (pool (sw_available_rx_buffer_pool sw)) - (length (sw_remote_nodes sw) - 1)"
      by auto
    with b2 True show ?thesis
      unfolding if_P [OF True] by (intro exI [of _ b2] exI [of _ nodes] exI [of _ avail]) simp
  next
    case False
    then have "\<not> length (sw_remote_nodes sw) \<le> Suc (length (pool (sw_available_rx_buffer_pool sw)))" by simp
    with all have "broadcast b2 (sw_remote_nodes sw) (sw_available_rx_buffer_pool sw) = Inl Would_block" by simp
    with False b2(3) show ?thesis by simp
  qed
qed

theorem broadcast_reaches_everybody_witness:
  "\<exists>sw b2 nodes avail. sw_ok [] 1674 sw \<and> buffer_data b2 = replicate 6 255 @ replicate 54 2 \<and>
    tap_read_frame 5 (replicate 6 255 @ replicate 54 2) (sample_frame 1674 0) sw =
      Inr (Handled (sw\<lparr>sw_fdb := FDB_learn 5 (slice 6 6 (replicate 6 255 @ replicate 54 2)) None (sw_fdb sw),
        sw_remote_nodes := nodes, sw_available_rx_buffer_pool := avail\<rparr>)) \<and>
    all_given 1674 b2 (sw_remote_nodes sw) nodes \<and> length (pool avail) = 9999"
proof -
  obtain sw s where s: "sw_ok [] 1674 sw" "length (pool (sw_available_rx_buffer_pool sw)) = 10000"
    "sw_remote_nodes sw = [(replicate 16 1, Some (sample_node 1)), (replicate 16 2, Some (sample_node 2))]"
    by (rule sample_system)
  let ?f = "replicate 6 255 @ replicate 54 2 :: u8 list"
  have f: "12 \<le> length ?f" "length ?f \<le> 1674" by simp_all
  have m: "\<not> mac_is_group (slice 6 6 ?f)" "mac_is_group (slice 0 6 ?f)"
    by (simp_all add: mac_is_group_def slice_def eval_nat_numeral)
  have n: "length (sw_remote_nodes sw) - 1 \<le> length (pool (sw_available_rx_buffer_pool sw))"
    by (simp add: s(2,3))
  have b: "buffer_ok 1674 (sample_frame 1674 0)" by (rule sample_frame_ok) simp
  have l: "length (pool (sw_available_rx_buffer_pool sw)) - (length (sw_remote_nodes sw) - 1) = 9999"
    by (simp add: s(2,3))
  from broadcast_reaches_everybody [OF s(1) b f m, of 5] s(1) show ?thesis unfolding if_P [OF n] l by blast
qed

text \<open>
  C23. The switch learns where an address is: after a frame from a node has been written to the
  device, every frame from the device to its source address is handed to exactly that node, until
  the entry expires.
\<close>

theorem return_traffic:
  fixes lib :: "'s codec_lib" and ratio :: "int \<Rightarrow> u16 \<Rightarrow> 'f"
  assumes sw: "sw_ok g cap sw" and b: "buffer_ok cap b" and size: "12 \<le> dataSize b"
    and src: "src = slice 6 6 (buffer_data b)" "\<not> mac_is_group src" "FDB_get src (sw_fdb sw) = None"
    and k: "k = get_key_from_sockaddr g (packet_source b)" "map_find k (sw_remote_nodes sw) \<noteq> None"
    and cap: "cap < 65536" and lib: "codec_bounded lib cap"
  shows "\<exists>sw1. tap_write_frame g now True True b sw = Inr (Some (buffer_data b), sw1) \<and>
    FDB_get src (sw_fdb sw1) = Some (FDBEntry now src (Some k)) \<and>
    (\<forall>at bs outs sw2 st0 (st :: ('s, 'f) system) now' frame b'.
      tap_write_frames g at bs sw1 = Inr (outs, sw2) \<and> sw_fdb (sy_switch st0) = sw_fdb sw2 \<and> system_ok g cap st0 \<and>
      run_knowing ratio lib g cap src st0 st \<and>
      buffer_ok cap b' \<and> 12 \<le> length frame \<and> length frame \<le> cap \<and>
      slice 0 6 frame = src \<and> \<not> mac_is_group (slice 6 6 frame) \<longrightarrow>
      (\<exists>b2 n n' sw'. tap_read_frame now' frame b' (sy_switch st) = Inr (Handled sw') \<and>
        buffer_data b2 = frame \<and> map_find k (sw_remote_nodes (sy_switch st)) = Some n \<and> given cap b2 n n' \<and>
        (\<forall>j. map_find j (sw_remote_nodes sw') =
          (if j = k then Some n' else map_find j (sw_remote_nodes (sy_switch st))))))"
proof -
  have c12: "12 \<le> cap" using b size by (simp add: buffer_ok_def)
  have mac: "frame_src_mac b = Inr src"
    using Buffer_read_data [OF b, of 6 6] size by (simp add: frame_src_mac_def src(1))
  let ?sw = "sw\<lparr>sw_fdb := FDB_learn now src (Some k) (sw_fdb sw)\<rparr>"
  have out: "tap_write_frame g now True True b sw = Inr (Some (buffer_data b), ?sw)"
    using tap_write_frame_known [OF sw b c12 mac src(2), of now True True] k by (simp add: Let_def)
  have fdb: "fdb_ok (sw_fdb sw)" "fdb_ok (sw_fdb ?sw)"
    using sw sw_ok_learn [OF sw, of "Some k" now src] k(2) by (auto simp: sw_ok_def)
  have learned: "FDB_get src (sw_fdb ?sw) = Some (FDBEntry now src (Some k))"
    using FDB_get_learn [OF fdb(1), of src now src "Some k"] src(3) by simp
  have "\<exists>b2 n n' sw'. tap_read_frame now' frame b' (sy_switch st) = Inr (Handled sw') \<and>
      buffer_data b2 = frame \<and> map_find k (sw_remote_nodes (sy_switch st)) = Some n \<and> given cap b2 n n' \<and>
      (\<forall>j. map_find j (sw_remote_nodes sw') = (if j = k then Some n' else map_find j (sw_remote_nodes (sy_switch st))))"
    if rest: "tap_write_frames g at bs ?sw = Inr (outs, sw2)" "sw_fdb (sy_switch st0) = sw_fdb sw2"
      and st0: "system_ok g cap st0" and run: "run_knowing ratio lib g cap src st0 st"
      and f: "buffer_ok cap b'" "12 \<le> length frame" "length frame \<le> cap" "slice 0 6 frame = src"
        "\<not> mac_is_group (slice 6 6 frame)"
    for at bs outs sw2 st0 and st :: "('s, 'f) system" and now' frame b'
  proof -
    obtain e where e: "FDB_get src (sw_fdb (sy_switch st0)) = Some e" "fe_dest e = Some k"
      using tap_write_frames_dest [OF rest(1) fdb(2), of src] learned rest(2) by (auto simp: keeps_dest_def FDBEntry_def)
    have "sw_remote_nodes (sy_switch st0) \<noteq> []" using st0 e by (fastforce simp: system_ok_def sw_ok_def)
    from run_keeps_dest [OF run st0 c12 cap lib this e(1)] e(2) obtain e' where
      "system_ok g cap st" "FDB_get src (sw_fdb (sy_switch st)) = Some e'" "fe_dest e' = Some k" by auto
    moreover from this have "sw_ok g cap (sy_switch st)" by (simp add: system_ok_def)
    ultimately show ?thesis using tap_read_known [OF _ _ _ f(1-4) src(2) f(5), of g "sy_switch st" e' k now'] by blast
  qed
  with out learned show ?thesis by blast
qed

theorem return_traffic_witness:
  "\<exists>sw sw1 (st :: (unit, int) system) (st' :: (unit, int) system) b2 n' sw2.
    tap_write_frame [] 5 True True ((sample_frame 1674 60)\<lparr>packet_source := sample_peer 2\<rparr>) sw =
      Inr (Some (replicate 60 0), sw1) \<and>
    sw_fdb (sy_switch st) = sw_fdb sw1 \<and> system_step (\<lambda>n m. n) store_codec [] 1674 st st' \<and>
    sy_switch st' = fdb_round 300000000000 (sy_switch st) \<and>
    tap_read_frame 300000000006 (replicate 6 0 @ replicate 54 4) (sample_frame 1674 0) (sy_switch st') = Inr (Handled sw2) \<and>
    buffer_data b2 = replicate 6 0 @ replicate 54 4 \<and> given 1674 b2 (Some (sample_node 2)) n' \<and>
    map_find (replicate 16 2) (sw_remote_nodes sw2) = Some n' \<and>
    map_find (replicate 16 1) (sw_remote_nodes sw2) = Some (Some (sample_node 1))"
proof -
  obtain sw and s :: "(unit, int) system" where
    s: "PacketSwitch sample_addr [] 3 1500 1500 1 sample_addr [sample_peer 1, sample_peer 2] 58023 = Inr sw"
    "nat (sw_buffer_size (sw_l2mtu sw)) = 1674"
    "sw_remote_nodes sw = [(replicate 16 1, Some (sample_node 1)), (replicate 16 2, Some (sample_node 2))]"
    "sw_fdb sw = []" "system_start store_codec 0 sw = Inr s"
    by (rule sample_system)
  have lib: "codec_bounded store_codec 1674" by (rule store_codec_bounded) simp
  have oks: "system_ok [] 1674 s"
    by (rule new_switch_runs(1) [OF s(1) _ s(5) s(2) [symmetric] lib reachable.start]) simp
  have same: "sw_remote_nodes (sy_switch s) = sw_remote_nodes sw" "sw_fdb (sy_switch s) = []"
    using s(4,5) by (auto simp: system_start_def rbind_Inr_conv)
  let ?b = "(sample_frame 1674 60)\<lparr>packet_source := sample_peer 2\<rparr>"
  let ?m = "replicate 6 0 :: mac" and ?k = "replicate 16 2 :: node_key"
  have data: "buffer_data ?b = replicate 60 0"
    by (simp add: buffer_data_def sample_frame_def PacketBuffer_def Buffer_def buffer.defs)
  have b: "buffer_ok 1674 ?b" "12 \<le> dataSize ?b" "buffer_ok 1674 (sample_frame 1674 0)"
    using sample_frame_ok(1) [of 60 1674] sample_frame_ok(1) [of 0 1674]
    by (simp_all add: buffer_ok_def sample_frame_ok(2))
  have src: "?m = slice 6 6 (buffer_data ?b)" "\<not> mac_is_group ?m" "FDB_get ?m (sw_fdb (sy_switch s)) = None"
    by (simp_all add: data slice_def mac_is_group_def FDB_get_def same(2))
  have k: "?k = get_key_from_sockaddr [] (packet_source ?b)" "map_find ?k (sw_remote_nodes (sy_switch s)) \<noteq> None"
    "map_find ?k (sw_remote_nodes (sy_switch s)) = Some (Some (sample_node 2))"
    "map_find (replicate 16 1) (sw_remote_nodes (sy_switch s)) = Some (Some (sample_node 1))"
    by (simp_all add: same(1) s(3))
  let ?f = "replicate 6 0 @ replicate 54 4 :: u8 list"
  have f: "12 \<le> length ?f" "length ?f \<le> 1674" "slice 0 6 ?f = ?m" "\<not> mac_is_group (slice 6 6 ?f)"
    by (simp_all add: slice_def mac_is_group_def)
  let ?ratio = "\<lambda>n (m :: u16). n"
  have sw: "sw_ok [] 1674 (sy_switch s)" using oks by (simp add: system_ok_def)
  have small: "(1674 :: nat) < 65536" by simp
  obtain sw1 where sw1: "tap_write_frame [] 5 True True ?b (sy_switch s) = Inr (Some (buffer_data ?b), sw1)"
    "FDB_get ?m (sw_fdb sw1) = Some (FDBEntry 5 ?m (Some ?k))"
    and later: "\<forall>at bs outs sw2 st0 (st :: (unit, int) system) now' frame b'.
      tap_write_frames [] at bs sw1 = Inr (outs, sw2) \<and> sw_fdb (sy_switch st0) = sw_fdb sw2 \<and> system_ok [] 1674 st0 \<and>
      run_knowing ?ratio store_codec [] 1674 ?m st0 st \<and>
      buffer_ok 1674 b' \<and> 12 \<le> length frame \<and> length frame \<le> 1674 \<and>
      slice 0 6 frame = ?m \<and> \<not> mac_is_group (slice 6 6 frame) \<longrightarrow>
      (\<exists>b2 n n' sw'. tap_read_frame now' frame b' (sy_switch st) = Inr (Handled sw') \<and>
        buffer_data b2 = frame \<and> map_find ?k (sw_remote_nodes (sy_switch st)) = Some n \<and> given 1674 b2 n n' \<and>
        (\<forall>j. map_find j (sw_remote_nodes sw') =
          (if j = ?k then Some n' else map_find j (sw_remote_nodes (sy_switch st)))))"
    using return_traffic [OF sw b(1,2) src k(1,2) small lib, of 5 ?ratio] by (elim exE conjE)
  have mac: "frame_src_mac ?b = Inr ?m"
    using Buffer_read_data [OF b(1), of 6 6] b(2) src(1) by (simp only: frame_src_mac_def)
  have known: "map_find (get_key_from_sockaddr [] (packet_source ?b)) (sw_remote_nodes (sy_switch s)) \<noteq> None"
    by (rule k(2) [unfolded k(1)])
  have size: "12 \<le> (1674 :: nat)" by simp
  note written = tap_write_frame_known [OF sw b(1) size mac src(2) known, of 5 True True, folded k(1)]
  have sw1': "sw1 = (sy_switch s)\<lparr>sw_fdb := FDB_learn 5 ?m (Some ?k) (sw_fdb (sy_switch s))\<rparr>"
    using trans [OF sw1(1) [symmetric] written]
    by (simp only: Let_def if_False if_True not_True_eq_False sum.inject prod.inject)
  have "sw_ok [] 1674 sw1" unfolding sw1' by (rule sw_ok_learn [OF sw]) (use k(2) in simp)
  then have st: "system_ok [] 1674 (s\<lparr>sy_switch := sw1\<rparr>)" using oks by (simp add: system_ok_def sw1')
  let ?st = "s\<lparr>sy_switch := sw1\<rparr>" and ?st' = "s\<lparr>sy_switch := fdb_round 300000000000 sw1\<rparr>"
  have step: "system_step ?ratio store_codec [] 1674 ?st ?st'"
    using system_step.expire [of ?ratio store_codec "[]" 1674 ?st 300000000000] by simp
  have "fdb_ok (sw_fdb sw1)" using \<open>sw_ok [] 1674 sw1\<close> by (simp add: sw_ok_def)
  then have "FDB_get ?m (sw_fdb (sy_switch ?st')) = Some (FDBEntry 5 ?m (Some ?k))"
    using sw1(2) by (simp add: fdb_round_def FDB_get_expire entry_age_nonneg FDBEntry_def)
  with step have run: "run_knowing ?ratio store_codec [] 1674 ?m ?st ?st'" by (intro r_into_rtranclp) simp
  have none: "tap_write_frames [] (\<lambda>i. (0, True, True)) [] sw1 = Inr ([], sw1)" by simp
  have here: "sw_fdb (sy_switch ?st) = sw_fdb sw1" "sy_switch ?st' = fdb_round 300000000000 (sy_switch ?st)" by simp_all
  obtain b2 n n' sw2 where r: "tap_read_frame 300000000006 ?f (sample_frame 1674 0) (sy_switch ?st') = Inr (Handled sw2)"
    "buffer_data b2 = ?f" "map_find ?k (sw_remote_nodes (sy_switch ?st')) = Some n" "given 1674 b2 n n'"
    "\<forall>j. map_find j (sw_remote_nodes sw2) =
      (if j = ?k then Some n' else map_find j (sw_remote_nodes (sy_switch ?st')))"
    using later [rule_format, where now' = 300000000006, OF conjI, OF none conjI, OF here(1) conjI, OF st conjI, OF run conjI, OF b(3) conjI,
      OF f(1) conjI, OF f(2) conjI, OF f(3,4)] by (elim exE conjE)
  have nodes: "sw_remote_nodes (sy_switch ?st') = sw_remote_nodes (sy_switch s)" by (simp add: fdb_round_def sw1')
  have "n = Some (sample_node 2)" using r(3) k(3) unfolding nodes by simp
  moreover have "map_find ?k (sw_remote_nodes sw2) = Some n'" using r(5) by simp
  moreover have "replicate 16 (1 :: u8) \<noteq> ?k" by simp
  then have "map_find (replicate 16 1) (sw_remote_nodes sw2) = Some (Some (sample_node 1))"
    using r(5) k(4) unfolding nodes by metis
  ultimately show ?thesis
    using sw1(1) here step r(1,2,4) unfolding data
    by (intro exI [of _ "sy_switch s"] exI [of _ sw1] exI [of _ ?st] exI [of _ ?st'] exI [of _ b2] exI [of _ n'] exI [of _ sw2] conjI)
      simp_all
qed

text \<open>
  C24. What happens to a frame from the device that goes to no node: a group source or an unknown
  destination drops it and the thread reads into the same buffer again, a local destination is a
  null pointer.
\<close>

theorem frames_not_forwarded:
  assumes sw: "sw_ok g cap sw" and b: "buffer_ok cap b" and len: "12 \<le> length frame" "length frame \<le> cap"
  shows "\<exists>b2. buffer_ok cap b2 \<and> buffer_data b2 = frame \<and>
    (mac_is_group (slice 6 6 frame) \<longrightarrow> tap_read_frame now frame b sw = Inr (Restart b2 sw)) \<and>
    (\<not> mac_is_group (slice 6 6 frame) \<and> \<not> mac_is_group (slice 0 6 frame) \<longrightarrow>
      (case FDB_get (slice 0 6 frame) (sw_fdb sw) of
         None \<Rightarrow> tap_read_frame now frame b sw =
           (if slice 0 6 frame = slice 6 6 frame then Inl Null_pointer
            else Inr (Restart b2 (sw\<lparr>sw_fdb := FDB_learn now (slice 6 6 frame) None (sw_fdb sw)\<rparr>)))
       | Some e \<Rightarrow> FDBEntry_isLocal e \<longrightarrow> tap_read_frame now frame b sw = Inl Null_pointer))"
proof -
  let ?src = "slice 6 6 frame" and ?dst = "slice 0 6 frame"
  let ?fdb = "FDB_learn now ?src None (sw_fdb sw)"
  let ?sw = "sw\<lparr>sw_fdb := ?fdb\<rparr>"
  obtain b2 where b2: "buffer_ok cap b2" "buffer_data b2 = frame" and run: "tap_read_frame now frame b sw =
      (if mac_is_group ?src then Inr (Restart b2 sw)
       else if mac_is_group ?dst then
         rbind (broadcast b2 (sw_remote_nodes sw) (sw_available_rx_buffer_pool sw)) (\<lambda>(nodes, avail).
           Inr (Handled (?sw\<lparr>sw_remote_nodes := nodes, sw_available_rx_buffer_pool := avail\<rparr>)))
       else (case FDB_get ?dst (sw_fdb ?sw) of None \<Rightarrow> Inr (Restart b2 ?sw)
         | Some e \<Rightarrow> (case fe_dest e of None \<Rightarrow> Inl Null_pointer
           | Some k \<Rightarrow> rbind (push_to_encoder b2 (case map_find k (sw_remote_nodes sw) of
                            None \<Rightarrow> None | Some n \<Rightarrow> n)) (\<lambda>n.
                   Inr (Handled (?sw\<lparr>sw_remote_nodes := map_assign k n (sw_remote_nodes sw)\<rparr>))))))"
    using tap_read_cases [OF sw b len(2,1), of now] by blast
  have "fdb_ok (sw_fdb sw)" using sw by (simp add: sw_ok_def)
  from FDB_get_learn [OF this, of ?dst now ?src None]
  have "\<not> mac_is_group ?src \<and> \<not> mac_is_group ?dst \<longrightarrow>
      (case FDB_get ?dst (sw_fdb sw) of
         None \<Rightarrow> tap_read_frame now frame b sw =
           (if ?dst = ?src then Inl Null_pointer else Inr (Restart b2 ?sw))
       | Some e \<Rightarrow> FDBEntry_isLocal e \<longrightarrow> tap_read_frame now frame b sw = Inl Null_pointer)"
    unfolding run
    by (cases "?dst = ?src"; cases "FDB_get ?dst (sw_fdb sw)")
      (simp_all add: FDBEntry_def FDBEntry_isLocal_def)
  moreover have "mac_is_group ?src \<longrightarrow> tap_read_frame now frame b sw = Inr (Restart b2 sw)"
    unfolding run by simp
  ultimately show ?thesis using b2 by blast
qed

theorem frames_not_forwarded_witness:
  "\<exists>sw (b2 :: packet_buffer). sw_ok [] 1674 sw \<and> buffer_data b2 = replicate 60 2 \<and>
    tap_read_frame 5 (replicate 60 2) (sample_frame 1674 0) sw = Inl Null_pointer"
proof -
  obtain sw s where s: "sw_ok [] 1674 sw" "sw_fdb sw = []" by (rule sample_system)
  let ?f = "replicate 60 2 :: u8 list"
  have f: "12 \<le> length ?f" "length ?f \<le> 1674" by simp_all
  have m: "\<not> mac_is_group (slice 6 6 ?f)" "\<not> mac_is_group (slice 0 6 ?f)" "slice 0 6 ?f = slice 6 6 ?f"
    by (simp_all add: slice_def mac_is_group_def)
  have b: "buffer_ok 1674 (sample_frame 1674 0)" by (rule sample_frame_ok) simp
  have none: "FDB_get (slice 0 6 ?f) (sw_fdb sw) = None" by (simp add: s(2) FDB_get_def)
  obtain b2 where b2: "buffer_data b2 = ?f" "case FDB_get (slice 0 6 ?f) (sw_fdb sw) of
      None \<Rightarrow> tap_read_frame 5 ?f (sample_frame 1674 0) sw =
        (if slice 0 6 ?f = slice 6 6 ?f then Inl Null_pointer
         else Inr (Restart b2 (sw\<lparr>sw_fdb := FDB_learn 5 (slice 6 6 ?f) None (sw_fdb sw)\<rparr>)))
    | Some e \<Rightarrow> FDBEntry_isLocal e \<longrightarrow> tap_read_frame 5 ?f (sample_frame 1674 0) sw = Inl Null_pointer"
    using frames_not_forwarded [OF s(1) b f, of 5] m(1,2) by blast
  then have "tap_read_frame 5 ?f (sample_frame 1674 0) sw = Inl Null_pointer"
    by (simp only: none [unfolded m(3)] m(3) option.case simp_thms if_True)
  with s(1) b2(1) show ?thesis by blast
qed

text \<open>
  C25. Each datagram that passes the checks of the socket thread reaches the decoder pool of the
  node it came from, in the order of arrival, and nothing else does.
\<close>

theorem messages_reach_decoders:
  assumes sw: "sw_ok g cap sw" and slots: "\<forall>s \<in> set slots. buffer_ok cap s"
    and r: "received_ok g cap (sw_remote_nodes sw) r" "\<forall>(k, bs) \<in> set r. bs = []"
    and ms: "\<forall>m \<in> set ms. length (snd m) \<le> cap" "length ms \<le> length slots"
    and enough: "length ms \<le> length (pool (sw_available_tx_buffer_pool sw))"
  shows "\<exists>slots' r' sw'. socket_read_round g ms (slots, r, sw) = Inr (slots', r', sw') \<and>
    sw_ok g cap sw' \<and> length slots' = length slots \<and> (\<forall>(k, bs) \<in> set r'. bs = []) \<and> sw_fdb sw' = sw_fdb sw \<and>
    (\<forall>k. case map_find k (sw_remote_nodes sw) of
           None \<Rightarrow> map_find k (sw_remote_nodes sw') = None
         | Some n \<Rightarrow> \<exists>n' bs. map_find k (sw_remote_nodes sw') = Some n' \<and> fed bs n n' \<and>
             map buffer_data bs =
               map snd (filter (\<lambda>m. message_accepted g (sw_remote_nodes sw) m \<and> message_key g m = k) ms))"
proof -
  obtain slots' r' sw' where res: "socket_read_round g ms (slots, r, sw) = Inr (slots', r', sw')" "sw_ok g cap sw'"
    "length slots' = length slots" "\<forall>(k, bs) \<in> set r'. bs = []" "sw_fdb sw' = sw_fdb sw"
    "delivered g ms r (sw_remote_nodes sw) (sw_remote_nodes sw')"
    using socket_read_round_enough [OF sw slots r(1) ms enough] by blast
  have empty: "bucket k r = []" for k by (rule bucket_empty [OF r(2)])
  from res(6) have "\<forall>k. case map_find k (sw_remote_nodes sw) of
      None \<Rightarrow> map_find k (sw_remote_nodes sw') = None
    | Some n \<Rightarrow> \<exists>n' bs. map_find k (sw_remote_nodes sw') = Some n' \<and> fed bs n n' \<and>
        map buffer_data bs =
          map snd (filter (\<lambda>m. message_accepted g (sw_remote_nodes sw) m \<and> message_key g m = k) ms)"
    unfolding delivered_def accepted_from_def empty list.map append_Nil .
  with res(1-5) show ?thesis by blast
qed

theorem messages_reach_decoders_witness:
  "\<exists>sw slots' r' sw' rn bs. sw_ok [] 1674 sw \<and>
    socket_read_round [] [(sample_peer 2, [17, 0, 1, 0, 0, 0, 0, 1, 2, 0, 3, 0, 0, 3, 0, 0, 1, 2, 3]),
      (sample_peer 3, replicate 20 1), (sample_peer 1, [1, 2])] (replicate 3 (sample_frame 1674 0), [], sw) =
      Inr (slots', r', sw') \<and>
    map_find (replicate 16 2) (sw_remote_nodes sw') = Some rn \<and> fed bs (Some (sample_node 2)) rn \<and>
    map buffer_data bs = [[17, 0, 1, 0, 0, 0, 0, 1, 2, 0, 3, 0, 0, 3, 0, 0, 1, 2, 3]]"
proof -
  obtain sw s where s: "sw_ok [] 1674 sw" "length (pool (sw_available_rx_buffer_pool sw)) = 10000"
    "sw_remote_nodes sw = [(replicate 16 1, Some (sample_node 1)), (replicate 16 2, Some (sample_node 2))]"
    "PacketSwitch sample_addr [] 3 1500 1500 1 sample_addr [sample_peer 1, sample_peer 2] 58023 = Inr sw"
    by (rule sample_system)
  let ?m = "[17, 0, 1, 0, 0, 0, 0, 1, 2, 0, 3, 0, 0, 3, 0, 0, 1, 2, 3] :: u8 list"
  let ?ms = "[(sample_peer 2, ?m), (sample_peer 3, replicate 20 1), (sample_peer 1, [1, 2])]"
  let ?slots = "replicate 3 (sample_frame 1674 0)"
  have tx: "length (pool (sw_available_tx_buffer_pool sw)) = 10000"
    using s(2,4) by (auto simp: PacketSwitch_def Let_def rbind_Inr_conv)
  have slots: "\<forall>s \<in> set ?slots. buffer_ok 1674 s" by (simp add: sample_frame_ok)
  have r: "received_ok [] 1674 (sw_remote_nodes sw) []" "\<forall>(k, bs) \<in> set ([] :: received). bs = []"
    by (simp_all add: received_ok_def)
  have ms: "\<forall>m \<in> set ?ms. length (snd m) \<le> 1674" "length ?ms \<le> length ?slots"
    "length ?ms \<le> length (pool (sw_available_tx_buffer_pool sw))"
    by (simp_all add: tx)
  have keys: "replicate 16 (2 :: u8) \<noteq> replicate 16 1" "replicate 16 (3 :: u8) \<noteq> replicate 16 1"
    "replicate 16 (3 :: u8) \<noteq> replicate 16 2" by simp_all
  have none: "map_find (replicate 16 3) (sw_remote_nodes sw) = None" by (simp add: s(3))
  have k2: "map_find (replicate 16 2) (sw_remote_nodes sw) = Some (Some (sample_node 2))"
    by (simp add: s(3))
  have acc: "message_accepted [] (sw_remote_nodes sw) (sample_peer 2, ?m)"
    by (simp add: message_accepted_def message_key_def k2 packet_header_bad_def PacketHeader_at_def
        SETH_PACKET_HEADER_VERSION_V1_def)
      (simp add: sample_peer_def)
  have filter: "filter (\<lambda>m. message_accepted [] (sw_remote_nodes sw) m \<and> message_key [] m = replicate 16 2) ?ms =
      [(sample_peer 2, ?m)]"
    using acc keys by (simp add: message_key_def)
  obtain slots' r' sw' where res: "socket_read_round [] ?ms (?slots, [], sw) = Inr (slots', r', sw')"
    "\<forall>k. case map_find k (sw_remote_nodes sw) of
           None \<Rightarrow> map_find k (sw_remote_nodes sw') = None
         | Some n \<Rightarrow> \<exists>n' bs. map_find k (sw_remote_nodes sw') = Some n' \<and> fed bs n n' \<and>
             map buffer_data bs =
               map snd (filter (\<lambda>m. message_accepted [] (sw_remote_nodes sw) m \<and> message_key [] m = k) ?ms)"
    using messages_reach_decoders [OF s(1) slots r ms] by blast
  obtain rn bs where "map_find (replicate 16 2) (sw_remote_nodes sw') = Some rn"
    "fed bs (Some (sample_node 2)) rn" "map buffer_data bs = [?m]"
    using spec [OF res(2), of "replicate 16 2"] unfolding k2 option.case filter by auto
  with s(1) res(1) show ?thesis by (intro exI conjI)
qed

text \<open>
  C26. The forwarding database keeps the first destination: a later frame with the same source from
  elsewhere only refreshes the entry.
\<close>

theorem fdb_first_destination:
  assumes "fdb_ok fdb" and "FDB_get m fdb = None"
  shows "FDB_get m (fold (\<lambda>(now, mac, dest). FDB_learn now mac dest) frames fdb) =
    (case filter (\<lambda>(_, mac, _). mac = m) frames of
       [] \<Rightarrow> None
     | (now, _, dest) # later \<Rightarrow>
         Some \<lparr>fe_key = m, fe_dest = dest, fe_last_seen = last (now # map fst later)\<rparr>)"
  using FDB_get_learns [OF assms(1) refl, of m frames] assms(2)
  by (simp add: FDBEntry_def split: list.split prod.split)

theorem fdb_first_destination_witness:
  "FDB_get [0, 0, 0, 0, 0, 1] (fold (\<lambda>(now, mac, dest). FDB_learn now mac dest)
     [(5, [0, 0, 0, 0, 0, 1], Some [7]), (6, [0, 0, 0, 0, 0, 2], None), (9, [0, 0, 0, 0, 0, 1], Some [8])] []) =
   Some \<lparr>fe_key = [0, 0, 0, 0, 0, 1], fe_dest = Some [7], fe_last_seen = 9\<rparr>"
proof -
  have "FDB_get [0, 0, 0, 0, 0, 1] [] = None" by (simp add: FDB_get_def)
  from fdb_first_destination [OF fdb_ok_Nil this, of "[(5, [0, 0, 0, 0, 0, 1], Some [7]),
      (6, [0, 0, 0, 0, 0, 2], None), (9, [0, 0, 0, 0, 0, 1], Some [8])]"]
  show ?thesis by simp
qed

text \<open>
  C27. An entry of the forwarding database outlives less than 301 seconds of silence, and only an
  entry that has expired can change its destination.
\<close>

theorem fdb_expiry:
  assumes sw: "sw_ok g cap sw" and e: "FDB_get m (sw_fdb sw) = Some e" and "fe_last_seen e \<le> now"
  shows "FDB_get m (sw_fdb (fdb_round now sw)) = (if now - fe_last_seen e < 301 * 10 ^ 9 then Some e else None) \<and>
    FDB_get m (FDB_learn now' m dest (sw_fdb (fdb_round now sw))) =
      Some \<lparr>fe_key = m, fe_dest = (if now - fe_last_seen e < 301 * 10 ^ 9 then fe_dest e else dest),
            fe_last_seen = now'\<rparr>"
proof -
  let ?fdb = "sw_fdb (fdb_round now sw)"
  have ok: "fdb_ok (sw_fdb sw)" "fdb_ok ?fdb"
    using sw by (simp_all add: sw_ok_def fdb_round_def fdb_ok_expire)
  have key: "fe_key e = m" using ok(1) e by (simp add: fdb_ok_def FDB_get_def)
  have age: "entry_age now e \<le> 300 \<longleftrightarrow> now - fe_last_seen e < 301 * 10 ^ 9"
    unfolding entry_age_nonneg [OF assms(3)]
    by (simp add: int_div_le_iff)
  have "FDB_get m ?fdb = (if entry_age now e \<le> 300 then Some e else None)"
    using FDB_get_expire [OF ok(1), of m now 300 e] FDB_get_expire [OF ok(1), of m now 300] e
    by (cases "FDB_get m ?fdb") (simp_all add: fdb_round_def)
  then have get: "FDB_get m ?fdb = (if now - fe_last_seen e < 301 * 10 ^ 9 then Some e else None)"
    unfolding age .
  with FDB_get_learn [OF ok(2), of m now' m dest] key show ?thesis
    by (cases e) (simp add: FDBEntry_def)
qed

theorem fdb_expiry_witness:
  "\<exists>sw. sw_ok [] 1674 sw \<and> FDB_get (replicate 6 2) (sw_fdb sw) = Some (FDBEntry 0 (replicate 6 2) None) \<and>
    FDB_get (replicate 6 2) (sw_fdb (fdb_round 300999999999 sw)) = Some (FDBEntry 0 (replicate 6 2) None) \<and>
    FDB_get (replicate 6 2) (sw_fdb (fdb_round 301000000000 sw)) = None"
proof -
  obtain sw s where s: "sw_ok [] 1674 sw" "sw_fdb sw = []" by (rule sample_system)
  let ?sw = "sw\<lparr>sw_fdb := FDB_learn 0 (replicate 6 2) None (sw_fdb sw)\<rparr>"
  have ok: "sw_ok [] 1674 ?sw" by (rule sw_ok_learn [OF s(1)]) simp
  have e: "FDB_get (replicate 6 2) (sw_fdb ?sw) = Some (FDBEntry 0 (replicate 6 2) None)"
    by (simp add: s(2) FDB_learn_def FDB_get_def FDB_add_def Let_def)
  have t: "fe_last_seen (FDBEntry 0 (replicate 6 2) None) \<le> 300999999999"
    "fe_last_seen (FDBEntry 0 (replicate 6 2) None) \<le> 301000000000" by (simp_all add: FDBEntry_def)
  have "FDB_get (replicate 6 2) (sw_fdb (fdb_round 300999999999 ?sw)) = Some (FDBEntry 0 (replicate 6 2) None)"
    using fdb_expiry [OF ok e t(1)] by (simp add: FDBEntry_def)
  moreover have "FDB_get (replicate 6 2) (sw_fdb (fdb_round 301000000000 ?sw)) = None"
    using fdb_expiry [OF ok e t(2)] by (simp add: FDBEntry_def)
  ultimately show ?thesis using ok e by blast
qed

text \<open>
  C28. Frames that the encoder does not send: too long ones are dropped and their buffer is given
  back; a negative result of the compressor, such as every error code of ZSTD, is an exception.
\<close>

theorem encoder_refuses:
  assumes raw: "buffer_ok cap raw" and cap: "cap < 65536"
    and avail: "buffer_size (enc_available_buffer_pool e) = cap"
  shows "(unat (enc_l2mtu e) < dataSize raw \<longrightarrow>
      encoder_encode ratio lib raw e = Inr (e\<lparr>enc_available_buffer_pool :=
        (enc_available_buffer_pool e)\<lparr>pool := pool (enc_available_buffer_pool e) @ [raw]\<rparr>\<rparr>)) \<and>
    (dataSize raw \<le> unat (enc_l2mtu e) \<and> enc_packet_format e \<noteq> PacketHeaderOptionFormatType_value FORMAT_NONE \<and>
      enc_compressor e = Some sc \<and> enc_comp_buffer e = Some cbuf \<and> buffer_ok cap cbuf \<longrightarrow>
      (sc_compress lib (buffer_data raw) cap sc = (n, out, sc') \<and> n < 0 \<and> - (2 ^ 31) \<le> n \<longrightarrow>
        encoder_encode ratio lib raw e = Inl Out_of_range) \<and>
      (sc_algorithm sc = ZSTD \<and> 0 < code \<and> code \<le> 2 ^ 31 \<and>
        ZSTD_compressCCtx lib (sc_cstream sc) (int cap) (buffer_data raw) (compression_level sc) =
          (- of_nat code, written, s') \<longrightarrow>
        encoder_encode ratio lib raw e = Inl Out_of_range))"
proof -
  have size: "dataSize raw < 65536" using raw cap by (simp add: buffer_ok_def)
  then have big: "(of_nat (dataSize raw) :: u16) > enc_l2mtu e \<longleftrightarrow> unat (enc_l2mtu e) < dataSize raw"
    by (simp add: word_less_nat_alt)
  have push: "BufferPool_push raw (enc_available_buffer_pool e) =
      Inr ((enc_available_buffer_pool e)\<lparr>pool := pool (enc_available_buffer_pool e) @ [raw]\<rparr>)"
    using raw avail by (intro BufferPool_push_ok [of _ cap]) simp_all
  have negative: "encoder_encode ratio lib raw e = Inl Out_of_range"
    if h: "dataSize raw \<le> unat (enc_l2mtu e)" "enc_packet_format e \<noteq> PacketHeaderOptionFormatType_value FORMAT_NONE"
      "enc_compressor e = Some sc" "enc_comp_buffer e = Some cbuf" "buffer_ok cap cbuf"
      "sc_compress lib (buffer_data raw) cap sc = (n, out, sc')" "n < 0" "- (2 ^ 31) \<le> n" for n out sc'
  proof -
    have read: "Buffer_read 0 (dataSize raw) raw = Inr (buffer_data raw)"
      using Buffer_read_data [OF raw, of 0 "dataSize raw"] by (simp add: slice_def length_buffer_data [OF raw])
    have out: "length out \<le> cap" by (rule length_sc_compress [OF h(6)])
    have bsize: "Buffer_getBufferSize cbuf = cap" using h(5) by (simp add: Buffer_getBufferSize_def buffer_ok_def)
    have "cap < size_of_int n" using size_of_int_negative [OF h(7,8)] cap by simp
    with out h(5) have set: "Buffer_write 0 out cbuf = Inr (cbuf\<lparr>content := overwrite 0 out (content cbuf)\<rparr>)"
      "Buffer_setDataSize (size_of_int n) (cbuf\<lparr>content := overwrite 0 out (content cbuf)\<rparr>) = Inl Out_of_range"
      by (simp_all add: Buffer_write_def Buffer_setDataSize_def buffer_ok_def)
    have "encoder_compress ratio lib raw e = Inl Out_of_range"
      using h(2-4,6,7) size by (simp add: encoder_compress_def Let_def Buffer_getDataSize_def read bsize set)
    then show ?thesis
      using h(1) big by (simp add: encoder_encode_def Let_def Buffer_getDataSize_def)
  qed
  have zstd: "sc_compress lib (buffer_data raw) cap sc = (- int code, take cap written, sc\<lparr>sc_cstream := s'\<rparr>)"
    if "sc_algorithm sc = ZSTD" "0 < code" "code \<le> 2 ^ 31"
      "ZSTD_compressCCtx lib (sc_cstream sc) (int cap) (buffer_data raw) (compression_level sc) =
        (- of_nat code, written, s')"
    using that cap int_of_u64_error [of code] by (simp add: sc_compress_def)
  have long: "encoder_encode ratio lib raw e = Inr (e\<lparr>enc_available_buffer_pool :=
      (enc_available_buffer_pool e)\<lparr>pool := pool (enc_available_buffer_pool e) @ [raw]\<rparr>\<rparr>)"
    if "unat (enc_l2mtu e) < dataSize raw"
    using that push big by (simp add: encoder_encode_def Let_def Buffer_getDataSize_def)
  show ?thesis
  proof (intro conjI impI; (elim conjE)?)
    assume h: "dataSize raw \<le> unat (enc_l2mtu e)" "enc_packet_format e \<noteq> PacketHeaderOptionFormatType_value FORMAT_NONE"
      "enc_compressor e = Some sc" "enc_comp_buffer e = Some cbuf" "buffer_ok cap cbuf"
      and z: "sc_algorithm sc = ZSTD" "0 < code" "code \<le> 2 ^ 31"
        "ZSTD_compressCCtx lib (sc_cstream sc) (int cap) (buffer_data raw) (compression_level sc) =
          (- of_nat code, written, s')"
    then show "encoder_encode ratio lib raw e = Inl Out_of_range"
      by (intro negative [OF h zstd [OF z]]) simp_all
  qed (fact long, rule negative)
qed

theorem encoder_refuses_witness:
  "(\<exists>e0 e1 :: (unit, int) encoder. PacketEncoder 200 104 (BufferPool 220) (sample_pool 220 12) = Inr e0 \<and>
    encoder_encode (\<lambda>n m. n) store_codec (sample_frame 220 210) e0 = Inr e1 \<and>
    pool (enc_available_buffer_pool e1) = pool (enc_available_buffer_pool e0) @ [sample_frame 220 210]) \<and>
   (\<exists>e :: (unit, int) encoder.
    rbind (PacketEncoder 200 104 (BufferPool 220) (sample_pool 220 12)) (encoder_setPacketFormat refusing_codec 2) = Inr e \<and>
    encoder_encode (\<lambda>n m. n) refusing_codec (sample_frame 220 60) e = Inl Out_of_range)"
proof
  obtain e0 :: "(unit, int) encoder" where e0: "PacketEncoder 200 104 (BufferPool 220) (sample_pool 220 12) = Inr e0"
    "enc_l2mtu e0 = 200" "buffer_size (enc_available_buffer_pool e0) = 220"
    by (rule sample_encoder)
  have raw: "buffer_ok 220 (sample_frame 220 210)" "unat (enc_l2mtu e0) < dataSize (sample_frame 220 210)"
    by (simp_all add: sample_frame_ok e0(2))
  from encoder_refuses [OF raw(1) _ e0(3), of "\<lambda>n m. n" store_codec] raw(2) e0(1)
  show "\<exists>e0 e1 :: (unit, int) encoder. PacketEncoder 200 104 (BufferPool 220) (sample_pool 220 12) = Inr e0 \<and>
    encoder_encode (\<lambda>n m. n) store_codec (sample_frame 220 210) e0 = Inr e1 \<and>
    pool (enc_available_buffer_pool e1) = pool (enc_available_buffer_pool e0) @ [sample_frame 220 210]" by auto
next
  obtain e :: "(unit, int) encoder" and cbuf where
    e: "rbind (PacketEncoder 200 104 (BufferPool 220) (sample_pool 220 12)) (encoder_setPacketFormat refusing_codec 2) = Inr e"
      "enc_l2mtu e = 200" "buffer_size (enc_available_buffer_pool e) = 220" "enc_packet_format e = 2"
      "enc_compressor e = Some sample_zstd" "enc_comp_buffer e = Some cbuf" "buffer_ok 220 cbuf"
    by (rule sample_refusing_encoder)
  have raw: "buffer_ok 220 (sample_frame 220 60)" "dataSize (sample_frame 220 60) = 60"
    by (simp_all add: sample_frame_ok)
  have "sc_algorithm sample_zstd = ZSTD" by (simp add: sample_zstd_def)
  moreover have "ZSTD_compressCCtx refusing_codec (sc_cstream sample_zstd) (int 220) (buffer_data (sample_frame 220 60))
      (compression_level sample_zstd) = (- of_nat 70, [], ())"
    by (simp add: refusing_codec_def)
  ultimately have "encoder_encode (\<lambda>n m. n) refusing_codec (sample_frame 220 60) e = Inl Out_of_range"
    using encoder_refuses [OF raw(1) _ e(3), of "\<lambda>n m. n" refusing_codec sample_zstd cbuf _ _ _ 70 "[]" "()"]
      raw(2) e(2,4-7) by simp
  with e(1) show "\<exists>e :: (unit, int) encoder.
    rbind (PacketEncoder 200 104 (BufferPool 220) (sample_pool 220 12)) (encoder_setPacketFormat refusing_codec 2) = Inr e \<and>
    encoder_encode (\<lambda>n m. n) refusing_codec (sample_frame 220 60) e = Inl Out_of_range" by blast
qed

section \<open>The program\<close>



text \<open>
  C30. A program that returns has configured the device and the socket as the settings say, started
  all threads and then brought the interface up; nothing else is asked of the operating system.
\<close>

theorem startup_requests:
  assumes run: "superethd strerror un os env lg args w = (Inr code, w')"
  shows "\<exists>a so fd ctl sock ctl' ans. configure env lg args = Inr a \<and> code = 0 \<and>
    PacketSwitch (un_addr un) (un_key un) sock (cfg_mtu (start_settings a)) (cfg_txsize (start_settings a))
      (PacketHeaderOptionFormatType_value (cfg_packet_format (start_settings a))) (start_src_addr a)
      (start_dst_addrs a) (cfg_tunnel_port (start_settings a)) = Inr (so_switch so) \<and>
    requests (w_trace w') = requests (w_trace w) @ [Sys_signal] @
      device_requests (cfg_ifname (start_settings a)) (cfg_mtu (start_settings a)) (start_src_addr a) fd ctl sock @
      start_requests so @ up_requests (cfg_ifname (start_settings a)) ctl' (ans_ifreq ans) @
      map Join_thread (all_threads so) \<and>
    (Sys_ioctl ctl' SIOCGIFFLAGS (ifr_name_field (cfg_ifname (start_settings a)) @ replicate 24 0), ans)
      \<in> set (w_trace w')"
  by (rule superethd_returns [OF run]) blast

theorem startup_requests_witness:
  "\<exists>w' fd ctl sock qs. superethd (\<lambda>e. []) sample_uninitialised sample_os sample_environment (Logger False None)
      [(CHR ''d'', ''peer'')] sample_world = (Inr 0, w') \<and>
    requests (w_trace w') = Sys_signal # device_requests ''seth0'' 1500
      (Sockaddr_in6 0xA7E2 0 (replicate 15 0 @ [2]) 0) fd ctl sock @ qs"
proof -
  obtain w' where w': "superethd (\<lambda>e. []) sample_uninitialised sample_os sample_environment (Logger False None)
      [(CHR ''d'', ''peer'')] sample_world = (Inr 0, w')" using sample_startup by blast
  have "requests (w_trace sample_world) = []" by (simp add: sample_world_def)
  with startup_requests [OF w'] have "\<exists>fd ctl sock qs. requests (w_trace w') = Sys_signal # device_requests ''seth0'' 1500
      (Sockaddr_in6 0xA7E2 0 (replicate 15 0 @ [2]) 0) fd ctl sock @ qs"
    unfolding sample_start_configuration by auto
  with w' show ?thesis by blast
qed

text \<open>
  C31. A program that does not get through its start leaves the interface down; one that ends with
  an exit code has started nothing and closed what it opened.
\<close>

theorem startup_failures:
  assumes run: "superethd strerror un os env lg args w = (Inl e, w')" and fd: "no_descriptor_0 os"
  shows "\<exists>t. w_trace w' = t @ w_trace w \<and> list_all not_up t \<and>
    (e = Terminates \<or> started t = [] \<and> open_fds (w_trace w') = open_fds (w_trace w))"
proof (cases "configure env lg args")
  case (Inl x)
  then have "w' = w" using run by (simp add: superethd_def)
  then have "w_trace w' = [] @ w_trace w \<and> list_all not_up [] \<and>
      (e = Terminates \<or> started [] = [] \<and> open_fds (w_trace w') = open_fds (w_trace w))" by simp
  then show ?thesis by (rule exI)
next
  case (Inr a)
  let ?c = "start_settings a"
  have name: "length (cfg_ifname ?c) \<le> 16" using configured_name [OF Inr] by simp
  have start: "start_seth strerror un os (cfg_ifname ?c) (cfg_mtu ?c) (cfg_txsize ?c)
      (PacketHeaderOptionFormatType_value (cfg_packet_format ?c)) (start_src_addr a) (start_dst_addrs a)
      (cfg_tunnel_port ?c) w = (Inl e, w')"
    using run Inr by (auto simp: superethd_def Let_def split: prod.splits sum.splits)
  from start_seth_failure [OF name fd this] show ?thesis by blast
qed

theorem startup_failures_witness:
  "\<exists>what w'. superethd (\<lambda>e. []) sample_uninitialised sample_os ipv4_environment (Logger False None)
      [(CHR ''d'', ''peer''), (CHR ''s'', ''192.0.2.1'')] sample_world = (Inl (Exit 1 what), w') \<and>
    (\<exists>t. w_trace w' = t \<and> list_all not_up t \<and> started t = [] \<and> open_fds t = {#})"
proof -
  obtain what w' where w': "superethd (\<lambda>e. []) sample_uninitialised sample_os ipv4_environment (Logger False None)
      [(CHR ''d'', ''peer''), (CHR ''s'', ''192.0.2.1'')] sample_world = (Inl (Exit 1 what), w')"
    using sample_ipv4_startup by blast
  from startup_failures [OF w' sample_os_laws(1)] w' show ?thesis by (auto simp: sample_world_def)
qed

text \<open>
  C32. Every thread is started once, before the interface is up, and joined once.
\<close>

theorem threads_once:
  assumes run: "superethd strerror un os env lg args w = (Inr code, w')" and new: "w_trace w = []"
  shows "joined (w_trace w') = started (w_trace w') \<and> distinct (started (w_trace w')) \<and>
    (\<exists>a. configure env lg args = Inr a \<and> set (started (w_trace w')) = {Switch_thread k |k. True} \<union>
       {Node_thread (get_key_from_sockaddr (un_key un) d) k |d k. d \<in> set (start_dst_addrs a)}) \<and>
    (\<exists>pre post fd ifr. requests (w_trace w') = pre @ Sys_ioctl fd SIOCSIFFLAGS ifr # post \<and>
       (\<forall>i. Start_thread i \<notin> set post \<and> Join_thread i \<notin> set pre))"
proof -
  have "requests (w_trace w) = []" by (simp add: new)
  obtain a so fd ctl sock ctl' ifr where cfg: "configure env lg args = Inr a" and
    new_switch: "PacketSwitch (un_addr un) (un_key un) sock (cfg_mtu (start_settings a)) (cfg_txsize (start_settings a))
      (PacketHeaderOptionFormatType_value (cfg_packet_format (start_settings a))) (start_src_addr a)
      (start_dst_addrs a) (cfg_tunnel_port (start_settings a)) = Inr (so_switch so)" and
    reqs: "requests (w_trace w') = requests (w_trace w) @ [Sys_signal] @
      device_requests (cfg_ifname (start_settings a)) (cfg_mtu (start_settings a)) (start_src_addr a) fd ctl sock @
      start_requests so @ up_requests (cfg_ifname (start_settings a)) ctl' ifr @
      map Join_thread (all_threads so)"
    by (rule superethd_returns [OF run]) blast
  note threads = threads_of_run [OF reqs [unfolded \<open>requests (w_trace w) = []\<close> append_Nil]]
  have "joined (w_trace w') = started (w_trace w') \<and> distinct (started (w_trace w'))"
    unfolding threads(1,2) using all_threads_distinct [OF new_switch] by simp
  moreover have "set (started (w_trace w')) = {Switch_thread k |k. True} \<union>
       {Node_thread (get_key_from_sockaddr (un_key un) d) k |d k. d \<in> set (start_dst_addrs a)}"
    unfolding threads(1) by (rule all_threads_set [OF new_switch])
  ultimately show ?thesis using cfg threads(3) by blast
qed

theorem threads_once_witness:
  "\<exists>w'. superethd (\<lambda>e. []) sample_uninitialised sample_os sample_environment (Logger False None)
      [(CHR ''d'', ''peer'')] sample_world = (Inr 0, w') \<and>
    joined (w_trace w') = started (w_trace w') \<and> Switch_thread Socket_read \<in> set (started (w_trace w'))"
proof -
  obtain w' where w': "superethd (\<lambda>e. []) sample_uninitialised sample_os sample_environment (Logger False None)
      [(CHR ''d'', ''peer'')] sample_world = (Inr 0, w')" using sample_startup by blast
  have "w_trace sample_world = []" by (simp add: sample_world_def)
  from threads_once [OF w' this] w' show ?thesis by auto
qed

text \<open>
  C33. With an IPv4 source address, which the configuration accepts, the program always ends with
  exit code 1: the address is not converted for the IPv6 socket. The system is assumed not to give
  out the descriptor 0, with which the destructor would leave the device open.
\<close>

theorem ipv4_source_refused:
  assumes cfg: "configure env lg args = Inr a"
    and source: "env_pton6 env (cfg_tunnel_src (start_settings a)) = None"
    and os: "refuses_ipv4 os" "no_descriptor_0 os"
  shows "\<exists>what w' t. superethd strerror un os env lg args w = (Inl (Exit 1 what), w') \<and>
    w_trace w' = t @ w_trace w \<and> started t = [] \<and> open_fds (w_trace w') = open_fds (w_trace w)"
proof -
  let ?c = "start_settings a"
  have name: "length (cfg_ifname ?c) \<le> 16" using configured_name [OF cfg] by simp
  obtain p ad where src: "start_src_addr a = Sockaddr_in p ad" using configured_source [OF cfg source] by blast
  obtain what w' where start: "start_seth strerror un os (cfg_ifname ?c) (cfg_mtu ?c) (cfg_txsize ?c)
      (PacketHeaderOptionFormatType_value (cfg_packet_format ?c)) (Sockaddr_in p ad) (start_dst_addrs a)
      (cfg_tunnel_port ?c) w = (Inl (Exit 1 what), w')"
    using start_seth_ipv4 [OF name os(1)] by blast
  then have "superethd strerror un os env lg args w = (Inl (Exit 1 what), w')"
    by (simp add: superethd_def cfg src Let_def)
  with start_seth_failure [OF name os(2) start] show ?thesis by blast
qed

theorem ipv4_source_refused_witness:
  "\<exists>what w'. superethd (\<lambda>e. []) sample_uninitialised sample_os ipv4_environment (Logger False None)
      [(CHR ''d'', ''peer''), (CHR ''s'', ''192.0.2.1'')] sample_world = (Inl (Exit 1 what), w')"
  using ipv4_source_refused [OF sample_ipv4_configuration _ sample_os_laws(2,1),
      of "\<lambda>e. []" sample_uninitialised sample_world]
  by (auto simp: ipv4_environment_def)

text \<open>
  C34. Settings that the program starts with are within their limits; the switch accepts them
  exactly when the transmit size does not exceed the MTU.
\<close>

theorem settings_checked:
  assumes "configure env lg args = Inr a"
  shows "1200 \<le> cfg_mtu (start_settings a) \<and> cfg_mtu (start_settings a) \<le> 9218 \<and>
    1200 \<le> cfg_txsize (start_settings a) \<and> cfg_txsize (start_settings a) \<le> 9218 \<and>
    1 \<le> cfg_tunnel_port (start_settings a) \<and> cfg_tunnel_port (start_settings a) \<le> 65535 \<and>
    length (cfg_ifname (start_settings a)) < 16 \<and> start_dst_addrs a \<noteq> [] \<and>
    distinct (cfg_tunnel_dst (start_settings a)) \<and>
    list_all (\<lambda>d. sockaddr_port d = Some (cpu_to_be_16 (word_of_int (cfg_tunnel_port (start_settings a)))))
      (start_src_addr a # start_dst_addrs a) \<and>
    ((\<exists>sw. PacketSwitch g gk s (cfg_mtu (start_settings a)) (cfg_txsize (start_settings a))
        (PacketHeaderOptionFormatType_value (cfg_packet_format (start_settings a))) (start_src_addr a)
        (start_dst_addrs a) (cfg_tunnel_port (start_settings a)) = Inr sw) \<longleftrightarrow>
      cfg_txsize (start_settings a) \<le> cfg_mtu (start_settings a))"
proof -
  obtain cmdline conffile lg' where
    1: "resolve_settings cmdline conffile lg = Inr (start_settings a, lg')" and
    2: "sockaddr_port (start_src_addr a) = Some (cpu_to_be_16 (word_of_int (cfg_tunnel_port (start_settings a))))"
      "length (start_dst_addrs a) = length (cfg_tunnel_dst (start_settings a))"
      "\<forall>d \<in> set (start_dst_addrs a).
        sockaddr_port d = Some (cpu_to_be_16 (word_of_int (cfg_tunnel_port (start_settings a))))"
    using configure_ok [OF assms] by metis
  note ok = resolve_settings_ok [OF 1]
  have "start_dst_addrs a \<noteq> []" using 2(2) ok(8) by auto
  moreover have "(\<exists>sw. PacketSwitch g gk s (cfg_mtu (start_settings a)) (cfg_txsize (start_settings a))
        (PacketHeaderOptionFormatType_value (cfg_packet_format (start_settings a))) (start_src_addr a)
        (start_dst_addrs a) (cfg_tunnel_port (start_settings a)) = Inr sw) \<longleftrightarrow>
      cfg_txsize (start_settings a) \<le> cfg_mtu (start_settings a)"
    using ok(1-4) by (simp add: PacketSwitch_def rbind_Inr_conv Let_def PacketSwitch_check_iff)
  ultimately show ?thesis using ok(1-9) 2(1,3) by (simp add: list_all_iff)
qed

theorem settings_checked_witness:
  "\<exists>a. configure sample_environment (Logger False None) [(CHR ''d'', ''b,a b''), (CHR ''m'', ''1400'')] = Inr a \<and>
    cfg_mtu (start_settings a) = 1400 \<and> cfg_txsize (start_settings a) = 1500 \<and>
    cfg_tunnel_dst (start_settings a) = [''a'', ''b''] \<and>
    \<not> (\<exists>sw. PacketSwitch sample_addr [] 3 1400 1500 1 (start_src_addr a) (start_dst_addrs a) 58023 = Inr sw)"
proof -
  obtain a where a: "configure sample_environment (Logger False None) [(CHR ''d'', ''b,a b''), (CHR ''m'', ''1400'')] = Inr a"
    "cfg_mtu (start_settings a) = 1400" "cfg_txsize (start_settings a) = 1500"
    "cfg_tunnel_dst (start_settings a) = [''a'', ''b'']" "cfg_tunnel_port (start_settings a) = 58023"
    "cfg_packet_format (start_settings a) = COMPRESSED_LZ4"
    by (rule sample_configuration)
  have "\<not> (\<exists>sw. PacketSwitch sample_addr [] 3 1400 1500 1 (start_src_addr a) (start_dst_addrs a) 58023 = Inr sw)"
    using settings_checked [OF a(1), of sample_addr "[]" 3] a(2-6) by simp
  with a(1-4) show ?thesis by blast
qed

section \<open>Buffers and statistics\<close>

text \<open>
  C35. A buffer pool is a queue: it gives the buffers back in the order in which they were pushed,
  and takes only buffers of its size.
\<close>

theorem pool_fifo:
  fixes bs :: "'a buffer_scheme list"
  assumes "\<forall>b \<in> set bs. Buffer_getBufferSize b = n"
  shows "\<exists>q r. rfold BufferPool_push bs (BufferPool n) = Inr q \<and> BufferPool_getBufferCount q = length bs \<and>
    (\<forall>b. Buffer_getBufferSize b \<noteq> n \<longrightarrow> BufferPool_push b q = Inl Invalid_argument) \<and>
    pop_many BufferPool_pop_wait (length bs) q = Inr (bs, r) \<and> BufferPool_pop_wait r = Inl Would_block"
proof -
  let ?p = "BufferPool n :: 'a buffer_pool"
  have fits: "\<forall>b \<in> set bs. Buffer_getBufferSize b = buffer_size ?p" using assms by simp
  obtain q where q: "rfold BufferPool_push bs ?p = Inr q \<and> pool q = pool ?p @ bs \<and>
    (\<lambda>b :: 'a buffer_scheme. Buffer_getBufferSize b = buffer_size q) = (\<lambda>b. Buffer_getBufferSize b = buffer_size ?p)"
    using bpw.push_all [OF fits] by blast
  then have all: "pool q = bs @ []" by simp
  obtain r where r: "pop_many BufferPool_pop_wait (length bs) q = Inr (bs, r)" "pool r = []"
    using bpw.pop_all [OF all] by blast
  have "buffer_size q = n" if "Buffer_getBufferSize b = buffer_size q" for b :: "'a buffer_scheme"
    using fun_cong [OF conjunct2 [OF conjunct2 [OF q]], of b] that by simp
  then have "\<forall>b. Buffer_getBufferSize b \<noteq> n \<longrightarrow> BufferPool_push b q = Inl Invalid_argument"
    using bpw.push_misfit [of _ q] by metis
  moreover have "BufferPool_getBufferCount q = length bs" "BufferPool_pop_wait r = Inl Would_block"
    using all r(2) by (simp_all add: BufferPool_getBufferCount_def BufferPool_pop_wait_simps)
  ultimately show ?thesis using q r(1) by (intro exI [of _ q] exI [of _ r] conjI) simp_all
qed

theorem pool_fifo_witness:
  "\<exists>q r. rfold BufferPool_push [sample_frame 64 1, sample_frame 64 2] (BufferPool 64) = Inr q \<and>
    BufferPool_getBufferCount q = 2 \<and> BufferPool_push (sample_frame 65 1) q = Inl Invalid_argument \<and>
    pop_many BufferPool_pop_wait 2 q = Inr ([sample_frame 64 1, sample_frame 64 2], r) \<and>
    BufferPool_pop_wait r = Inl Would_block"
proof -
  have size: "Buffer_getBufferSize (sample_frame n k) = n" for n k
    by (simp add: sample_frame_def PacketBuffer_def Buffer_def buffer.defs Buffer_getBufferSize_def)
  have fit: "\<forall>b \<in> set [sample_frame 64 1, sample_frame 64 2]. Buffer_getBufferSize b = 64"
    by (simp add: size)
  have misfit: "Buffer_getBufferSize (sample_frame 65 1) \<noteq> 64" by (simp add: size)
  from pool_fifo [OF fit] misfit show ?thesis by (auto simp: numeral_2_eq_2)
qed

text \<open>
  C36. A statistic is a window on the last values: whatever is added, it holds the last of them and
  reports their least and greatest.
\<close>

theorem statistic_window:
  fixes vs :: "'f :: {linorder, comm_monoid_add} list"
  assumes "0 < n" and "vs \<noteq> []"
  shows "\<exists>st. rfold Statistic_add vs (Statistic n) = Inr st \<and>
    stat_values st = drop (length vs - n) vs \<and> length (stat_values st) \<le> n \<and>
    sr_min (Statistic_getStatisticResult divide_by st) = Min (set (drop (length vs - n) vs)) \<and>
    sr_max (Statistic_getStatisticResult divide_by st) = Max (set (drop (length vs - n) vs))"
proof -
  have new: "stat_values (Statistic n :: 'f statistic) = []" "stat_maxSize (Statistic n :: 'f statistic) = n"
    by (simp_all add: Statistic_def)
  obtain st where st: "rfold Statistic_add vs (Statistic n) = Inr st" "statistic_ok st"
    "stat_maxSize st = n" "stat_values st = drop (length vs - n) vs"
    using Statistic_add_all [OF statistic_ok_new [OF assms(1)], of vs] by (auto simp: new last_n_def)
  have "length vs - n < length vs" using assms by (intro diff_less) auto
  then have "drop (length vs - n) vs \<noteq> []" by simp
  with st show ?thesis
    by (simp add: statistic_ok_def Statistic_getStatisticResult_def Statistic_min_def Statistic_max_def)
qed

theorem statistic_window_witness:
  "\<exists>st. rfold Statistic_add [9, 3, 5, 4 :: int] (Statistic 3) = Inr st \<and> stat_values st = [3, 5, 4] \<and>
    sr_min (Statistic_getStatisticResult (\<lambda>s n. s div int n) st) = 3 \<and>
    sr_max (Statistic_getStatisticResult (\<lambda>s n. s div int n) st) = 5"
proof -
  have "(0 :: nat) < 3" "[9, 3, 5, 4 :: int] \<noteq> []" by simp_all
  from statistic_window [OF this, of "\<lambda>s n. s div int n"] show ?thesis by (auto simp: numeral_eq_Suc)
qed

section \<open>Packets of the network\<close>

text \<open>
  C37. The IPv4 header that is written verifies: its checksum, computed again over the bytes on the
  wire, is 0.
\<close>

theorem ipv4_header_checksum:
  assumes "ipv4_ok p" and "ethernet_ok p"
  shows "length (IPv4Packet_asBinary n p) = 34 \<and>
    take 14 (IPv4Packet_asBinary n p) = EthernetPacket_asBinary p \<and>
    compute_checksum (drop 14 (IPv4Packet_asBinary n p)) = 0"
  using assms ethernet_bytes [OF assms(2)] ipv4_checksum_verifies [OF assms(1), of n]
  by (simp add: length_ipv4_packet) (simp add: IPv4Packet_asBinary_def IPPacket_asBinary_def)

theorem ipv4_header_checksum_witness:
  "compute_checksum (drop 14 (IPv4Packet_asBinary 20 (IPv4Packet undefined :: ipv4_packet))) = 0"
proof -
  let ?p = "IPv4Packet undefined :: ipv4_packet"
  have "ipv4_ok ?p" "ethernet_ok ?p"
    by (simp_all add: ipv4_ok_def ethernet_ok_def IPv4Packet_def IPv4Packet_init_def IPPacket_init_def
        IPPacket_setVersion_def EthernetPacket_setEthertype_def EthernetPacket_init_def
        SETH_PACKET_IPV4_IP_LEN_def SETH_PACKET_ETHERNET_MAC_LEN_def)
  from ipv4_header_checksum [OF this, of 20] show ?thesis by simp
qed

text \<open>
  C38. UDP and TCP packets verify over both versions of IP: the checksum over the pseudo-header and
  the bytes on the wire behind the IP header, computed again, is 0.
\<close>

theorem transport_checksums:
  assumes "ipv4_ok (udp_base u4)" "ethernet_ok (udp_base u4)" "ipv4_ok (tcp_base t4)" "ethernet_ok (tcp_base t4)"
    and "ipv6_ok (udp_base u6)" "ethernet_ok (udp_base u6)" "ipv6_ok (tcp_base t6)" "ethernet_ok (tcp_base t6)"
  shows "compute_checksum_finalize (compute_checksum_partial (drop 34 (UDPPacket_asBinary ipv4_layer3 u4))
      (l3_getPseudoChecksum ipv4_layer3 (UDPPacket_getLayer4Size ipv4_layer3 u4) (udp_base u4))) = 0 \<and>
    compute_checksum_finalize (compute_checksum_partial (drop 34 (TCPPacket_asBinary ipv4_layer3 t4))
      (l3_getPseudoChecksum ipv4_layer3 (TCPPacket_getLayer4Size ipv4_layer3 t4) (tcp_base t4))) = 0 \<and>
    compute_checksum_finalize (compute_checksum_partial (drop 54 (UDPPacket_asBinary ipv6_layer3 u6))
      (l3_getPseudoChecksum ipv6_layer3 (UDPPacket_getLayer4Size ipv6_layer3 u6) (udp_base u6))) = 0 \<and>
    compute_checksum_finalize (compute_checksum_partial (drop 54 (TCPPacket_asBinary ipv6_layer3 t6))
      (l3_getPseudoChecksum ipv6_layer3 (TCPPacket_getLayer4Size ipv6_layer3 t6) (tcp_base t6))) = 0"
  using assms by (intro conjI ip4.udp_wire ip4.tcp_wire ip6.udp_wire ip6.tcp_wire)

theorem transport_checksums_witness:
  "compute_checksum_finalize (compute_checksum_partial
      (drop 34 (UDPPacket_asBinary ipv4_layer3 (UDPPacket ipv4_layer3 undefined)))
      (l3_getPseudoChecksum ipv4_layer3 (UDPPacket_getLayer4Size ipv4_layer3 (UDPPacket ipv4_layer3 undefined))
        (udp_base (UDPPacket ipv4_layer3 undefined)))) = 0"
  using transport_checksums [of "UDPPacket ipv4_layer3 undefined" "TCPPacket ipv4_layer3 undefined"
      "UDPPacket ipv6_layer3 undefined" "TCPPacket ipv6_layer3 undefined", OF sample_transport_ok(1-8)]
  by blast

text \<open>
  C39. The checksum routines against RFC 1071: equal for an even number of bytes; an odd last byte
  is added in the low half of a word instead of the high half.
\<close>

theorem checksum_rfc1071:
  assumes "length bs \<le> 131070"
  shows "unat (compute_checksum bs) = 65535 - ones_sum (be_sum bs) \<and>
    (even (length bs) \<longrightarrow> unat (compute_checksum bs) = rfc1071 bs) \<and>
    (even (length bs) \<and> length bs < 131070 \<longrightarrow>
      unat (compute_checksum (bs @ [b])) = 65535 - ones_sum (be_sum bs + unat b) \<and>
      rfc1071 (bs @ [b]) = 65535 - ones_sum (be_sum bs + 256 * unat b)) \<and>
    unat (compute_checksum [1]) \<noteq> rfc1071 [1]"
proof -
  have sum: "unat (compute_checksum cs) = 65535 - ones_sum (be_sum cs)" if "length cs \<le> 131070" for cs
    using be_sum_small [OF that] by (simp add: compute_checksum_def unat_finalize unat_compute_checksum_partial)
  from sum [of "[1]"] have "unat (compute_checksum [1]) \<noteq> rfc1071 [1]"
    by (simp add: rfc1071_def ones_sum_small)
  moreover have "unat (compute_checksum (bs @ [b])) = 65535 - ones_sum (be_sum bs + unat b)"
    "rfc1071 (bs @ [b]) = 65535 - ones_sum (be_sum bs + 256 * unat b)" if "even (length bs)" "length bs < 131070"
    using that sum [of "bs @ [b]"] by (simp_all add: be_sum_append rfc1071_def)
  ultimately show ?thesis using sum [OF assms] by (auto simp: rfc1071_def)
qed

theorem checksum_rfc1071_witness:
  "unat (compute_checksum [0x45, 0, 0, 0x54]) = rfc1071 [0x45, 0, 0, 0x54] \<and> rfc1071 [0x45, 0, 0, 0x54] = 47787"
proof -
  have "length [0x45 :: u8, 0, 0, 0x54] \<le> 131070" by simp
  from checksum_rfc1071 [OF this] show ?thesis by (simp add: rfc1071_def ones_sum_small)
qed

text \<open>
  C40. The IPv4 identification and fragment offset are swapped twice on their way to the wire and
  end up in host order: the low byte comes first.
\<close>

theorem ipv4_id_bytes:
  assumes "ethernet_ok p"
  shows "IPv4Packet_getId (IPv4Packet_setId x p) = x \<and> IPv4Packet_getFragOff (IPv4Packet_setFragOff y p) = y \<and>
    take 4 (drop 18 (IPv4Packet_asBinary n (IPv4Packet_setFragOff y (IPv4Packet_setId x p)))) =
      [ucast x, ucast (drop_bit 8 x), ucast y, ucast (drop_bit 8 y)]"
proof -
  let ?p = "IPv4Packet_setFragOff y (IPv4Packet_setId x p)"
  have "ethernet_ok ?p"
    using assms by (simp add: ethernet_ok_def IPv4Packet_setFragOff_def IPv4Packet_setId_def)
  from ethernet_bytes [OF this] show ?thesis
    by (simp add: IPv4Packet_asBinary_def IPPacket_asBinary_def IPv4Packet_header_def ipv4_header_bytes_def
        IPv4Packet_getId_def IPv4Packet_setId_def IPv4Packet_getFragOff_def IPv4Packet_setFragOff_def
        cpu_to_be_16_def be_to_cpu_16_def store16_def)
qed

theorem ipv4_id_bytes_witness:
  "take 4 (drop 18 (IPv4Packet_asBinary 20
     (IPv4Packet_setFragOff 0 (IPv4Packet_setId 0x1234 (IPv4Packet undefined :: ipv4_packet))))) = [0x34, 0x12, 0, 0]"
proof -
  have "ethernet_ok (IPv4Packet undefined :: ipv4_packet)" by (rule sample_packet_fields)
  from ipv4_id_bytes [OF this, of "0x1234" 0 20] show ?thesis by simp
qed

end
